(* ===== verification/Prelude.thy ===== *)
theory Prelude
  imports
    Main
    "HOL-Library.Word"
    "HOL-Library.AList"
    "HOL-Library.List_Lexorder"
    "HOL-Library.Char_ord"
begin

text \<open>
  What every component shares: the fact collections that carry the proofs, the sum-typed
  results that model a JavaScript \<open>throw\<close>, Node's big-endian integer reads and writes over
  byte buffers, and the JavaScript \<open>Map\<close> as an association list in insertion order.
\<close>

section \<open>Fact collections\<close>

named_theorems be_simps "big-endian buffer reads and writes"
named_theorems reads_intros "a reader consumes exactly these bytes"
named_theorems db_frame "what a statement leaves unchanged in the database"
named_theorems inv_intros "an operation keeps the invariant"

section \<open>Results that may be thrown errors\<close>

definition bindE :: "'e + 'a \<Rightarrow> ('a \<Rightarrow> 'e + 'b) \<Rightarrow> 'e + 'b" where
  "bindE m f = (case m of Inl e \<Rightarrow> Inl e | Inr x \<Rightarrow> f x)"

lemma bindE_simps [simp]: "bindE (Inl e) f = Inl e" "bindE (Inr x) f = f x"
  by (simp_all add: bindE_def)

lemma bindE_eq_Inr: "bindE m f = Inr y \<longleftrightarrow> (\<exists>x. m = Inr x \<and> f x = Inr y)"
  by (cases m) auto

lemma bindE_eq_Inl: "bindE m f = Inl e \<longleftrightarrow> m = Inl e \<or> (\<exists>x. m = Inr x \<and> f x = Inl e)"
  by (cases m) auto

lemma bindE_assoc: "bindE (bindE m f) g = bindE m (\<lambda>x. bindE (f x) g)"
  by (cases m) auto

text \<open>\<open>mapM\<close> in the sum: the first error of a left-to-right loop ends it.\<close>

fun mapE :: "('a \<Rightarrow> 'e + 'b) \<Rightarrow> 'a list \<Rightarrow> 'e + 'b list" where
  "mapE f [] = Inr []"
| "mapE f (x # xs) = bindE (f x) (\<lambda>y. bindE (mapE f xs) (\<lambda>ys. Inr (y # ys)))"

lemma mapE_all_Inr: "(\<And>x. x \<in> set xs \<Longrightarrow> f x = Inr (g x)) \<Longrightarrow> mapE f xs = Inr (map g xs)"
  by (induction xs) auto

lemma mapE_length: "mapE f xs = Inr ys \<Longrightarrow> length ys = length xs"
  by (induction xs arbitrary: ys) (auto simp: bindE_eq_Inr)

lemma mapE_some_Inl: "x \<in> set xs \<Longrightarrow> f x = Inl e \<Longrightarrow> \<exists>e'. mapE f xs = Inl e'"
proof (induction xs)
  case Nil
  then show ?case by simp
next
  case (Cons y ys)
  show ?case
  proof (cases "f y")
    case (Inl e')
    then show ?thesis by simp
  next
    case (Inr z)
    then have "x \<in> set ys" using Cons.prems by auto
    then obtain e' where "mapE f ys = Inl e'" using Cons by blast
    with Inr show ?thesis by simp
  qed
qed

section \<open>Stateful operations that may throw\<close>

text \<open>
  An operation on a state returns its result or the error thrown, and the state reached in either
  case: a JavaScript \<open>throw\<close> keeps the effects that were made before it.
\<close>

type_synonym ('s, 'e, 'a) op = "'s \<Rightarrow> ('e + 'a) \<times> 's"

definition op_return :: "'a \<Rightarrow> ('s, 'e, 'a) op" where
  "op_return x s = (Inr x, s)"

definition op_throw :: "'e \<Rightarrow> ('s, 'e, 'a) op" where
  "op_throw e s = (Inl e, s)"

definition op_bind :: "('s, 'e, 'a) op \<Rightarrow> ('a \<Rightarrow> ('s, 'e, 'b) op) \<Rightarrow> ('s, 'e, 'b) op" where
  "op_bind m f s = (case m s of (Inl e, t) \<Rightarrow> (Inl e, t) | (Inr x, t) \<Rightarrow> f x t)"

definition op_gets :: "('s \<Rightarrow> 'a) \<Rightarrow> ('s, 'e, 'a) op" where
  "op_gets f s = (Inr (f s), s)"

lemma op_simps [simp]:
  "op_return x s = (Inr x, s)" "op_throw e s = (Inl e, s)" "op_gets f s = (Inr (f s), s)"
  by (simp_all add: op_return_def op_throw_def op_gets_def)

lemma op_bind_Inr: "op_bind m f s = (Inr y, u) \<longleftrightarrow> (\<exists>x t. m s = (Inr x, t) \<and> f x t = (Inr y, u))"
  by (auto simp: op_bind_def split: prod.splits sum.splits)

lemma op_bind_Inl:
  "op_bind m f s = (Inl e, u) \<longleftrightarrow> m s = (Inl e, u) \<or> (\<exists>x t. m s = (Inr x, t) \<and> f x t = (Inl e, u))"
  by (auto simp: op_bind_def split: prod.splits sum.splits)

lemma op_bind_step [simp]:
  "m s = (Inr x, t) \<Longrightarrow> op_bind m f s = f x t" "m s = (Inl e, t) \<Longrightarrow> op_bind m f s = (Inl e, t)"
  by (simp_all add: op_bind_def)

section \<open>Systems and their invariants\<close>

text \<open>
  A component that runs as a state machine: an invariant that holds initially and is kept by
  every step, and a relation on pairs of states (what never gets lost) that every step respects.
\<close>

locale step_system =
  fixes init :: "'s \<Rightarrow> bool"
    and step :: "'s \<Rightarrow> 's \<Rightarrow> bool"
    and inv :: "'s \<Rightarrow> bool"
    and keeps :: "'s \<Rightarrow> 's \<Rightarrow> bool"
  assumes init_inv: "init s \<Longrightarrow> inv s"
    and step_inv: "inv s \<Longrightarrow> step s t \<Longrightarrow> inv t"
    and keeps_refl: "keeps s s"
    and keeps_trans: "keeps s t \<Longrightarrow> keeps t u \<Longrightarrow> keeps s u"
    and step_keeps: "inv s \<Longrightarrow> step s t \<Longrightarrow> keeps s t"
begin

lemma runs_inv: "step\<^sup>*\<^sup>* s t \<Longrightarrow> inv s \<Longrightarrow> inv t"
  by (induction rule: rtranclp_induct) (auto intro: step_inv)

lemma reachable_inv: "init s \<Longrightarrow> step\<^sup>*\<^sup>* s t \<Longrightarrow> inv t"
  using init_inv runs_inv by blast

lemma runs_keeps: "step\<^sup>*\<^sup>* s t \<Longrightarrow> inv s \<Longrightarrow> keeps s t"
proof (induction rule: rtranclp_induct)
  case base
  show ?case by (rule keeps_refl)
next
  case (step t u)
  then show ?case using runs_inv step_keeps keeps_trans by blast
qed

end

section \<open>Byte buffers\<close>

type_synonym byte = "8 word"
type_synonym bytes = "byte list"

text \<open>\<open>buf.readUInt8/16BE/32BE/BigUInt64BE\<close> all read a big-endian number.\<close>

definition be_nat :: "bytes \<Rightarrow> nat" where
  "be_nat bs = foldl (\<lambda>acc b. acc * 256 + unat b) 0 bs"

text \<open>\<open>buf.writeUInt8/16BE/32BE/BigUInt64BE\<close> write the low \<open>n\<close> bytes, most significant first.\<close>

fun be_bytes :: "nat \<Rightarrow> nat \<Rightarrow> bytes" where
  "be_bytes 0 x = []"
| "be_bytes (Suc n) x = be_bytes n (x div 256) @ [word_of_nat x]"

text \<open>Two's complement reading of an unsigned value of \<open>w\<close> bits (\<open>readInt16BE\<close>, \<open>readInt32BE\<close>).\<close>

definition to_signed :: "nat \<Rightarrow> nat \<Rightarrow> int" where
  "to_signed w n = (if n < 2 ^ (w - 1) then int n else int n - 2 ^ w)"

definition of_signed :: "nat \<Rightarrow> int \<Rightarrow> nat" where
  "of_signed w i = nat (i mod 2 ^ w)"

lemma be_nat_snoc [be_simps]: "be_nat (bs @ [b]) = be_nat bs * 256 + unat b"
  by (simp add: be_nat_def)

lemma be_nat_Nil [simp]: "be_nat [] = 0"
  by (simp add: be_nat_def)

lemma length_be_bytes [simp]: "length (be_bytes n x) = n"
  by (induction n arbitrary: x) auto

lemma unat_word8_of_nat: "unat (word_of_nat x :: byte) = x mod 256"
  by (simp add: unat_of_nat)

lemma be_nat_be_bytes [be_simps]: "be_nat (be_bytes n x) = x mod 256 ^ n"
proof (induction n arbitrary: x)
  case 0
  then show ?case by simp
next
  case (Suc n)
  have "be_nat (be_bytes (Suc n) x) = (x div 256 mod 256 ^ n) * 256 + x mod 256"
    by (simp add: be_nat_snoc Suc unat_word8_of_nat)
  also have "\<dots> = x mod (256 * 256 ^ n)"
    by (simp add: mod_mult2_eq mult.commute)
  finally show ?case by simp
qed

lemma be_nat_bound: "be_nat bs < 256 ^ length bs"
proof (induction bs rule: rev_induct)
  case Nil
  then show ?case by simp
next
  case (snoc b bs)
  have "unat b < 256" using unsigned_less [of b] by simp
  with snoc have "be_nat bs * 256 + unat b < (be_nat bs + 1) * 256" by simp
  also have "\<dots> \<le> 256 ^ length bs * 256" using snoc by (intro mult_le_mono) auto
  finally show ?case by (simp add: be_nat_snoc mult.commute)
qed

lemma be_bytes_be_nat [be_simps]: "be_bytes (length bs) (be_nat bs) = bs"
proof (induction bs rule: rev_induct)
  case Nil
  then show ?case by simp
next
  case (snoc b bs)
  have "unat b < 256" using unsigned_less [of b] by simp
  then have "(be_nat bs * 256 + unat b) div 256 = be_nat bs" by simp
  moreover have "(word_of_nat (be_nat bs * 256 + unat b) :: byte) = b"
    using \<open>unat b < 256\<close> by (simp only: word_unat_eq_iff unat_word8_of_nat) simp
  ultimately show ?case using snoc by (simp add: be_nat_snoc)
qed

lemma to_signed_of_signed:
  "0 < w \<Longrightarrow> - (2 ^ (w - 1)) \<le> i \<Longrightarrow> i < 2 ^ (w - 1) \<Longrightarrow> to_signed w (of_signed w i) = i"
proof -
  assume w: "0 < w" and lo: "- (2 ^ (w - 1)) \<le> i" and hi: "i < 2 ^ (w - 1)"
  have p: "(2::int) ^ w = 2 * 2 ^ (w - 1)" using w by (metis power_minus_mult mult.commute)
  show ?thesis
  proof (cases "0 \<le> i")
    case True
    then have "i mod 2 ^ w = i" using hi p by (intro mod_pos_pos_trivial) auto
    then show ?thesis using True hi
      by (simp add: to_signed_def of_signed_def nat_less_iff)
  next
    case False
    have "i mod 2 ^ w = (i + 2 ^ w) mod 2 ^ w" by simp
    also have "\<dots> = i + 2 ^ w" using False lo hi p by (intro mod_pos_pos_trivial) auto
    finally have m: "i mod 2 ^ w = i + 2 ^ w" .
    have k: "of_signed w i = nat (i + 2 ^ w)" by (simp only: of_signed_def m)
    have "\<not> nat (i + 2 ^ w) < 2 ^ (w - 1)" using lo p by (simp add: nat_less_iff)
    moreover have "int (nat (i + 2 ^ w)) = i + 2 ^ w"
    proof -
      have "(0::int) \<le> 2 ^ (w - 1)" by simp
      then have "0 \<le> i + 2 ^ w" using lo p by linarith
      then show ?thesis by simp
    qed
    ultimately show ?thesis by (simp only: to_signed_def k if_False add_diff_cancel_right')
  qed
qed

lemma of_signed_bound: "of_signed w i < 2 ^ w"
  by (simp add: of_signed_def nat_less_iff)

section \<open>JavaScript maps\<close>

text \<open>
  A JavaScript \<open>Map\<close> iterates in insertion order and \<open>set\<close> on a present key keeps its place:
  this is \<open>AList.update\<close> on an association list, and \<open>map_of\<close> is \<open>get\<close>.
\<close>

type_synonym ('k, 'v) jsmap = "('k \<times> 'v) list"

definition js_set :: "'k \<Rightarrow> 'v \<Rightarrow> ('k, 'v) jsmap \<Rightarrow> ('k, 'v) jsmap" where
  "js_set k v m = AList.update k v m"

fun js_set_all :: "('k \<times> 'v) list \<Rightarrow> ('k, 'v) jsmap \<Rightarrow> ('k, 'v) jsmap" where
  "js_set_all [] m = m"
| "js_set_all (e # es) m = js_set_all es (js_set (fst e) (snd e) m)"

lemma js_get_set: "map_of (js_set k v m) = (map_of m)(k \<mapsto> v)"
  by (simp add: js_set_def update_conv')

lemma js_set_keys: "fst ` set (js_set k v m) = insert k (fst ` set m)"
  by (simp add: js_set_def dom_update)

lemma js_set_distinct: "distinct (map fst m) \<Longrightarrow> distinct (map fst (js_set k v m))"
  by (simp add: js_set_def distinct_update)

lemma js_set_entries: "set (js_set k v m) \<subseteq> insert (k, v) (set m)"
  by (induction m) (auto simp: js_set_def)

lemma js_set_append: "k \<notin> fst ` set m \<Longrightarrow> js_set k v m = m @ [(k, v)]"
  by (induction m) (auto simp: js_set_def)

lemma js_set_all_append: "js_set_all (xs @ ys) m = js_set_all ys (js_set_all xs m)"
  by (induction xs arbitrary: m) auto

lemma js_set_all_fresh:
  "distinct (map fst es) \<Longrightarrow> fst ` set es \<inter> fst ` set m = {} \<Longrightarrow> js_set_all es m = m @ es"
proof (induction es arbitrary: m)
  case Nil
  then show ?case by simp
next
  case (Cons e es)
  then have "js_set (fst e) (snd e) m = m @ [e]" by (simp add: js_set_append)
  moreover have "js_set_all es (m @ [e]) = (m @ [e]) @ es" using Cons by (intro Cons.IH) auto
  ultimately show ?case by simp
qed

lemma js_set_all_distinct: "distinct (map fst m) \<Longrightarrow> distinct (map fst (js_set_all es m))"
  by (induction es arbitrary: m) (auto simp: js_set_distinct)

section \<open>Lists\<close>

lemma filter_id_unique:
  "distinct (map f xs) \<Longrightarrow> x \<in> set xs \<Longrightarrow> filter (\<lambda>y. f y = f x) xs = [x]"
proof (induction xs)
  case Nil
  then show ?case by simp
next
  case (Cons z zs)
  show ?case
  proof (cases "z = x")
    case True
    then have "filter (\<lambda>y. f y = f x) zs = []"
      using Cons.prems(1) by (auto simp: filter_empty_conv) (metis image_eqI)
    with True show ?thesis by simp
  next
    case False
    then have "f z \<noteq> f x" using Cons.prems by auto
    with False Cons show ?thesis by auto
  qed
qed

text \<open>A column update: \<open>UPDATE ... SET ... WHERE id = i\<close>, and its effect on a sum over the rows.\<close>

definition update_where :: "('r \<Rightarrow> bool) \<Rightarrow> ('r \<Rightarrow> 'r) \<Rightarrow> 'r list \<Rightarrow> 'r list" where
  "update_where p g rs = map (\<lambda>r. if p r then g r else r) rs"

lemma set_update_where: "set (update_where p g rs) = (\<lambda>r. if p r then g r else r) ` set rs"
  by (simp add: update_where_def)

lemma map_update_where:
  "(\<And>r. f (g r) = f r) \<Longrightarrow> map f (update_where p g rs) = map f rs"
  by (auto simp: update_where_def)

lemma find_eq_Some_set: "find p xs = Some x \<Longrightarrow> x \<in> set xs \<and> p x"
  by (auto simp: find_Some_iff)

lemma find_append: "find p (xs @ ys) = (case find p xs of None \<Rightarrow> find p ys | Some x \<Rightarrow> Some x)"
  by (induction xs) auto

lemma find_distinct:
  "distinct (map f xs) \<Longrightarrow> x \<in> set xs \<Longrightarrow> find (\<lambda>y. f y = f x) xs = Some x"
  by (induction xs) (auto simp: image_iff)

lemma update_where_absent: "(\<And>r. r \<in> set rs \<Longrightarrow> \<not> p r) \<Longrightarrow> update_where p g rs = rs"
  by (auto simp: update_where_def intro!: map_idI)

lemma sum_list_update_where:
  fixes f :: "'r \<Rightarrow> int"
  assumes "distinct (map k rs)" "r \<in> set rs"
  shows "sum_list (map f (update_where (\<lambda>x. k x = k r) g rs)) = sum_list (map f rs) + (f (g r) - f r)"
  using assms
proof (induction rs)
  case Nil
  then show ?case by simp
next
  case (Cons x rs)
  show ?case
  proof (cases "x = r")
    case True
    then have "update_where (\<lambda>y. k y = k r) g rs = rs"
      using Cons.prems(1) by (intro update_where_absent) (auto simp: image_iff)
    then show ?thesis using True by (simp add: update_where_def)
  next
    case False
    then have "k x \<noteq> k r" using Cons.prems by auto
    then show ?thesis using Cons False by (simp add: update_where_def)
  qed
qed

section \<open>Decimal strings\<close>

text \<open>\<open>String(n)\<close> and \<open>n.toString(10)\<close> of a non-negative integer.\<close>

fun decimal :: "nat \<Rightarrow> string" where
  "decimal n = (if n < 10 then [char_of (48 + n)] else decimal (n div 10) @ [char_of (48 + n mod 10)])"

declare decimal.simps [simp del]

definition undecimal :: "string \<Rightarrow> nat" where
  "undecimal s = foldl (\<lambda>acc c. acc * 10 + (of_char c - 48)) 0 s"

lemma undecimal_decimal: "undecimal (decimal n) = n"
proof (induction n rule: decimal.induct)
  case (1 n)
  show ?case
  proof (cases "n < 10")
    case True
    then show ?thesis by (subst decimal.simps) (simp add: undecimal_def of_char_of)
  next
    case False
    with 1 show ?thesis by (subst decimal.simps) (simp add: undecimal_def of_char_of)
  qed
qed

lemma decimal_inject [simp]: "decimal m = decimal n \<longleftrightarrow> m = n"
  by (metis undecimal_decimal)

definition is_digit :: "char \<Rightarrow> bool" where
  "is_digit c \<longleftrightarrow> 48 \<le> (of_char c :: nat) \<and> (of_char c :: nat) \<le> 57"

lemma decimal_digits: "list_all is_digit (decimal n)"
proof (induction n rule: decimal.induct)
  case (1 n)
  have "is_digit (char_of (48 + n mod 10))"
    by (simp add: is_digit_def of_char_of less_Suc_eq_le [symmetric])
  show ?case
  proof (cases "n < 10")
    case True
    then show ?thesis by (subst decimal.simps) (simp add: is_digit_def of_char_of)
  next
    case False
    with 1 \<open>is_digit (char_of (48 + n mod 10))\<close> show ?thesis by (subst decimal.simps) simp
  qed
qed

end
