(* ===== verification/Cursor.thy ===== *)
theory Cursor
  imports Prelude
begin

text \<open>
  \<open>packages/teltonika/src/cursor.ts\<close> and \<open>errors.ts\<close>: the bounds-checked sequential reader. A
  read either returns the value and the moved cursor or throws a \<open>TeltonikaParseError\<close>; the
  error constructors carry what the source interpolates into the message. \<open>reads r bs x\<close> is the
  contract of a reader: wherever the bytes \<open>bs\<close> stand in a buffer, \<open>r\<close> consumes exactly them and
  returns \<open>x\<close>. The locale \<open>wire_format\<close> pairs such a reader with its encoder and derives the
  format of counted lists.
\<close>

section \<open>The reader\<close>

datatype parse_error =
    Truncated string nat nat nat \<comment> \<open>field, bytes needed, offset, bytes left\<close>
  | UnsupportedCodec nat
  | NonZeroPreamble nat
  | ShortFrame nat nat \<comment> \<open>declared data field length, bytes after the header\<close>
  | CountMismatch nat nat

record cursor =
  cur_buf :: bytes
  cur_offset :: nat

definition new_cursor :: "bytes \<Rightarrow> cursor" where
  "new_cursor buf = \<lparr>cur_buf = buf, cur_offset = 0\<rparr>"

definition cur_remaining :: "cursor \<Rightarrow> int" where
  "cur_remaining c = int (length (cur_buf c)) - int (cur_offset c)"

type_synonym 'a reader = "cursor \<Rightarrow> parse_error + 'a \<times> cursor"

definition cur_take :: "nat \<Rightarrow> string \<Rightarrow> nat reader" where
  "cur_take n field c =
     (if cur_remaining c < int n
      then Inl (Truncated field n (cur_offset c) (nat (cur_remaining c)))
      else Inr (cur_offset c, c\<lparr>cur_offset := cur_offset c + n\<rparr>))"

definition rbind :: "'a reader \<Rightarrow> ('a \<Rightarrow> 'b reader) \<Rightarrow> 'b reader" where
  "rbind r f c = bindE (r c) (\<lambda>(x, c'). f x c')"

definition rreturn :: "'a \<Rightarrow> 'a reader" where
  "rreturn x c = Inr (x, c)"

definition rfail :: "parse_error \<Rightarrow> 'a reader" where
  "rfail e c = Inl e"

text \<open>\<open>buf.subarray(start, start + n)\<close>\<close>

definition subarray :: "bytes \<Rightarrow> nat \<Rightarrow> nat \<Rightarrow> bytes" where
  "subarray buf start end = take (end - start) (drop start buf)"

text \<open>\<open>readUInt<n>BE(offset)\<close> after \<open>#take(n, field)\<close>.\<close>

definition cur_uint :: "nat \<Rightarrow> string \<Rightarrow> nat reader" where
  "cur_uint n field c =
     bindE (cur_take n field c) (\<lambda>(start, c'). Inr (be_nat (subarray (cur_buf c') start (start + n)), c'))"

definition cur_u8 :: "string \<Rightarrow> nat reader" where
  "cur_u8 = cur_uint 1"

definition cur_u16 :: "string \<Rightarrow> nat reader" where
  "cur_u16 = cur_uint 2"

definition cur_u32 :: "string \<Rightarrow> nat reader" where
  "cur_u32 = cur_uint 4"

definition cur_u64 :: "string \<Rightarrow> nat reader" where
  "cur_u64 = cur_uint 8"

definition cur_i16 :: "string \<Rightarrow> int reader" where
  "cur_i16 field = rbind (cur_uint 2 field) (\<lambda>n. rreturn (to_signed 16 n))"

definition cur_i32 :: "string \<Rightarrow> int reader" where
  "cur_i32 field = rbind (cur_uint 4 field) (\<lambda>n. rreturn (to_signed 32 n))"

definition cur_bytes :: "nat \<Rightarrow> string \<Rightarrow> bytes reader" where
  "cur_bytes len field c =
     bindE (cur_take len field c) (\<lambda>(start, c'). Inr (subarray (cur_buf c') start (start + len), c'))"

section \<open>What a reader consumes\<close>

definition reads :: "'a reader \<Rightarrow> bytes \<Rightarrow> 'a \<Rightarrow> bool" where
  "reads r bs x \<longleftrightarrow> (\<forall>pre post. r \<lparr>cur_buf = pre @ bs @ post, cur_offset = length pre\<rparr>
     = Inr (x, \<lparr>cur_buf = pre @ bs @ post, cur_offset = length pre + length bs\<rparr>))"

lemma readsD:
  "reads r bs x \<Longrightarrow> r \<lparr>cur_buf = pre @ bs @ post, cur_offset = length pre\<rparr>
     = Inr (x, \<lparr>cur_buf = pre @ bs @ post, cur_offset = length pre + length bs\<rparr>)"
  by (simp add: reads_def)

lemma reads_new_cursor:
  "reads r bs x \<Longrightarrow> r (new_cursor (bs @ post)) = Inr (x, \<lparr>cur_buf = bs @ post, cur_offset = length bs\<rparr>)"
  using readsD [of r bs x "[]" post] by (simp add: new_cursor_def)

lemma reads_rreturn [reads_intros]: "reads (rreturn x) [] x"
  by (simp add: reads_def rreturn_def)

lemma reads_rbind [reads_intros]:
  assumes "reads r bs x" "reads (f x) cs y"
  shows "reads (rbind r f) (bs @ cs) y"
  unfolding reads_def
proof (intro allI)
  fix pre post
  show "rbind r f \<lparr>cur_buf = pre @ (bs @ cs) @ post, cur_offset = length pre\<rparr>
      = Inr (y, \<lparr>cur_buf = pre @ (bs @ cs) @ post, cur_offset = length pre + length (bs @ cs)\<rparr>)"
    using readsD [OF assms(1), of pre "cs @ post"] readsD [OF assms(2), of "pre @ bs" post]
    by (simp add: rbind_def add.assoc)
qed

lemma reads_rbind_pure: "reads r bs x \<Longrightarrow> reads (rbind r (\<lambda>x. rreturn (g x))) bs (g x)"
  using reads_rbind [of r bs x "\<lambda>x. rreturn (g x)" "[]" "g x"] by (simp add: reads_rreturn)

lemma cur_take_ok:
  "cur_take n field \<lparr>cur_buf = pre @ bs @ post, cur_offset = length pre\<rparr>
     = Inr (length pre, \<lparr>cur_buf = pre @ bs @ post, cur_offset = length pre + length bs\<rparr>)"
  if "length bs = n"
  using that by (simp add: cur_take_def cur_remaining_def)

lemma subarray_mid: "subarray (pre @ bs @ post) (length pre) (length pre + length bs) = bs"
  by (simp add: subarray_def)

lemma reads_cur_bytes [reads_intros]: "length bs = n \<Longrightarrow> reads (cur_bytes n field) bs bs"
  by (auto simp: reads_def cur_bytes_def cur_take_ok subarray_mid)

lemma reads_cur_uint_bytes: "length bs = n \<Longrightarrow> reads (cur_uint n field) bs (be_nat bs)"
  by (auto simp: reads_def cur_uint_def cur_take_ok subarray_mid)

lemma reads_cur_uint: "x < 256 ^ n \<Longrightarrow> reads (cur_uint n field) (be_bytes n x) x"
  using reads_cur_uint_bytes [of "be_bytes n x" n field] by (simp add: be_nat_be_bytes)

lemma reads_cur_u8 [reads_intros]: "x < 256 \<Longrightarrow> reads (cur_u8 field) (be_bytes 1 x) x"
  unfolding cur_u8_def by (rule reads_cur_uint) simp

lemma reads_cur_u16 [reads_intros]: "x < 65536 \<Longrightarrow> reads (cur_u16 field) (be_bytes 2 x) x"
  unfolding cur_u16_def by (rule reads_cur_uint) simp

lemma reads_cur_u32 [reads_intros]: "x < 2 ^ 32 \<Longrightarrow> reads (cur_u32 field) (be_bytes 4 x) x"
  unfolding cur_u32_def by (rule reads_cur_uint) simp

lemma reads_cur_u64 [reads_intros]: "x < 2 ^ 64 \<Longrightarrow> reads (cur_u64 field) (be_bytes 8 x) x"
  unfolding cur_u64_def by (rule reads_cur_uint) simp

lemma reads_cur_i16 [reads_intros]:
  assumes "- (2 ^ 15) \<le> i" "i < 2 ^ 15"
  shows "reads (cur_i16 field) (be_bytes 2 (of_signed 16 i)) i"
proof -
  have "of_signed 16 i < 256 ^ 2" using of_signed_bound [of 16 i] by simp
  then have "reads (cur_i16 field) (be_bytes 2 (of_signed 16 i)) (to_signed 16 (of_signed 16 i))"
    unfolding cur_i16_def by (intro reads_rbind_pure reads_cur_uint)
  then show ?thesis using assms by (simp add: to_signed_of_signed)
qed

lemma reads_cur_i32 [reads_intros]:
  assumes "- (2 ^ 31) \<le> i" "i < 2 ^ 31"
  shows "reads (cur_i32 field) (be_bytes 4 (of_signed 32 i)) i"
proof -
  have "of_signed 32 i < 256 ^ 4" using of_signed_bound [of 32 i] by simp
  then have "reads (cur_i32 field) (be_bytes 4 (of_signed 32 i)) (to_signed 32 (of_signed 32 i))"
    unfolding cur_i32_def by (intro reads_rbind_pure reads_cur_uint)
  then show ?thesis using assms by (simp add: to_signed_of_signed)
qed

section \<open>A reader never leaves its buffer\<close>

definition in_bounds :: "cursor \<Rightarrow> bool" where
  "in_bounds c \<longleftrightarrow> cur_offset c \<le> length (cur_buf c)"

definition advanced :: "cursor \<Rightarrow> cursor \<Rightarrow> bool" where
  "advanced c c' \<longleftrightarrow> in_bounds c' \<and> cur_buf c' = cur_buf c \<and> cur_offset c \<le> cur_offset c'"

text \<open>\<open>safe_reader r\<close>: from a cursor inside its buffer, \<open>r\<close> stays inside, keeps the buffer and only moves forward.\<close>

definition safe_reader :: "'a reader \<Rightarrow> bool" where
  "safe_reader r \<longleftrightarrow> (\<forall>c x c'. in_bounds c \<longrightarrow> r c = Inr (x, c') \<longrightarrow> advanced c c')"

lemma safe_readerD: "safe_reader r \<Longrightarrow> in_bounds c \<Longrightarrow> r c = Inr (x, c') \<Longrightarrow> advanced c c'"
  by (simp add: safe_reader_def)

lemma advanced_refl: "in_bounds c \<Longrightarrow> advanced c c"
  by (simp add: advanced_def)

lemma advanced_trans: "advanced c d \<Longrightarrow> advanced d e \<Longrightarrow> advanced c e"
  by (auto simp: advanced_def)

lemma advanced_in_bounds: "advanced c d \<Longrightarrow> in_bounds d"
  by (simp add: advanced_def)

lemma safe_rreturn: "safe_reader (rreturn x)"
  by (simp add: safe_reader_def rreturn_def advanced_refl)

lemma safe_rfail: "safe_reader (rfail e)"
  by (simp add: safe_reader_def rfail_def)

lemma safe_rbind:
  assumes "safe_reader r" "\<And>x. safe_reader (f x)"
  shows "safe_reader (rbind r f)"
  unfolding safe_reader_def
proof (intro allI impI)
  fix c y c'
  assume c: "in_bounds c" and "rbind r f c = Inr (y, c')"
  then obtain x d where d: "r c = Inr (x, d)" "f x d = Inr (y, c')"
    by (auto simp: rbind_def bindE_eq_Inr)
  from safe_readerD [OF assms(1) c d(1)] have "advanced c d" .
  moreover from safe_readerD [OF assms(2) advanced_in_bounds [OF this] d(2)] have "advanced d c'" .
  ultimately show "advanced c c'" by (rule advanced_trans)
qed

lemma safe_cur_take: "safe_reader (cur_take n field)"
  by (auto simp: safe_reader_def cur_take_def cur_remaining_def in_bounds_def advanced_def
      split: if_splits)

lemma safe_cur_uint: "safe_reader (cur_uint n field)"
  using safe_readerD [OF safe_cur_take]
  by (auto simp: safe_reader_def cur_uint_def bindE_eq_Inr)

lemma safe_cur_bytes: "safe_reader (cur_bytes n field)"
  using safe_readerD [OF safe_cur_take]
  by (auto simp: safe_reader_def cur_bytes_def bindE_eq_Inr)

lemmas safe_readers =
  safe_rreturn safe_rfail safe_rbind safe_cur_uint safe_cur_bytes

section \<open>The interface of a wire format\<close>

text \<open>
  An element format: an encoder for the values in its domain and a reader that inverts it at
  any place of a buffer. Lists of elements, encoded one after the other, are read back by a
  counted loop; this is proved once here and used for IO elements, records and packets.
\<close>

fun read_n :: "nat \<Rightarrow> 'a reader \<Rightarrow> 'a list reader" where
  "read_n 0 r = rreturn []"
| "read_n (Suc n) r = rbind r (\<lambda>x. rbind (read_n n r) (\<lambda>xs. rreturn (x # xs)))"

locale wire_format =
  fixes enc :: "'a \<Rightarrow> bytes"
    and dec :: "'b reader"
    and dom_ok :: "'a \<Rightarrow> bool"
    and img :: "'a \<Rightarrow> 'b"
  assumes dec_enc: "dom_ok x \<Longrightarrow> reads dec (enc x) (img x)"
begin

lemma read_n_concat:
  "(\<And>x. x \<in> set xs \<Longrightarrow> dom_ok x) \<Longrightarrow>
     reads (read_n (length xs) dec) (concat (map enc xs)) (map img xs)"
proof (induction xs)
  case Nil
  show ?case by (simp add: reads_rreturn)
next
  case (Cons x xs)
  have "reads (rbind (read_n (length xs) dec) (\<lambda>xs. rreturn (img x # xs)))
      (concat (map enc xs)) (img x # map img xs)"
    using Cons by (intro reads_rbind_pure) auto
  moreover have "reads dec (enc x) (img x)" using Cons.prems by (intro dec_enc) simp
  ultimately show ?case using reads_rbind [of dec "enc x" "img x"] by simp
qed

lemma decode_prefix:
  "dom_ok x \<Longrightarrow> dec (new_cursor (enc x @ rest))
     = Inr (img x, \<lparr>cur_buf = enc x @ rest, cur_offset = length (enc x)\<rparr>)"
  by (rule reads_new_cursor) (rule dec_enc)

end

interpretation u8_format: wire_format "be_bytes 1" "cur_u8 field" "\<lambda>x. x < 256" id for field
  by unfold_locales (simp add: reads_cur_u8 del: be_bytes.simps One_nat_def)

interpretation u16_format: wire_format "be_bytes 2" "cur_u16 field" "\<lambda>x. x < 65536" id for field
  by unfold_locales (simp add: reads_cur_u16)

interpretation u32_format: wire_format "be_bytes 4" "cur_u32 field" "\<lambda>x. x < 2 ^ 32" id for field
  by unfold_locales (simp add: reads_cur_u32)

interpretation u64_format: wire_format "be_bytes 8" "cur_u64 field" "\<lambda>x. x < 2 ^ 64" id for field
  by unfold_locales (simp add: reads_cur_u64)

end
