(* ===== verification/Imei.thy ===== *)
theory Imei
  imports Cursor
begin

text \<open>
  \<open>packages/teltonika/src/imei.ts\<close> and \<open>ack.ts\<close>: the opening handshake (a 16-bit digit count and
  the IMEI in ASCII) and the two replies. Node decodes \<open>'ascii'\<close> by clearing the high bit of
  every byte, which \<open>ascii_char\<close> keeps; the lemmas say exactly which frames are accepted.
\<close>

unbundle bit_operations_syntax

section \<open>The handshake frame\<close>

definition IMEI_DIGITS :: nat where "IMEI_DIGITS = 15"
definition LENGTH_PREFIX_BYTES :: nat where "LENGTH_PREFIX_BYTES = 2"

datatype imei_reason = DeclaredDigits nat | NotFifteenDigits

datatype imei_frame_result =
    ImeiOk string nat \<comment> \<open>imei, bytes consumed\<close>
  | ImeiNeedMore
  | ImeiInvalid imei_reason

text \<open>The regular expression \<open>^\d{15}$\<close>.\<close>

definition isValidImei :: "string \<Rightarrow> bool" where
  "isValidImei value \<longleftrightarrow> length value = IMEI_DIGITS \<and> list_all is_digit value"

definition ascii_char :: "byte \<Rightarrow> char" where
  "ascii_char b = char_of (unat (b AND 0x7F))"

definition tryParseImeiFrame :: "bytes \<Rightarrow> imei_frame_result" where
  "tryParseImeiFrame buf =
     (if length buf < LENGTH_PREFIX_BYTES then ImeiNeedMore
      else let declaredLength = be_nat (subarray buf 0 2) in
        if declaredLength \<noteq> IMEI_DIGITS then ImeiInvalid (DeclaredDigits declaredLength)
        else let frameLength = LENGTH_PREFIX_BYTES + declaredLength in
          if length buf < frameLength then ImeiNeedMore
          else let imei = map ascii_char (subarray buf LENGTH_PREFIX_BYTES frameLength) in
            if \<not> isValidImei imei then ImeiInvalid NotFifteenDigits
            else ImeiOk imei frameLength)"

section \<open>Replies to the device\<close>

definition buildImeiAck :: "bool \<Rightarrow> bytes" where
  "buildImeiAck accepted = [if accepted then 0x01 else 0x00]"

text \<open>\<open>writeUInt32BE\<close> of a record count, which is at most 255 for a parsed packet.\<close>

definition buildRecordAck :: "nat \<Rightarrow> bytes" where
  "buildRecordAck recordCount = be_bytes 4 recordCount"

section \<open>Lemmas\<close>

lemma subarray_append: "end \<le> length buf \<Longrightarrow> subarray (buf @ rest) start end = subarray buf start end"
  by (simp add: subarray_def)

lemma subarray_0_append: "length xs = n \<Longrightarrow> subarray (xs @ ys) 0 n = xs"
  by (simp add: subarray_def)

text \<open>More bytes never change a handshake that was already decided.\<close>

lemma tryParseImeiFrame_append:
  "tryParseImeiFrame buf \<noteq> ImeiNeedMore \<Longrightarrow> tryParseImeiFrame (buf @ rest) = tryParseImeiFrame buf"
  by (auto simp: tryParseImeiFrame_def Let_def subarray_append LENGTH_PREFIX_BYTES_def split: if_splits)

lemma tryParseImeiFrame_ok_length:
  "tryParseImeiFrame buf = ImeiOk imei n \<Longrightarrow> n = 17 \<and> n \<le> length buf \<and> isValidImei imei"
  by (auto simp: tryParseImeiFrame_def Let_def LENGTH_PREFIX_BYTES_def IMEI_DIGITS_def split: if_splits)

lemma tryParseImeiFrame_need_more:
  "tryParseImeiFrame buf = ImeiNeedMore \<Longrightarrow> length buf < 17"
  by (auto simp: tryParseImeiFrame_def Let_def LENGTH_PREFIX_BYTES_def IMEI_DIGITS_def split: if_splits)

lemma be_nat_buildRecordAck: "n < 2 ^ 32 \<Longrightarrow> be_nat (buildRecordAck n) = n"
  by (simp add: buildRecordAck_def be_nat_be_bytes)

lemma length_buildRecordAck [simp]: "length (buildRecordAck n) = 4"
  by (simp add: buildRecordAck_def)

end
