(* ===== verification/Crc.thy ===== *)
theory Crc
  imports Prelude
begin

text \<open>
  \<open>packages/teltonika/src/crc.ts\<close>: CRC-16/IBM over the AVL data field. JavaScript's bitwise
  operators work on 32-bit integers, so the register is a \<open>32 word\<close>; \<open>\<ggreater>\<close> is \<open>drop_bit\<close>.
  The lemmas show that the register never leaves 16 bits, that the step is injective on 16-bit
  registers, and hence that a change confined to one byte is always detected.
\<close>

unbundle bit_operations_syntax

section \<open>The checksum\<close>

definition crc_bit :: "32 word \<Rightarrow> 32 word" where
  "crc_bit crc = (if crc AND 1 \<noteq> 0 then drop_bit 1 crc XOR 0xA001 else drop_bit 1 crc)"

fun crc_bits :: "nat \<Rightarrow> 32 word \<Rightarrow> 32 word" where
  "crc_bits 0 crc = crc"
| "crc_bits (Suc n) crc = crc_bits n (crc_bit crc)"

definition crc_byte :: "32 word \<Rightarrow> byte \<Rightarrow> 32 word" where
  "crc_byte crc b = crc_bits 8 (crc XOR ucast b)"

definition crc16ibm :: "bytes \<Rightarrow> nat" where
  "crc16ibm data = unat (foldl crc_byte 0 data AND 0xFFFF)"

text \<open>Ground checksums are evaluated by rewriting with \<open>crc_eval\<close>.\<close>

lemma crc_bits_8:
  "crc_bits 8 c = crc_bit (crc_bit (crc_bit (crc_bit (crc_bit (crc_bit (crc_bit (crc_bit c)))))))"
  by (simp add: numeral_eq_Suc)

lemmas crc_eval = crc16ibm_def crc_byte_def crc_bits_8 crc_bit_def

section \<open>The register stays within 16 bits and the step is injective there\<close>

definition crc_reg :: "32 word \<Rightarrow> bool" where
  "crc_reg c \<longleftrightarrow> take_bit 16 c = c"

lemma mask_16: "(0xFFFF :: 32 word) = mask 16"
  by (simp add: mask_eq_exp_minus_1)

lemma crc_reg_and: "crc_reg c \<Longrightarrow> c AND 0xFFFF = c"
  by (simp add: crc_reg_def mask_16 take_bit_eq_mask)

lemma crc_reg_iff_bits: "crc_reg c \<longleftrightarrow> (\<forall>n\<ge>16. \<not> bit c n)"
proof
  show "crc_reg c \<Longrightarrow> \<forall>n\<ge>16. \<not> bit c n"
    unfolding crc_reg_def by (metis bit_take_bit_iff not_le)
next
  show "\<forall>n\<ge>16. \<not> bit c n \<Longrightarrow> crc_reg c"
    unfolding crc_reg_def by (intro bit_eqI) (auto simp: bit_take_bit_iff not_le)
qed

lemma bit_crc_bit:
  "bit (crc_bit c) n \<longleftrightarrow> (bit c (Suc n) \<noteq> (bit c 0 \<and> bit (0xA001 :: 32 word) n))"
  by (auto simp: crc_bit_def bit_xor_iff bit_drop_bit_eq and_one_eq bit_0 odd_iff_mod_2_eq_one)

lemma poly_bits: "bit (0xA001 :: 32 word) 15" "16 \<le> n \<Longrightarrow> \<not> bit (0xA001 :: 32 word) n"
proof -
  show "bit (0xA001 :: 32 word) 15" by simp
next
  assume "16 \<le> n"
  have "take_bit 16 (0xA001 :: 32 word) = 0xA001" by simp
  then show "\<not> bit (0xA001 :: 32 word) n"
    using \<open>16 \<le> n\<close> by (metis bit_take_bit_iff not_le)
qed

lemma crc_bit_reg: "crc_reg c \<Longrightarrow> crc_reg (crc_bit c)"
  using poly_bits(2) by (simp add: crc_reg_iff_bits bit_crc_bit)

lemma crc_bit_inj:
  assumes "crc_reg c" "crc_reg d" "crc_bit c = crc_bit d"
  shows "c = d"
proof -
  have b0: "bit (crc_bit x) 15 = bit x 0" if "crc_reg x" for x
    using that by (simp add: bit_crc_bit poly_bits crc_reg_iff_bits)
  have "bit c 0 = bit d 0" using b0 assms by metis
  moreover have "bit c (Suc n) = bit d (Suc n)" for n
    using assms(3) \<open>bit c 0 = bit d 0\<close> by (metis bit_crc_bit)
  ultimately have "bit c n = bit d n" for n by (cases n) auto
  then show ?thesis by (simp add: bit_eq_iff)
qed

lemma crc_bits_reg: "crc_reg c \<Longrightarrow> crc_reg (crc_bits n c)"
  by (induction n arbitrary: c) (auto simp: crc_bit_reg)

lemma crc_bits_inj:
  "crc_reg c \<Longrightarrow> crc_reg d \<Longrightarrow> crc_bits n c = crc_bits n d \<Longrightarrow> c = d"
proof (induction n arbitrary: c d)
  case 0
  then show ?case by simp
next
  case (Suc n)
  then have "crc_bits n (crc_bit c) = crc_bits n (crc_bit d)" by simp
  then have "crc_bit c = crc_bit d" using Suc.IH Suc.prems(1,2) crc_bit_reg by blast
  with Suc.prems(1,2) show ?case by (rule crc_bit_inj)
qed

lemma crc_reg_xor_byte: "crc_reg c \<Longrightarrow> crc_reg (c XOR ucast (b :: byte))"
proof -
  assume "crc_reg c"
  moreover have "\<not> bit (ucast b :: 32 word) n" if "16 \<le> n" for n
    using that bit_imp_le_length [of b n] by (auto simp: bit_ucast_iff)
  ultimately show ?thesis unfolding crc_reg_iff_bits bit_xor_iff by blast
qed

lemma crc_byte_reg: "crc_reg c \<Longrightarrow> crc_reg (crc_byte c b)"
  unfolding crc_byte_def by (intro crc_bits_reg crc_reg_xor_byte)

lemma xor_cancel_right: "(x :: 32 word) XOR y = z XOR y \<longleftrightarrow> x = z"
proof
  assume "x XOR y = z XOR y"
  then have "(x XOR y) XOR y = (z XOR y) XOR y" by (rule arg_cong)
  then show "x = z" by (simp only: xor.assoc xor_self_eq xor.right_neutral)
qed (rule arg_cong)

lemma ucast_byte_inj: "(ucast (a :: byte) :: 32 word) = ucast b \<Longrightarrow> a = b"
proof -
  assume "(ucast a :: 32 word) = ucast b"
  then have "(ucast (ucast a :: 32 word) :: byte) = ucast (ucast b :: 32 word)" by simp
  then show "a = b" by (simp add: ucast_up_ucast_id is_up)
qed

lemma crc_byte_inj_reg:
  assumes "crc_reg c" "crc_reg d" "crc_byte c b = crc_byte d b"
  shows "c = d"
proof -
  have "c XOR ucast b = d XOR ucast b"
    using assms crc_reg_xor_byte unfolding crc_byte_def by (blast intro: crc_bits_inj)
  then show ?thesis by (simp only: xor_cancel_right)
qed

lemma crc_byte_inj_byte:
  assumes "crc_reg c" "crc_byte c a = crc_byte c b"
  shows "a = b"
proof -
  have "c XOR ucast a = c XOR ucast b"
    using assms crc_reg_xor_byte unfolding crc_byte_def by (blast intro: crc_bits_inj)
  then have "(ucast a :: 32 word) = ucast b" by (simp only: xor.commute [of c] xor_cancel_right)
  then show ?thesis by (rule ucast_byte_inj)
qed

lemma crc_fold_reg: "crc_reg c \<Longrightarrow> crc_reg (foldl crc_byte c bs)"
  by (induction bs arbitrary: c) (auto simp: crc_byte_reg)

lemma crc_fold_inj:
  "crc_reg c \<Longrightarrow> crc_reg d \<Longrightarrow> foldl crc_byte c bs = foldl crc_byte d bs \<Longrightarrow> c = d"
proof (induction bs arbitrary: c d)
  case Nil
  then show ?case by simp
next
  case (Cons b bs)
  then have "foldl crc_byte (crc_byte c b) bs = foldl crc_byte (crc_byte d b) bs" by simp
  then have "crc_byte c b = crc_byte d b" using Cons.IH Cons.prems(1,2) crc_byte_reg by blast
  with Cons.prems(1,2) show ?case by (rule crc_byte_inj_reg)
qed

lemma crc_reg_0: "crc_reg 0"
  by (simp add: crc_reg_def)

lemma crc16ibm_eq: "crc16ibm bs = unat (foldl crc_byte 0 bs)"
  unfolding crc16ibm_def by (subst crc_reg_and) (auto intro: crc_fold_reg crc_reg_0)

lemma crc_fold_cancel:
  assumes "crc16ibm (p @ us @ s) = crc16ibm (p @ vs @ s)"
  shows "foldl crc_byte (foldl crc_byte 0 p) us = foldl crc_byte (foldl crc_byte 0 p) vs"
proof -
  let ?c = "foldl crc_byte 0 p"
  have r: "crc_reg ?c" by (intro crc_fold_reg crc_reg_0)
  have "foldl crc_byte (foldl crc_byte ?c us) s = foldl crc_byte (foldl crc_byte ?c vs) s"
    using assms by (simp add: crc16ibm_eq word_unat_eq_iff)
  then show ?thesis by (rule crc_fold_inj [rotated 2]) (intro crc_fold_reg r)+
qed

section \<open>Linearity, and the error bursts the checksum detects\<close>

lemma crc_bit_xor: "crc_bit (x XOR y) = crc_bit x XOR crc_bit y"
  by (intro bit_eqI) (auto simp: bit_crc_bit bit_xor_iff)

lemma crc_bits_xor: "crc_bits n (x XOR y) = crc_bits n x XOR crc_bits n y"
  by (induction n arbitrary: x y) (simp_all add: crc_bit_xor)

text \<open>
  Running the step backwards from a register whose high bits are clear never meets the
  polynomial, so it only shifts left.
\<close>

lemma crc_bits_back:
  assumes "crc_reg x" "n \<le> 16" "\<forall>i\<ge>16 - n. \<not> bit (crc_bits n x) i"
  shows "x = push_bit n (crc_bits n x)"
  using assms
proof (induction n arbitrary: x)
  case 0
  then show ?case by simp
next
  case (Suc n)
  let ?r = "crc_bits n (crc_bit x)"
  have y: "crc_bit x = push_bit n ?r"
    using Suc.prems by (intro Suc.IH) (auto simp: crc_bit_reg)
  have "\<not> bit ?r (15 - n)" using Suc.prems by auto
  then have "\<not> bit (crc_bit x) 15" by (subst y) (simp add: bit_push_bit_iff)
  then have b0: "\<not> bit x 0"
    using Suc.prems(1) by (simp add: bit_crc_bit poly_bits crc_reg_iff_bits)
  have "bit x i = bit (push_bit 1 (crc_bit x)) i" for i
    using b0 bit_imp_le_length [of x i]
    by (cases i) (auto simp: bit_push_bit_iff bit_crc_bit simp del: push_bit_of_1 push_bit_Suc)
  then have "x = push_bit 1 (crc_bit x)" by (intro bit_eqI)
  also have "\<dots> = push_bit (Suc n) ?r" by (subst y) simp
  finally show ?case by simp
qed

lemma crc_byte_high_zero:
  assumes "\<forall>i\<ge>8. \<not> bit (crc_bits 8 (ucast (d :: byte))) i"
  shows "d = 0"
proof -
  let ?x = "ucast d :: 32 word"
  have "crc_reg (0 XOR ucast d)" by (intro crc_reg_xor_byte crc_reg_0)
  then have "?x = push_bit 8 (crc_bits 8 ?x)"
    using assms by (intro crc_bits_back) auto
  then have low: "\<not> bit ?x i" if "i < 8" for i
    using that by (metis bit_push_bit_iff not_le)
  have "\<not> bit d i" for i
    using low [of i] bit_imp_le_length [of d i] by (cases "i < 8") (auto simp: bit_ucast_iff)
  then show ?thesis by (intro bit_eqI) simp
qed

lemma xor_swap:
  assumes "(x :: 32 word) XOR u = y XOR v"
  shows "x XOR y = u XOR v"
proof (rule bit_eqI)
  fix n
  have "bit (x XOR u) n = bit (y XOR v) n" using assms by simp
  then show "bit (x XOR y) n = bit (u XOR v) n" by (auto simp: bit_xor_iff)
qed

text \<open>
  Two byte strings that differ only inside two neighbouring bytes never have the same CRC-16,
  wherever the bytes stand and whatever surrounds them.
\<close>

lemma crc_burst:
  assumes "(a1, a2) \<noteq> (b1, b2)"
  shows "crc16ibm (p @ [a1, a2] @ s) \<noteq> crc16ibm (p @ [b1, b2] @ s)"
proof
  let ?c = "foldl crc_byte 0 p"
  have rc: "crc_reg ?c" by (intro crc_fold_reg crc_reg_0)
  assume "crc16ibm (p @ [a1, a2] @ s) = crc16ibm (p @ [b1, b2] @ s)"
  then have "crc_byte (crc_byte ?c a1) a2 = crc_byte (crc_byte ?c b1) b2"
    by (drule_tac crc_fold_cancel) simp
  then have x: "crc_byte ?c a1 XOR ucast a2 = crc_byte ?c b1 XOR ucast b2"
    using crc_bits_inj crc_reg_xor_byte crc_byte_reg rc unfolding crc_byte_def by metis
  have "crc_bits 8 (ucast (a1 XOR b1)) = crc_byte ?c a1 XOR crc_byte ?c b1"
    by (simp add: crc_byte_def crc_bits_xor [symmetric] unsigned_xor_eq xor.left_commute xor.assoc)
  also have "\<dots> = ucast (a2 XOR b2)"
    using xor_swap [OF x] by (simp add: unsigned_xor_eq)
  finally have "\<forall>i\<ge>8. \<not> bit (crc_bits 8 (ucast (a1 XOR b1))) i"
    using bit_imp_le_length [of "a2 XOR b2"] by (fastforce simp: bit_ucast_iff)
  then have "a1 XOR b1 = 0" by (rule crc_byte_high_zero)
  then have "(a1 XOR b1) XOR b1 = 0 XOR b1" by (rule arg_cong)
  then have "a1 = b1" by (simp only: xor.assoc xor_self_eq xor.right_neutral xor.left_neutral)
  then have "a2 = b2" using x by (metis ucast_byte_inj xor.commute xor_cancel_right)
  with \<open>a1 = b1\<close> assms show False by simp
qed

end
