(* ===== verification/Js_Number.thy ===== *)
theory Js_Number
  imports Prelude Complex_Main "HOL-Library.Log_Nat"
begin

text \<open>
  JavaScript numbers are IEEE-754 doubles. Two places of the program depend on that: \<open>Number(x)\<close>
  of a 64-bit integer (device timestamps, IO values, \<open>bigint\<close> columns read with
  \<open>mode: 'number'\<close>), modelled by \<open>to_number\<close>, and the multiplication by a decimal scale
  (coordinates, fuel litres), modelled by \<open>rnd\<close> after the exact product. Both round to the
  nearest 53-bit value, ties to even. Finite values only: every product of the program is far
  from the overflow threshold.
\<close>

section \<open>Integers to doubles\<close>

definition MAX_SAFE_INTEGER :: int where
  "MAX_SAFE_INTEGER = 2 ^ 53 - 1"

text \<open>Divide by \<open>2 ^ e\<close>, rounding to the nearest integer, ties to even.\<close>

definition round_shift :: "int \<Rightarrow> nat \<Rightarrow> int" where
  "round_shift x e = (let q = x div 2 ^ e; r = x mod 2 ^ e in
     if 2 * r < 2 ^ e \<or> (2 * r = 2 ^ e \<and> even q) then q else q + 1)"

definition to_number :: "int \<Rightarrow> int" where
  "to_number x = (let e = nat (bitlen \<bar>x\<bar> - 53) in round_shift x e * 2 ^ e)"

lemma round_shift_0 [simp]: "round_shift x 0 = x"
  by (simp add: round_shift_def)

lemma round_shift_ge: "m * 2 ^ e \<le> x \<Longrightarrow> m \<le> round_shift x e"
proof -
  assume "m * 2 ^ e \<le> x"
  then have "m * 2 ^ e div 2 ^ e \<le> x div 2 ^ e" by (rule zdiv_mono1) simp
  then show ?thesis by (simp add: round_shift_def Let_def)
qed

lemma to_number_exact: "\<bar>x\<bar> < 2 ^ 53 \<Longrightarrow> to_number x = x"
proof -
  assume "\<bar>x\<bar> < 2 ^ 53"
  then have "nat \<bar>x\<bar> < 2 ^ 53" by (simp add: nat_less_iff)
  then have "floorlog 2 (nat \<bar>x\<bar>) \<le> 53" by (intro floorlog_leI) auto
  then show ?thesis by (simp add: to_number_def bitlen_def)
qed

lemma to_number_safe: "0 \<le> x \<Longrightarrow> x \<le> MAX_SAFE_INTEGER \<Longrightarrow> to_number x = x"
  by (rule to_number_exact) (simp add: MAX_SAFE_INTEGER_def)

lemma to_number_large: "2 ^ 53 \<le> x \<Longrightarrow> 2 ^ 53 \<le> to_number x"
proof -
  assume x: "2 ^ 53 \<le> x"
  define e where "e = floorlog 2 (nat \<bar>x\<bar>) - 53"
  have e_eq: "nat (bitlen \<bar>x\<bar> - 53) = e" by (simp add: e_def bitlen_def)
  have pos: "0 < nat \<bar>x\<bar>" using x by simp
  have "2 ^ (floorlog 2 (nat \<bar>x\<bar>) - 1) \<le> nat \<bar>x\<bar>"
    using floorlog_bounds [OF pos, of 2] by simp
  moreover have fl: "54 \<le> floorlog 2 (nat \<bar>x\<bar>)"
    by (rule floorlog_geI) (use x in \<open>auto simp: le_nat_iff\<close>)
  moreover have "floorlog 2 (nat \<bar>x\<bar>) - 1 = 52 + e" using fl by (simp add: e_def)
  ultimately have "(2::nat) ^ (52 + e) \<le> nat \<bar>x\<bar>" by simp
  then have "int (2 ^ (52 + e)) \<le> \<bar>x\<bar>" using pos by (simp add: le_nat_iff)
  then have "2 ^ 52 * 2 ^ e \<le> x" using x by (simp add: power_add)
  then have "2 ^ 52 \<le> round_shift x e" by (rule round_shift_ge)
  then have "2 ^ 52 * 2 ^ e \<le> round_shift x e * 2 ^ e" by simp
  moreover have "(2::int) ^ 53 \<le> 2 ^ 52 * 2 ^ e"
  proof -
    have "(2::int) ^ 1 \<le> 2 ^ e" using fl by (intro power_increasing) (auto simp: e_def)
    then show ?thesis by simp
  qed
  ultimately have "(2::int) ^ 53 \<le> round_shift x e * 2 ^ e" by linarith
  then show ?thesis unfolding to_number_def Let_def e_eq .
qed

lemma round_shift_le: "x \<le> m * 2 ^ e \<Longrightarrow> round_shift x e \<le> m"
proof -
  assume le: "x \<le> m * 2 ^ e"
  then have "x div 2 ^ e \<le> m * 2 ^ e div 2 ^ e" by (rule zdiv_mono1) simp
  then have q: "x div 2 ^ e \<le> m" by simp
  show ?thesis
  proof (cases "x div 2 ^ e = m")
    case True
    have "x = m * 2 ^ e + x mod 2 ^ e" using div_mult_mod_eq [of x "2 ^ e"] True by simp
    with le have "x mod 2 ^ e \<le> 0" by linarith
    moreover have "(0::int) < 2 ^ e" by simp
    ultimately have "2 * (x mod 2 ^ e) < 2 ^ e" by linarith
    with True show ?thesis by (simp add: round_shift_def)
  next
    case False
    with q show ?thesis by (simp add: round_shift_def Let_def)
  qed
qed

lemma to_number_neg: "x \<le> - (2 ^ 53) \<Longrightarrow> to_number x < 0"
proof -
  assume x: "x \<le> - (2 ^ 53)"
  define e where "e = floorlog 2 (nat \<bar>x\<bar>) - 53"
  have e_eq: "nat (bitlen \<bar>x\<bar> - 53) = e" by (simp add: e_def bitlen_def)
  have pos: "0 < nat \<bar>x\<bar>" using x by simp
  have "2 ^ (floorlog 2 (nat \<bar>x\<bar>) - 1) \<le> nat \<bar>x\<bar>"
    using floorlog_bounds [OF pos, of 2] by simp
  moreover have fl: "54 \<le> floorlog 2 (nat \<bar>x\<bar>)"
    by (rule floorlog_geI) (use x in \<open>auto simp: le_nat_iff\<close>)
  moreover have "floorlog 2 (nat \<bar>x\<bar>) - 1 = 52 + e" using fl by (simp add: e_def)
  ultimately have "(2::nat) ^ (52 + e) \<le> nat \<bar>x\<bar>" by simp
  then have "int (2 ^ (52 + e)) \<le> \<bar>x\<bar>" using pos by (simp add: le_nat_iff)
  then have "x \<le> - (2 ^ 52) * 2 ^ e" using x by (simp add: power_add)
  then have "round_shift x e \<le> - (2 ^ 52)" by (rule round_shift_le)
  then have "round_shift x e * 2 ^ e \<le> - (2 ^ 52) * 2 ^ e" by (intro mult_right_mono) auto
  also have "\<dots> < 0" by simp
  finally show ?thesis unfolding to_number_def Let_def e_eq .
qed

text \<open>
  A comparison of a database integer, read as a double, with a safe integer is exact even when
  the read rounded.
\<close>

lemma to_number_less_iff:
  assumes "0 \<le> b" "a \<le> MAX_SAFE_INTEGER"
  shows "to_number b < a \<longleftrightarrow> b < a"
proof (cases "b < 2 ^ 53")
  case True
  then show ?thesis using assms by (simp add: to_number_exact)
next
  case False
  then have "2 ^ 53 \<le> to_number b" by (intro to_number_large) simp
  with False assms(2) show ?thesis by (simp add: MAX_SAFE_INTEGER_def)
qed

lemma to_number_nonneg: "0 \<le> b \<Longrightarrow> 0 \<le> to_number b"
  using to_number_less_iff [of b 0] by (auto simp: MAX_SAFE_INTEGER_def not_less [symmetric])

section \<open>Rationals to doubles\<close>

text \<open>\<open>flog2 q\<close> is the exponent of the leading bit of \<open>q > 0\<close>.\<close>

definition flog2 :: "rat \<Rightarrow> int" where
  "flog2 q = (let (a, b) = quotient_of q;
     k = bitlen a - bitlen b
     in if 2 powi k \<le> q then k else k - 1)"

definition round_half_even :: "rat \<Rightarrow> int" where
  "round_half_even q = (let f = \<lfloor>q\<rfloor>; r = q - of_int f in
     if r < 1 / 2 \<or> (r = 1 / 2 \<and> even f) then f else f + 1)"

definition rnd :: "rat \<Rightarrow> rat" where
  "rnd q = (let e = max (- 1074) (flog2 \<bar>q\<bar> - 52) in
     of_int (round_half_even (q * 2 powi (- e))) * 2 powi e)"

text \<open>\<open>a * b\<close> on doubles, and \<open>Math.round\<close>.\<close>

definition fmul :: "rat \<Rightarrow> rat \<Rightarrow> rat" where
  "fmul a b = rnd (a * b)"

definition math_round :: "rat \<Rightarrow> int" where
  "math_round q = \<lfloor>q + 1 / 2\<rfloor>"

lemma floorlog_powi:
  assumes "0 < a"
  shows "2 powi (int (floorlog 2 (nat a)) - 1) \<le> (of_int a :: rat)"
    and "(of_int a :: rat) < 2 powi int (floorlog 2 (nat a))"
proof -
  let ?l = "floorlog 2 (nat a)"
  have n: "2 ^ (?l - 1) \<le> nat a" "nat a < 2 ^ ?l"
    using floorlog_bounds [of "nat a" 2] assms by auto
  have l: "0 < ?l" using assms n(2) by (cases ?l) auto
  have "(of_nat (2 ^ (?l - 1)) :: rat) \<le> of_nat (nat a)" using n(1) by (rule of_nat_mono)
  moreover have "int ?l - 1 = int (?l - 1)" using l by simp
  ultimately show "2 powi (int ?l - 1) \<le> (of_int a :: rat)"
    using assms by (simp only: power_int_of_nat) simp
  have "(of_nat (nat a) :: rat) < of_nat (2 ^ ?l)" using n(2) by (rule of_nat_less_iff [THEN iffD2])
  then show "(of_int a :: rat) < 2 powi int ?l" using assms by simp
qed

lemma flog2_bounds:
  assumes "0 < q"
  shows "2 powi flog2 q \<le> q" "q < 2 powi (flog2 q + 1)"
proof -
  obtain a b where ab: "quotient_of q = (a, b)" by fastforce
  have b: "0 < b" using quotient_of_denom_pos [OF ab] .
  have q: "q = of_int a / of_int b" using quotient_of_div [OF ab] .
  have a: "0 < a" using assms b by (simp add: q zero_less_divide_iff)
  define k where "k = int (floorlog 2 (nat a)) - int (floorlog 2 (nat b))"
  let ?A = "int (floorlog 2 (nat a))" and ?B = "int (floorlog 2 (nat b))"
  have "2 powi (?A - 1) / 2 powi ?B \<le> (of_int a / of_int b :: rat)"
    using floorlog_powi(1) [OF a] floorlog_powi(2) [OF b] b a by (intro frac_le) auto
  moreover have "(2::rat) powi (?A - 1 - ?B) = 2 powi (?A - 1) / 2 powi ?B"
    by (rule power_int_diff) simp
  moreover have "?A - 1 - ?B = k - 1" by (simp add: k_def)
  ultimately have lo: "2 powi (k - 1) \<le> q" unfolding q by (metis (no_types))
  have "(of_int a / of_int b :: rat) < (2 powi ?A / 2 powi (?B - 1) :: rat)"
    using floorlog_powi(2) [OF a] floorlog_powi(1) [OF b] b a
    by (intro frac_less) (auto simp: less_imp_le)
  moreover have "(2::rat) powi (?A - (?B - 1)) = 2 powi ?A / 2 powi (?B - 1)"
    by (rule power_int_diff) simp
  moreover have "?A - (?B - 1) = k + 1" by (simp add: k_def)
  ultimately have hi: "q < 2 powi (k + 1)" unfolding q by (metis (no_types))
  have f: "flog2 q = (if 2 powi k \<le> q then k else k - 1)"
    by (simp add: flog2_def ab k_def Let_def bitlen_def)
  show "2 powi flog2 q \<le> q" using lo by (auto simp: f)
  show "q < 2 powi (flog2 q + 1)" using hi by (auto simp: f not_le)
qed

lemma round_half_even_error: "\<bar>of_int (round_half_even q) - q\<bar> \<le> 1 / 2"
proof -
  define d where "d = q - of_int \<lfloor>q\<rfloor>"
  have "0 \<le> d" "d < 1" unfolding d_def by linarith+
  moreover have "of_int (round_half_even q) - q =
      (if d < 1 / 2 \<or> (d = 1 / 2 \<and> even \<lfloor>q\<rfloor>) then - d else 1 - d)"
    by (simp add: round_half_even_def Let_def d_def)
  ultimately show ?thesis by (auto simp: abs_if)
qed

text \<open>Relative error of one rounding, for values in the normal range.\<close>

lemma rnd_error:
  assumes "2 powi (- 1022) \<le> \<bar>q\<bar>"
  shows "\<bar>rnd q - q\<bar> \<le> \<bar>q\<bar> * 2 powi (- 53)"
proof -
  have pos: "0 < \<bar>q\<bar>" using assms by (rule less_le_trans [rotated]) simp
  define e where "e = flog2 \<bar>q\<bar> - 52"
  have "2 powi (- 1022) < (2::rat) powi (flog2 \<bar>q\<bar> + 1)"
    using assms flog2_bounds(2) [OF pos] by linarith
  then have "- 1022 < flog2 \<bar>q\<bar> + 1"
    by (metis linorder_not_le not_less power_int_increasing one_le_numeral)
  then have e: "max (- 1074) (flog2 \<bar>q\<bar> - 52) = e" by (simp add: e_def)
  let ?p = "2 powi e :: rat"
  have p: "0 < ?p" by simp
  have r: "rnd q = of_int (round_half_even (q * 2 powi (- e))) * ?p"
    unfolding rnd_def Let_def e ..
  have "q = q * 2 powi (- e) * ?p" by (simp add: power_int_minus)
  then have "rnd q - q = (of_int (round_half_even (q * 2 powi (- e))) - q * 2 powi (- e)) * ?p"
    unfolding r by (metis left_diff_distrib)
  then have "\<bar>rnd q - q\<bar> = \<bar>of_int (round_half_even (q * 2 powi (- e))) - q * 2 powi (- e)\<bar> * ?p"
    using p by (simp only: abs_mult abs_of_pos)
  also have "\<dots> \<le> 1 / 2 * ?p" using round_half_even_error p by (intro mult_right_mono) auto
  also have "\<dots> = 2 powi flog2 \<bar>q\<bar> * 2 powi (- 53)"
    by (simp add: e_def power_int_diff power_int_minus)
  also have "\<dots> \<le> \<bar>q\<bar> * 2 powi (- 53)"
    using flog2_bounds(1) [OF pos] by (intro mult_right_mono) auto
  finally show ?thesis .
qed

lemma rnd_0 [simp]: "rnd 0 = 0"
  by (simp add: rnd_def round_half_even_def)

lemma math_round_near:
  assumes "\<bar>q - of_int n\<bar> < 1 / 2"
  shows "math_round q = n"
proof -
  have "q - of_int n < 1 / 2" "- (q - of_int n) < 1 / 2" using assms by (simp_all only: abs_less_iff)
  then show ?thesis unfolding math_round_def by (intro floor_unique) linarith+
qed

section \<open>Instants\<close>

text \<open>\<open>z.iso.datetime()\<close> on the ISO text of an instant (in ms): it takes four-digit years.\<close>

definition iso_datetime_ok :: "int \<Rightarrow> bool" where
  "iso_datetime_ok ms \<longleftrightarrow> - 62167219200000 \<le> ms \<and> ms \<le> 253402300799999"

end
