(* ===== verification/Framer.thy ===== *)
theory Framer
  imports Imei Avl
begin

text \<open>
  \<open>packages/teltonika/src/framer.ts\<close>: the reassembly of one device's TCP stream into protocol
  events. The interface \<open>stream_framer\<close> states what makes a decoder insensitive to chunk
  boundaries; it is interpreted on the model of \<open>TeltonikaFramer\<close>, and the properties of the
  class (chunk independence, bounded buffering, what a spent framer does) rest on it.
\<close>

section \<open>The interface of an incremental decoder\<close>

locale stream_framer =
  fixes step :: "'s \<Rightarrow> 'e option \<times> 's"
    and feed :: "'s \<Rightarrow> bytes \<Rightarrow> 's"
    and run :: "'s \<Rightarrow> 'e list \<times> 's"
    and fatal :: "'e \<Rightarrow> bool"
    and spend :: "'s \<Rightarrow> 's"
    and weight :: "'s \<Rightarrow> nat"
    and spent :: "'s \<Rightarrow> bool"
  assumes run_eq: "run s = (case step s of
        (None, t) \<Rightarrow> ([], t)
      | (Some e, t) \<Rightarrow> if fatal e then ([e], spend t) else (case run t of (es, u) \<Rightarrow> (e # es, u)))"
    and step_none: "step s = (None, t) \<Longrightarrow> t = s"
    and step_feed: "step s = (Some e, t) \<Longrightarrow> step (feed s x) = (Some e, feed t x)"
    and step_weight: "step s = (Some e, t) \<Longrightarrow> \<not> fatal e \<Longrightarrow> weight t < weight s"
    and feed_feed: "feed (feed s x) y = feed s (x @ y)"
    and spent_spend: "spent (spend s)"
    and spend_feed: "spend (feed s x) = spend s"
    and step_alive: "\<not> spent s \<Longrightarrow> step s = (Some e, t) \<Longrightarrow> \<not> fatal e \<Longrightarrow> \<not> spent t"
begin

lemma run_stop: "step s = (None, t) \<Longrightarrow> run s = ([], s)"
  using step_none by (subst run_eq) auto

lemma run_fatal: "step s = (Some e, t) \<Longrightarrow> fatal e \<Longrightarrow> run s = ([e], spend t)"
  by (subst run_eq) simp

lemma run_more: "step s = (Some e, t) \<Longrightarrow> \<not> fatal e \<Longrightarrow> run t = (es, u) \<Longrightarrow> run s = (e # es, u)"
  by (subst run_eq) simp

text \<open>A run either ends waiting for more bytes, with no fatal event, or ends spent on one.\<close>

lemma run_result:
  "\<not> spent s \<Longrightarrow> run s = (es, u) \<Longrightarrow>
     (step u = (None, u) \<and> \<not> spent u \<and> (\<forall>e\<in>set es. \<not> fatal e)) \<or> (spent u \<and> (\<exists>e\<in>set es. fatal e))"
proof (induction "weight s" arbitrary: s es rule: less_induct)
  case less
  obtain eo t where st: "step s = (eo, t)" by fastforce
  show ?case
  proof (cases eo)
    case None
    then show ?thesis using st less.prems run_stop step_none by auto
  next
    case (Some e)
    show ?thesis
    proof (cases "fatal e")
      case True
      then show ?thesis using st Some less.prems run_fatal spent_spend by auto
    next
      case False
      obtain es' u' where r: "run t = (es', u')" by fastforce
      then have "run s = (e # es', u')" using run_more st Some False by simp
      then have "es = e # es'" "u = u'" using less.prems by auto
      moreover have "weight t < weight s" "\<not> spent t"
        using step_weight step_alive less.prems(1) st Some False by auto
      ultimately show ?thesis using less.hyps [of t es'] r False by auto
    qed
  qed
qed

text \<open>Feeding more bytes before the run continues it where it stopped.\<close>

lemma run_feed:
  "\<not> spent s \<Longrightarrow> run s = (es, u) \<Longrightarrow>
     run (feed s x) = (if spent u then (es, u) else (case run (feed u x) of (es', u') \<Rightarrow> (es @ es', u')))"
proof (induction "weight s" arbitrary: s es rule: less_induct)
  case less
  obtain eo t where st: "step s = (eo, t)" by fastforce
  show ?case
  proof (cases eo)
    case None
    then have "es = []" "u = s" using st less.prems run_stop by auto
    then show ?thesis using less.prems by (auto split: prod.splits)
  next
    case (Some e)
    then have sf: "step (feed s x) = (Some e, feed t x)" using st step_feed by simp
    show ?thesis
    proof (cases "fatal e")
      case True
      then have "run (feed s x) = ([e], spend t)" using sf run_fatal spend_feed by simp
      moreover have "es = [e]" "u = spend t" using run_fatal st Some True less.prems by auto
      ultimately show ?thesis by (simp add: spent_spend)
    next
      case False
      obtain es' u' where r: "run t = (es', u')" by fastforce
      then have eq: "es = e # es'" "u = u'" using run_more st Some False less.prems by auto
      have "weight t < weight s" "\<not> spent t"
        using step_weight step_alive less.prems(1) st Some False by auto
      then have "run (feed t x) = (if spent u then (es', u)
          else (case run (feed u x) of (es2, u2) \<Rightarrow> (es' @ es2, u2)))"
        using less.hyps [of t es'] r eq by simp
      then show ?thesis
        using run_more [OF sf False] eq by (cases "run (feed u x)") auto
    qed
  qed
qed

end

section \<open>The framer\<close>

definition DEFAULT_MAX_FRAME_BYTES :: nat where
  "DEFAULT_MAX_FRAME_BYTES = 1024 * 1024"

datatype framer_state = AwaitingImei | Streaming | Failed

datatype framer_error_reason = InvalidImei | BadPreamble | FrameTooLarge | ParseError

datatype framer_detail =
    DetailImei imei_reason
  | DetailPreamble nat
  | DetailTooLarge nat nat
  | DetailParse parse_error

datatype framer_event =
    EvImei string
  | EvPacket avl_packet
  | EvError framer_error_reason framer_detail

record framer =
  fr_buffer :: bytes
  fr_state :: framer_state
  fr_maxFrameBytes :: nat

definition new_framer :: "nat option \<Rightarrow> framer" where
  "new_framer maxFrameBytes =
     \<lparr>fr_buffer = [], fr_state = AwaitingImei,
      fr_maxFrameBytes = (case maxFrameBytes of None \<Rightarrow> DEFAULT_MAX_FRAME_BYTES | Some n \<Rightarrow> n)\<rparr>"

definition handshakeComplete :: "framer \<Rightarrow> bool" where
  "handshakeComplete f \<longleftrightarrow> fr_state f = Streaming"

definition fr_consume :: "nat \<Rightarrow> framer \<Rightarrow> framer" where
  "fr_consume n f = f\<lparr>fr_buffer := drop n (fr_buffer f)\<rparr>"

definition nextHandshake :: "framer \<Rightarrow> framer_event option \<times> framer" where
  "nextHandshake f = (case tryParseImeiFrame (fr_buffer f) of
       ImeiNeedMore \<Rightarrow> (None, f)
     | ImeiInvalid reason \<Rightarrow> (Some (EvError InvalidImei (DetailImei reason)), f)
     | ImeiOk imei bytesConsumed \<Rightarrow>
         (Some (EvImei imei), (fr_consume bytesConsumed f)\<lparr>fr_state := Streaming\<rparr>))"

definition nextPacket :: "framer \<Rightarrow> framer_event option \<times> framer" where
  "nextPacket f =
     (if length (fr_buffer f) < FRAME_HEADER_BYTES then (None, f)
      else let preamble = be_nat (subarray (fr_buffer f) 0 4) in
        if preamble \<noteq> 0 then (Some (EvError BadPreamble (DetailPreamble preamble)), f)
        else let dataLength = be_nat (subarray (fr_buffer f) 4 8);
                 frameLength = FRAME_HEADER_BYTES + dataLength + FRAME_CRC_BYTES in
          if frameLength > fr_maxFrameBytes f
          then (Some (EvError FrameTooLarge (DetailTooLarge frameLength (fr_maxFrameBytes f))), f)
          else if length (fr_buffer f) < frameLength then (None, f)
          else let frame = subarray (fr_buffer f) 0 frameLength;
                   f' = fr_consume frameLength f in
            (case parseAvlPacket frame of
               Inr packet \<Rightarrow> (Some (EvPacket packet), f')
             | Inl err \<Rightarrow> (Some (EvError ParseError (DetailParse err)), f')))"

definition framer_next :: "framer \<Rightarrow> framer_event option \<times> framer" where
  "framer_next f = (if fr_state f = AwaitingImei then nextHandshake f else nextPacket f)"

fun is_error_event :: "framer_event \<Rightarrow> bool" where
  "is_error_event (EvError _ _) = True"
| "is_error_event _ = False"

definition fr_fail :: "framer \<Rightarrow> framer" where
  "fr_fail f = f\<lparr>fr_state := Failed, fr_buffer := []\<rparr>"

lemma framer_next_consumes:
  "framer_next f = (Some e, g) \<Longrightarrow> \<not> is_error_event e \<Longrightarrow>
     length (fr_buffer g) < length (fr_buffer f)"
  by (auto simp: framer_next_def nextHandshake_def nextPacket_def fr_consume_def Let_def
      FRAME_HEADER_BYTES_def
      dest: tryParseImeiFrame_ok_length split: if_splits imei_frame_result.splits sum.splits)

text \<open>The \<open>for (;;)\<close> loop of \<open>push\<close>; every event but an error consumes bytes.\<close>

function framer_drain :: "framer \<Rightarrow> framer_event list \<times> framer" where
  "framer_drain f = (case framer_next f of
       (None, g) \<Rightarrow> ([], g)
     | (Some e, g) \<Rightarrow> if is_error_event e then ([e], fr_fail g)
         else (case framer_drain g of (es, h) \<Rightarrow> (e # es, h)))"
  by pat_completeness auto
termination
  by (relation "measure (\<lambda>f. length (fr_buffer f))") (auto dest: framer_next_consumes [OF sym])

declare framer_drain.simps [simp del]

definition fr_feed :: "framer \<Rightarrow> bytes \<Rightarrow> framer" where
  "fr_feed f chunk = f\<lparr>fr_buffer := fr_buffer f @ chunk\<rparr>"

definition framer_push :: "framer \<Rightarrow> bytes \<Rightarrow> framer_event list \<times> framer" where
  "framer_push f chunk =
     (if fr_state f = Failed then ([], f) else framer_drain (fr_feed f chunk))"

text \<open>The socket's \<open>'data'\<close> events, one \<open>push\<close> each.\<close>

fun framer_push_all :: "framer \<Rightarrow> bytes list \<Rightarrow> framer_event list \<times> framer" where
  "framer_push_all f [] = ([], f)"
| "framer_push_all f (c # cs) =
     (case framer_push f c of (es, g) \<Rightarrow>
       (case framer_push_all g cs of (es', h) \<Rightarrow> (es @ es', h)))"

section \<open>The framer is an incremental decoder\<close>

lemma nextHandshake_feed:
  "nextHandshake f = (Some e, g) \<Longrightarrow> nextHandshake (fr_feed f x) = (Some e, fr_feed g x)"
proof -
  assume h: "nextHandshake f = (Some e, g)"
  then have "tryParseImeiFrame (fr_buffer f) \<noteq> ImeiNeedMore"
    by (auto simp: nextHandshake_def)
  from tryParseImeiFrame_append [OF this, of x] h show ?thesis
    by (auto simp: nextHandshake_def fr_feed_def fr_consume_def
        dest: tryParseImeiFrame_ok_length split: imei_frame_result.splits)
qed

lemma nextPacket_feed:
  "nextPacket f = (Some e, g) \<Longrightarrow> nextPacket (fr_feed f x) = (Some e, fr_feed g x)"
  by (auto simp: nextPacket_def fr_feed_def fr_consume_def Let_def subarray_append
      FRAME_HEADER_BYTES_def FRAME_CRC_BYTES_def split: if_splits sum.splits)

lemma framer_next_state:
  "framer_next f = (Some e, g) \<Longrightarrow> \<not> is_error_event e \<Longrightarrow> fr_state f \<noteq> Failed \<Longrightarrow> fr_state g \<noteq> Failed"
  by (auto simp: framer_next_def nextHandshake_def nextPacket_def fr_consume_def Let_def
      split: if_splits imei_frame_result.splits sum.splits)

interpretation fr: stream_framer framer_next fr_feed framer_drain is_error_event fr_fail
  "\<lambda>f. length (fr_buffer f)" "\<lambda>f. fr_state f = Failed"
proof unfold_locales
  show "framer_drain s = (case framer_next s of (None, t) \<Rightarrow> ([], t)
      | (Some e, t) \<Rightarrow> if is_error_event e then ([e], fr_fail t)
          else (case framer_drain t of (es, u) \<Rightarrow> (e # es, u)))" for s
    by (rule framer_drain.simps)
  show "t = s" if "framer_next s = (None, t)" for s t
    using that by (auto simp: framer_next_def nextHandshake_def nextPacket_def Let_def
        split: if_splits imei_frame_result.splits sum.splits)
  show "framer_next (fr_feed s x) = (Some e, fr_feed t x)" if "framer_next s = (Some e, t)" for s e t x
    using that nextHandshake_feed nextPacket_feed
    by (auto simp: framer_next_def fr_feed_def split: if_splits)
qed (auto simp: fr_feed_def fr_fail_def intro: framer_next_consumes dest: framer_next_state)

section \<open>Properties of the class\<close>

text \<open>A framer is idle when it is waiting for bytes (or spent): the state between two \<open>push\<close>es.\<close>

definition fr_idle :: "framer \<Rightarrow> bool" where
  "fr_idle f \<longleftrightarrow> fr_state f = Failed \<or> framer_next f = (None, f)"

lemma fr_feed_state [simp]: "fr_state (fr_feed f x) = fr_state f"
  by (simp add: fr_feed_def)

lemma new_framer_idle: "fr_idle (new_framer m)"
  by (simp add: fr_idle_def new_framer_def framer_next_def nextHandshake_def
      tryParseImeiFrame_def LENGTH_PREFIX_BYTES_def)

lemma framer_push_idle:
  assumes "framer_push f c = (es, g)"
  shows "fr_idle g"
proof (cases "fr_state f = Failed")
  case True
  then show ?thesis using assms by (auto simp: framer_push_def fr_idle_def)
next
  case False
  then show ?thesis
    using assms fr.run_result [of "fr_feed f c" es g] by (auto simp: framer_push_def fr_idle_def)
qed

lemma framer_push_append:
  assumes "framer_push f c = (es, g)"
  shows "framer_push f (c @ d) = (case framer_push g d of (es', h) \<Rightarrow> (es @ es', h))"
proof (cases "fr_state f = Failed")
  case True
  then show ?thesis using assms by (auto simp: framer_push_def)
next
  case False
  then have r: "framer_drain (fr_feed f c) = (es, g)" using assms by (simp add: framer_push_def)
  have "framer_drain (fr_feed f (c @ d)) = (if fr_state g = Failed then (es, g)
      else (case framer_drain (fr_feed g d) of (es', u') \<Rightarrow> (es @ es', u')))"
    using fr.run_feed [OF _ r, of d] False by (simp add: fr.feed_feed)
  then show ?thesis using False by (simp add: framer_push_def)
qed

lemma framer_push_Nil: "fr_idle f \<Longrightarrow> framer_push f [] = ([], f)"
  by (auto simp: framer_push_def fr_idle_def fr_feed_def fr.run_stop)

lemma framer_push_all_idle:
  "fr_idle f \<Longrightarrow> framer_push_all f cs = framer_push f (concat cs)"
proof (induction cs arbitrary: f)
  case Nil
  then show ?case by (simp add: framer_push_Nil)
next
  case (Cons c cs)
  obtain es g where p: "framer_push f c = (es, g)" by fastforce
  then have "framer_push_all g cs = framer_push g (concat cs)"
    using Cons.IH framer_push_idle by blast
  then show ?case using framer_push_append [OF p, of "concat cs"] p by simp
qed

lemma framer_next_limit: "framer_next f = (eo, g) \<Longrightarrow> fr_maxFrameBytes g = fr_maxFrameBytes f"
  by (auto simp: framer_next_def nextHandshake_def nextPacket_def fr_consume_def Let_def
      split: if_splits imei_frame_result.splits sum.splits)

lemma framer_drain_limit: "fr_maxFrameBytes (snd (framer_drain f)) = fr_maxFrameBytes f"
proof (induction f rule: framer_drain.induct)
  case (1 f)
  then show ?case
    by (subst framer_drain.simps)
      (auto simp: fr_fail_def dest: framer_next_limit split: prod.splits option.splits)
qed

lemma framer_idle_bound:
  "framer_next f = (None, f) \<Longrightarrow> length (fr_buffer f) < max 17 (fr_maxFrameBytes f)"
  by (auto simp: framer_next_def nextHandshake_def nextPacket_def Let_def FRAME_HEADER_BYTES_def
      dest: tryParseImeiFrame_need_more split: if_splits imei_frame_result.splits sum.splits)

lemma framer_drain_failed_empty:
  "fr_state f \<noteq> Failed \<Longrightarrow> fr_state (snd (framer_drain f)) = Failed \<Longrightarrow>
     fr_buffer (snd (framer_drain f)) = []"
proof (induction f rule: framer_drain.induct)
  case (1 f)
  then show ?case
    by (subst framer_drain.simps, subst (asm) framer_drain.simps)
      (auto simp: fr_fail_def dest: framer_next_state fr.step_none split: prod.splits option.splits if_splits)
qed

text \<open>The grammar of one connection's events: the handshake, packets, at most one error at the end.\<close>

fun event_order :: "framer_state \<Rightarrow> framer_event list \<Rightarrow> bool" where
  "event_order st [] = True"
| "event_order AwaitingImei (EvImei imei # es) = (isValidImei imei \<and> event_order Streaming es)"
| "event_order AwaitingImei (EvError r d # es) = (r = InvalidImei \<and> es = [])"
| "event_order Streaming (EvPacket p # es) = event_order Streaming es"
| "event_order Streaming (EvError r d # es) = (r \<noteq> InvalidImei \<and> es = [])"
| "event_order st (e # es) = False"

lemma framer_next_order:
  assumes "framer_next f = (Some e, g)" "fr_state f \<noteq> Failed"
  shows "event_order (fr_state f) (e # es) \<longleftrightarrow>
    (if is_error_event e then es = [] else event_order (fr_state g) es)"
  using assms
  by (cases "fr_state f")
    (auto simp: framer_next_def nextHandshake_def nextPacket_def fr_consume_def Let_def
      dest: tryParseImeiFrame_ok_length split: if_splits imei_frame_result.splits sum.splits)

lemma framer_drain_order:
  "fr_state f \<noteq> Failed \<Longrightarrow> event_order (fr_state f) (fst (framer_drain f))"
proof (induction f rule: framer_drain.induct)
  case (1 f)
  obtain eo g where n: "framer_next f = (eo, g)" by fastforce
  show ?case
  proof (cases eo)
    case None
    then show ?thesis using n by (simp add: fr.run_stop)
  next
    case (Some e)
    show ?thesis
    proof (cases "is_error_event e")
      case True
      then show ?thesis
        using n Some 1(2) framer_next_order [of f e g "[]"] by (simp add: fr.run_fatal)
    next
      case False
      have "fr_state g \<noteq> Failed" using framer_next_state n Some False 1(2) by blast
      then have "event_order (fr_state g) (fst (framer_drain g))"
        using 1(1) n Some False by simp
      then show ?thesis
        using framer_next_order [of f e g] n Some False 1(2)
        by (cases "framer_drain g") (simp add: fr.run_more)
    qed
  qed
qed

lemma push_all_new:
  "framer_push_all (new_framer m) cs = framer_drain (fr_feed (new_framer m) (concat cs))"
  using framer_push_all_idle [OF new_framer_idle]
  by (simp add: framer_push_def) (simp add: new_framer_def)

text \<open>
  C11: the events a device's stream produces, and the state the framer ends in, do not depend on
  how TCP cut the stream into chunks: pushing any sequence of chunks one by one (from a new
  framer, or from any framer between two pushes) is the same as pushing their concatenation at
  once.
\<close>

theorem framer_chunking:
  assumes "fr_idle f"
  shows "framer_push_all f cs = framer_push f (concat cs)"
  using assms by (rule framer_push_all_idle)

theorem framer_chunking_witness:
  "framer_push_all (new_framer None) [[0x00], [0x0F, 0x41], []] =
     framer_push (new_framer None) [0x00, 0x0F, 0x41]"
  using framer_chunking [OF new_framer_idle, of None "[[0x00], [0x0F, 0x41], []]"] by simp

text \<open>
  C13: a device cannot make the framer buffer unbounded data. Whatever the peer sends and whatever
  lengths it declares, the bytes held between two chunks stay below the frame limit (or the 17
  bytes of the handshake), and a spent framer holds none.
\<close>

theorem framer_buffer_bounded:
  "let f = snd (framer_push_all (new_framer m) cs) in
     length (fr_buffer f) < max 17 (fr_maxFrameBytes (new_framer m)) \<and>
     (fr_state f \<noteq> Failed \<or> fr_buffer f = [])"
proof -
  let ?s = "fr_feed (new_framer m) (concat cs)"
  have ns: "fr_state ?s \<noteq> Failed" by (simp add: new_framer_def)
  obtain es g where r: "framer_drain ?s = (es, g)" by fastforce
  have lim: "fr_maxFrameBytes g = fr_maxFrameBytes (new_framer m)"
    using framer_drain_limit [of ?s] r by (simp add: fr_feed_def)
  have "fr_state g = Failed \<Longrightarrow> fr_buffer g = []"
    using framer_drain_failed_empty [OF ns] r by simp
  moreover have "fr_state g \<noteq> Failed \<Longrightarrow> length (fr_buffer g) < max 17 (fr_maxFrameBytes g)"
    using fr.run_result [OF _ r] ns framer_idle_bound by auto
  ultimately show ?thesis
    by (cases "fr_state g = Failed") (simp_all add: push_all_new r lim Let_def)
qed

theorem framer_buffer_bounded_witness:
  "length (fr_buffer (snd (framer_push_all (new_framer (Some 64)) [[0x00], [0x0F, 0x41]]))) < 64"
  using framer_buffer_bounded [of "Some 64" "[[0x00], [0x0F, 0x41]]"] by (simp add: Let_def new_framer_def)

text \<open>
  one connection's events always come in protocol order: first the IMEI handshake (with 15
  digits) or an \<open>invalid-imei\<close> error, then packets, and an error only as the very last event. In
  particular no packet is ever delivered before the handshake, which the ingest server calls
  unreachable.
\<close>

theorem framer_event_order:
  "event_order AwaitingImei (fst (framer_push_all (new_framer m) cs))"
  using framer_drain_order [of "fr_feed (new_framer m) (concat cs)"]
  by (simp add: push_all_new) (simp add: new_framer_def)

end
