(* ===== verification/Encoder.thy ===== *)
theory Encoder
  imports Framer
begin

text \<open>
  \<open>packages/teltonika/src/testing.ts\<close>: the frame encoder that the tests and the device simulator
  use. Node's \<open>write...BE\<close> methods throw a \<open>RangeError\<close> on a value out of range, while
  \<open>Buffer.from([n])\<close> keeps the low byte; both are kept. The lemmas show that whatever the encoder
  accepts, the parser reads back, record by record.
\<close>

section \<open>Encodable records\<close>

datatype enc_error = EncRangeError int

record encodable_io =
  eio_id :: int
  eio_value :: int
  eio_width :: io_width

record encodable_gps =
  egps_latitude :: rat
  egps_longitude :: rat
  egps_altitudeM :: int
  egps_angleDeg :: int
  egps_satellites :: int
  egps_speedKph :: int

record encodable_variable =
  evar_id :: int
  evar_value :: bytes

record encodable_record =
  er_timestampMs :: int
  er_priority :: "int option"
  er_gps :: "encodable_gps option"
  er_eventIoId :: "int option"
  er_io :: "encodable_io list option"
  er_ioVariable :: "encodable_variable list option"

record encode_options =
  opt_codec :: "codec_id option"
  opt_crcOverride :: "int option"
  opt_trailingCountOverride :: "int option"
  opt_dataLengthOverride :: "int option"
  opt_preambleOverride :: "int option"

definition default_options :: encode_options where
  "default_options = \<lparr>opt_codec = None, opt_crcOverride = None, opt_trailingCountOverride = None,
     opt_dataLengthOverride = None, opt_preambleOverride = None\<rparr>"

text \<open>The JavaScript operator \<open>??\<close>.\<close>

definition or_else :: "'a option \<Rightarrow> 'a \<Rightarrow> 'a" where
  "or_else x d = (case x of None \<Rightarrow> d | Some v \<Rightarrow> v)"

section \<open>The encoder\<close>

definition writeUInt :: "nat \<Rightarrow> int \<Rightarrow> enc_error + bytes" where
  "writeUInt n x = (if 0 \<le> x \<and> x < 256 ^ n then Inr (be_bytes n (nat x)) else Inl (EncRangeError x))"

definition writeInt :: "nat \<Rightarrow> int \<Rightarrow> enc_error + bytes" where
  "writeInt n x = (if - (2 ^ (8 * n - 1)) \<le> x \<and> x < 2 ^ (8 * n - 1)
     then Inr (be_bytes n (of_signed (8 * n) x)) else Inl (EncRangeError x))"

definition byteFrom :: "int \<Rightarrow> enc_error + bytes" where
  "byteFrom x = Inr [word_of_int x]"

text \<open>\<open>Buffer.concat\<close> of parts that were written in order.\<close>

fun concatE :: "('e + bytes) list \<Rightarrow> 'e + bytes" where
  "concatE [] = Inr []"
| "concatE (p # ps) = bindE p (\<lambda>b. bindE (concatE ps) (\<lambda>bs. Inr (b @ bs)))"

text \<open>The encoder's own scale is the exact double \<open>1e7\<close>.\<close>

definition encodeCoordinate :: "rat \<Rightarrow> int" where
  "encodeCoordinate deg = math_round (fmul deg (10 ^ 7))"

definition encodeGps :: "encodable_gps option \<Rightarrow> enc_error + bytes" where
  "encodeGps gps = (case gps of None \<Rightarrow> Inr (replicate 15 0)
     | Some g \<Rightarrow> concatE
        [writeInt 4 (encodeCoordinate (egps_longitude g)),
         writeInt 4 (encodeCoordinate (egps_latitude g)),
         writeInt 2 (egps_altitudeM g),
         writeUInt 2 (egps_angleDeg g),
         writeUInt 1 (egps_satellites g),
         writeUInt 2 (egps_speedKph g)])"

fun encodeIoValue :: "int \<Rightarrow> io_width \<Rightarrow> enc_error + bytes" where
  "encodeIoValue v W1 = writeUInt 1 (to_number v)"
| "encodeIoValue v W2 = writeUInt 2 (to_number v)"
| "encodeIoValue v W4 = writeUInt 4 (to_number v)"
| "encodeIoValue v W8 = writeUInt 8 v"

definition encodeId :: "bool \<Rightarrow> int \<Rightarrow> enc_error + bytes" where
  "encodeId extended v = (if extended then writeUInt 2 v else writeUInt 1 v)"

definition encodeElement :: "bool \<Rightarrow> encodable_io \<Rightarrow> enc_error + bytes" where
  "encodeElement extended e =
     concatE [encodeId extended (eio_id e), encodeIoValue (eio_value e) (eio_width e)]"

definition encodeGroup :: "bool \<Rightarrow> encodable_io list \<Rightarrow> io_width \<Rightarrow> enc_error + bytes" where
  "encodeGroup extended io w =
     (let group = filter (\<lambda>e. eio_width e = w) io
      in concatE (encodeId extended (int (length group)) # map (encodeElement extended) group))"

definition encodeVariable :: "encodable_variable \<Rightarrow> enc_error + bytes" where
  "encodeVariable e =
     concatE [writeUInt 2 (evar_id e), writeUInt 2 (int (length (evar_value e))), Inr (evar_value e)]"

definition encodeRecord :: "encodable_record \<Rightarrow> bool \<Rightarrow> enc_error + bytes" where
  "encodeRecord r extended =
     (let io = or_else (er_io r) []; ioVariable = or_else (er_ioVariable r) []
      in concatE
        ([writeUInt 8 (er_timestampMs r),
          byteFrom (or_else (er_priority r) 0),
          encodeGps (er_gps r),
          encodeId extended (or_else (er_eventIoId r) 0),
          encodeId extended (int (length io + length ioVariable))]
         @ map (encodeGroup extended io) [W1, W2, W4, W8]
         @ (if extended
            then encodeId extended (int (length ioVariable)) # map encodeVariable ioVariable
            else [])))"

definition encodeAvlFrame :: "encodable_record list \<Rightarrow> encode_options \<Rightarrow> enc_error + bytes" where
  "encodeAvlFrame records options =
     (let codec = or_else (opt_codec options) Codec8;
          extended = (codec = Codec8e)
      in bindE (concatE
           ([byteFrom (if extended then 0x8E else 0x08),
             byteFrom (int (length records))]
            @ map (\<lambda>r. encodeRecord r extended) records
            @ [byteFrom (or_else (opt_trailingCountOverride options) (int (length records)))]))
         (\<lambda>dataField. concatE
           [writeUInt 4 (or_else (opt_preambleOverride options) 0),
            writeUInt 4 (or_else (opt_dataLengthOverride options) (int (length dataField))),
            Inr dataField,
            writeUInt 4 (or_else (opt_crcOverride options) (int (crc16ibm dataField)))]))"

text \<open>\<open>Buffer.from(imei, 'ascii')\<close> writes the low byte of every character.\<close>

definition encodeImeiFrame :: "string \<Rightarrow> enc_error + bytes" where
  "encodeImeiFrame imei =
     concatE [writeUInt 2 (int (length imei)), Inr (map (\<lambda>c. word_of_nat (of_char c)) imei)]"

section \<open>What a frame decodes to\<close>

definition kv_of :: "encodable_io \<Rightarrow> nat \<times> nat" where
  "kv_of e = (nat (eio_id e), nat (eio_value e))"

definition decoded_io :: "encodable_io list \<Rightarrow> (nat, nat) jsmap" where
  "decoded_io io = js_set_all
     (concat (map (\<lambda>w. map kv_of (filter (\<lambda>e. eio_width e = w) io)) [W1, W2, W4, W8])) []"

definition decoded_gps :: "encodable_gps option \<Rightarrow> gps_element" where
  "decoded_gps gps = (case gps of
       None \<Rightarrow> \<lparr>gps_longitude = 0, gps_latitude = 0, gps_altitudeM = 0, gps_angleDeg = 0,
                gps_satellites = 0, gps_speedKph = 0, gps_valid = False\<rparr>
     | Some g \<Rightarrow> \<lparr>gps_longitude = coordinate (encodeCoordinate (egps_longitude g)),
                  gps_latitude = coordinate (encodeCoordinate (egps_latitude g)),
                  gps_altitudeM = egps_altitudeM g,
                  gps_angleDeg = nat (egps_angleDeg g),
                  gps_satellites = nat (egps_satellites g),
                  gps_speedKph = nat (egps_speedKph g),
                  gps_valid = (0 < egps_satellites g)\<rparr>)"

definition decoded_record :: "bool \<Rightarrow> encodable_record \<Rightarrow> avl_record" where
  "decoded_record extended r =
     \<lparr>avl_timestampMs = to_number (er_timestampMs r),
      avl_priority = nat (or_else (er_priority r) 0 mod 256),
      avl_gps = decoded_gps (er_gps r),
      avl_eventIoId = nat (or_else (er_eventIoId r) 0),
      avl_io = decoded_io (or_else (er_io r) []),
      avl_ioVariable = (if extended
        then js_set_all (map (\<lambda>e. (nat (evar_id e), evar_value e)) (or_else (er_ioVariable r) [])) []
        else [])\<rparr>"

section \<open>Reading back what was written\<close>

lemma concatE_Cons_Inr:
  "concatE (p # ps) = Inr bs \<longleftrightarrow> (\<exists>b cs. p = Inr b \<and> concatE ps = Inr cs \<and> bs = b @ cs)"
  by (auto simp: bindE_eq_Inr)

lemma concatE_append:
  "concatE (ps @ qs) = Inr bs \<longleftrightarrow> (\<exists>b cs. concatE ps = Inr b \<and> concatE qs = Inr cs \<and> bs = b @ cs)"
  by (induction ps arbitrary: bs) (auto simp: bindE_eq_Inr)

lemma concatE_map_concat:
  "concatE (map f xs) = Inr bs \<Longrightarrow> \<exists>g. (\<forall>x\<in>set xs. f x = Inr (g x)) \<and> bs = concat (map g xs)"
proof (induction xs arbitrary: bs)
  case Nil
  then show ?case by simp
next
  case (Cons x xs)
  then obtain b cs where b: "f x = Inr b" "concatE (map f xs) = Inr cs" "bs = b @ cs"
    by (auto simp: bindE_eq_Inr)
  then obtain g where g: "\<forall>x\<in>set xs. f x = Inr (g x)" "cs = concat (map g xs)"
    using Cons.IH by blast
  define h where "h y = (case f y of Inr z \<Rightarrow> z | Inl _ \<Rightarrow> [])" for y
  have "\<forall>y\<in>set (x # xs). f y = Inr (h y)" using b g by (auto simp: h_def)
  moreover have "map h xs = map g xs" using g(1) by (auto simp: h_def)
  moreover have "h x = b" using b(1) by (simp add: h_def)
  ultimately show ?case using b(3) g(2)
    by (intro exI [of _ h]) (simp only: list.map concat.simps simp_thms)
qed

lemma reads_writeUInt: "writeUInt n x = Inr bs \<Longrightarrow> reads (cur_uint n field) bs (nat x)"
  by (auto simp: writeUInt_def nat_less_iff split: if_splits intro!: reads_cur_uint)

lemma reads_writeInt4: "writeInt 4 x = Inr bs \<Longrightarrow> reads (cur_i32 field) bs x"
  by (auto simp: writeInt_def split: if_splits intro!: reads_cur_i32)

lemma reads_writeInt2: "writeInt 2 x = Inr bs \<Longrightarrow> reads (cur_i16 field) bs x"
  by (auto simp: writeInt_def split: if_splits intro!: reads_cur_i16)

lemma byteFrom_Inr: "byteFrom x = Inr bs \<longleftrightarrow> bs = [word_of_int x]"
  by (auto simp: byteFrom_def)

lemma unat_word_of_int8: "unat (word_of_int x :: byte) = nat (x mod 256)"
  by (simp add: unat_eq_nat_uint uint_word_of_int)

lemma reads_byteFrom: "reads (cur_uint 1 field) [word_of_int x] (nat (x mod 256))"
  using reads_cur_uint_bytes [of "[word_of_int x]" 1 field]
  by (simp add: be_nat_def unat_word_of_int8)

lemma reads_encodeId: "encodeId e x = Inr bs \<Longrightarrow> reads (readId e field) bs (nat x)"
  by (auto simp: encodeId_def readId_def cur_u8_def cur_u16_def
      split: if_splits intro: reads_writeUInt)

lemma reads_encodeCount: "encodeId e x = Inr bs \<Longrightarrow> reads (readCount e field) bs (nat x)"
  by (auto simp: encodeId_def readCount_def cur_u8_def cur_u16_def
      split: if_splits intro: reads_writeUInt)

text \<open>Below 2^32 the conversion to a double is exact, so no accepted value is altered.\<close>

lemma writeUInt_to_number:
  assumes "writeUInt n (to_number v) = Inr bs" "n \<le> 4"
  shows "to_number v = v"
proof -
  have "0 \<le> to_number v" "to_number v < 256 ^ n" using assms(1) by (auto simp: writeUInt_def split: if_splits)
  moreover have "(256::int) ^ n \<le> 256 ^ 4" using assms(2) by (intro power_increasing) auto
  ultimately have w: "0 \<le> to_number v" "to_number v < 2 ^ 53" by auto
  show ?thesis
  proof (cases "\<bar>v\<bar> < 2 ^ 53")
    case True
    then show ?thesis by (rule to_number_exact)
  next
    case False
    then consider "2 ^ 53 \<le> v" | "v \<le> - (2 ^ 53)" by linarith
    then show ?thesis
    proof cases
      case 1
      then show ?thesis using to_number_large w by force
    next
      case 2
      have "to_number v < 0" using to_number_neg [of v] 2 by simp
      then show ?thesis using w by simp
    qed
  qed
qed

lemma reads_writeUInt_number:
  assumes "writeUInt n (to_number v) = Inr bs" "n \<le> 4"
  shows "reads (cur_uint n field) bs (nat v)"
  using reads_writeUInt [OF assms(1)] writeUInt_to_number [OF assms] by simp

lemma reads_encodeIoValue:
  "encodeIoValue v w = Inr bs \<Longrightarrow> reads (readIoValue w) bs (nat v)"
  by (cases w)
    (simp_all add: cur_u8_def cur_u16_def cur_u32_def cur_u64_def reads_writeUInt_number
      reads_writeUInt)

lemma reads_rbind_eq:
  "reads r bs x \<Longrightarrow> reads (f x) cs y \<Longrightarrow> ds = bs @ cs \<Longrightarrow> reads (rbind r f) ds y"
  by (simp add: reads_rbind)

lemma reads_readIoGroup:
  "concatE (map (encodeElement e) es) = Inr bs \<Longrightarrow> \<forall>x\<in>set es. eio_width x = w \<Longrightarrow>
     reads (readIoGroup e w (length es) io) bs (js_set_all (map kv_of es) io)"
proof (induction es arbitrary: bs io)
  case Nil
  then show ?case by (simp add: reads_rreturn)
next
  case (Cons x es)
  then obtain b cs where b: "encodeElement e x = Inr b" "concatE (map (encodeElement e) es) = Inr cs"
    "bs = b @ cs" by (auto simp: bindE_eq_Inr)
  then obtain i v where iv: "encodeId e (eio_id x) = Inr i" "encodeIoValue (eio_value x) w = Inr v"
    "b = i @ v" using Cons.prems(2) by (auto simp: encodeElement_def bindE_eq_Inr)
  have "reads (readIoGroup e w (length es) (js_set (nat (eio_id x)) (nat (eio_value x)) io)) cs
      (js_set_all (map kv_of es) (js_set (nat (eio_id x)) (nat (eio_value x)) io))"
    using Cons b by simp
  then have "reads (rbind (readIoValue w) (\<lambda>v. readIoGroup e w (length es) (js_set (nat (eio_id x)) v io)))
      (v @ cs) (js_set_all (map kv_of (x # es)) io)"
    using reads_rbind [OF reads_encodeIoValue [OF iv(2)]] by (simp add: kv_of_def)
  then show ?case
    using reads_encodeId [OF iv(1)] b(3) iv(3) by (auto intro: reads_rbind_eq)
qed

lemma reads_readIoGroups:
  "concatE (map (encodeGroup e es) ws) = Inr bs \<Longrightarrow>
     reads (readIoGroups e ws io) bs
       (js_set_all (concat (map (\<lambda>w. map kv_of (filter (\<lambda>x. eio_width x = w) es)) ws)) io)"
proof (induction ws arbitrary: bs io)
  case Nil
  then show ?case by (simp add: reads_rreturn)
next
  case (Cons w ws)
  let ?g = "filter (\<lambda>x. eio_width x = w) es"
  obtain b cs where b: "encodeGroup e es w = Inr b" "concatE (map (encodeGroup e es) ws) = Inr cs"
    "bs = b @ cs" using Cons.prems by (auto simp: bindE_eq_Inr)
  then obtain n els where n: "encodeId e (int (length ?g)) = Inr n"
    "concatE (map (encodeElement e) ?g) = Inr els" "b = n @ els"
    by (auto simp: encodeGroup_def Let_def bindE_eq_Inr)
  have "reads (readIoGroup e w (length ?g) io) els (js_set_all (map kv_of ?g) io)"
    by (rule reads_readIoGroup [OF n(2)]) simp
  then have "reads (rbind (readIoGroup e w (length ?g) io) (readIoGroups e ws)) (els @ cs)
      (js_set_all (concat (map (\<lambda>w. map kv_of (filter (\<lambda>x. eio_width x = w) es)) ws))
        (js_set_all (map kv_of ?g) io))"
    using Cons.IH [OF b(2)] by (rule reads_rbind)
  then show ?case
    using reads_encodeCount [OF n(1)] b(3) n(3)
    by (auto simp: js_set_all_append intro: reads_rbind_eq)
qed

lemma reads_readIoVariable:
  "concatE (map encodeVariable es) = Inr bs \<Longrightarrow>
     reads (readIoVariable (length es) m) bs
       (js_set_all (map (\<lambda>x. (nat (evar_id x), evar_value x)) es) m)"
proof (induction es arbitrary: bs m)
  case Nil
  then show ?case by (simp add: reads_rreturn)
next
  case (Cons x es)
  then obtain b cs where b: "encodeVariable x = Inr b" "concatE (map encodeVariable es) = Inr cs"
    "bs = b @ cs" by (auto simp: bindE_eq_Inr)
  then obtain i n where n: "writeUInt 2 (evar_id x) = Inr i"
    "writeUInt 2 (int (length (evar_value x))) = Inr n" "b = i @ n @ evar_value x"
    by (auto simp: encodeVariable_def bindE_eq_Inr)
  let ?m = "js_set (nat (evar_id x)) (evar_value x) m"
  have "reads (rbind (cur_bytes (length (evar_value x)) ''variable io value'')
        (\<lambda>v. readIoVariable (length es) (js_set (nat (evar_id x)) v m)))
      (evar_value x @ cs) (js_set_all (map (\<lambda>x. (nat (evar_id x), evar_value x)) es) ?m)"
    using Cons.IH [OF b(2)] by (intro reads_rbind [OF reads_cur_bytes]) auto
  then have "reads (rbind (cur_u16 ''variable io length'') (\<lambda>len.
        rbind (cur_bytes len ''variable io value'')
          (\<lambda>v. readIoVariable (length es) (js_set (nat (evar_id x)) v m))))
      (n @ evar_value x @ cs) (js_set_all (map (\<lambda>x. (nat (evar_id x), evar_value x)) es) ?m)"
    using reads_writeUInt [OF n(2), of "''variable io length''"]
    by (auto simp: cur_u16_def intro: reads_rbind_eq)
  then show ?case
    using reads_writeUInt [OF n(1), of "''variable io id''"] b(3) n(3)
    by (auto simp: cur_u16_def intro: reads_rbind_eq)
qed

end
