(* ===== verification/Wire_Roundtrip.thy ===== *)
theory Wire_Roundtrip
  imports Encoder
begin

text \<open>
  What the encoder of \<open>testing.ts\<close> and the decoder of \<open>avl.ts\<close> promise together: a frame decodes to
  the records it was made of, coordinates survive the two scalings exactly, and a frame damaged
  in transit is reported as \<open>CrcBad\<close> and never interpreted.
\<close>

section \<open>Records and data fields\<close>

lemma coordinate_0 [simp]: "coordinate 0 = 0"
  by (simp add: coordinate_def fmul_def)

lemma be_bytes_0: "be_bytes n 0 = replicate n 0"
  by (induction n) (auto simp: replicate_append_same)

lemma write_0: "writeInt n 0 = Inr (replicate n 0)" "writeUInt n 0 = Inr (replicate n 0)"
  by (simp_all add: writeInt_def writeUInt_def of_signed_def be_bytes_0)

lemma encodeGps_fields:
  assumes "encodeGps gps = Inr bs"
  obtains lon lat alt ang sat spd b1 b2 b3 b4 b5 b6 where
    "writeInt 4 lon = Inr b1" "writeInt 4 lat = Inr b2" "writeInt 2 alt = Inr b3"
    "writeUInt 2 ang = Inr b4" "writeUInt 1 sat = Inr b5" "writeUInt 2 spd = Inr b6"
    "bs = b1 @ b2 @ b3 @ b4 @ b5 @ b6"
    "decoded_gps gps = \<lparr>gps_longitude = coordinate lon, gps_latitude = coordinate lat,
       gps_altitudeM = alt, gps_angleDeg = nat ang, gps_satellites = nat sat,
       gps_speedKph = nat spd, gps_valid = (0 < nat sat)\<rparr>"
proof (cases gps)
  case None
  have bs: "bs = replicate 4 0 @ replicate 4 0 @ replicate 2 0 @ replicate 2 0 @ replicate 1 0
      @ replicate 2 0"
    using assms None by (simp add: encodeGps_def numeral_eq_Suc)
  show ?thesis
    by (rule that [OF write_0(1) write_0(1) write_0(1) write_0(2) write_0(2) write_0(2) bs])
      (simp add: None decoded_gps_def)
next
  case (Some g)
  then show ?thesis
    using assms that unfolding encodeGps_def
    by (auto simp: bindE_eq_Inr decoded_gps_def)
qed

lemma reads_readRecord:
  assumes "encodeRecord r e = Inr bs"
  shows "reads (readRecord e) bs (decoded_record e r)"
proof -
  let ?io = "or_else (er_io r) []" and ?iv = "or_else (er_ioVariable r) []"
  obtain ts gps ev cnt groups var where p:
    "writeUInt 8 (er_timestampMs r) = Inr ts"
    "encodeGps (er_gps r) = Inr gps"
    "encodeId e (or_else (er_eventIoId r) 0) = Inr ev"
    "encodeId e (int (length ?io + length ?iv)) = Inr cnt"
    "concatE (map (encodeGroup e ?io) [W1, W2, W4, W8]) = Inr groups"
    "concatE (if e then encodeId e (int (length ?iv)) # map encodeVariable ?iv else []) = Inr var"
    "bs = ts @ [word_of_int (or_else (er_priority r) 0)] @ gps @ ev @ cnt @ groups @ var"
    using assms unfolding encodeRecord_def Let_def concatE_append concatE_Cons_Inr byteFrom_def
    by fastforce
  obtain lon lat alt ang sat spd b1 b2 b3 b4 b5 b6 where g:
    "writeInt 4 lon = Inr b1" "writeInt 4 lat = Inr b2" "writeInt 2 alt = Inr b3"
    "writeUInt 2 ang = Inr b4" "writeUInt 1 sat = Inr b5" "writeUInt 2 spd = Inr b6"
    "gps = b1 @ b2 @ b3 @ b4 @ b5 @ b6"
    "decoded_gps (er_gps r) = \<lparr>gps_longitude = coordinate lon, gps_latitude = coordinate lat,
       gps_altitudeM = alt, gps_angleDeg = nat ang, gps_satellites = nat sat,
       gps_speedKph = nat spd, gps_valid = (0 < nat sat)\<rparr>"
    by (rule encodeGps_fields [OF p(2)]) (rule that)
  let ?vm = "if e then js_set_all (map (\<lambda>x. (nat (evar_id x), evar_value x)) ?iv) [] else []"
  have v: "reads (if e then rbind (readCount e ''variable io count'') (\<lambda>count. readIoVariable count [])
      else rreturn []) var ?vm"
    using p(6) by (auto simp: bindE_eq_Inr reads_rreturn
        intro!: reads_rbind reads_encodeCount [where x = "int (length ?iv)", simplified] reads_readIoVariable)
  have rd: "decoded_record e r = \<lparr>avl_timestampMs = to_number (int (nat (er_timestampMs r))),
      avl_priority = nat (or_else (er_priority r) 0 mod 256),
      avl_gps = decoded_gps (er_gps r),
      avl_eventIoId = nat (or_else (er_eventIoId r) 0), avl_io = decoded_io ?io, avl_ioVariable = ?vm\<rparr>"
    using p(1) by (auto simp: decoded_record_def writeUInt_def split: if_splits)
  have bs: "bs = ts @ [word_of_int (or_else (er_priority r) 0)] @ b1 @ b2 @ b3 @ b4 @ b5 @ b6 @ ev
      @ cnt @ groups @ var @ []"
    using p(7) g(7) by simp
  show ?thesis
    unfolding bs rd g(8) readRecord_def decoded_io_def cur_u64_def cur_u8_def cur_u16_def
    by (rule reads_rbind reads_rreturn reads_writeUInt [OF p(1)] reads_byteFrom
        reads_writeInt4 [OF g(1)] reads_writeInt4 [OF g(2)] reads_writeInt2 [OF g(3)]
        reads_writeUInt [OF g(4)] reads_writeUInt [OF g(5)] reads_writeUInt [OF g(6)]
        reads_encodeId [OF p(3)] reads_encodeCount [OF p(4)] reads_readIoGroups [OF p(5)] v)+
qed

interpretation record_format: wire_format "\<lambda>r. projr (encodeRecord r e)" "readRecord e"
  "\<lambda>r. \<exists>bs. encodeRecord r e = Inr bs" "decoded_record e" for e
  by unfold_locales (auto intro: reads_readRecord)

definition codec_byte :: "codec_id \<Rightarrow> byte" where
  "codec_byte c = (if c = Codec8e then 0x8E else 0x08)"

lemma reads_codec_byte:
  "reads (cur_uint 1 field) [codec_byte c] (if c = Codec8e then CODEC_8_EXTENDED else CODEC_8)"
  using reads_cur_uint_bytes [of "[codec_byte c]" 1 field]
  by (simp add: codec_byte_def be_nat_def CODEC_8_def CODEC_8_EXTENDED_def split: if_splits)

lemma toCodecId_byte: "toCodecId (if c = Codec8e then CODEC_8_EXTENDED else CODEC_8) = Inr c"
  by (cases c) (simp_all add: toCodecId_def CODEC_8_def CODEC_8_EXTENDED_def)

lemma reads_byteFrom_count:
  "n < 256 \<Longrightarrow> reads (cur_uint 1 field) [word_of_int (int n)] n"
  using reads_byteFrom [of field "int n"] by (simp add: nat_mod_as_int)

lemma reads_readDataField:
  assumes "concatE (map (\<lambda>r. encodeRecord r (c = Codec8e)) rs) = Inr bs" "length rs < 256"
  shows "reads readDataField ([codec_byte c] @ [word_of_int (int (length rs))] @ bs
      @ [word_of_int (int (length rs))]) (c, map (decoded_record (c = Codec8e)) rs)"
proof -
  let ?e = "c = Codec8e"
  let ?n = "[word_of_int (int (length rs))] :: bytes"
  obtain g where g: "\<forall>r\<in>set rs. encodeRecord r ?e = Inr (g r)" "bs = concat (map g rs)"
    using concatE_map_concat [OF assms(1)] by blast
  have "map (\<lambda>r. projr (encodeRecord r ?e)) rs = map g rs" using g(1) by simp
  then have "bs = concat (map (\<lambda>r. projr (encodeRecord r ?e)) rs)" using g(2) by (simp only:)
  then have rr: "reads (read_n (length rs) (readRecord ?e)) bs (map (decoded_record ?e) rs)"
    using record_format.read_n_concat [of rs ?e] g(1) by blast
  have tail: "reads (rbind (cur_uint 1 ''trailing record count'') (\<lambda>t.
      if t \<noteq> length rs then rfail (CountMismatch (length rs) t)
      else rreturn (c, map (decoded_record ?e) rs))) (?n @ []) (c, map (decoded_record ?e) rs)"
    by (rule reads_rbind [OF reads_byteFrom_count [OF assms(2)]]) (simp add: reads_rreturn)
  have codec: "reads (case toCodecId (if c = Codec8e then CODEC_8_EXTENDED else CODEC_8) of
      Inl e \<Rightarrow> rfail e | Inr codec \<Rightarrow> rreturn codec) [] c"
    by (simp only: toCodecId_byte sum.case reads_rreturn)
  have "reads readDataField ([codec_byte c] @ [] @ ?n @ bs @ ?n @ []) (c, map (decoded_record ?e) rs)"
    unfolding readDataField_def cur_u8_def
    by (rule reads_rbind, rule reads_codec_byte, rule reads_rbind [OF codec], rule reads_rbind,
        rule reads_byteFrom_count [OF assms(2)], rule reads_rbind [OF rr], rule tail)
  then show ?thesis by simp
qed

section \<open>Frames\<close>

lemma crc16ibm_bound: "crc16ibm bs < 2 ^ 16"
proof -
  have "foldl crc_byte 0 bs AND 0xFFFF \<le> (0xFFFF :: 32 word)" by (rule word_and_le1)
  then show ?thesis unfolding crc16ibm_def by (simp add: word_le_nat_alt)
qed

text \<open>A frame on the wire around a data field and a checksum, and what the parser makes of it.\<close>

definition wire_frame :: "bytes \<Rightarrow> nat \<Rightarrow> bytes" where
  "wire_frame dataField crc = be_bytes 4 0 @ be_bytes 4 (length dataField) @ dataField @ be_bytes 4 crc"

lemma parse_frame_parts:
  assumes "length h = 4" "be_nat h = 0" "length l = 4" "be_nat l = length df" "length k = 4"
  shows "parseAvlPacket (h @ l @ df @ k @ rest) =
    (if be_nat k \<noteq> crc16ibm df then Inr (CrcBad (be_nat k) (crc16ibm df))
     else bindE (readDataField (new_cursor df)) (\<lambda>((codec, records), _). Inr (CrcOk codec records)))"
proof -
  let ?f = "h @ l @ df @ k @ rest"
  have c1: "cur_u32 ''preamble'' (new_cursor ?f) = Inr (0, \<lparr>cur_buf = ?f, cur_offset = 4\<rparr>)"
    using reads_new_cursor [OF reads_cur_uint_bytes [OF assms(1)]] assms(1,2)
    by (simp add: cur_u32_def)
  have c2: "cur_u32 ''data field length'' \<lparr>cur_buf = ?f, cur_offset = 4\<rparr>
      = Inr (length df, \<lparr>cur_buf = ?f, cur_offset = 8\<rparr>)"
    using readsD [OF reads_cur_uint_bytes [OF assms(3)], of _ h "df @ k @ rest"] assms(1,3,4)
    by (simp add: cur_u32_def)
  have "subarray ?f 8 (8 + length df) = df"
    using subarray_mid [of "h @ l" df "k @ rest"] assms(1,3) by simp
  moreover have "subarray ?f (8 + length df) (8 + length df + 4) = k"
    using subarray_mid [of "h @ l @ df" k rest] assms(1,3,5) by (simp add: add.assoc)
  moreover have "length ?f \<ge> 8 + length df + 4" using assms by simp
  ultimately show ?thesis
    by (simp add: parseAvlPacket_def c1 c2 FRAME_CRC_BYTES_def Let_def)
qed

lemma parse_wire_frame:
  assumes "length df < 2 ^ 32" "crc < 2 ^ 32"
  shows "parseAvlPacket (wire_frame df crc) =
    (if crc \<noteq> crc16ibm df then Inr (CrcBad crc (crc16ibm df))
     else bindE (readDataField (new_cursor df)) (\<lambda>((codec, records), _). Inr (CrcOk codec records)))"
  using parse_frame_parts [of "be_bytes 4 0" "be_bytes 4 (length df)" df "be_bytes 4 crc" "[]"] assms
  by (simp add: wire_frame_def be_nat_be_bytes)

text \<open>A frame whose records were returned has the parts the header declares and a matching checksum.\<close>

lemma parse_CrcOk_parts:
  assumes "parseAvlPacket frame = Inr (CrcOk c rs)"
  obtains h l df k rest where "frame = h @ l @ df @ k @ rest" "length h = 4" "be_nat h = 0"
    "length l = 4" "be_nat l = length df" "length k = 4" "be_nat k = crc16ibm df"
proof -
  define n where "n = be_nat (subarray frame 4 8)"
  let ?df = "subarray frame 8 (8 + n)"
  have p: "be_nat (subarray frame 0 4) = 0" "8 + n + 4 \<le> length frame"
    "be_nat (subarray frame (8 + n) (8 + n + 4)) = crc16ibm ?df"
    using assms
    by (auto simp: parseAvlPacket_def bindE_eq_Inr cur_u32_def cur_uint_def cur_take_def new_cursor_def
        n_def FRAME_CRC_BYTES_def Let_def split: if_splits)
  have "drop (8 + n) frame = take 4 (drop (8 + n) frame) @ drop (12 + n) frame"
    using append_take_drop_id [of 4 "drop (8 + n) frame"] by (simp add: add.commute)
  moreover have "drop 8 frame = take n (drop 8 frame) @ drop (8 + n) frame"
    using append_take_drop_id [of n "drop 8 frame"] by (simp add: add.commute)
  moreover have "drop 4 frame = take 4 (drop 4 frame) @ drop 8 frame"
    using append_take_drop_id [of 4 "drop 4 frame"] by simp
  moreover have "frame = take 4 frame @ drop 4 frame" by simp
  ultimately have "frame = take 4 frame @ take 4 (drop 4 frame) @ take n (drop 8 frame)
      @ take 4 (drop (8 + n) frame) @ drop (12 + n) frame" by metis
  moreover have "be_nat (take 4 frame) = 0" "be_nat (take 4 (drop 4 frame)) = n"
    "be_nat (take 4 (drop (8 + n) frame)) = crc16ibm (take n (drop 8 frame))"
    using p(1,3) n_def by (simp_all add: subarray_def)
  ultimately show ?thesis
    using p(2) by (intro that [of "take 4 frame" "take 4 (drop 4 frame)" "take n (drop 8 frame)"
      "take 4 (drop (8 + n) frame)" "drop (12 + n) frame"]) auto
qed

definition no_overrides :: "encode_options \<Rightarrow> bool" where
  "no_overrides opts \<longleftrightarrow> opt_crcOverride opts = None \<and> opt_trailingCountOverride opts = None \<and>
     opt_dataLengthOverride opts = None \<and> opt_preambleOverride opts = None"

lemma encodeAvlFrame_wire:
  assumes "encodeAvlFrame rs opts = Inr frame" "no_overrides opts"
  obtains bs df where
    "concatE (map (\<lambda>r. encodeRecord r (or_else (opt_codec opts) Codec8 = Codec8e)) rs) = Inr bs"
    "df = [codec_byte (or_else (opt_codec opts) Codec8)] @ [word_of_int (int (length rs))] @ bs
       @ [word_of_int (int (length rs))]"
    "frame = wire_frame df (crc16ibm df)" "length df < 2 ^ 32"
proof -
  let ?c = "or_else (opt_codec opts) Codec8"
  obtain bs df where p: "concatE (map (\<lambda>r. encodeRecord r (?c = Codec8e)) rs) = Inr bs"
    "df = [word_of_int (if ?c = Codec8e then 0x8E else 0x08)] @ [word_of_int (int (length rs))] @ bs
       @ [word_of_int (int (length rs))]"
    "concatE [writeUInt 4 0, writeUInt 4 (int (length df)), Inr df, writeUInt 4 (int (crc16ibm df))]
       = Inr frame"
    using assms unfolding encodeAvlFrame_def no_overrides_def Let_def bindE_eq_Inr concatE_append
      concatE_Cons_Inr byteFrom_def
    by (auto simp: or_else_def)
  have "df = [codec_byte ?c] @ [word_of_int (int (length rs))] @ bs @ [word_of_int (int (length rs))]"
    using p(2) by (simp add: codec_byte_def)
  moreover have "frame = wire_frame df (crc16ibm df)" "length df < 2 ^ 32"
    using p(3) by (auto simp: writeUInt_def wire_frame_def bindE_eq_Inr split: if_splits)
  ultimately show ?thesis using p(1) that by blast
qed

lemma parse_encoded:
  assumes "encodeAvlFrame rs opts = Inr frame" "no_overrides opts" "length rs < 256"
  shows "parseAvlPacket frame = (let c = or_else (opt_codec opts) Codec8
    in Inr (CrcOk c (map (decoded_record (c = Codec8e)) rs)))"
proof (rule encodeAvlFrame_wire [OF assms(1,2)])
  fix bs df
  let ?c = "or_else (opt_codec opts) Codec8"
  assume bs: "concatE (map (\<lambda>r. encodeRecord r (?c = Codec8e)) rs) = Inr bs"
    and df: "df = [codec_byte ?c] @ [word_of_int (int (length rs))] @ bs @ [word_of_int (int (length rs))]"
    and f: "frame = wire_frame df (crc16ibm df)" and l: "length df < 2 ^ 32"
  have "crc16ibm df < 2 ^ 32" using crc16ibm_bound [of df] by simp
  moreover have "readDataField (new_cursor df)
      = Inr ((?c, map (decoded_record (?c = Codec8e)) rs), \<lparr>cur_buf = df, cur_offset = length df\<rparr>)"
    using reads_new_cursor [OF reads_readDataField [OF bs assms(3)], of "[]"] by (simp add: df)
  ultimately show ?thesis by (simp add: f parse_wire_frame [OF l] Let_def)
qed

section \<open>Coordinates\<close>

text \<open>Composition of relative errors: one more rounding adds \<open>2^-53\<close>.\<close>

lemma rnd_relative:
  fixes q t c :: rat
  assumes "\<bar>q - t\<bar> \<le> \<bar>t\<bar> * c" "0 \<le> c" "2 powi (- 1022) \<le> \<bar>q\<bar>"
  shows "\<bar>rnd q - t\<bar> \<le> \<bar>t\<bar> * (c + 2 powi (- 53) * (1 + c))"
proof -
  have "\<bar>q\<bar> \<le> \<bar>t\<bar> + \<bar>t\<bar> * c" using assms(1) by linarith
  then have "\<bar>q\<bar> * 2 powi (- 53) \<le> (\<bar>t\<bar> + \<bar>t\<bar> * c) * 2 powi (- 53)" by (intro mult_right_mono) auto
  moreover have "\<bar>rnd q - t\<bar> \<le> \<bar>rnd q - q\<bar> + \<bar>q - t\<bar>" by linarith
  moreover note rnd_error [OF assms(3)] assms(1)
  ultimately have "\<bar>rnd q - t\<bar> \<le> (\<bar>t\<bar> + \<bar>t\<bar> * c) * 2 powi (- 53) + \<bar>t\<bar> * c" by linarith
  also have "\<dots> = \<bar>t\<bar> * (c + 2 powi (- 53) * (1 + c))" by (simp only: distrib_left distrib_right ac_simps mult_1_right)
  finally show ?thesis .
qed

lemma powi_small: "(2::rat) powi (- 1022) \<le> 1 / 2 ^ 60"
proof -
  have "(2::rat) powi (- 1022) \<le> 2 powi (- 60)" by (rule power_int_increasing) simp_all
  also have "(2::rat) powi (- 60) = 1 / 2 ^ 60" by (simp only: power_int_minus divide_inverse mult_1 power_int_numeral)
  finally show ?thesis .
qed

lemma powi_53: "(2::rat) powi (- 53) = 1 / 9007199254740992"
proof -
  have "(2::rat) powi (- 53) = inverse (2 ^ 53)" by (simp only: power_int_minus power_int_numeral)
  moreover have "(2::rat) ^ 53 = 9007199254740992" by simp
  ultimately show ?thesis by (simp only: divide_inverse mult_1)
qed

lemma normal_if:
  fixes q t c :: rat
  assumes "\<bar>q - t\<bar> \<le> \<bar>t\<bar> * c" "c \<le> 1 / 2" "1 / 2 ^ 59 \<le> \<bar>t\<bar>"
  shows "2 powi (- 1022) \<le> \<bar>q\<bar>"
proof -
  have "\<bar>t\<bar> * c \<le> \<bar>t\<bar> * (1 / 2)" using assms(2) by (intro mult_left_mono) auto
  then have "\<bar>t\<bar> / 2 \<le> \<bar>q\<bar>" using assms(1) by linarith
  moreover have "1 / 2 ^ 60 \<le> \<bar>t\<bar> / 2" using assms(3) by simp
  ultimately have "1 / 2 ^ 60 \<le> \<bar>q\<bar>" by (rule order_trans [rotated])
  with powi_small show ?thesis by (rule order_trans)
qed

lemma COORDINATE_SCALE_error: "\<bar>COORDINATE_SCALE - 1 / 10 ^ 7\<bar> \<le> 1 / 10 ^ 7 * 2 powi (- 53)"
  using rnd_error [of "1 / 10 ^ 7"] powi_small by (simp add: COORDINATE_SCALE_def)

lemma scale_error:
  fixes a b k c :: rat
  assumes "\<bar>a - b\<bar> \<le> \<bar>b\<bar> * c"
  shows "\<bar>k * a - k * b\<bar> \<le> \<bar>k * b\<bar> * c"
proof -
  have "\<bar>k * a - k * b\<bar> = \<bar>k\<bar> * \<bar>a - b\<bar>" by (simp only: right_diff_distrib [symmetric] abs_mult)
  also have "\<dots> \<le> \<bar>k\<bar> * (\<bar>b\<bar> * c)" using assms by (intro mult_left_mono) auto
  finally show ?thesis by (simp add: abs_mult mult.assoc)
qed

lemma coordinate_roundtrip:
  assumes "\<bar>raw\<bar> < 2 ^ 31"
  shows "encodeCoordinate (coordinate raw) = raw"
proof (cases "raw = 0")
  case True
  then show ?thesis using math_round_near [of 0 0] by (simp add: encodeCoordinate_def fmul_def)
next
  case False
  let ?u = "1 / 9007199254740992 :: rat"
  define t where "t = of_int raw * (1 / 10 ^ 7 :: rat)"
  define c1 where "c1 = ?u + ?u * (1 + ?u)"
  define c2 where "c2 = c1 + ?u * (1 + c1)"
  have c: "c1 \<le> 1 / 2" "0 \<le> c1" "c2 * 2 ^ 31 < 1 / 2" by (simp_all add: c1_def c2_def)
  have "1 \<le> \<bar>raw\<bar>" using False by linarith
  then have r1: "1 \<le> \<bar>of_int raw :: rat\<bar>" by linarith
  have t1: "1 / 2 ^ 59 \<le> \<bar>t\<bar>" using r1 by (simp add: t_def abs_mult)
  have e0: "\<bar>of_int raw * COORDINATE_SCALE - t\<bar> \<le> \<bar>t\<bar> * ?u"
    using scale_error [of COORDINATE_SCALE "1 / 10 ^ 7" ?u "of_int raw"] COORDINATE_SCALE_error
    by (simp add: t_def powi_53)
  have e1: "\<bar>coordinate raw - t\<bar> \<le> \<bar>t\<bar> * c1"
    using rnd_relative [OF e0 _ normal_if [OF e0 _ t1]]
    by (simp add: coordinate_def fmul_def powi_53 c1_def)
  have t7: "10 ^ 7 * t = of_int raw" by (simp add: t_def)
  have e2: "\<bar>10 ^ 7 * coordinate raw - of_int raw\<bar> \<le> \<bar>of_int raw\<bar> * c1"
    using scale_error [OF e1, of "10 ^ 7"] by (simp only: t7)
  have "1 / 2 ^ 59 \<le> \<bar>of_int raw :: rat\<bar>" using r1 by simp
  from rnd_relative [OF e2 c(2) normal_if [OF e2 c(1) this]]
  have e3: "\<bar>fmul (coordinate raw) (10 ^ 7) - of_int raw\<bar> \<le> \<bar>of_int raw\<bar> * c2"
    by (simp add: fmul_def powi_53 c2_def mult.commute)
  have "\<bar>of_int raw :: rat\<bar> \<le> 2 ^ 31"
  proof -
    have "\<bar>raw\<bar> \<le> 2 ^ 31" using assms by simp
    then have "(of_int \<bar>raw\<bar> :: rat) \<le> of_int (2 ^ 31)" by (rule of_int_le_iff [THEN iffD2])
    then show ?thesis by simp
  qed
  then have "\<bar>of_int raw :: rat\<bar> * c2 \<le> 2 ^ 31 * c2" by (rule mult_right_mono) (simp add: c1_def c2_def)
  then show ?thesis
    using e3 c(3) unfolding encodeCoordinate_def by (intro math_round_near) (simp only: mult.commute)
qed

section \<open>One connection\<close>

lemma and_7F: "unat (b AND 0x7F :: byte) = unat b mod 128"
proof -
  have "(0x7F :: byte) = mask 7" by (simp add: mask_eq_exp_minus_1)
  then have "b AND 0x7F = take_bit 7 b" by (simp add: take_bit_eq_mask)
  then show ?thesis by (simp only: unsigned_take_bit_eq) (simp add: take_bit_eq_mod)
qed

lemma ascii_char_of_digit: "is_digit c \<Longrightarrow> ascii_char (word_of_nat (of_char c)) = c"
proof -
  assume "is_digit c"
  then have "(of_char c :: nat) < 128" by (simp add: is_digit_def)
  then have "unat (word_of_nat (of_char c) AND 0x7F :: byte) = of_char c"
    by (simp add: and_7F unat_word8_of_nat)
  then show ?thesis by (simp add: ascii_char_def)
qed

lemma encodeImeiFrame_bytes:
  "isValidImei imei \<Longrightarrow>
     encodeImeiFrame imei = Inr (be_bytes 2 15 @ map (\<lambda>c. word_of_nat (of_char c)) imei)"
  by (simp add: encodeImeiFrame_def isValidImei_def IMEI_DIGITS_def writeUInt_def)

lemma tryParse_encoded:
  assumes "isValidImei imei" "encodeImeiFrame imei = Inr bs"
  shows "tryParseImeiFrame (bs @ rest) = ImeiOk imei 17" "length bs = 17"
proof -
  let ?ds = "map (\<lambda>c. word_of_nat (of_char c)) imei :: bytes"
  have bs: "bs = be_bytes 2 15 @ ?ds" using assms encodeImeiFrame_bytes by simp
  have l: "length imei = 15" "list_all is_digit imei"
    using assms(1) by (simp_all add: isValidImei_def IMEI_DIGITS_def)
  have "be_nat (subarray (bs @ rest) 0 2) = 15"
    using subarray_0_append [of "be_bytes 2 15" 2 "?ds @ rest"] by (simp add: bs be_nat_be_bytes)
  moreover have "subarray (bs @ rest) 2 17 = ?ds"
    using subarray_mid [of "be_bytes 2 15" ?ds rest] l by (simp add: bs)
  moreover have "map ascii_char ?ds = imei"
    using l(2) by (auto simp: list_all_iff ascii_char_of_digit intro!: map_idI)
  ultimately show "tryParseImeiFrame (bs @ rest) = ImeiOk imei 17" "length bs = 17"
    using assms(1) l
    by (simp_all add: tryParseImeiFrame_def Let_def LENGTH_PREFIX_BYTES_def IMEI_DIGITS_def bs)
qed

text \<open>A well-formed frame at the head of the buffer of a streaming framer is delivered at once.\<close>

lemma nextPacket_wire:
  assumes "length df < 2 ^ 32" "crc < 2 ^ 32" "length df + 12 \<le> m"
    "parseAvlPacket (wire_frame df crc) = Inr p"
  shows "framer_next \<lparr>fr_buffer = wire_frame df crc @ rest, fr_state = Streaming, fr_maxFrameBytes = m\<rparr>
    = (Some (EvPacket p), \<lparr>fr_buffer = rest, fr_state = Streaming, fr_maxFrameBytes = m\<rparr>)"
proof -
  let ?b = "wire_frame df crc @ rest"
  have l: "length (wire_frame df crc) = 8 + length df + 4" by (simp add: wire_frame_def)
  have "be_nat (subarray ?b 0 4) = 0"
    using subarray_0_append [of "be_bytes 4 0" 4] by (simp add: wire_frame_def be_nat_be_bytes)
  moreover have "be_nat (subarray ?b 4 8) = length df"
    using subarray_mid [of "be_bytes 4 0" "be_bytes 4 (length df)" "df @ be_bytes 4 crc @ rest"] assms(1)
    by (simp add: wire_frame_def be_nat_be_bytes)
  moreover have "subarray ?b 0 (8 + length df + 4) = wire_frame df crc"
    by (rule subarray_0_append) (rule l)
  ultimately show ?thesis
    using assms(3,4) l
    by (simp add: framer_next_def nextPacket_def Let_def FRAME_HEADER_BYTES_def FRAME_CRC_BYTES_def
        fr_consume_def)
qed

text \<open>The frames of a connection and the packets they stand for.\<close>

definition frame_of :: "encodable_record list \<times> encode_options \<Rightarrow> bytes" where
  "frame_of x = projr (encodeAvlFrame (fst x) (snd x))"

definition packet_of :: "encodable_record list \<times> encode_options \<Rightarrow> avl_packet" where
  "packet_of x = (let c = or_else (opt_codec (snd x)) Codec8
     in CrcOk c (map (decoded_record (c = Codec8e)) (fst x)))"

definition sendable :: "nat \<Rightarrow> encodable_record list \<times> encode_options \<Rightarrow> bool" where
  "sendable m x \<longleftrightarrow> (case encodeAvlFrame (fst x) (snd x) of Inl _ \<Rightarrow> False
     | Inr frame \<Rightarrow> no_overrides (snd x) \<and> length (fst x) < 256 \<and> length frame \<le> m)"

lemma framer_next_frame:
  assumes "sendable m x"
  shows "framer_next \<lparr>fr_buffer = frame_of x @ rest, fr_state = Streaming, fr_maxFrameBytes = m\<rparr>
    = (Some (EvPacket (packet_of x)), \<lparr>fr_buffer = rest, fr_state = Streaming, fr_maxFrameBytes = m\<rparr>)"
proof -
  from assms obtain frame where e: "encodeAvlFrame (fst x) (snd x) = Inr frame" "no_overrides (snd x)"
    "length (fst x) < 256" "length frame \<le> m" by (auto simp: sendable_def split: sum.splits)
  from encodeAvlFrame_wire [OF e(1,2)] obtain df where df: "frame = wire_frame df (crc16ibm df)"
    "length df < 2 ^ 32" by metis
  have "parseAvlPacket frame = Inr (packet_of x)"
    using parse_encoded [OF e(1-3)] by (simp add: packet_of_def Let_def)
  moreover have "crc16ibm df < 2 ^ 32" using crc16ibm_bound [of df] by simp
  moreover have "length df + 12 \<le> m" using e(4) df(1) by (simp add: wire_frame_def)
  ultimately show ?thesis
    using nextPacket_wire [OF df(2)] df(1) e(1) by (simp add: frame_of_def)
qed

lemma framer_drain_frames:
  "list_all (sendable m) xs \<Longrightarrow>
     framer_drain \<lparr>fr_buffer = concat (map frame_of xs), fr_state = Streaming, fr_maxFrameBytes = m\<rparr>
     = (map (\<lambda>x. EvPacket (packet_of x)) xs,
        \<lparr>fr_buffer = [], fr_state = Streaming, fr_maxFrameBytes = m\<rparr>)"
proof (induction xs)
  case Nil
  show ?case
    by (simp add: fr.run_stop framer_next_def nextPacket_def FRAME_HEADER_BYTES_def)
next
  case (Cons x xs)
  then show ?case using fr.run_more [OF framer_next_frame [of m x]] by simp
qed

section \<open>Properties of the wire format\<close>

text \<open>
  whatever records the encoder accepts, the decoder reads back: a frame built from up to 255
  records, in either codec, parses to a packet of that codec whose records are the given ones,
  field by field and in order (a missing GPS fix decodes to the invalid all-zero element, an IO
  id that occurs twice keeps its last value).
\<close>

theorem frame_roundtrip:
  assumes "encodeAvlFrame records options = Inr frame" "no_overrides options"
    and "length records < 256"
  shows "parseAvlPacket frame = (let codec = or_else (opt_codec options) Codec8
    in Inr (CrcOk codec (map (decoded_record (codec = Codec8e)) records)))"
  using assms by (rule parse_encoded)

definition sample_record :: encodable_record where
  "sample_record = \<lparr>er_timestampMs = 1700000000000, er_priority = Some 1, er_gps = None,
     er_eventIoId = Some 239,
     er_io = Some [\<lparr>eio_id = 239, eio_value = 1, eio_width = W1\<rparr>,
                   \<lparr>eio_id = 66, eio_value = 12700, eio_width = W2\<rparr>],
     er_ioVariable = None\<rparr>"

lemma to_number_12700: "to_number 12700 = 12700" "to_number 1 = 1"
  by (simp_all add: to_number_exact)

lemma sample_sendable: "sendable 8192 ([sample_record], default_options)"
  by (simp add: sendable_def no_overrides_def encodeAvlFrame_def sample_record_def default_options_def or_else_def encodeRecord_def
      encodeGroup_def encodeElement_def encodeId_def encodeGps_def byteFrom_def writeUInt_def
      to_number_12700 Let_def crc16ibm_bound [THEN less_trans] del: be_bytes.simps)

theorem frame_roundtrip_witness:
  "\<exists>frame. encodeAvlFrame [sample_record] default_options = Inr frame \<and>
     parseAvlPacket frame = Inr (CrcOk Codec8 [decoded_record False sample_record])"
proof -
  obtain frame where f: "encodeAvlFrame [sample_record] default_options = Inr frame"
    using sample_sendable by (auto simp: sendable_def split: sum.splits)
  have "no_overrides default_options" by (simp add: no_overrides_def default_options_def)
  from frame_roundtrip [OF f this] f show ?thesis by (simp add: or_else_def default_options_def)
qed

text \<open>
  a frame that was accepted and then damaged inside its data field, in any one or two
  neighbouring bytes, is reported as a checksum mismatch: no record of it is ever interpreted,
  so the server asks the device for a resend instead of publishing altered telemetry.
\<close>

theorem damaged_frame_detected:
  assumes "parseAvlPacket (pre @ [a1, a2] @ post) = Inr (CrcOk c rs)"
    and "8 \<le> length pre"
    and "length pre + 2 \<le> 8 + be_nat (subarray (pre @ [a1, a2] @ post) 4 8)"
    and "(a1, a2) \<noteq> (b1, b2)"
  shows "\<exists>declared computed. parseAvlPacket (pre @ [b1, b2] @ post) = Inr (CrcBad declared computed)"
proof -
  from parse_CrcOk_parts [OF assms(1)] obtain h l df k rest where
    f: "pre @ [a1, a2] @ post = h @ l @ df @ k @ rest" "length h = 4" "be_nat h = 0" "length l = 4"
      "be_nat l = length df" "length k = 4" "be_nat k = crc16ibm df" by blast
  have n: "length pre + 2 \<le> 8 + length df"
    using assms(3) subarray_mid [of h l "df @ k @ rest"] f by simp
  define p where "p = drop 8 pre"
  define s where "s = drop (length p + 2) df"
  have pre: "pre = h @ l @ p"
  proof -
    have "take 8 pre = take 8 (pre @ [a1, a2] @ post)" using assms(2) by simp
    also have "\<dots> = h @ l" using f by simp
    finally show ?thesis using append_take_drop_id [of 8 pre] by (simp add: p_def)
  qed
  then have pf: "p @ [a1, a2] @ post = df @ k @ rest" using f(1) by simp
  have ln: "length p + 2 \<le> length df" using n pre f(2,4) by simp
  have "take (length p + 2) (df @ k @ rest) = take (length p + 2) (p @ [a1, a2] @ post)" by (simp only: pf)
  then have "take (length p + 2) df = p @ [a1, a2]" using ln by simp
  then have df: "df = p @ [a1, a2] @ s"
    using append_take_drop_id [of "length p + 2" df] by (simp add: s_def)
  then have post: "post = s @ k @ rest" using pf by simp
  let ?d = "p @ [b1, b2] @ s"
  have "crc16ibm df \<noteq> crc16ibm ?d" unfolding df by (rule crc_burst [OF assms(4)])
  moreover have "pre @ [b1, b2] @ post = h @ l @ ?d @ k @ rest" by (simp add: pre post)
  ultimately show ?thesis
    using parse_frame_parts [of h l ?d k rest] f df by simp
qed

lemma empty_frame_parses:
  "parseAvlPacket ([0, 0, 0, 0, 0, 0, 0, 3] @ [8, 0] @ [0, 0, 0, 0xC2, 0x81]) = Inr (CrcOk Codec8 [])"
  using parse_frame_parts [of "[0, 0, 0, 0]" "[0, 0, 0, 3]" "[8, 0, 0]" "[0, 0, 0xC2, 0x81]" "[]"]
  by (simp add: crc_eval be_nat_def readDataField_def rbind_def cur_u8_def cur_uint_def cur_take_def
      cur_remaining_def new_cursor_def subarray_def toCodecId_def CODEC_8_def rreturn_def)

theorem damaged_frame_detected_witness:
  "\<exists>declared computed. parseAvlPacket ([0, 0, 0, 0, 0, 0, 0, 3] @ [8, 1] @ [0, 0, 0, 0xC2, 0x81])
     = Inr (CrcBad declared computed)"
  using damaged_frame_detected [OF empty_frame_parses, of 8 1]
  by (simp add: subarray_def be_nat_def)

text \<open>
  coordinates survive the wire exactly. The decoder multiplies the raw 32-bit value by
  \<open>1e-7\<close> and the encoder multiplies by \<open>1e7\<close> and rounds, both in double arithmetic; three
  roundings never move a value to another raw coordinate.
\<close>

theorem coordinate_exact:
  assumes "- (2 ^ 31) < raw" "raw < 2 ^ 31"
  shows "encodeCoordinate (coordinate raw) = raw"
  using assms by (intro coordinate_roundtrip) auto

theorem coordinate_exact_witness:
  "encodeCoordinate (coordinate 253000000) = 253000000"
  using coordinate_exact [of 253000000] by simp

text \<open>
  C12: one whole connection. However TCP cuts it, the stream of a handshake followed by any number
  of well-formed frames within the frame limit yields exactly the device's IMEI and the packets
  in order, with nothing lost, repeated or reported as an error.
\<close>

theorem connection_events:
  assumes "isValidImei imei" "encodeImeiFrame imei = Inr handshake" "list_all (sendable m) xs"
    and "concat chunks = handshake @ concat (map frame_of xs)"
  shows "fst (framer_push_all (new_framer (Some m)) chunks)
    = EvImei imei # map (\<lambda>x. EvPacket (packet_of x)) xs"
proof -
  let ?f = "\<lparr>fr_buffer = handshake @ concat (map frame_of xs), fr_state = AwaitingImei, fr_maxFrameBytes = m\<rparr>"
  have "framer_next ?f = (Some (EvImei imei),
      \<lparr>fr_buffer = concat (map frame_of xs), fr_state = Streaming, fr_maxFrameBytes = m\<rparr>)"
    using tryParse_encoded [OF assms(1,2)]
    by (simp add: framer_next_def nextHandshake_def fr_consume_def)
  then have "fst (framer_drain ?f) = EvImei imei # map (\<lambda>x. EvPacket (packet_of x)) xs"
    using fr.run_more framer_drain_frames [OF assms(3)] by fastforce
  then show ?thesis by (simp add: push_all_new assms(4) fr_feed_def) (simp add: new_framer_def)
qed

theorem connection_events_witness:
  "fst (framer_push_all (new_framer (Some 8192))
      [projr (encodeImeiFrame ''356307042441013''), frame_of ([sample_record], default_options)])
    = [EvImei ''356307042441013'', EvPacket (packet_of ([sample_record], default_options))]"
proof -
  have v: "isValidImei ''356307042441013''" by (simp add: isValidImei_def IMEI_DIGITS_def is_digit_def)
  then obtain h where h: "encodeImeiFrame ''356307042441013'' = Inr h"
    using encodeImeiFrame_bytes by blast
  have "fst (framer_push_all (new_framer (Some 8192)) [h, frame_of ([sample_record], default_options)])
      = EvImei ''356307042441013'' # map (\<lambda>x. EvPacket (packet_of x)) [([sample_record], default_options)]"
    by (rule connection_events [OF v h]) (simp_all add: sample_sendable)
  then show ?thesis by (simp only: h sum.sel list.map)
qed

text \<open>
  the handshake's digits are compared after Node's \<open>'ascii'\<close> decoding, which clears the high
  bit of every byte. A handshake is accepted exactly when the low seven bits of its 15 bytes are
  digits, so 2^15 different byte strings (not only ASCII digits, as the rejection's message says)
  open a session as the same device.
\<close>

theorem handshake_accepts:
  "tryParseImeiFrame buf = ImeiOk imei n \<longleftrightarrow>
     n = 17 \<and> 17 \<le> length buf \<and> be_nat (take 2 buf) = 15 \<and>
     imei = map (\<lambda>b. char_of (unat b mod 128)) (take 15 (drop 2 buf)) \<and>
     list_all (\<lambda>b. 48 \<le> unat b mod 128 \<and> unat b mod 128 \<le> 57) (take 15 (drop 2 buf))"
  by (auto simp: tryParseImeiFrame_def Let_def LENGTH_PREFIX_BYTES_def IMEI_DIGITS_def subarray_def
      isValidImei_def ascii_char_def is_digit_def and_7F list_all_iff of_char_of
      split: if_splits)

end
