(* ===== verification/Errors.thy ===== *)
theory Errors
  imports Prelude
begin

text \<open>
  \<open>packages/shared/src/errors.ts\<close> and \<open>middleware/error-handler.ts\<close>: what handlers throw and the
  HTTP reply each throw becomes. PostgreSQL's errors are the ones the schema's constraints can
  raise; any other value thrown (\<open>new Error(...)\<close>) is \<open>PlainErr\<close>.
\<close>

datatype error_code =
    VALIDATION_ERROR | UNAUTHORIZED | INVALID_CREDENTIALS | EMAIL_TAKEN | NOT_FOUND
  | CUSTOMER_NOT_FOUND | ACCOUNT_NOT_FOUND | TRANSFER_NOT_FOUND | LOCK_NOT_FOUND
  | LOCK_ALREADY_RELEASED | IDEMPOTENCY_KEY_REUSED | ACCOUNT_LOCKED | INSUFFICIENT_FUNDS
  | SAME_ACCOUNT | SERVICE_UNAVAILABLE | INTERNAL_ERROR

fun code_string :: "error_code \<Rightarrow> string" where
  "code_string VALIDATION_ERROR = ''VALIDATION_ERROR''"
| "code_string UNAUTHORIZED = ''UNAUTHORIZED''"
| "code_string INVALID_CREDENTIALS = ''INVALID_CREDENTIALS''"
| "code_string EMAIL_TAKEN = ''EMAIL_TAKEN''"
| "code_string NOT_FOUND = ''NOT_FOUND''"
| "code_string CUSTOMER_NOT_FOUND = ''CUSTOMER_NOT_FOUND''"
| "code_string ACCOUNT_NOT_FOUND = ''ACCOUNT_NOT_FOUND''"
| "code_string TRANSFER_NOT_FOUND = ''TRANSFER_NOT_FOUND''"
| "code_string LOCK_NOT_FOUND = ''LOCK_NOT_FOUND''"
| "code_string LOCK_ALREADY_RELEASED = ''LOCK_ALREADY_RELEASED''"
| "code_string IDEMPOTENCY_KEY_REUSED = ''IDEMPOTENCY_KEY_REUSED''"
| "code_string ACCOUNT_LOCKED = ''ACCOUNT_LOCKED''"
| "code_string INSUFFICIENT_FUNDS = ''INSUFFICIENT_FUNDS''"
| "code_string SAME_ACCOUNT = ''SAME_ACCOUNT''"
| "code_string SERVICE_UNAVAILABLE = ''SERVICE_UNAVAILABLE''"
| "code_string INTERNAL_ERROR = ''INTERNAL_ERROR''"

type_synonym details = "(string \<times> string) list"

record app_error =
  ae_code :: error_code
  ae_status :: nat
  ae_message :: string
  ae_details :: "details option"

definition UnauthorizedError :: "error_code \<Rightarrow> string \<Rightarrow> details option \<Rightarrow> app_error" where
  "UnauthorizedError code message details =
     \<lparr>ae_code = code, ae_status = 401, ae_message = message, ae_details = details\<rparr>"

definition NotFoundError :: "error_code \<Rightarrow> string \<Rightarrow> details option \<Rightarrow> app_error" where
  "NotFoundError code message details =
     \<lparr>ae_code = code, ae_status = 404, ae_message = message, ae_details = details\<rparr>"

definition ConflictError :: "error_code \<Rightarrow> string \<Rightarrow> details option \<Rightarrow> app_error" where
  "ConflictError code message details =
     \<lparr>ae_code = code, ae_status = 409, ae_message = message, ae_details = details\<rparr>"

definition UnprocessableError :: "error_code \<Rightarrow> string \<Rightarrow> details option \<Rightarrow> app_error" where
  "UnprocessableError code message details =
     \<lparr>ae_code = code, ae_status = 422, ae_message = message, ae_details = details\<rparr>"

text \<open>\<open>23505\<close>, \<open>23514\<close>, \<open>23503\<close>, \<open>22003\<close> and \<open>22021\<close> (a NUL in a text).\<close>

datatype pg_error = UniqueViolation string | CheckViolation string | ForeignKeyViolation string
  | NumericOutOfRange | InvalidText

datatype thrown =
    AppErr app_error
  | ZodErr "(string \<times> string) list" \<comment> \<open>issue path and message\<close>
  | DbErr pg_error
  | PlainErr string

text \<open>\<open>err instanceof UnprocessableError\<close>: each status belongs to one class.\<close>

fun is_unprocessable :: "thrown \<Rightarrow> bool" where
  "is_unprocessable (AppErr e) = (ae_status e = 422)"
| "is_unprocessable _ = False"

text \<open>\<open>isUniqueViolation\<close>, after walking the cause chain.\<close>

fun isUniqueViolation :: "thrown \<Rightarrow> bool" where
  "isUniqueViolation (DbErr (UniqueViolation _)) = True"
| "isUniqueViolation _ = False"

datatype error_detail = NoDetails | Details details | Issues "(string \<times> string) list"

record error_body =
  eb_code :: error_code
  eb_message :: string
  eb_details :: error_detail

fun errorHandler :: "thrown \<Rightarrow> nat \<times> error_body" where
  "errorHandler (AppErr e) = (ae_status e,
     \<lparr>eb_code = ae_code e, eb_message = ae_message e,
      eb_details = (case ae_details e of None \<Rightarrow> NoDetails | Some d \<Rightarrow> Details d)\<rparr>)"
| "errorHandler (ZodErr issues) = (400,
     \<lparr>eb_code = VALIDATION_ERROR, eb_message = ''Request validation failed'', eb_details = Issues issues\<rparr>)"
| "errorHandler (DbErr e) = (500,
     \<lparr>eb_code = INTERNAL_ERROR, eb_message = ''An unexpected error occurred'', eb_details = NoDetails\<rparr>)"
| "errorHandler (PlainErr m) = (500,
     \<lparr>eb_code = INTERNAL_ERROR, eb_message = ''An unexpected error occurred'', eb_details = NoDetails\<rparr>)"

definition notFoundHandler :: "string \<Rightarrow> string \<Rightarrow> thrown" where
  "notFoundHandler verb path =
     AppErr (NotFoundError NOT_FOUND (''Route '' @ verb @ '' '' @ path @ '' does not exist'') None)"

text \<open>A status of 500 never carries anything of the error it hides.\<close>

lemma errorHandler_hides_internals:
  "(\<forall>e. err \<noteq> AppErr e) \<Longrightarrow> (\<forall>i. err \<noteq> ZodErr i) \<Longrightarrow> errorHandler err = errorHandler (PlainErr '''')"
  by (cases err) auto

end
