(* ===== verification/Bank_Db.thy ===== *)
theory Bank_Db
  imports Errors Js_Number
begin

text \<open>
  The banking cluster: the tables of \<open>packages/db/src/schema\<close> as lists of rows in insertion
  order, and the statements the services run on them. An \<open>INSERT\<close> takes the random id and the
  clock as arguments, draws the next value of the table's identity sequence, then checks the
  table's constraints in PostgreSQL's order (CHECK, unique indexes, foreign keys). A sequence is
  not rolled back by a failed statement or transaction. Columns declared
  \<open>bigint({mode: 'number'})\<close> are read through \<open>Number(...)\<close>.
\<close>

section \<open>Tables\<close>

text \<open>UUIDs are compared by JavaScript as strings: the lexicographic order of \<open>List_Lexorder\<close>.\<close>

type_synonym uuid = string

datatype transfer_status = Pending | Completed | FailedStatus

record customer_row =
  cu_id :: uuid
  cu_seq :: int
  cu_name :: string
  cu_createdAt :: int

record account_row =
  ac_id :: uuid
  ac_seq :: int
  ac_customerId :: uuid
  ac_balanceCents :: int
  ac_createdAt :: int

record transfer_row =
  tr_id :: uuid
  tr_seq :: int
  tr_idempotencyKey :: "string option"
  tr_requestHash :: "string option"
  tr_fromAccountId :: "uuid option"
  tr_toAccountId :: uuid
  tr_amountCents :: int
  tr_status :: transfer_status
  tr_failureReason :: "string option"
  tr_createdAt :: int
  tr_completedAt :: "int option"

record comment_row =
  co_id :: uuid
  co_seq :: int
  co_accountId :: uuid
  co_body :: string
  co_createdAt :: int

record lock_row =
  lk_id :: uuid
  lk_seq :: int
  lk_accountId :: uuid
  lk_reason :: string
  lk_createdAt :: int
  lk_releasedAt :: "int option"

record bank_db =
  customers :: "customer_row list"
  accounts :: "account_row list"
  transfers :: "transfer_row list"
  accountComments :: "comment_row list"
  accountLocks :: "lock_row list"
  seq_customers :: int
  seq_accounts :: int
  seq_transfers :: int
  seq_comments :: int
  seq_locks :: int

definition empty_db :: bank_db where
  "empty_db = \<lparr>customers = [], accounts = [], transfers = [], accountComments = [], accountLocks = [],
     seq_customers = 1, seq_accounts = 1, seq_transfers = 1, seq_comments = 1, seq_locks = 1\<rparr>"

type_synonym 'a db_op = "(bank_db, thrown, 'a) op"

section \<open>Reading rows\<close>

definition read_customer :: "customer_row \<Rightarrow> customer_row" where
  "read_customer r = r\<lparr>cu_seq := to_number (cu_seq r)\<rparr>"

definition read_account :: "account_row \<Rightarrow> account_row" where
  "read_account r =
     r\<lparr>ac_seq := to_number (ac_seq r), ac_balanceCents := to_number (ac_balanceCents r)\<rparr>"

definition read_transfer :: "transfer_row \<Rightarrow> transfer_row" where
  "read_transfer r =
     r\<lparr>tr_seq := to_number (tr_seq r), tr_amountCents := to_number (tr_amountCents r)\<rparr>"

definition read_comment :: "comment_row \<Rightarrow> comment_row" where
  "read_comment r = r\<lparr>co_seq := to_number (co_seq r)\<rparr>"

definition read_lock :: "lock_row \<Rightarrow> lock_row" where
  "read_lock r = r\<lparr>lk_seq := to_number (lk_seq r)\<rparr>"

text \<open>\<open>SELECT ... WHERE id = i\<close> into \<open>const [row]\<close>: the first row or \<open>undefined\<close>.\<close>

definition find_customer :: "uuid \<Rightarrow> bank_db \<Rightarrow> customer_row option" where
  "find_customer i db = find (\<lambda>r. cu_id r = i) (customers db)"

definition find_account :: "uuid \<Rightarrow> bank_db \<Rightarrow> account_row option" where
  "find_account i db = find (\<lambda>r. ac_id r = i) (accounts db)"

definition find_transfer :: "uuid \<Rightarrow> bank_db \<Rightarrow> transfer_row option" where
  "find_transfer i db = find (\<lambda>r. tr_id r = i) (transfers db)"

definition find_key :: "string \<Rightarrow> bank_db \<Rightarrow> transfer_row option" where
  "find_key k db = find (\<lambda>r. tr_idempotencyKey r = Some k) (transfers db)"

section \<open>Statements\<close>

definition BIGINT_MAX :: int where "BIGINT_MAX = 2 ^ 63 - 1"

text \<open>\<open>text\<close> holds no NUL character: a statement with one is refused before it runs, so no number is drawn.\<close>

definition storable :: "string \<Rightarrow> bool" where
  "storable s \<longleftrightarrow> CHR 0x00 \<notin> set s"

definition insert_customer :: "uuid \<Rightarrow> int \<Rightarrow> string \<Rightarrow> customer_row db_op" where
  "insert_customer newId now name db =
     (let row = \<lparr>cu_id = newId, cu_seq = seq_customers db, cu_name = name, cu_createdAt = now\<rparr>;
          db' = db\<lparr>seq_customers := seq_customers db + 1\<rparr>
      in if \<not> storable name then (Inl (DbErr InvalidText), db)
         else if find_customer newId db \<noteq> None then (Inl (DbErr (UniqueViolation ''customers_pkey'')), db')
         else (Inr (read_customer row), db'\<lparr>customers := customers db @ [row]\<rparr>))"

definition insert_account :: "uuid \<Rightarrow> int \<Rightarrow> uuid \<Rightarrow> int \<Rightarrow> account_row db_op" where
  "insert_account newId now customerId balanceCents db =
     (let row = \<lparr>ac_id = newId, ac_seq = seq_accounts db, ac_customerId = customerId,
                 ac_balanceCents = balanceCents, ac_createdAt = now\<rparr>;
          db' = db\<lparr>seq_accounts := seq_accounts db + 1\<rparr>
      in if balanceCents > BIGINT_MAX then (Inl (DbErr NumericOutOfRange), db')
         else if balanceCents < 0
         then (Inl (DbErr (CheckViolation ''accounts_balance_non_negative'')), db')
         else if find_account newId db \<noteq> None
         then (Inl (DbErr (UniqueViolation ''accounts_pkey'')), db')
         else if find_customer customerId db = None
         then (Inl (DbErr (ForeignKeyViolation ''accounts_customer_id_customers_id_fk'')), db')
         else (Inr (read_account row), db'\<lparr>accounts := accounts db @ [row]\<rparr>))"

record transfer_values =
  tv_idempotencyKey :: "string option"
  tv_requestHash :: "string option"
  tv_fromAccountId :: "uuid option"
  tv_toAccountId :: uuid
  tv_amountCents :: int
  tv_status :: transfer_status
  tv_completedAt :: "int option"

definition insert_transfer :: "uuid \<Rightarrow> int \<Rightarrow> transfer_values \<Rightarrow> transfer_row db_op" where
  "insert_transfer newId now v db =
     (let row = \<lparr>tr_id = newId, tr_seq = seq_transfers db, tr_idempotencyKey = tv_idempotencyKey v,
                 tr_requestHash = tv_requestHash v, tr_fromAccountId = tv_fromAccountId v,
                 tr_toAccountId = tv_toAccountId v, tr_amountCents = tv_amountCents v,
                 tr_status = tv_status v, tr_failureReason = None, tr_createdAt = now,
                 tr_completedAt = tv_completedAt v\<rparr>;
          db' = db\<lparr>seq_transfers := seq_transfers db + 1\<rparr>
      in if tv_amountCents v > BIGINT_MAX then (Inl (DbErr NumericOutOfRange), db')
         else if tv_amountCents v \<le> 0
         then (Inl (DbErr (CheckViolation ''transfers_amount_positive'')), db')
         else if tv_fromAccountId v = Some (tv_toAccountId v)
         then (Inl (DbErr (CheckViolation ''transfers_distinct_accounts'')), db')
         else if find_transfer newId db \<noteq> None
         then (Inl (DbErr (UniqueViolation ''transfers_pkey'')), db')
         else if (case tv_idempotencyKey v of None \<Rightarrow> False | Some k \<Rightarrow> find_key k db \<noteq> None)
         then (Inl (DbErr (UniqueViolation ''transfers_idempotency_key_uq'')), db')
         else if (case tv_fromAccountId v of None \<Rightarrow> False | Some i \<Rightarrow> find_account i db = None)
         then (Inl (DbErr (ForeignKeyViolation ''transfers_from_account_id_accounts_id_fk'')), db')
         else if find_account (tv_toAccountId v) db = None
         then (Inl (DbErr (ForeignKeyViolation ''transfers_to_account_id_accounts_id_fk'')), db')
         else (Inr (read_transfer row), db'\<lparr>transfers := transfers db @ [row]\<rparr>))"

definition insert_comment :: "uuid \<Rightarrow> int \<Rightarrow> uuid \<Rightarrow> string \<Rightarrow> comment_row db_op" where
  "insert_comment newId now accountId body db =
     (let row = \<lparr>co_id = newId, co_seq = seq_comments db, co_accountId = accountId, co_body = body,
                 co_createdAt = now\<rparr>;
          db' = db\<lparr>seq_comments := seq_comments db + 1\<rparr>
      in if \<not> storable body then (Inl (DbErr InvalidText), db)
         else if (\<exists>r\<in>set (accountComments db). co_id r = newId)
         then (Inl (DbErr (UniqueViolation ''account_comments_pkey'')), db')
         else if find_account accountId db = None
         then (Inl (DbErr (ForeignKeyViolation ''account_comments_account_id_accounts_id_fk'')), db')
         else (Inr (read_comment row), db'\<lparr>accountComments := accountComments db @ [row]\<rparr>))"

definition insert_lock :: "uuid \<Rightarrow> int \<Rightarrow> uuid \<Rightarrow> string \<Rightarrow> lock_row db_op" where
  "insert_lock newId now accountId reason db =
     (let row = \<lparr>lk_id = newId, lk_seq = seq_locks db, lk_accountId = accountId, lk_reason = reason,
                 lk_createdAt = now, lk_releasedAt = None\<rparr>;
          db' = db\<lparr>seq_locks := seq_locks db + 1\<rparr>
      in if \<not> storable reason then (Inl (DbErr InvalidText), db)
         else if (\<exists>r\<in>set (accountLocks db). lk_id r = newId)
         then (Inl (DbErr (UniqueViolation ''account_locks_pkey'')), db')
         else if find_account accountId db = None
         then (Inl (DbErr (ForeignKeyViolation ''account_locks_account_id_accounts_id_fk'')), db')
         else (Inr (read_lock row), db'\<lparr>accountLocks := accountLocks db @ [row]\<rparr>))"

text \<open>\<open>UPDATE accounts SET balance_cents = balance_cents + delta WHERE id = i\<close>, with its CHECK.\<close>

definition update_balance :: "uuid \<Rightarrow> int \<Rightarrow> unit db_op" where
  "update_balance i delta db = (case find_account i db of
       None \<Rightarrow> (Inr (), db)
     | Some r \<Rightarrow> let b = ac_balanceCents r + delta in
         if b > BIGINT_MAX \<or> b < - BIGINT_MAX - 1 then (Inl (DbErr NumericOutOfRange), db)
         else if b < 0 then (Inl (DbErr (CheckViolation ''accounts_balance_non_negative'')), db)
         else (Inr (), db\<lparr>accounts := update_where (\<lambda>x. ac_id x = i)
                 (\<lambda>x. x\<lparr>ac_balanceCents := ac_balanceCents x + delta\<rparr>) (accounts db)\<rparr>))"

text \<open>\<open>UPDATE transfers SET ... WHERE id = i RETURNING *\<close>.\<close>

definition update_transfer ::
  "uuid \<Rightarrow> (transfer_row \<Rightarrow> transfer_row) \<Rightarrow> transfer_row option db_op" where
  "update_transfer i g db =
     (let db' = db\<lparr>transfers := update_where (\<lambda>r. tr_id r = i) g (transfers db)\<rparr>
      in (Inr (map_option read_transfer (find_transfer i db')), db'))"

text \<open>\<open>db.transaction\<close>: an error restores the tables, not the sequences.\<close>

definition rollback :: "bank_db \<Rightarrow> bank_db \<Rightarrow> bank_db" where
  "rollback db db' = db'\<lparr>customers := customers db, accounts := accounts db, transfers := transfers db,
     accountComments := accountComments db, accountLocks := accountLocks db\<rparr>"

definition transaction :: "'a db_op \<Rightarrow> 'a db_op" where
  "transaction body db = (case body db of
       (Inl e, db') \<Rightarrow> (Inl e, rollback db db')
     | (Inr x, db') \<Rightarrow> (Inr x, db'))"

section \<open>What statements and transactions keep\<close>

text \<open>Two databases with the same tables: they may differ in how far the sequences advanced.\<close>

definition same_tables :: "bank_db \<Rightarrow> bank_db \<Rightarrow> bool" where
  "same_tables db db' \<longleftrightarrow> customers db' = customers db \<and> accounts db' = accounts db \<and>
     transfers db' = transfers db \<and> accountComments db' = accountComments db \<and>
     accountLocks db' = accountLocks db"

lemma same_tables_refl [simp]: "same_tables db db"
  by (simp add: same_tables_def)

lemma same_tables_rollback: "same_tables db (rollback db db')"
  by (simp add: same_tables_def rollback_def)

lemma transaction_Inl: "transaction body db = (Inl e, db') \<Longrightarrow> same_tables db db'"
  by (auto simp: transaction_def same_tables_rollback split: prod.splits sum.splits)

lemma transaction_Inr: "transaction body db = (Inr x, db') \<longleftrightarrow> body db = (Inr x, db')"
  by (auto simp: transaction_def split: prod.splits sum.splits)

lemma insert_customer_Inl: "insert_customer i n c db = (Inl e, db') \<Longrightarrow> same_tables db db'"
  by (auto simp: insert_customer_def Let_def same_tables_def split: if_splits)

lemma insert_account_Inl: "insert_account i n c b db = (Inl e, db') \<Longrightarrow> same_tables db db'"
  by (auto simp: insert_account_def Let_def same_tables_def split: if_splits)

lemma insert_transfer_Inl: "insert_transfer i n v db = (Inl e, db') \<Longrightarrow> same_tables db db'"
  by (auto simp: insert_transfer_def Let_def same_tables_def split: if_splits)

lemma insert_comment_Inl: "insert_comment i n a b db = (Inl e, db') \<Longrightarrow> same_tables db db'"
  by (auto simp: insert_comment_def Let_def same_tables_def split: if_splits)

lemma insert_lock_Inl: "insert_lock i n a b db = (Inl e, db') \<Longrightarrow> same_tables db db'"
  by (auto simp: insert_lock_def Let_def same_tables_def split: if_splits)

end
