(* ===== verification/Customers.thy ===== *)
theory Customers
  imports Bank_Db
begin

text \<open>
  \<open>apps/app-apis/src/modules/customers/service.ts\<close>. Lists are ordered by the insert-order column.
\<close>

definition asc_by :: "('r \<Rightarrow> int) \<Rightarrow> 'r list \<Rightarrow> 'r list" where
  "asc_by k rs = sort_key k rs"

definition desc_by :: "('r \<Rightarrow> int) \<Rightarrow> 'r list \<Rightarrow> 'r list" where
  "desc_by k rs = rev (sort_key k rs)"

definition customer_list :: "customer_row list db_op" where
  "customer_list db = (Inr (map read_customer (asc_by cu_seq (customers db))), db)"

definition customer_getById :: "uuid \<Rightarrow> customer_row db_op" where
  "customer_getById customerId db = (case find_customer customerId db of
       None \<Rightarrow> (Inl (AppErr (NotFoundError CUSTOMER_NOT_FOUND
                 (''Customer '' @ customerId @ '' does not exist'') None)), db)
     | Some row \<Rightarrow> (Inr (read_customer row), db))"

definition customer_create :: "uuid \<Rightarrow> int \<Rightarrow> string \<Rightarrow> customer_row db_op" where
  "customer_create newId now name = insert_customer newId now name"

definition customer_listAccounts :: "uuid \<Rightarrow> account_row list db_op" where
  "customer_listAccounts customerId = op_bind (customer_getById customerId) (\<lambda>_.
     op_gets (\<lambda>db. map read_account
       (asc_by ac_seq (filter (\<lambda>r. ac_customerId r = customerId) (accounts db)))))"

lemma customer_reads_pure:
  "snd (customer_list db) = db" "snd (customer_getById i db) = db" "snd (customer_listAccounts i db) = db"
  by (auto simp: customer_list_def customer_getById_def customer_listAccounts_def op_bind_def
      split: option.splits)

end
