(* ===== verification/Accounts.thy ===== *)
theory Accounts
  imports Customers
begin

text \<open>
  \<open>apps/app-apis/src/modules/accounts/service.ts\<close> and \<open>packages/shared/src/transfers/dto.ts\<close>:
  opening an account with its deposit, reading it, and the paged transfer history.
\<close>

section \<open>The service\<close>

text \<open>\<open>create\<close>: one transaction; the deposit is a completed transfer with no source account.\<close>

definition account_create :: "uuid \<Rightarrow> uuid \<Rightarrow> int \<Rightarrow> uuid \<Rightarrow> int \<Rightarrow> account_row db_op" where
  "account_create newAccountId newTransferId now customerId initialDepositCents =
     transaction (\<lambda>db. case find_customer customerId db of
         None \<Rightarrow> (Inl (AppErr (NotFoundError CUSTOMER_NOT_FOUND
                   (''Customer '' @ customerId @ '' does not exist'') None)), db)
       | Some _ \<Rightarrow> op_bind (insert_account newAccountId now customerId initialDepositCents) (\<lambda>account.
           if initialDepositCents > 0
           then op_bind (insert_transfer newTransferId now
                  \<lparr>tv_idempotencyKey = None, tv_requestHash = None, tv_fromAccountId = None,
                   tv_toAccountId = ac_id account, tv_amountCents = initialDepositCents,
                   tv_status = Completed, tv_completedAt = Some now\<rparr>) (\<lambda>_. op_return account)
           else op_return account) db)"

definition account_getById :: "uuid \<Rightarrow> account_row db_op" where
  "account_getById accountId db = (case find_account accountId db of
       None \<Rightarrow> (Inl (AppErr (NotFoundError ACCOUNT_NOT_FOUND
                 (''Account '' @ accountId @ '' does not exist'') None)), db)
     | Some row \<Rightarrow> (Inr (read_account row), db))"

definition active_lock :: "uuid \<Rightarrow> lock_row \<Rightarrow> bool" where
  "active_lock accountId l \<longleftrightarrow> lk_accountId l = accountId \<and> lk_releasedAt l = None"

record account_detail =
  ad_account :: account_row
  ad_locked :: bool

definition account_getDetail :: "uuid \<Rightarrow> account_detail db_op" where
  "account_getDetail accountId = op_bind (account_getById accountId) (\<lambda>account.
     op_gets (\<lambda>db. \<lparr>ad_account = account,
       ad_locked = (find (active_lock accountId) (accountLocks db) \<noteq> None)\<rparr>))"

definition account_getBalance :: "uuid \<Rightarrow> (uuid \<times> int) db_op" where
  "account_getBalance accountId = op_bind (account_getById accountId) (\<lambda>account.
     op_return (ac_id account, ac_balanceCents account))"

datatype transfer_type = DepositType | TransferType

record transfer_dto =
  td_id :: uuid
  td_type :: transfer_type
  td_fromAccountId :: "uuid option"
  td_toAccountId :: uuid
  td_amountCents :: int
  td_status :: transfer_status
  td_failureReason :: "string option"
  td_idempotencyKey :: "string option"
  td_createdAt :: int
  td_completedAt :: "int option"

definition toTransferDto :: "transfer_row \<Rightarrow> transfer_dto" where
  "toTransferDto row = \<lparr>td_id = tr_id row,
     td_type = (if tr_fromAccountId row = None then DepositType else TransferType),
     td_fromAccountId = tr_fromAccountId row, td_toAccountId = tr_toAccountId row,
     td_amountCents = tr_amountCents row, td_status = tr_status row,
     td_failureReason = tr_failureReason row, td_idempotencyKey = tr_idempotencyKey row,
     td_createdAt = tr_createdAt row, td_completedAt = tr_completedAt row\<rparr>"

definition touches :: "uuid \<Rightarrow> transfer_row \<Rightarrow> bool" where
  "touches accountId t \<longleftrightarrow> tr_fromAccountId t = Some accountId \<or> tr_toAccountId t = accountId"

definition before_cursor :: "int option \<Rightarrow> transfer_row \<Rightarrow> bool" where
  "before_cursor cursor t = (case cursor of None \<Rightarrow> True | Some c \<Rightarrow> tr_seq t < c)"

record history_page =
  hp_items :: "transfer_dto list"
  hp_nextCursor :: "int option"

definition account_getHistory :: "uuid \<Rightarrow> nat \<Rightarrow> int option \<Rightarrow> history_page db_op" where
  "account_getHistory accountId limit cursor = op_bind (account_getById accountId) (\<lambda>_.
     op_gets (\<lambda>db.
       let rows = map read_transfer (take (limit + 1) (desc_by tr_seq
             (filter (\<lambda>t. touches accountId t \<and> before_cursor cursor t) (transfers db))));
           page = take limit rows
       in \<lparr>hp_items = map toTransferDto page,
           hp_nextCursor = (if length rows > limit \<and> page \<noteq> [] then Some (tr_seq (last page)) else None)\<rparr>))"

definition account_totalBalanceCents :: "int db_op" where
  "account_totalBalanceCents = op_gets (\<lambda>db. to_number (\<Sum>r\<leftarrow>accounts db. ac_balanceCents r))"

lemma account_reads_pure:
  "snd (account_getById i db) = db" "snd (account_getDetail i db) = db"
  "snd (account_getBalance i db) = db" "snd (account_getHistory i n c db) = db"
  "snd (account_totalBalanceCents db) = db"
  by (auto simp: account_getById_def account_getDetail_def account_getBalance_def
      account_getHistory_def account_totalBalanceCents_def op_bind_def split: option.splits)

section \<open>Paging\<close>

text \<open>A client that follows \<open>nextCursor\<close>; the fuel bounds the number of requests.\<close>

fun walk_history :: "nat \<Rightarrow> uuid \<Rightarrow> nat \<Rightarrow> int option \<Rightarrow> bank_db \<Rightarrow> transfer_dto list option" where
  "walk_history 0 i limit cursor db = None"
| "walk_history (Suc n) i limit cursor db = (case fst (account_getHistory i limit cursor db) of
       Inl _ \<Rightarrow> None
     | Inr page \<Rightarrow> (case hp_nextCursor page of
           None \<Rightarrow> Some (hp_items page)
         | Some c \<Rightarrow> map_option (\<lambda>rest. hp_items page @ rest) (walk_history n i limit (Some c) db)))"

text \<open>What the history of an account is: its transfers, newest first.\<close>

definition full_history :: "uuid \<Rightarrow> bank_db \<Rightarrow> transfer_dto list" where
  "full_history i db = map (\<lambda>t. toTransferDto (read_transfer t)) (desc_by tr_seq (filter (touches i) (transfers db)))"

definition newest_first :: "uuid \<Rightarrow> bank_db \<Rightarrow> transfer_row list" where
  "newest_first i db = desc_by tr_seq (filter (touches i) (transfers db))"

text \<open>The sequence column is unique and below 2^53, so that JavaScript reads it exactly.\<close>

definition exact_seqs :: "bank_db \<Rightarrow> bool" where
  "exact_seqs db \<longleftrightarrow> distinct (map tr_seq (transfers db)) \<and>
     list_all (\<lambda>t. 0 \<le> tr_seq t \<and> tr_seq t \<le> MAX_SAFE_INTEGER) (transfers db)"

lemma filter_desc_by: "filter p (desc_by k rs) = desc_by k (filter p rs)"
  by (simp add: desc_by_def rev_filter [symmetric] filter_sort)

lemma rows_before:
  "desc_by tr_seq (filter (\<lambda>t. touches i t \<and> before_cursor c t) (transfers db))
     = filter (before_cursor c) (newest_first i db)"
  by (simp add: newest_first_def filter_desc_by conj_commute)

lemma newest_first_sorted:
  assumes "exact_seqs db"
  shows "sorted_wrt (\<lambda>a b. tr_seq b < tr_seq a) (newest_first i db)"
proof -
  let ?rs = "sort_key tr_seq (filter (touches i) (transfers db))"
  have d: "distinct (map tr_seq ?rs)"
    using assms by (auto simp: exact_seqs_def distinct_map intro: inj_on_subset)
  have "sorted (map tr_seq ?rs)" by simp
  then have "sorted_wrt (<) (map tr_seq ?rs)" using d by (simp add: strict_sorted_iff)
  then have "sorted_wrt (\<lambda>a b. tr_seq a < tr_seq b) ?rs" by (simp add: sorted_wrt_map)
  then show ?thesis by (simp add: newest_first_def desc_by_def sorted_wrt_rev)
qed

lemma filter_before_append:
  assumes "sorted_wrt (\<lambda>a b. tr_seq b < tr_seq a) (xs @ x # ys)"
  shows "filter (before_cursor (Some (tr_seq x))) (xs @ x # ys) = ys"
proof -
  have "\<forall>a\<in>set xs. tr_seq x < tr_seq a" "\<forall>b\<in>set ys. tr_seq b < tr_seq x"
    using assms by (auto simp: sorted_wrt_append)
  then show ?thesis by (auto simp: before_cursor_def filter_empty_conv filter_id_conv)
qed

text \<open>Following the cursors from any point of the list collects exactly the rest of it.\<close>

lemma walk_from:
  assumes "exact_seqs db" "0 < limit" "find_account i db \<noteq> None"
    and "newest_first i db = pre @ rest"
    and "filter (before_cursor c) (newest_first i db) = rest" "length rest < n"
  shows "walk_history n i limit c db = Some (map (\<lambda>t. toTransferDto (read_transfer t)) rest)"
  using assms(4-6)
proof (induction n arbitrary: pre rest c)
  case 0
  then show ?case by simp
next
  case (Suc n)
  let ?d = "\<lambda>t. toTransferDto (read_transfer t)"
  obtain a where a: "find_account i db = Some a" using assms(3) by blast
  have page: "fst (account_getHistory i limit c db) = Inr \<lparr>hp_items = map ?d (take limit rest),
      hp_nextCursor = (if length rest > limit
        then Some (to_number (tr_seq (last (take limit rest)))) else None)\<rparr>"
    using Suc.prems(2) assms(2)
    by (auto simp: account_getHistory_def account_getById_def a op_bind_def rows_before Let_def
        take_map min_def last_map read_transfer_def take_Suc_conv_app_nth)
  show ?case
  proof (cases "length rest > limit")
    case False
    then show ?thesis by (simp add: page)
  next
    case True
    define x where "x = last (take limit rest)"
    have ne: "take limit rest \<noteq> []" using True assms(2) by auto
    have sp: "newest_first i db = (pre @ butlast (take limit rest)) @ x # drop limit rest"
      using Suc.prems(1) append_butlast_last_id [OF ne] by (simp add: x_def)
        (metis append.assoc append_Cons append_Nil append_take_drop_id)
    have "x \<in> set (transfers db)"
    proof -
      have "x \<in> set (newest_first i db)" by (simp add: sp)
      then show ?thesis by (auto simp: newest_first_def desc_by_def)
    qed
    then have "to_number (tr_seq x) = tr_seq x"
      using assms(1) by (intro to_number_safe) (auto simp: exact_seqs_def list_all_iff)
    moreover have "filter (before_cursor (Some (tr_seq x))) (newest_first i db) = drop limit rest"
      unfolding sp by (rule filter_before_append) (use newest_first_sorted [OF assms(1), of i] sp in simp)
    moreover have "newest_first i db = (pre @ take limit rest) @ drop limit rest"
      using Suc.prems(1) by simp
    moreover have "length (drop limit rest) < n" using Suc.prems(3) True assms(2) by simp
    ultimately have "walk_history n i limit (Some (tr_seq x)) db = Some (map ?d (drop limit rest))"
      using Suc.IH by blast
    then show ?thesis
      using True \<open>to_number (tr_seq x) = tr_seq x\<close>
      by (simp add: page x_def) (metis append_take_drop_id map_append)
  qed
qed

section \<open>Properties\<close>

text \<open>
  C16: the paged history loses and repeats nothing. A client that starts without a cursor and follows
  \<open>nextCursor\<close> until it is null gets exactly the account's transfers (both directions, the opening
  deposit included), newest first, whatever the page size, and in at most one request per
  transfer plus one.
\<close>

theorem history_paging_complete:
  assumes "exact_seqs db" "0 < limit" "find_account i db \<noteq> None"
  shows "walk_history (length (transfers db) + 1) i limit None db = Some (full_history i db)"
proof -
  have "filter (before_cursor None) (newest_first i db) = newest_first i db"
    by (simp add: before_cursor_def)
  moreover have "length (newest_first i db) < length (transfers db) + 1"
    by (simp add: newest_first_def desc_by_def less_Suc_eq_le)
  ultimately have "walk_history (length (transfers db) + 1) i limit None db
      = Some (map (\<lambda>t. toTransferDto (read_transfer t)) (newest_first i db))"
    using walk_from [OF assms, of "[]" "newest_first i db" None] by blast
  then show ?thesis by (simp only: full_history_def newest_first_def)
qed

definition sample_account :: account_row where
  "sample_account = \<lparr>ac_id = ''a'', ac_seq = 1, ac_customerId = ''c'', ac_balanceCents = 60, ac_createdAt = 0\<rparr>"

definition sample_deposit :: "nat \<Rightarrow> transfer_row" where
  "sample_deposit n = \<lparr>tr_id = decimal n, tr_seq = int n, tr_idempotencyKey = None, tr_requestHash = None,
     tr_fromAccountId = None, tr_toAccountId = ''a'', tr_amountCents = 20, tr_status = Completed,
     tr_failureReason = None, tr_createdAt = 0, tr_completedAt = Some 0\<rparr>"

definition sample_db :: bank_db where
  "sample_db = empty_db\<lparr>accounts := [sample_account], transfers := map sample_deposit [1, 2, 3]\<rparr>"

theorem history_paging_complete_witness:
  "walk_history 4 ''a'' 2 None sample_db
     = Some (map (\<lambda>n. toTransferDto (read_transfer (sample_deposit n))) [3, 2, 1])"
proof -
  have l: "length (transfers sample_db) + 1 = 4" by (simp add: sample_db_def)
  have "exact_seqs sample_db" "find_account ''a'' sample_db \<noteq> None"
    by (simp_all add: exact_seqs_def sample_db_def sample_deposit_def MAX_SAFE_INTEGER_def
        find_account_def sample_account_def)
  from history_paging_complete [OF this(1) _ this(2), of 2] show ?thesis
    unfolding l by (simp add: full_history_def sample_db_def desc_by_def touches_def sample_deposit_def)
qed

end
