(* ===== verification/Locks.thy ===== *)
theory Locks
  imports Accounts
begin

text \<open>
  \<open>apps/app-apis/src/modules/locks/service.ts\<close> and \<open>comments/service.ts\<close>: account locks (released
  softly) and internal comments. Both check that the account exists before anything else.
\<close>

section \<open>Operations\<close>

definition assertAccountExists :: "uuid \<Rightarrow> unit db_op" where
  "assertAccountExists accountId db = (case find_account accountId db of
       None \<Rightarrow> (Inl (AppErr (NotFoundError ACCOUNT_NOT_FOUND
                 (''Account '' @ accountId @ '' does not exist'') None)), db)
     | Some _ \<Rightarrow> (Inr (), db))"

text \<open>\<open>create\<close> takes the account row \<open>FOR UPDATE\<close> and inserts the lock in the same transaction.\<close>

definition lock_create :: "uuid \<Rightarrow> int \<Rightarrow> uuid \<Rightarrow> string \<Rightarrow> lock_row db_op" where
  "lock_create newId now accountId reason =
     transaction (op_bind (assertAccountExists accountId) (\<lambda>_. insert_lock newId now accountId reason))"

definition lock_list :: "uuid \<Rightarrow> bool option \<Rightarrow> lock_row list db_op" where
  "lock_list accountId active = op_bind (assertAccountExists accountId) (\<lambda>_.
     op_gets (\<lambda>db. map read_lock (desc_by lk_seq (filter (\<lambda>l. lk_accountId l = accountId \<and>
       (active = Some True \<longrightarrow> lk_releasedAt l = None) \<and>
       (active = Some False \<longrightarrow> lk_releasedAt l \<noteq> None)) (accountLocks db)))))"

definition releasable :: "uuid \<Rightarrow> uuid \<Rightarrow> lock_row \<Rightarrow> bool" where
  "releasable accountId lockId l \<longleftrightarrow> lk_id l = lockId \<and> lk_accountId l = accountId \<and> lk_releasedAt l = None"

text \<open>\<open>UPDATE account_locks SET released_at = now WHERE ... RETURNING *\<close>: the rows it changed.\<close>

definition release_rows :: "uuid \<Rightarrow> uuid \<Rightarrow> int \<Rightarrow> lock_row list db_op" where
  "release_rows accountId lockId now db =
     (Inr (map (\<lambda>l. read_lock (l\<lparr>lk_releasedAt := Some now\<rparr>))
            (filter (releasable accountId lockId) (accountLocks db))),
      db\<lparr>accountLocks := update_where (releasable accountId lockId)
           (\<lambda>l. l\<lparr>lk_releasedAt := Some now\<rparr>) (accountLocks db)\<rparr>)"

definition lock_release :: "int \<Rightarrow> uuid \<Rightarrow> uuid \<Rightarrow> lock_row db_op" where
  "lock_release now accountId lockId = op_bind (assertAccountExists accountId) (\<lambda>_.
     op_bind (release_rows accountId lockId now) (\<lambda>released. case released of
         l # _ \<Rightarrow> op_return l
       | [] \<Rightarrow> op_bind (op_gets (\<lambda>db. find (\<lambda>l. lk_id l = lockId \<and> lk_accountId l = accountId)
                    (accountLocks db))) (\<lambda>lock. case lock of
             None \<Rightarrow> op_throw (AppErr (NotFoundError LOCK_NOT_FOUND
                       (''Lock '' @ lockId @ '' does not exist on this account'') None))
           | Some _ \<Rightarrow> op_throw (AppErr (ConflictError LOCK_ALREADY_RELEASED
                       (''Lock '' @ lockId @ '' was already released'') None)))))"

definition comment_create :: "uuid \<Rightarrow> int \<Rightarrow> uuid \<Rightarrow> string \<Rightarrow> comment_row db_op" where
  "comment_create newId now accountId body =
     op_bind (assertAccountExists accountId) (\<lambda>_. insert_comment newId now accountId body)"

definition comment_list :: "uuid \<Rightarrow> comment_row list db_op" where
  "comment_list accountId = op_bind (assertAccountExists accountId) (\<lambda>_.
     op_gets (\<lambda>db. map read_comment (desc_by co_seq
       (filter (\<lambda>c. co_accountId c = accountId) (accountComments db)))))"

section \<open>Lemmas\<close>

definition account_locked :: "uuid \<Rightarrow> bank_db \<Rightarrow> bool" where
  "account_locked i db \<longleftrightarrow> (\<exists>l\<in>set (accountLocks db). active_lock i l)"

lemma assertAccountExists_snd [simp]: "snd (assertAccountExists i db) = db"
  by (simp add: assertAccountExists_def split: option.splits)

lemma assertAccountExists_Inr:
  "assertAccountExists i db = (Inr u, db') \<longleftrightarrow> db' = db \<and> find_account i db \<noteq> None"
  by (auto simp: assertAccountExists_def split: option.splits)

lemma assertAccountExists_Inl: "assertAccountExists i db = (Inl e, db') \<Longrightarrow> db' = db"
  by (auto simp: assertAccountExists_def split: option.splits)

lemma locks_reads_pure: "snd (lock_list i a db) = db" "snd (comment_list i db) = db"
  by (auto simp: lock_list_def comment_list_def op_bind_def assertAccountExists_def
      split: option.splits)

lemma getDetail_locked:
  "account_getDetail i db = (Inr d, db') \<Longrightarrow> ad_locked d = account_locked i db"
  by (auto simp: account_getDetail_def account_getById_def op_bind_def account_locked_def
      find_Some_iff find_None_iff split: option.splits)

lemma lock_create_Inr:
  assumes "lock_create newId now i reason db = (Inr l, db')"
  shows "find_account i db \<noteq> None \<and>
    accountLocks db' = accountLocks db @ [\<lparr>lk_id = newId, lk_seq = seq_locks db, lk_accountId = i,
      lk_reason = reason, lk_createdAt = now, lk_releasedAt = None\<rparr>] \<and>
    customers db' = customers db \<and> accounts db' = accounts db \<and> transfers db' = transfers db \<and>
    accountComments db' = accountComments db"
  using assms
  by (auto simp: lock_create_def transaction_Inr op_bind_Inr assertAccountExists_Inr insert_lock_def
      Let_def split: if_splits)

definition lock_ids_unique :: "bank_db \<Rightarrow> bool" where
  "lock_ids_unique db \<longleftrightarrow> distinct (map lk_id (accountLocks db))"

text \<open>The four outcomes of a release.\<close>

lemma lock_release_cases:
  "lock_release now i k db =
     (if find_account i db = None then (Inl (AppErr (NotFoundError ACCOUNT_NOT_FOUND
        (''Account '' @ i @ '' does not exist'') None)), db)
      else case filter (releasable i k) (accountLocks db) of
          l # _ \<Rightarrow> (Inr (read_lock (l\<lparr>lk_releasedAt := Some now\<rparr>)),
            db\<lparr>accountLocks := update_where (releasable i k)
                 (\<lambda>l. l\<lparr>lk_releasedAt := Some now\<rparr>) (accountLocks db)\<rparr>)
        | [] \<Rightarrow> (if \<exists>l\<in>set (accountLocks db). lk_id l = k \<and> lk_accountId l = i
            then (Inl (AppErr (ConflictError LOCK_ALREADY_RELEASED
                   (''Lock '' @ k @ '' was already released'') None)), db)
            else (Inl (AppErr (NotFoundError LOCK_NOT_FOUND
                   (''Lock '' @ k @ '' does not exist on this account'') None)), db)))"
proof (cases "filter (releasable i k) (accountLocks db)")
  case Nil
  then have same: "update_where (releasable i k) (\<lambda>l. l\<lparr>lk_releasedAt := Some now\<rparr>) (accountLocks db)
      = accountLocks db"
    by (intro update_where_absent) (auto simp: filter_empty_conv)
  show ?thesis
    using Nil same
    by (auto simp: lock_release_def assertAccountExists_def op_bind_def release_rows_def
        find_None_iff find_Some_iff split: option.splits)
next
  case (Cons l ls)
  then show ?thesis
    by (auto simp: lock_release_def assertAccountExists_def op_bind_def release_rows_def
        split: option.splits)
qed

section \<open>Properties\<close>

text \<open>
  a lock's life. Creating a lock makes the account locked; releasing that lock succeeds once,
  stamps the time, and unlocks the account exactly if it had no other active lock; releasing it
  again is a 409 \<open>LOCK_ALREADY_RELEASED\<close> that changes nothing; and through another account's path
  it cannot be released at all.
\<close>

theorem lock_lifecycle:
  assumes "lock_create newId now i reason db = (Inr l, db1)"
    and "lock_release now' i newId db1 = (r, db2)"
  shows "account_locked i db1 \<and> r = Inr (l\<lparr>lk_releasedAt := Some now'\<rparr>) \<and>
    (\<forall>j. account_locked j db2 = account_locked j db) \<and>
    (\<exists>e. lock_release now'' i newId db2 = (Inl (AppErr e), db2) \<and> ae_status e = 409 \<and>
         ae_code e = LOCK_ALREADY_RELEASED) \<and>
    (\<forall>k. k \<noteq> i \<longrightarrow> (\<exists>e. lock_release now'' k newId db1 = (Inl (AppErr e), db1) \<and> ae_status e = 404))"
proof -
  define row where "row = \<lparr>lk_id = newId, lk_seq = seq_locks db, lk_accountId = i,
      lk_reason = reason, lk_createdAt = now, lk_releasedAt = None\<rparr>"
  define row' where "row' = row\<lparr>lk_releasedAt := Some now'\<rparr>"
  have f: "find_account i db \<noteq> None" and acc: "accounts db1 = accounts db"
    and locks: "accountLocks db1 = accountLocks db @ [row]"
    using lock_create_Inr [OF assms(1)] by (simp_all add: row_def)
  have l: "l = read_lock row" and fresh: "\<forall>x\<in>set (accountLocks db). lk_id x \<noteq> newId"
    using assms(1)
    by (auto simp: lock_create_def transaction_Inr op_bind_Inr assertAccountExists_Inr insert_lock_def
        Let_def row_def split: if_splits)
  have f1: "find_account j db1 = find_account j db" for j using acc by (simp add: find_account_def)
  have none: "filter (releasable j newId) (accountLocks db) = []" for j
    using fresh by (auto simp: filter_empty_conv releasable_def)
  have upd: "update_where (releasable i newId) (\<lambda>l. l\<lparr>lk_releasedAt := Some now'\<rparr>) (accountLocks db1)
      = accountLocks db @ [row']"
    using fresh by (auto simp: locks update_where_def releasable_def row_def row'_def intro!: map_idI)
  have rel: "releasable i newId row" by (simp add: row_def releasable_def)
  have d2: "lock_release now' i newId db1 = (Inr (read_lock row'), db1\<lparr>accountLocks := accountLocks db @ [row']\<rparr>)"
    unfolding lock_release_cases upd
    using f none [of i] rel by (simp add: f1 locks row'_def)
  then have r: "r = Inr (read_lock row')" and locks2: "accountLocks db2 = accountLocks db @ [row']"
    and f2: "find_account i db2 \<noteq> None"
    using assms(2) f by (auto simp: find_account_def acc)
  have act: "\<not> active_lock j row'" for j by (simp add: row'_def active_lock_def)
  have "releasable i newId row'\<longleftrightarrow> False" by (simp add: row'_def releasable_def)
  then have again: "\<exists>e. lock_release now'' i newId db2 = (Inl (AppErr e), db2) \<and> ae_status e = 409 \<and>
      ae_code e = LOCK_ALREADY_RELEASED"
    using f2 none [of i] by (auto simp: lock_release_cases locks2 row'_def row_def ConflictError_def)
  have other: "\<exists>e. lock_release now'' k newId db1 = (Inl (AppErr e), db1) \<and> ae_status e = 404"
    if "k \<noteq> i" for k
    using that fresh none [of k]
    by (auto simp: lock_release_cases locks row_def releasable_def NotFoundError_def)
  have "account_locked i db1" by (auto simp: account_locked_def locks row_def active_lock_def)
  moreover have "read_lock row' = l\<lparr>lk_releasedAt := Some now'\<rparr>"
    by (simp add: l row'_def read_lock_def)
  moreover have "account_locked j db2 = account_locked j db" for j
    using act by (auto simp: account_locked_def locks2)
  ultimately show ?thesis using r again other by blast
qed

theorem lock_lifecycle_witness:
  "let db1 = snd (lock_create ''l'' 5 ''a'' ''fraud'' sample_db);
       db2 = snd (lock_release 9 ''a'' ''l'' db1)
   in account_locked ''a'' db1 \<and> account_locked ''a'' db2 = account_locked ''a'' sample_db"
proof -
  obtain l db1 where c: "lock_create ''l'' 5 ''a'' ''fraud'' sample_db = (Inr l, db1)"
    by (auto simp: lock_create_def transaction_def op_bind_def assertAccountExists_def find_account_def
        sample_db_def sample_account_def insert_lock_def storable_def empty_db_def Let_def)
  obtain r db2 where d: "lock_release 9 ''a'' ''l'' db1 = (r, db2)" by fastforce
  from lock_lifecycle [OF c d] c d show ?thesis by simp
qed

end
