(* ===== verification/Transfers.thy ===== *)
theory Transfers
  imports Locks
begin

text \<open>
  \<open>apps/app-apis/src/modules/transfers/service.ts\<close> and the producer side of
  \<open>packages/queue/src/transfers.ts\<close>: accepting a transfer under an idempotency key. The queue is
  external; what the service does to it is the list of \<open>queue.add\<close> calls it made. The SHA-256
  digest is a parameter (\<open>sha\<close>), and so is whether Redis answers (\<open>up\<close>).
\<close>

section \<open>The queue as the producer sees it\<close>

text \<open>\<open>queue.add('execute', { transferId }, { jobId })\<close>\<close>

record transfer_job =
  job_id :: string
  job_transferId :: uuid

record bank_state =
  bs_db :: bank_db
  bs_added :: "transfer_job list"

type_synonym 'a bank_op = "(bank_state, thrown, 'a) op"

definition on_db :: "'a db_op \<Rightarrow> 'a bank_op" where
  "on_db m s = (case m (bs_db s) of (r, db) \<Rightarrow> (r, s\<lparr>bs_db := db\<rparr>))"

definition enqueueTransfer :: "bool \<Rightarrow> uuid \<Rightarrow> string \<Rightarrow> unit bank_op" where
  "enqueueTransfer up transferId idempotencyKey s =
     (if up then (Inr (), s\<lparr>bs_added := bs_added s @ [\<lparr>job_id = idempotencyKey, job_transferId = transferId\<rparr>]\<rparr>)
      else (Inl (PlainErr ''redis connection''), s))"

section \<open>The service\<close>

record create_transfer_input =
  ci_idempotencyKey :: string
  ci_fromAccountId :: uuid
  ci_toAccountId :: uuid
  ci_amountCents :: int

record create_transfer_result =
  cr_transfer :: transfer_row
  cr_created :: bool

text \<open>
  \<open>JSON.stringify([from, to, amount])\<close>: validated ids are UUIDs, which JSON does not escape, and
  the amount is a positive safe integer.
\<close>

definition json_string :: "string \<Rightarrow> string" where
  "json_string s = CHR 0x22 # s @ [CHR 0x22]"

definition json_request :: "create_transfer_input \<Rightarrow> string" where
  "json_request input = ''['' @ json_string (ci_fromAccountId input) @ '','' @
     json_string (ci_toAccountId input) @ '','' @ decimal (nat (ci_amountCents input)) @ '']''"

definition hashRequest :: "(string \<Rightarrow> string) \<Rightarrow> create_transfer_input \<Rightarrow> string" where
  "hashRequest sha input = sha (json_request input)"

text \<open>The loop over \<open>['Source', from]\<close>, \<open>['Destination', to]\<close> after one \<open>SELECT ... WHERE id IN\<close>.\<close>

fun check_found :: "uuid list \<Rightarrow> (string \<times> uuid) list \<Rightarrow> unit db_op" where
  "check_found found [] db = (Inr (), db)"
| "check_found found ((label, accountId) # rest) db =
     (if accountId \<in> set found then check_found found rest db
      else (Inl (AppErr (NotFoundError ACCOUNT_NOT_FOUND
              (label @ '' account '' @ accountId @ '' does not exist'')
              (Some [(''accountId'', accountId)]))), db))"

definition assertAccountsExist :: "create_transfer_input \<Rightarrow> unit db_op" where
  "assertAccountsExist input db =
     (let rows = filter (\<lambda>r. ac_id r \<in> {ci_fromAccountId input, ci_toAccountId input}) (accounts db);
          found = map ac_id rows
      in check_found found [(''Source'', ci_fromAccountId input), (''Destination'', ci_toAccountId input)] db)"

definition transfer_replay :: "bool \<Rightarrow> string \<Rightarrow> string \<Rightarrow> create_transfer_result bank_op" where
  "transfer_replay up idempotencyKey requestHash s = (case find_key idempotencyKey (bs_db s) of
       None \<Rightarrow> (Inl (PlainErr (''Transfer with idempotency key '' @ idempotencyKey @ '' not found'')), s)
     | Some r \<Rightarrow> let row = read_transfer r in
         if tr_requestHash row \<noteq> Some requestHash
         then (Inl (AppErr (ConflictError IDEMPOTENCY_KEY_REUSED
                 ''This Idempotency-Key was already used with a different payload'' None)), s)
         else op_bind (if tr_status row = Pending then enqueueTransfer up (tr_id row) idempotencyKey
                       else op_return ())
                (\<lambda>_. op_return \<lparr>cr_transfer = row, cr_created = False\<rparr>) s)"

definition transfer_create ::
  "(string \<Rightarrow> string) \<Rightarrow> bool \<Rightarrow> uuid \<Rightarrow> int \<Rightarrow> create_transfer_input \<Rightarrow> create_transfer_result bank_op" where
  "transfer_create sha up newId now input s =
     (if ci_fromAccountId input = ci_toAccountId input
      then (Inl (AppErr (UnprocessableError SAME_ACCOUNT
              ''Cannot transfer an amount to the same account'' None)), s)
      else op_bind (on_db (assertAccountsExist input)) (\<lambda>_ s1.
        let requestHash = hashRequest sha input in
        (case on_db (insert_transfer newId now
                \<lparr>tv_idempotencyKey = Some (ci_idempotencyKey input), tv_requestHash = Some requestHash,
                 tv_fromAccountId = Some (ci_fromAccountId input), tv_toAccountId = ci_toAccountId input,
                 tv_amountCents = ci_amountCents input, tv_status = Pending, tv_completedAt = None\<rparr>) s1 of
           (Inl err, s2) \<Rightarrow>
             if \<not> isUniqueViolation err then (Inl err, s2)
             else transfer_replay up (ci_idempotencyKey input) requestHash s2
         | (Inr pending, s2) \<Rightarrow>
             op_bind (enqueueTransfer up (tr_id pending) (ci_idempotencyKey input))
               (\<lambda>_. op_return \<lparr>cr_transfer = pending, cr_created = True\<rparr>) s2)) s)"

definition transfer_getById :: "uuid \<Rightarrow> transfer_row db_op" where
  "transfer_getById transferId db = (case find_transfer transferId db of
       None \<Rightarrow> (Inl (AppErr (NotFoundError TRANSFER_NOT_FOUND
                 (''Transfer '' @ transferId @ '' does not exist'') None)), db)
     | Some row \<Rightarrow> (Inr (read_transfer row), db))"

section \<open>Lemmas\<close>

lemma on_db_Inr: "on_db m s = (Inr x, t) \<longleftrightarrow> (\<exists>db. m (bs_db s) = (Inr x, db) \<and> t = s\<lparr>bs_db := db\<rparr>)"
  by (auto simp: on_db_def split: prod.splits)

lemma on_db_Inl: "on_db m s = (Inl e, t) \<longleftrightarrow> (\<exists>db. m (bs_db s) = (Inl e, db) \<and> t = s\<lparr>bs_db := db\<rparr>)"
  by (auto simp: on_db_def split: prod.splits)

lemma find_account_in: "find_account i db \<noteq> None \<longleftrightarrow> i \<in> ac_id ` set (accounts db)"
  by (auto simp: find_account_def find_None_iff image_iff)

lemma check_found_snd: "check_found found xs db = (r, db') \<Longrightarrow> db' = db"
  by (induction found xs db rule: check_found.induct) (auto split: if_splits)

lemma selected_ids:
  "i \<in> set (map ac_id (filter (\<lambda>r. ac_id r \<in> {a, b}) (accounts db))) \<longleftrightarrow>
     (i = a \<or> i = b) \<and> find_account i db \<noteq> None"
  unfolding find_account_in by auto

lemma assertAccountsExist_eq:
  "assertAccountsExist input db =
     (if find_account (ci_fromAccountId input) db = None
      then (Inl (AppErr (NotFoundError ACCOUNT_NOT_FOUND
              (''Source account '' @ ci_fromAccountId input @ '' does not exist'')
              (Some [(''accountId'', ci_fromAccountId input)]))), db)
      else if find_account (ci_toAccountId input) db = None
      then (Inl (AppErr (NotFoundError ACCOUNT_NOT_FOUND
              (''Destination account '' @ ci_toAccountId input @ '' does not exist'')
              (Some [(''accountId'', ci_toAccountId input)]))), db)
      else (Inr (), db))"
  unfolding assertAccountsExist_def Let_def check_found.simps selected_ids
  by (cases "find_account (ci_fromAccountId input) db"; cases "find_account (ci_toAccountId input) db") simp_all

lemma assertAccountsExist_snd: "assertAccountsExist input db = (r, db') \<Longrightarrow> db' = db"
  by (auto simp: assertAccountsExist_eq split: if_splits)

lemma assertAccountsExist_Inr:
  "assertAccountsExist input db = (Inr u, db') \<longleftrightarrow>
     db' = db \<and> find_account (ci_fromAccountId input) db \<noteq> None \<and> find_account (ci_toAccountId input) db \<noteq> None"
  by (auto simp: assertAccountsExist_eq)

lemma assertAccountsExist_Inl:
  "assertAccountsExist input db = (Inl e, db') \<Longrightarrow>
     db' = db \<and> (\<exists>a. e = AppErr a \<and> ae_status a = 404 \<and> ae_code a = ACCOUNT_NOT_FOUND) \<and>
     (find_account (ci_fromAccountId input) db = None \<or> find_account (ci_toAccountId input) db = None)"
  by (auto simp: assertAccountsExist_eq NotFoundError_def split: if_splits)

text \<open>The pending row an accepted request leaves, and the inputs that are accepted at all.\<close>

definition pending_row :: "(string \<Rightarrow> string) \<Rightarrow> uuid \<Rightarrow> int \<Rightarrow> create_transfer_input \<Rightarrow> int \<Rightarrow> transfer_row" where
  "pending_row sha newId now input seq =
     \<lparr>tr_id = newId, tr_seq = seq, tr_idempotencyKey = Some (ci_idempotencyKey input),
      tr_requestHash = Some (hashRequest sha input), tr_fromAccountId = Some (ci_fromAccountId input),
      tr_toAccountId = ci_toAccountId input, tr_amountCents = ci_amountCents input, tr_status = Pending,
      tr_failureReason = None, tr_createdAt = now, tr_completedAt = None\<rparr>"

definition transfer_inputs_ok :: "create_transfer_input \<Rightarrow> bank_db \<Rightarrow> bool" where
  "transfer_inputs_ok input db \<longleftrightarrow> ci_fromAccountId input \<noteq> ci_toAccountId input \<and>
     find_account (ci_fromAccountId input) db \<noteq> None \<and> find_account (ci_toAccountId input) db \<noteq> None \<and>
     0 < ci_amountCents input \<and> ci_amountCents input \<le> MAX_SAFE_INTEGER"

lemma transfer_create_new:
  assumes "transfer_inputs_ok input (bs_db s)" "find_transfer newId (bs_db s) = None"
    and "find_key (ci_idempotencyKey input) (bs_db s) = None"
  shows "transfer_create sha up newId now input s =
    (let row = pending_row sha newId now input (seq_transfers (bs_db s));
         db' = (bs_db s)\<lparr>seq_transfers := seq_transfers (bs_db s) + 1, transfers := transfers (bs_db s) @ [row]\<rparr>
     in if up then (Inr \<lparr>cr_transfer = read_transfer row, cr_created = True\<rparr>,
           s\<lparr>bs_db := db', bs_added := bs_added s @ [\<lparr>job_id = ci_idempotencyKey input, job_transferId = newId\<rparr>]\<rparr>)
        else (Inl (PlainErr ''redis connection''), s\<lparr>bs_db := db'\<rparr>))"
proof -
  have "assertAccountsExist input (bs_db s) = (Inr (), bs_db s)"
    using assms(1) by (simp add: assertAccountsExist_Inr transfer_inputs_ok_def)
  moreover have "ci_amountCents input \<le> BIGINT_MAX" "0 < ci_amountCents input"
    using assms(1) by (simp_all add: transfer_inputs_ok_def BIGINT_MAX_def MAX_SAFE_INTEGER_def)
  ultimately show ?thesis
    using assms
    by (auto simp: transfer_create_def transfer_inputs_ok_def op_bind_def on_db_def insert_transfer_def
        Let_def pending_row_def enqueueTransfer_def read_transfer_def)
qed

lemma transfer_create_known_key:
  assumes "transfer_inputs_ok input (bs_db s)"
    and "find_key (ci_idempotencyKey input) (bs_db s) \<noteq> None"
  shows "transfer_create sha up newId now input s =
    transfer_replay up (ci_idempotencyKey input) (hashRequest sha input)
      (s\<lparr>bs_db := (bs_db s)\<lparr>seq_transfers := seq_transfers (bs_db s) + 1\<rparr>\<rparr>)"
proof -
  have "assertAccountsExist input (bs_db s) = (Inr (), bs_db s)"
    using assms(1) by (simp add: assertAccountsExist_Inr transfer_inputs_ok_def)
  moreover have "ci_amountCents input \<le> BIGINT_MAX" "0 < ci_amountCents input"
    using assms(1) by (simp_all add: transfer_inputs_ok_def BIGINT_MAX_def MAX_SAFE_INTEGER_def)
  ultimately show ?thesis
    using assms
    by (auto simp: transfer_create_def transfer_inputs_ok_def op_bind_def on_db_def insert_transfer_def
        Let_def)
qed

lemma transfer_replay_pending:
  assumes "find_key k (bs_db s) = Some r" "tr_requestHash r = Some h" "tr_status r = Pending"
  shows "transfer_replay True k h s = (Inr \<lparr>cr_transfer = read_transfer r, cr_created = False\<rparr>,
    s\<lparr>bs_added := bs_added s @ [\<lparr>job_id = k, job_transferId = tr_id r\<rparr>]\<rparr>)"
  using assms by (simp add: transfer_replay_def read_transfer_def Let_def op_bind_def enqueueTransfer_def)

lemma transfer_replay_mismatch:
  assumes "find_key k (bs_db s) = Some r" "tr_requestHash r \<noteq> Some h"
  shows "transfer_replay up k h s = (Inl (AppErr (ConflictError IDEMPOTENCY_KEY_REUSED
    ''This Idempotency-Key was already used with a different payload'' None)), s)"
  using assms by (simp add: transfer_replay_def read_transfer_def Let_def)

text \<open>The canonical request string determines the request: ids contain no quote.\<close>

definition plain_id :: "uuid \<Rightarrow> bool" where
  "plain_id i \<longleftrightarrow> CHR 0x22 \<notin> set i"

lemma json_string_inject:
  assumes "plain_id a" "plain_id b" "json_string a @ xs = json_string b @ ys"
  shows "a = b \<and> xs = ys"
proof -
  have e: "a @ CHR 0x22 # xs = b @ CHR 0x22 # ys" using assms(3) by (simp add: json_string_def)
  have "takeWhile (\<lambda>c. c \<noteq> CHR 0x22) (i @ CHR 0x22 # zs) = i" if "plain_id i" for i zs
    using that by (subst takeWhile_append2) (auto simp: plain_id_def)
  then have "a = b" using e assms(1,2) by metis
  with e show ?thesis by simp
qed

lemma json_request_inject:
  assumes "json_request a = json_request b" "0 < ci_amountCents a" "0 < ci_amountCents b"
    and "plain_id (ci_fromAccountId a)" "plain_id (ci_toAccountId a)"
    and "plain_id (ci_fromAccountId b)" "plain_id (ci_toAccountId b)"
  shows "ci_fromAccountId a = ci_fromAccountId b \<and> ci_toAccountId a = ci_toAccountId b \<and>
    ci_amountCents a = ci_amountCents b"
proof -
  have e: "json_string (ci_fromAccountId a) @ '','' @ json_string (ci_toAccountId a) @ '','' @
      decimal (nat (ci_amountCents a)) @ '']'' = json_string (ci_fromAccountId b) @ '','' @
      json_string (ci_toAccountId b) @ '','' @ decimal (nat (ci_amountCents b)) @ '']''"
    using assms(1) by (simp add: json_request_def)
  from json_string_inject [OF assms(4,6) e]
  have 1: "ci_fromAccountId a = ci_fromAccountId b" and
    e2: "json_string (ci_toAccountId a) @ '','' @ decimal (nat (ci_amountCents a)) @ '']'' =
      json_string (ci_toAccountId b) @ '','' @ decimal (nat (ci_amountCents b)) @ '']''"
    by simp_all
  from json_string_inject [OF assms(5,7) e2] have "ci_toAccountId a = ci_toAccountId b"
    and "nat (ci_amountCents a) = nat (ci_amountCents b)" by simp_all
  with 1 assms(2,3) show ?thesis by simp
qed

lemma find_key_pending:
  "find_key (ci_idempotencyKey input) db = None \<Longrightarrow>
     find_key (ci_idempotencyKey input) (db\<lparr>seq_transfers := n, transfers := transfers db @ [pending_row sha i now input q]\<rparr>)
       = Some (pending_row sha i now input q)"
  by (simp add: find_key_def find_append pending_row_def)

lemma find_key_None_filter:
  "find_key k db = None \<Longrightarrow> filter (\<lambda>t. tr_idempotencyKey t = Some k) (transfers db) = []"
  by (auto simp: find_key_def find_None_iff filter_empty_conv)

lemma transfer_inputs_ok_frame:
  "accounts db' = accounts db \<Longrightarrow> transfer_inputs_ok input db' = transfer_inputs_ok input db"
  by (simp add: transfer_inputs_ok_def find_account_def)

section \<open>Properties\<close>

text \<open>
  C6: submitting a transfer is safe to retry. The first request may succeed, or store the pending row
  and then fail because Redis is down; in both cases a retry with the same key and payload
  answers with the stored transfer (\<open>created: false\<close>), leaves exactly one row under the key, and
  makes sure a job for that row is queued under the key as job id. No retry ever adds a second
  row or a job for anything else.
\<close>

theorem transfer_retry:
  assumes "transfer_inputs_ok input (bs_db s)" "find_transfer newId (bs_db s) = None"
    and "find_key (ci_idempotencyKey input) (bs_db s) = None"
    and "transfer_create sha up newId now input s = (r1, s1)"
    and "transfer_create sha True newId2 now2 input s1 = (r2, s2)"
  shows "let row = pending_row sha newId now input (seq_transfers (bs_db s));
             job = \<lparr>job_id = ci_idempotencyKey input, job_transferId = newId\<rparr> in
    r2 = Inr \<lparr>cr_transfer = read_transfer row, cr_created = False\<rparr> \<and>
    filter (\<lambda>t. tr_idempotencyKey t = Some (ci_idempotencyKey input)) (transfers (bs_db s2)) = [row] \<and>
    accounts (bs_db s2) = accounts (bs_db s) \<and>
    (\<exists>n. bs_added s2 = bs_added s @ replicate (Suc n) job)"
proof -
  let ?row = "pending_row sha newId now input (seq_transfers (bs_db s))"
  let ?job = "\<lparr>job_id = ci_idempotencyKey input, job_transferId = newId\<rparr>"
  let ?db = "(bs_db s)\<lparr>seq_transfers := seq_transfers (bs_db s) + 1, transfers := transfers (bs_db s) @ [?row]\<rparr>"
  have s1: "bs_db s1 = ?db" "bs_added s1 = bs_added s @ (if up then [?job] else [])"
    using assms(4) transfer_create_new [OF assms(1-3), of sha up now] by (auto simp: Let_def split: if_splits)
  have key: "find_key (ci_idempotencyKey input) (bs_db s1) = Some ?row"
    unfolding s1 by (rule find_key_pending [OF assms(3)])
  have ok: "transfer_inputs_ok input (bs_db s1)"
    using assms(1) transfer_inputs_ok_frame [of "bs_db s1" "bs_db s"] s1 by simp
  have key': "find_key (ci_idempotencyKey input) ((bs_db s1)\<lparr>seq_transfers := seq_transfers (bs_db s1) + 1\<rparr>) = Some ?row"
    using key by (simp add: find_key_def)
  have "(r2, s2) = (Inr \<lparr>cr_transfer = read_transfer ?row, cr_created = False\<rparr>,
      s1\<lparr>bs_db := (bs_db s1)\<lparr>seq_transfers := seq_transfers (bs_db s1) + 1\<rparr>, bs_added := bs_added s1 @ [?job]\<rparr>)"
    using assms(5) transfer_create_known_key [OF ok, of sha True newId2 now2] key
      transfer_replay_pending [of _ "s1\<lparr>bs_db := (bs_db s1)\<lparr>seq_transfers := seq_transfers (bs_db s1) + 1\<rparr>\<rparr>" ?row] key'
    by (auto simp: pending_row_def)
  then have r2: "r2 = Inr \<lparr>cr_transfer = read_transfer ?row, cr_created = False\<rparr>"
    and db2: "bs_db s2 = (bs_db s1)\<lparr>seq_transfers := seq_transfers (bs_db s1) + 1\<rparr>"
    and ad2: "bs_added s2 = bs_added s @ (if up then [?job] else []) @ [?job]"
    by (simp_all add: s1)
  have "bs_added s2 = bs_added s @ replicate (Suc (if up then 1 else 0)) ?job" using ad2 by simp
  moreover have "filter (\<lambda>t. tr_idempotencyKey t = Some (ci_idempotencyKey input)) (transfers (bs_db s2)) = [?row]"
    using find_key_None_filter [OF assms(3)] by (simp add: db2 s1) (simp add: pending_row_def)
  moreover have "accounts (bs_db s2) = accounts (bs_db s)" by (simp add: db2 s1)
  ultimately show ?thesis unfolding Let_def using r2 by blast
qed

text \<open>
  a key never stands for two payloads. Once a request was accepted under a key, a request with the
  same key and another source, destination or amount is refused with 409
  \<open>IDEMPOTENCY_KEY_REUSED\<close>: no table and no queue changes. The digest is assumed to separate the
  two canonical request strings (which themselves differ, because ids contain no quote).
\<close>

theorem key_reuse_conflict:
  assumes "\<And>x y. sha x = sha y \<Longrightarrow> x = y"
    and "transfer_inputs_ok input (bs_db s)" "transfer_inputs_ok input' (bs_db s)"
    and "find_transfer newId (bs_db s) = None" "find_key (ci_idempotencyKey input) (bs_db s) = None"
    and "ci_idempotencyKey input' = ci_idempotencyKey input"
    and "(ci_fromAccountId input', ci_toAccountId input', ci_amountCents input')
           \<noteq> (ci_fromAccountId input, ci_toAccountId input, ci_amountCents input)"
    and "list_all plain_id [ci_fromAccountId input, ci_toAccountId input, ci_fromAccountId input', ci_toAccountId input']"
    and "transfer_create sha up newId now input s = (r1, s1)"
    and "transfer_create sha up' newId2 now2 input' s1 = (r2, s2)"
  shows "(\<exists>e. r2 = Inl (AppErr e) \<and> ae_status e = 409 \<and> ae_code e = IDEMPOTENCY_KEY_REUSED) \<and>
    same_tables (bs_db s1) (bs_db s2) \<and> bs_added s2 = bs_added s1"
proof -
  let ?row = "pending_row sha newId now input (seq_transfers (bs_db s))"
  let ?db = "(bs_db s)\<lparr>seq_transfers := seq_transfers (bs_db s) + 1, transfers := transfers (bs_db s) @ [?row]\<rparr>"
  have s1: "bs_db s1 = ?db"
    using assms(9) transfer_create_new [OF assms(2,4,5), of sha up now] by (auto simp: Let_def split: if_splits)
  have key: "find_key (ci_idempotencyKey input') (bs_db s1) = Some ?row"
    unfolding s1 assms(6) by (rule find_key_pending [OF assms(5)])
  have ok: "transfer_inputs_ok input' (bs_db s1)"
    using assms(3) transfer_inputs_ok_frame [of "bs_db s1" "bs_db s"] s1 by simp
  have key': "find_key (ci_idempotencyKey input') ((bs_db s1)\<lparr>seq_transfers := seq_transfers (bs_db s1) + 1\<rparr>) = Some ?row"
    using key by (simp add: find_key_def)
  have "json_request input \<noteq> json_request input'"
    using json_request_inject [of input input'] assms(2,3,7,8)
    by (auto simp: transfer_inputs_ok_def)
  then have "hashRequest sha input \<noteq> hashRequest sha input'" using assms(1) by (auto simp: hashRequest_def)
  then have neq: "tr_requestHash ?row \<noteq> Some (hashRequest sha input')"
    by (simp add: pending_row_def)
  have "(r2, s2) = (Inl (AppErr (ConflictError IDEMPOTENCY_KEY_REUSED
        ''This Idempotency-Key was already used with a different payload'' None)),
      s1\<lparr>bs_db := (bs_db s1)\<lparr>seq_transfers := seq_transfers (bs_db s1) + 1\<rparr>\<rparr>)"
    using assms(10) transfer_create_known_key [OF ok, of sha up' newId2 now2] key
      transfer_replay_mismatch [of _ "s1\<lparr>bs_db := (bs_db s1)\<lparr>seq_transfers := seq_transfers (bs_db s1) + 1\<rparr>\<rparr>", OF _ neq] key'
    by auto
  then show ?thesis by (auto simp: ConflictError_def same_tables_def)
qed

definition two_accounts :: bank_state where
  "two_accounts = \<lparr>bs_db = empty_db\<lparr>accounts := [sample_account, sample_account\<lparr>ac_id := ''b'', ac_seq := 2\<rparr>]\<rparr>,
     bs_added = []\<rparr>"

definition sample_input :: "int \<Rightarrow> create_transfer_input" where
  "sample_input n = \<lparr>ci_idempotencyKey = ''k'', ci_fromAccountId = ''a'', ci_toAccountId = ''b'', ci_amountCents = n\<rparr>"

lemma sample_input_ok:
  "0 < n \<Longrightarrow> n \<le> 1000 \<Longrightarrow> transfer_inputs_ok (sample_input n) (bs_db two_accounts)"
  "find_transfer i (bs_db two_accounts) = None" "find_key k (bs_db two_accounts) = None"
  by (simp_all add: transfer_inputs_ok_def sample_input_def two_accounts_def find_account_def
      sample_account_def find_transfer_def find_key_def empty_db_def MAX_SAFE_INTEGER_def)

theorem transfer_retry_witness:
  "let s1 = snd (transfer_create (\<lambda>x. x) False ''t1'' 0 (sample_input 25) two_accounts);
       (r2, s2) = transfer_create (\<lambda>x. x) True ''t2'' 1 (sample_input 25) s1
   in map tr_id (transfers (bs_db s2)) = [''t1''] \<and> (\<exists>n. bs_added s2 = replicate (Suc n) \<lparr>job_id = ''k'', job_transferId = ''t1''\<rparr>)"
proof -
  obtain r1 s1 where 1: "transfer_create (\<lambda>x. x) False ''t1'' 0 (sample_input 25) two_accounts = (r1, s1)" by fastforce
  obtain r2 s2 where 2: "transfer_create (\<lambda>x. x) True ''t2'' 1 (sample_input 25) s1 = (r2, s2)" by fastforce
  have "length (transfers (bs_db s2)) = 1"
    using 1 2 by (auto simp: transfer_create_def sample_input_def two_accounts_def op_bind_def on_db_def
        assertAccountsExist_eq find_account_def sample_account_def insert_transfer_def empty_db_def
        find_transfer_def find_key_def enqueueTransfer_def Let_def transfer_replay_def BIGINT_MAX_def
        split: if_splits prod.splits)
  then obtain t where t: "transfers (bs_db s2) = [t]" by (cases "transfers (bs_db s2)") auto
  have "sample_input 25 = \<lparr>ci_idempotencyKey = ''k'', ci_fromAccountId = ''a'', ci_toAccountId = ''b'', ci_amountCents = 25\<rparr>"
    by (simp add: sample_input_def)
  then show ?thesis
    using transfer_retry [OF sample_input_ok(1) sample_input_ok(2,3) 1 2] 1 2 t
    by (auto simp: Let_def pending_row_def two_accounts_def split: if_splits)
qed

theorem key_reuse_conflict_witness:
  "let s1 = snd (transfer_create (\<lambda>x. x) True ''t1'' 0 (sample_input 25) two_accounts);
       (r2, s2) = transfer_create (\<lambda>x. x) True ''t2'' 1 (sample_input 26) s1
   in bs_added s2 = bs_added s1 \<and> (\<forall>x. r2 \<noteq> Inr x)"
proof -
  obtain r1 s1 where 1: "transfer_create (\<lambda>x. x) True ''t1'' 0 (sample_input 25) two_accounts = (r1, s1)" by fastforce
  obtain r2 s2 where 2: "transfer_create (\<lambda>x. x) True ''t2'' 1 (sample_input 26) s1 = (r2, s2)" by fastforce
  from key_reuse_conflict [OF _ sample_input_ok(1) sample_input_ok(1) sample_input_ok(2,3) _ _ _ 1 2] 1 2
  show ?thesis by (auto simp: sample_input_def plain_id_def)
qed

end
