(* ===== verification/Executor.thy ===== *)
theory Executor
  imports Transfers
begin

text \<open>
  \<open>packages/shared/src/transfers/executor.ts\<close> and \<open>processor.ts\<close>: moving the money of one pending
  transfer in one transaction, recording rejections on the row, and the job processor that makes
  re-delivery harmless. One job runs alone here; overlapping workers are in theory Workers.
\<close>

section \<open>The executor\<close>

definition transferFailureError :: "string \<Rightarrow> uuid \<Rightarrow> app_error" where
  "transferFailureError reason transferId =
     (let details = Some [(''transferId'', transferId)] in
      if reason = ''INSUFFICIENT_FUNDS''
      then UnprocessableError INSUFFICIENT_FUNDS
             ''The source account balance is lower than the transfer amount'' details
      else if reason = ''ACCOUNT_LOCKED''
      then UnprocessableError ACCOUNT_LOCKED
             ''One of the accounts is locked; the transfer was rejected'' details
      else UnprocessableError INSUFFICIENT_FUNDS (''Transfer failed: '' @ reason) details)"

text \<open>The loop over the sorted ids: \<open>SELECT id, balance_cents ... FOR UPDATE\<close> into \<open>rowById\<close>.\<close>

fun lock_rows :: "uuid list \<Rightarrow> (uuid, int) jsmap \<Rightarrow> (uuid, int) jsmap db_op" where
  "lock_rows [] rowById db = (Inr rowById, db)"
| "lock_rows (accountId # rest) rowById db = (case find_account accountId db of
       None \<Rightarrow> (Inl (AppErr (NotFoundError ACCOUNT_NOT_FOUND
                 (''Account '' @ accountId @ '' does not exist'') None)), db)
     | Some row \<Rightarrow> lock_rows rest (js_set (ac_id row) (to_number (ac_balanceCents row)) rowById) db)"

definition complete_row :: "int \<Rightarrow> transfer_row \<Rightarrow> transfer_row" where
  "complete_row now t = t\<lparr>tr_status := Completed, tr_completedAt := Some now\<rparr>"

definition fail_row :: "int \<Rightarrow> error_code \<Rightarrow> transfer_row \<Rightarrow> transfer_row" where
  "fail_row now code t =
     t\<lparr>tr_status := FailedStatus, tr_failureReason := Some (code_string code), tr_completedAt := Some now\<rparr>"

definition execute_tx :: "int \<Rightarrow> uuid \<Rightarrow> uuid \<Rightarrow> uuid \<Rightarrow> int \<Rightarrow> transfer_row db_op" where
  "execute_tx now i fromAccountId toAccountId amountCents =
     op_bind (lock_rows (sort [fromAccountId, toAccountId]) []) (\<lambda>rowById.
     op_bind (op_gets (\<lambda>db. filter (\<lambda>l. lk_accountId l \<in> {fromAccountId, toAccountId} \<and> lk_releasedAt l = None)
       (accountLocks db))) (\<lambda>lockedRows.
     if length lockedRows > 0 then op_throw (AppErr (transferFailureError ''ACCOUNT_LOCKED'' i))
     else if (case map_of rowById fromAccountId of None \<Rightarrow> True | Some source \<Rightarrow> source < amountCents)
     then op_throw (AppErr (transferFailureError ''INSUFFICIENT_FUNDS'' i))
     else op_bind (update_balance fromAccountId (- amountCents)) (\<lambda>_.
          op_bind (update_balance toAccountId amountCents) (\<lambda>_.
          op_bind (update_transfer i (complete_row now)) (\<lambda>completed. case completed of
              None \<Rightarrow> op_throw (PlainErr (''Transfer row '' @ i @ '' disappeared mid-transaction''))
            | Some row \<Rightarrow> op_return row)))))"

definition execute :: "int \<Rightarrow> transfer_row \<Rightarrow> transfer_row db_op" where
  "execute now transfer db = (case tr_fromAccountId transfer of
       None \<Rightarrow> (Inl (PlainErr (''Transfer '' @ tr_id transfer @
                 '' has no source account; deposits are not queued'')), db)
     | Some fromAccountId \<Rightarrow>
         (case transaction (execute_tx now (tr_id transfer) fromAccountId (tr_toAccountId transfer)
                (tr_amountCents transfer)) db of
            (Inr row, db') \<Rightarrow> (Inr row, db')
          | (Inl err, db') \<Rightarrow> (case err of
                AppErr e \<Rightarrow> if is_unprocessable err
                  then (Inl err, snd (update_transfer (tr_id transfer) (fail_row now (ae_code e)) db'))
                  else (Inl err, db')
              | _ \<Rightarrow> (Inl err, db'))))"

section \<open>The job processor\<close>

definition process_job :: "int \<Rightarrow> uuid \<Rightarrow> unit db_op" where
  "process_job now transferId db = (case find_transfer transferId db of
       None \<Rightarrow> (Inr (), db)
     | Some r \<Rightarrow> let row = read_transfer r in
         if tr_status row \<noteq> Pending then (Inr (), db)
         else (case execute now row db of
             (Inr _, db') \<Rightarrow> (Inr (), db')
           | (Inl err, db') \<Rightarrow> if is_unprocessable err then (Inr (), db') else (Inl err, db')))"

section \<open>The transaction, case by case\<close>

definition set_row :: "uuid \<Rightarrow> (transfer_row \<Rightarrow> transfer_row) \<Rightarrow> bank_db \<Rightarrow> bank_db" where
  "set_row i g db = db\<lparr>transfers := update_where (\<lambda>t. tr_id t = i) g (transfers db)\<rparr>"

definition add_balance :: "uuid \<Rightarrow> int \<Rightarrow> bank_db \<Rightarrow> bank_db" where
  "add_balance i d db = db\<lparr>accounts := update_where (\<lambda>a. ac_id a = i)
     (\<lambda>a. a\<lparr>ac_balanceCents := ac_balanceCents a + d\<rparr>) (accounts db)\<rparr>"

lemma find_account_id: "find_account i db = Some a \<Longrightarrow> ac_id a = i \<and> a \<in> set (accounts db)"
  by (auto simp: find_account_def find_Some_iff)

lemma find_transfer_id: "find_transfer i db = Some t \<Longrightarrow> tr_id t = i \<and> t \<in> set (transfers db)"
  by (auto simp: find_transfer_def find_Some_iff)

lemma find_update_where_same:
  "find (\<lambda>x. k x = i) xs = Some r \<Longrightarrow> (\<And>x. k (g x) = k x) \<Longrightarrow>
     find (\<lambda>x. k x = i) (update_where (\<lambda>x. k x = i) g xs) = Some (g r)"
  by (induction xs) (auto simp: update_where_def)

lemma find_update_where_other:
  "i \<noteq> j \<Longrightarrow> (\<And>x. k (g x) = k x) \<Longrightarrow>
     find (\<lambda>x. k x = j) (update_where (\<lambda>x. k x = i) g xs) = find (\<lambda>x. k x = j) xs"
  by (induction xs) (auto simp: update_where_def)

lemma find_account_add_other:
  "i \<noteq> j \<Longrightarrow> find_account j (add_balance i d db) = find_account j db"
  by (simp add: find_account_def add_balance_def find_update_where_other)

lemma find_account_frame: "accounts db' = accounts db \<Longrightarrow> find_account i db' = find_account i db"
  by (simp add: find_account_def)

lemma update_balance_ok:
  assumes "find_account i db = Some a" "0 \<le> ac_balanceCents a + d" "ac_balanceCents a + d \<le> BIGINT_MAX"
  shows "update_balance i d db = (Inr (), add_balance i d db)"
  using assms by (auto simp: update_balance_def add_balance_def Let_def BIGINT_MAX_def)

lemma update_balance_overflow:
  assumes "find_account i db = Some a" "ac_balanceCents a + d > BIGINT_MAX"
  shows "update_balance i d db = (Inl (DbErr NumericOutOfRange), db)"
  using assms by (simp add: update_balance_def Let_def)

lemma update_transfer_row:
  assumes "find_transfer i db = Some t" "\<And>t. tr_id (g t) = tr_id t"
  shows "update_transfer i g db = (Inr (Some (read_transfer (g t))), set_row i g db)"
  using assms(1) find_update_where_same [of tr_id i "transfers db" t g] assms(2)
  by (simp add: update_transfer_def set_row_def find_transfer_def Let_def)

lemma lock_rows_both:
  assumes "find_account f db = Some a" "find_account t db = Some b" "f \<noteq> t"
  shows "\<exists>m. lock_rows (sort [f, t]) [] db = (Inr m, db) \<and> map_of m f = Some (to_number (ac_balanceCents a))"
proof -
  have ids: "ac_id a = f" "ac_id b = t" using assms(1,2) find_account_id by blast+
  show ?thesis
    using assms ids by (auto simp: js_get_set)
qed

definition locked_either :: "uuid \<Rightarrow> uuid \<Rightarrow> bank_db \<Rightarrow> bool" where
  "locked_either f t db \<longleftrightarrow> account_locked f db \<or> account_locked t db"

lemma locked_rows_iff:
  "length (filter (\<lambda>l. lk_accountId l \<in> {f, t} \<and> lk_releasedAt l = None) (accountLocks db)) > 0
     \<longleftrightarrow> locked_either f t db"
  by (auto simp: locked_either_def account_locked_def active_lock_def filter_empty_conv)

text \<open>The abstract contract of one execution: what the ledger should do with a transfer.\<close>

datatype verdict = Reject error_code | Overflow | Move

definition verdict_of :: "uuid \<Rightarrow> uuid \<Rightarrow> int \<Rightarrow> int \<Rightarrow> int \<Rightarrow> bank_db \<Rightarrow> verdict" where
  "verdict_of f t amount balance_f balance_t db =
     (if locked_either f t db then Reject ACCOUNT_LOCKED
      else if balance_f < amount then Reject INSUFFICIENT_FUNDS
      else if balance_t + amount > BIGINT_MAX then Overflow
      else Move)"

lemma execute_tx_verdict:
  assumes a: "find_account f db = Some a" and b: "find_account t db = Some b" and ne: "f \<noteq> t"
    and x: "find_transfer i db = Some x" and amt: "0 < amt" "amt \<le> MAX_SAFE_INTEGER"
    and bal: "0 \<le> ac_balanceCents a" "ac_balanceCents a \<le> BIGINT_MAX" "0 \<le> ac_balanceCents b"
  shows "execute_tx now i f t amt db =
    (case verdict_of f t amt (ac_balanceCents a) (ac_balanceCents b) db of
       Reject ACCOUNT_LOCKED \<Rightarrow> (Inl (AppErr (transferFailureError ''ACCOUNT_LOCKED'' i)), db)
     | Reject _ \<Rightarrow> (Inl (AppErr (transferFailureError ''INSUFFICIENT_FUNDS'' i)), db)
     | Overflow \<Rightarrow> (Inl (DbErr NumericOutOfRange), add_balance f (- amt) db)
     | Move \<Rightarrow> (Inr (read_transfer (complete_row now x)),
         set_row i (complete_row now) (add_balance t amt (add_balance f (- amt) db))))"
proof -
  obtain m where m: "lock_rows (sort [f, t]) [] db = (Inr m, db)"
    "map_of m f = Some (to_number (ac_balanceCents a))" using lock_rows_both [OF a b ne] by blast
  have lt: "to_number (ac_balanceCents a) < amt \<longleftrightarrow> ac_balanceCents a < amt"
    using to_number_less_iff bal(1) amt(2) by simp
  have run: "execute_tx now i f t amt db =
    (if locked_either f t db then (Inl (AppErr (transferFailureError ''ACCOUNT_LOCKED'' i)), db)
     else if ac_balanceCents a < amt then (Inl (AppErr (transferFailureError ''INSUFFICIENT_FUNDS'' i)), db)
     else op_bind (update_balance f (- amt)) (\<lambda>_. op_bind (update_balance t amt) (\<lambda>_.
       op_bind (update_transfer i (complete_row now)) (\<lambda>completed. case completed of
              None \<Rightarrow> op_throw (PlainErr (''Transfer row '' @ i @ '' disappeared mid-transaction''))
            | Some row \<Rightarrow> op_return row))) db)"
    unfolding execute_tx_def op_bind_def [of "lock_rows _ _"] m(1) op_bind_def [of "op_gets _"] op_simps
      prod.case sum.case locked_rows_iff m(2) option.case lt
    by (simp del: op_bind_step)
  show ?thesis
  proof (cases "locked_either f t db \<or> ac_balanceCents a < amt")
    case True
    then show ?thesis unfolding run by (auto simp: verdict_of_def)
  next
    case False
    let ?d1 = "add_balance f (- amt) db"
    have s1: "update_balance f (- amt) db = (Inr (), ?d1)"
      using False amt bal by (intro update_balance_ok [OF a]) auto
    have b1: "find_account t ?d1 = Some b" using b ne by (simp add: find_account_add_other)
    have x1: "find_transfer i (add_balance t amt ?d1) = Some x"
      using x by (simp add: find_transfer_def add_balance_def)
    show ?thesis
    proof (cases "ac_balanceCents b + amt > BIGINT_MAX")
      case True
      then have "update_balance t amt ?d1 = (Inl (DbErr NumericOutOfRange), ?d1)"
        by (rule update_balance_overflow [OF b1])
      then show ?thesis unfolding run using False True s1 by (simp add: verdict_of_def)
    next
      case ok: False
      then have s2: "update_balance t amt ?d1 = (Inr (), add_balance t amt ?d1)"
        using amt bal by (intro update_balance_ok [OF b1]) auto
      have "update_transfer i (complete_row now) (add_balance t amt ?d1) =
          (Inr (Some (read_transfer (complete_row now x))),
           set_row i (complete_row now) (add_balance t amt ?d1))"
        by (rule update_transfer_row [OF x1]) (simp add: complete_row_def)
      then show ?thesis unfolding run using False ok s1 s2 by (simp add: verdict_of_def)
    qed
  qed
qed

lemma rollback_add_balance [simp]: "rollback db (add_balance i d db) = db"
  by (simp add: rollback_def add_balance_def)

lemma rollback_self [simp]: "rollback db db = db"
  by (simp add: rollback_def)

lemma transferFailureError_code:
  "ae_code (transferFailureError ''ACCOUNT_LOCKED'' i) = ACCOUNT_LOCKED"
  "ae_code (transferFailureError ''INSUFFICIENT_FUNDS'' i) = INSUFFICIENT_FUNDS"
  "ae_status (transferFailureError r i) = 422"
  by (simp_all add: transferFailureError_def UnprocessableError_def Let_def)

text \<open>What the row and the accounts must satisfy for the executor's contract to apply.\<close>

definition executable_transfer :: "uuid \<Rightarrow> bank_db \<Rightarrow> transfer_row \<Rightarrow> account_row \<Rightarrow> account_row \<Rightarrow> bool" where
  "executable_transfer i db x a b \<longleftrightarrow>
     find_transfer i db = Some x \<and> tr_fromAccountId x = Some (ac_id a) \<and> tr_toAccountId x = ac_id b \<and>
     ac_id a \<noteq> ac_id b \<and> find_account (ac_id a) db = Some a \<and> find_account (ac_id b) db = Some b \<and>
     0 < tr_amountCents x \<and> tr_amountCents x \<le> MAX_SAFE_INTEGER \<and>
     0 \<le> ac_balanceCents a \<and> ac_balanceCents a \<le> BIGINT_MAX \<and> 0 \<le> ac_balanceCents b"

definition settle :: "int \<Rightarrow> uuid \<Rightarrow> transfer_row \<Rightarrow> account_row \<Rightarrow> account_row \<Rightarrow> bank_db \<Rightarrow> (thrown + unit) \<times> bank_db" where
  "settle now i x a b db =
     (case verdict_of (ac_id a) (ac_id b) (tr_amountCents x) (ac_balanceCents a) (ac_balanceCents b) db of
        Reject code \<Rightarrow> (Inr (), set_row i (fail_row now code) db)
      | Overflow \<Rightarrow> (Inl (DbErr NumericOutOfRange), db)
      | Move \<Rightarrow> (Inr (), set_row i (complete_row now)
          (add_balance (ac_id b) (tr_amountCents x) (add_balance (ac_id a) (- tr_amountCents x) db))))"

lemma verdict_codes:
  "verdict_of f t n p q db = Reject code \<Longrightarrow> code = ACCOUNT_LOCKED \<or> code = INSUFFICIENT_FUNDS"
  by (auto simp: verdict_of_def split: if_splits)

lemma execute_settle:
  assumes "executable_transfer i db x a b" "tr_status x = Pending"
  shows "(case execute now (read_transfer x) db of
      (Inr _, db') \<Rightarrow> (Inr (), db')
    | (Inl err, db') \<Rightarrow> if is_unprocessable err then (Inr (), db') else (Inl err, db')) = settle now i x a b db"
proof -
  have x: "find_transfer i db = Some x" "tr_id x = i" "tr_fromAccountId x = Some (ac_id a)"
    "tr_toAccountId x = ac_id b" and ne: "ac_id a \<noteq> ac_id b"
    and ab: "find_account (ac_id a) db = Some a" "find_account (ac_id b) db = Some b"
    and amt: "0 < tr_amountCents x" "tr_amountCents x \<le> MAX_SAFE_INTEGER"
    and bal: "0 \<le> ac_balanceCents a" "ac_balanceCents a \<le> BIGINT_MAX" "0 \<le> ac_balanceCents b"
    using assms(1) find_transfer_id [of i db x] by (auto simp: executable_transfer_def)
  have n: "to_number (tr_amountCents x) = tr_amountCents x" using amt by (intro to_number_safe) auto
  note tx = execute_tx_verdict [OF ab(1,2) ne x(1) amt bal, of now]
  let ?v = "verdict_of (ac_id a) (ac_id b) (tr_amountCents x) (ac_balanceCents a) (ac_balanceCents b) db"
  show ?thesis
  proof (cases ?v)
    case (Reject code)
    then consider "code = ACCOUNT_LOCKED" | "code = INSUFFICIENT_FUNDS" using verdict_codes by blast
    then show ?thesis
      using Reject tx x n
      by cases (simp_all add: execute_def read_transfer_def transaction_def settle_def transferFailureError_code
          update_transfer_def set_row_def Let_def)
  next
    case Overflow
    then show ?thesis using tx x n by (simp add: execute_def read_transfer_def transaction_def settle_def)
  next
    case Move
    then show ?thesis using tx x n by (simp add: execute_def read_transfer_def transaction_def settle_def)
  qed
qed

lemma process_job_settle:
  assumes "executable_transfer i db x a b" "tr_status x = Pending"
  shows "process_job now i db = settle now i x a b db"
  using execute_settle [OF assms, of now] assms
  by (simp add: process_job_def executable_transfer_def read_transfer_def Let_def)

lemma process_job_done:
  "find_transfer i db = Some x \<Longrightarrow> tr_status x \<noteq> Pending \<Longrightarrow> process_job now i db = (Inr (), db)"
  by (simp add: process_job_def read_transfer_def Let_def)

lemma process_job_missing: "find_transfer i db = None \<Longrightarrow> process_job now i db = (Inr (), db)"
  by (simp add: process_job_def)

end
