(* ===== verification/Ledger.thy ===== *)
theory Ledger
  imports Executor
begin

text \<open>
  The ledger invariant of the banking database and its preservation by every operation that
  writes: each balance is exactly what the completed transfers say, no balance is negative, and
  every transfer row is well formed.
\<close>

section \<open>The invariant\<close>

definition credit_of :: "uuid \<Rightarrow> transfer_row \<Rightarrow> int" where
  "credit_of i t = (if tr_status t = Completed \<and> tr_toAccountId t = i then tr_amountCents t else 0)"

definition debit_of :: "uuid \<Rightarrow> transfer_row \<Rightarrow> int" where
  "debit_of i t = (if tr_status t = Completed \<and> tr_fromAccountId t = Some i then tr_amountCents t else 0)"

definition ledger_balance :: "uuid \<Rightarrow> transfer_row list \<Rightarrow> int" where
  "ledger_balance i ts = sum_list (map (credit_of i) ts) - sum_list (map (debit_of i) ts)"

definition account_ok :: "transfer_row list \<Rightarrow> account_row \<Rightarrow> bool" where
  "account_ok ts a \<longleftrightarrow> 0 \<le> ac_balanceCents a \<and> ac_balanceCents a \<le> BIGINT_MAX \<and>
     ac_balanceCents a = ledger_balance (ac_id a) ts"

text \<open>
  A deposit (no source) is completed and has no key; a submitted transfer has a source and a key;
  a row has a completion time exactly when it is terminal and a failure reason exactly when it
  failed.
\<close>

definition transfer_ok :: "uuid set \<Rightarrow> transfer_row \<Rightarrow> bool" where
  "transfer_ok ids t \<longleftrightarrow> 0 < tr_amountCents t \<and> tr_amountCents t \<le> MAX_SAFE_INTEGER \<and>
     tr_toAccountId t \<in> ids \<and>
     (case tr_fromAccountId t of
        None \<Rightarrow> tr_status t = Completed \<and> tr_idempotencyKey t = None
      | Some f \<Rightarrow> f \<in> ids \<and> f \<noteq> tr_toAccountId t \<and> tr_idempotencyKey t \<noteq> None) \<and>
     (tr_completedAt t = None \<longleftrightarrow> tr_status t = Pending) \<and>
     (tr_failureReason t = None \<longleftrightarrow> tr_status t \<noteq> FailedStatus)"

definition account_ids :: "bank_db \<Rightarrow> uuid set" where
  "account_ids db = ac_id ` set (accounts db)"

definition keys_of :: "bank_db \<Rightarrow> string list" where
  "keys_of db = List.map_filter tr_idempotencyKey (transfers db)"

definition bank_inv :: "bank_db \<Rightarrow> bool" where
  "bank_inv db \<longleftrightarrow>
     distinct (map ac_id (accounts db)) \<and> distinct (map tr_id (transfers db)) \<and>
     distinct (keys_of db) \<and> sorted_wrt (<) (map tr_seq (transfers db)) \<and>
     (\<forall>t\<in>set (transfers db). 0 < tr_seq t \<and> tr_seq t < seq_transfers db) \<and> 0 < seq_transfers db \<and>
     (\<forall>a\<in>set (accounts db). account_ok (transfers db) a) \<and>
     (\<forall>t\<in>set (transfers db). transfer_ok (account_ids db) t)"

lemma bank_inv_empty: "bank_inv empty_db"
  by (simp add: bank_inv_def empty_db_def keys_of_def map_filter_simps)

text \<open>Statements that touch neither accounts nor transfers keep the invariant.\<close>

lemma bank_inv_frame [inv_intros]:
  "bank_inv db \<Longrightarrow> accounts db' = accounts db \<Longrightarrow> transfers db' = transfers db \<Longrightarrow>
     seq_transfers db \<le> seq_transfers db' \<Longrightarrow> bank_inv db'"
  by (auto simp: bank_inv_def keys_of_def account_ids_def)

section \<open>Rows that change status\<close>

lemma bank_inv_rows:
  assumes "bank_inv db" "map ac_id (accounts db') = map ac_id (accounts db)"
    and "map tr_id (transfers db') = map tr_id (transfers db)"
    and "map tr_seq (transfers db') = map tr_seq (transfers db)"
    and "keys_of db' = keys_of db" "seq_transfers db' = seq_transfers db"
    and "\<And>a. a \<in> set (accounts db') \<Longrightarrow> account_ok (transfers db') a"
    and "\<And>t. t \<in> set (transfers db') \<Longrightarrow> transfer_ok (account_ids db) t"
  shows "bank_inv db'"
proof -
  have "account_ids db' = account_ids db" unfolding account_ids_def using assms(2) by (metis list.set_map)
  moreover have "tr_seq ` set (transfers db') = tr_seq ` set (transfers db)"
    using assms(4) by (metis list.set_map)
  then have "\<forall>t\<in>set (transfers db'). 0 < tr_seq t \<and> tr_seq t < seq_transfers db"
    using assms(1) unfolding bank_inv_def by (metis (no_types, lifting) imageE imageI)
  ultimately show ?thesis
    using assms(1,7,8) unfolding bank_inv_def assms(2-6) by simp
qed

lemma ledger_balance_set_row:
  assumes "distinct (map tr_id ts)" "x \<in> set ts"
  shows "ledger_balance j (update_where (\<lambda>t. tr_id t = tr_id x) g ts) =
    ledger_balance j ts + (credit_of j (g x) - credit_of j x) - (debit_of j (g x) - debit_of j x)"
  by (simp add: ledger_balance_def sum_list_update_where [OF assms])

lemma keys_of_set_row:
  "(\<And>t. tr_idempotencyKey (g t) = tr_idempotencyKey t) \<Longrightarrow> keys_of (set_row i g db) = keys_of db"
  by (auto simp: keys_of_def set_row_def update_where_def map_filter_def comp_def if_distrib
      filter_map map_map cong: if_cong intro!: arg_cong2 [where f = map] filter_cong)

lemma find_in_accounts:
  "bank_inv db \<Longrightarrow> a \<in> set (accounts db) \<Longrightarrow> find_account (ac_id a) db = Some a"
  unfolding bank_inv_def find_account_def using find_distinct [of ac_id "accounts db" a] by simp

lemma bank_inv_executable:
  assumes "bank_inv db" "find_transfer i db = Some x" "tr_status x = Pending"
  obtains a b where "executable_transfer i db x a b" "a \<in> set (accounts db)" "b \<in> set (accounts db)"
proof -
  have x: "x \<in> set (transfers db)" "tr_id x = i" using find_transfer_id [OF assms(2)] by auto
  then have ok: "transfer_ok (account_ids db) x" using assms(1) by (simp add: bank_inv_def)
  then obtain f where f: "tr_fromAccountId x = Some f"
    using assms(3) by (auto simp: transfer_ok_def split: option.splits)
  with ok have "f \<in> account_ids db" "tr_toAccountId x \<in> account_ids db" by (auto simp: transfer_ok_def)
  then obtain a b where ab: "a \<in> set (accounts db)" "b \<in> set (accounts db)" "ac_id a = f"
    "ac_id b = tr_toAccountId x" unfolding account_ids_def by (metis imageE)
  moreover have "account_ok (transfers db) a" "account_ok (transfers db) b"
    using assms(1) ab by (simp_all add: bank_inv_def)
  moreover have "find_account (ac_id a) db = Some a" "find_account (ac_id b) db = Some b"
    using find_in_accounts [OF assms(1) ab(1)] find_in_accounts [OF assms(1) ab(2)] by blast+
  ultimately have "executable_transfer i db x a b"
    using ok f assms(2)
    by (auto simp: executable_transfer_def transfer_ok_def account_ok_def)
  then show ?thesis using that ab by blast
qed

lemma bank_inv_fail:
  assumes "bank_inv db" "x \<in> set (transfers db)" "tr_status x = Pending"
  shows "bank_inv (set_row (tr_id x) (fail_row now code) db)"
proof -
  let ?db = "set_row (tr_id x) (fail_row now code) db"
  have d: "distinct (map tr_id (transfers db))" using assms(1) by (simp add: bank_inv_def)
  have ts: "transfers ?db = update_where (\<lambda>t. tr_id t = tr_id x) (fail_row now code) (transfers db)"
    by (simp add: set_row_def)
  have bal: "ledger_balance j (transfers ?db) = ledger_balance j (transfers db)" for j
    unfolding ts ledger_balance_set_row [OF d assms(2)]
    by (simp add: credit_of_def debit_of_def fail_row_def assms(3))
  have ids: "map tr_id (transfers ?db) = map tr_id (transfers db)"
    unfolding ts by (rule map_update_where) (simp add: fail_row_def)
  have seqs: "map tr_seq (transfers ?db) = map tr_seq (transfers db)"
    unfolding ts by (rule map_update_where) (simp add: fail_row_def)
  have keys: "keys_of ?db = keys_of db" by (rule keys_of_set_row) (simp add: fail_row_def)
  have one: "t = x" if "t \<in> set (transfers db)" "tr_id t = tr_id x" for t
    using that d assms(2) by (metis inj_onD distinct_map)
  have acc: "accounts ?db = accounts db" "seq_transfers ?db = seq_transfers db" by (simp_all add: set_row_def)
  have "transfer_ok (account_ids db) (fail_row now code x)"
    using assms by (auto simp: bank_inv_def transfer_ok_def fail_row_def split: option.splits)
  then have "t \<in> set (transfers ?db) \<Longrightarrow> transfer_ok (account_ids db) t" for t
    using one assms(1) by (auto simp: ts set_update_where bank_inv_def)
  moreover have "a \<in> set (accounts ?db) \<Longrightarrow> account_ok (transfers ?db) a" for a
    using assms(1) unfolding account_ok_def bal acc bank_inv_def by blast
  ultimately show ?thesis
    by (intro bank_inv_rows [OF assms(1) _ ids seqs keys acc(2)]) (simp_all add: acc)
qed

lemma bank_inv_move:
  assumes "bank_inv db" "executable_transfer i db x a b" "tr_status x = Pending"
    and "tr_amountCents x \<le> ac_balanceCents a" "ac_balanceCents b + tr_amountCents x \<le> BIGINT_MAX"
  shows "bank_inv (set_row i (complete_row now)
    (add_balance (ac_id b) (tr_amountCents x) (add_balance (ac_id a) (- tr_amountCents x) db)))"
    (is "bank_inv ?db")
proof -
  let ?n = "tr_amountCents x"
  have x: "x \<in> set (transfers db)" "tr_id x = i" "tr_fromAccountId x = Some (ac_id a)"
    "tr_toAccountId x = ac_id b" "0 < ?n" "ac_id a \<noteq> ac_id b"
    and ab: "a \<in> set (accounts db)" "b \<in> set (accounts db)"
    using assms(2) find_transfer_id [of i db x] find_account_id by (auto simp: executable_transfer_def)
  have d: "distinct (map tr_id (transfers db))" and da: "distinct (map ac_id (accounts db))"
    using assms(1) by (simp_all add: bank_inv_def)
  have ts: "transfers ?db = update_where (\<lambda>t. tr_id t = tr_id x) (complete_row now) (transfers db)"
    by (simp add: set_row_def add_balance_def x(2))
  have bal: "ledger_balance j (transfers ?db) = ledger_balance j (transfers db)
      + (if j = ac_id b then ?n else 0) - (if j = ac_id a then ?n else 0)" for j
    unfolding ts ledger_balance_set_row [OF d x(1)]
    using x by (auto simp: credit_of_def debit_of_def complete_row_def assms(3))
  have accs: "accounts ?db = map (\<lambda>r. r\<lparr>ac_balanceCents := ac_balanceCents r
      + (if ac_id r = ac_id b then ?n else 0) - (if ac_id r = ac_id a then ?n else 0)\<rparr>) (accounts db)"
    using x(6) by (auto simp: set_row_def add_balance_def update_where_def)
  have aids: "map ac_id (accounts ?db) = map ac_id (accounts db)" by (auto simp: accs)
  have same: "r = a" if "r \<in> set (accounts db)" "ac_id r = ac_id a" for r
    using that da ab by (metis inj_onD distinct_map)
  have same': "r = b" if "r \<in> set (accounts db)" "ac_id r = ac_id b" for r
    using that da ab by (metis inj_onD distinct_map)
  have acc_ok: "\<forall>r\<in>set (accounts ?db). account_ok (transfers ?db) r"
  proof
    fix r' assume "r' \<in> set (accounts ?db)"
    then obtain r where r: "r \<in> set (accounts db)" and r': "r' = r\<lparr>ac_balanceCents := ac_balanceCents r
      + (if ac_id r = ac_id b then ?n else 0) - (if ac_id r = ac_id a then ?n else 0)\<rparr>"
      by (auto simp: accs)
    have "account_ok (transfers db) r" using assms(1) r by (simp add: bank_inv_def)
    then show "account_ok (transfers ?db) r'"
      using same [OF r] same' [OF r] assms(4,5) x(5,6) unfolding account_ok_def bal r' by auto
  qed
  have ids: "map tr_id (transfers ?db) = map tr_id (transfers db)"
    unfolding ts by (rule map_update_where) (simp add: complete_row_def)
  have seqs: "map tr_seq (transfers ?db) = map tr_seq (transfers db)"
    unfolding ts by (rule map_update_where) (simp add: complete_row_def)
  have keys: "keys_of ?db = keys_of db"
    by (subst keys_of_set_row) (simp_all add: complete_row_def keys_of_def add_balance_def)
  have one: "t = x" if "t \<in> set (transfers db)" "tr_id t = tr_id x" for t
    using that d x(1) by (metis inj_onD distinct_map)
  have sq: "seq_transfers ?db = seq_transfers db" by (simp add: set_row_def add_balance_def)
  have "transfer_ok (account_ids db) (complete_row now x)"
    using assms(1,3) x by (auto simp: bank_inv_def transfer_ok_def complete_row_def split: option.splits)
  then have "t \<in> set (transfers ?db) \<Longrightarrow> transfer_ok (account_ids db) t" for t
    using one assms(1) by (auto simp: ts set_update_where bank_inv_def)
  then show ?thesis
    using acc_ok by (intro bank_inv_rows [OF assms(1) aids ids seqs keys sq]) auto
qed

section \<open>New rows\<close>

lemma ledger_balance_append:
  "ledger_balance j (ts @ [t]) = ledger_balance j ts + credit_of j t - debit_of j t"
  by (simp add: ledger_balance_def)

lemma ledger_balance_unknown:
  assumes "\<And>t. t \<in> set ts \<Longrightarrow> transfer_ok ids t" "j \<notin> ids"
  shows "ledger_balance j ts = 0"
proof -
  have "credit_of j t = 0 \<and> debit_of j t = 0" if "t \<in> set ts" for t
    using assms(1) [OF that] assms(2)
    by (auto simp: credit_of_def debit_of_def transfer_ok_def split: option.splits)
  then have "map (credit_of j) ts = map (\<lambda>_. 0) ts" "map (debit_of j) ts = map (\<lambda>_. 0) ts" by auto
  then show ?thesis by (simp add: ledger_balance_def map_replicate_const sum_list_replicate)
qed

lemma keys_of_append:
  "List.map_filter tr_idempotencyKey (ts @ [t]) = List.map_filter tr_idempotencyKey ts
     @ (case tr_idempotencyKey t of None \<Rightarrow> [] | Some k \<Rightarrow> [k])"
  by (auto simp: map_filter_def split: option.splits)

lemma key_fresh: "find_key k db = None \<Longrightarrow> k \<notin> set (keys_of db)"
  by (auto simp: find_key_def find_None_iff keys_of_def map_filter_def)

lemma transfer_ok_mono: "transfer_ok ids t \<Longrightarrow> ids \<subseteq> ids' \<Longrightarrow> transfer_ok ids' t"
  by (auto simp: transfer_ok_def split: option.splits)

text \<open>A row that is appended with the next sequence value and does not move money yet.\<close>

lemma bank_inv_insert_transfer:
  assumes "bank_inv db" "find_transfer (tr_id t) db = None" "tr_seq t = seq_transfers db"
    and "case tr_idempotencyKey t of None \<Rightarrow> True | Some k \<Rightarrow> find_key k db = None"
    and "transfer_ok (account_ids db) t" "tr_status t = Pending"
  shows "bank_inv (db\<lparr>seq_transfers := seq_transfers db + 1, transfers := transfers db @ [t]\<rparr>)"
proof -
  have "ledger_balance j (transfers db @ [t]) = ledger_balance j (transfers db)" for j
    using assms(6) by (simp add: ledger_balance_append credit_of_def debit_of_def)
  then have "\<forall>a\<in>set (accounts db). account_ok (transfers db @ [t]) a"
    using assms(1) unfolding bank_inv_def account_ok_def by metis
  moreover have "tr_id t \<notin> tr_id ` set (transfers db)"
    using assms(2) by (auto simp: find_transfer_def find_None_iff)
  moreover have "distinct (List.map_filter tr_idempotencyKey (transfers db @ [t]))"
    using assms(1,4) key_fresh [of _ db]
    by (auto simp: keys_of_append bank_inv_def keys_of_def split: option.splits)
  moreover have "\<forall>s\<in>set (transfers db @ [t]). 0 < tr_seq s \<and> tr_seq s < seq_transfers db + 1"
    using assms(1,3) by (auto simp: bank_inv_def)
  moreover have "sorted_wrt (<) (map tr_seq (transfers db @ [t]))"
    using assms(1,3) by (auto simp: bank_inv_def sorted_wrt_append)
  ultimately show ?thesis
    using assms(1,5) by (auto simp: bank_inv_def keys_of_def account_ids_def)
qed

text \<open>A new account together with its opening deposit (or none when it opens empty).\<close>

lemma bank_inv_open_account:
  assumes "bank_inv db" "find_account (ac_id a) db = None"
    and "ac_balanceCents a = 0"
  shows "bank_inv (db\<lparr>seq_accounts := n, accounts := accounts db @ [a]\<rparr>)"
proof -
  have ok: "\<And>t. t \<in> set (transfers db) \<Longrightarrow> transfer_ok (account_ids db) t"
    using assms(1) by (simp add: bank_inv_def)
  have new: "ac_id a \<notin> account_ids db"
    using assms(2) by (auto simp: find_account_def find_None_iff account_ids_def)
  then have "account_ok (transfers db) a"
    using ledger_balance_unknown [OF ok new] assms(3) by (simp add: account_ok_def BIGINT_MAX_def)
  moreover have "\<And>t. t \<in> set (transfers db) \<Longrightarrow> transfer_ok (insert (ac_id a) (account_ids db)) t"
    using ok transfer_ok_mono by blast
  ultimately show ?thesis
    using assms(1) new by (auto simp: bank_inv_def keys_of_def account_ids_def)
qed

lemma bank_inv_open_deposit:
  assumes "bank_inv db" "find_account (ac_id a) db = None"
    and "0 < ac_balanceCents a" "ac_balanceCents a \<le> MAX_SAFE_INTEGER"
    and "find_transfer (tr_id t) db = None" "tr_seq t = seq_transfers db"
    and "tr_idempotencyKey t = None" "tr_fromAccountId t = None" "tr_toAccountId t = ac_id a"
    and "tr_amountCents t = ac_balanceCents a" "tr_status t = Completed" "tr_completedAt t \<noteq> None"
    and "tr_failureReason t = None"
  shows "bank_inv (db\<lparr>seq_accounts := n, accounts := accounts db @ [a],
    seq_transfers := seq_transfers db + 1, transfers := transfers db @ [t]\<rparr>)"
proof -
  have ok: "\<And>t. t \<in> set (transfers db) \<Longrightarrow> transfer_ok (account_ids db) t"
    using assms(1) by (simp add: bank_inv_def)
  have new: "ac_id a \<notin> account_ids db"
    using assms(2) by (auto simp: find_account_def find_None_iff account_ids_def)
  have bal: "ledger_balance j (transfers db @ [t]) = ledger_balance j (transfers db)
      + (if j = ac_id a then ac_balanceCents a else 0)" for j
    using assms by (auto simp: ledger_balance_append credit_of_def debit_of_def)
  have "account_ok (transfers db @ [t]) a"
    using ledger_balance_unknown [OF ok new] assms(3,4)
    by (simp add: account_ok_def bal BIGINT_MAX_def MAX_SAFE_INTEGER_def)
  moreover have "account_ok (transfers db @ [t]) r" if "r \<in> set (accounts db)" for r
  proof -
    have "ac_id r \<noteq> ac_id a" using that new unfolding account_ids_def by (metis image_eqI)
    moreover have "account_ok (transfers db) r" using that assms(1) by (simp add: bank_inv_def)
    ultimately show ?thesis by (simp add: account_ok_def bal)
  qed
  moreover have "transfer_ok (insert (ac_id a) (account_ids db)) s" if "s \<in> set (transfers db)" for s
    using ok [OF that] transfer_ok_mono by blast
  moreover have "transfer_ok (insert (ac_id a) (account_ids db)) t"
    using assms by (auto simp: transfer_ok_def)
  moreover have "tr_id t \<notin> tr_id ` set (transfers db)"
    using assms(5) by (auto simp: find_transfer_def find_None_iff)
  moreover have "distinct (List.map_filter tr_idempotencyKey (transfers db @ [t]))"
    using assms(1,7) by (simp add: keys_of_append bank_inv_def keys_of_def)
  moreover have "\<forall>s\<in>set (transfers db @ [t]). 0 < tr_seq s \<and> tr_seq s < seq_transfers db + 1"
    using assms(1,6) by (auto simp: bank_inv_def)
  moreover have "sorted_wrt (<) (map tr_seq (transfers db @ [t]))"
    using assms(1,6) by (auto simp: bank_inv_def sorted_wrt_append)
  ultimately show ?thesis
    using assms(1) new by (auto simp: bank_inv_def keys_of_def account_ids_def)
qed

section \<open>Every operation keeps the ledger\<close>

text \<open>A failed operation leaves every table as it was; only sequences may have advanced.\<close>

definition only_seqs :: "bank_db \<Rightarrow> bank_db \<Rightarrow> bool" where
  "only_seqs db db' \<longleftrightarrow> same_tables db db' \<and> seq_transfers db \<le> seq_transfers db'"

lemma bank_inv_only_seqs [inv_intros]: "bank_inv db \<Longrightarrow> only_seqs db db' \<Longrightarrow> bank_inv db'"
  by (auto simp: only_seqs_def same_tables_def intro: bank_inv_frame)

lemma account_create_ledger:
  assumes "bank_inv db" "0 \<le> deposit" "deposit \<le> MAX_SAFE_INTEGER"
    and "account_create i j now c deposit db = (r, db')"
  shows "bank_inv db'"
proof (cases r)
  case (Inl e)
  then have "same_tables db db'" using assms(4) transaction_Inl by (simp add: account_create_def)
  moreover have "seq_transfers db \<le> seq_transfers db'"
    using assms(4) Inl
    by (auto simp: account_create_def transaction_def op_bind_def insert_account_def insert_transfer_def
        rollback_def Let_def split: option.splits if_splits)
  ultimately show ?thesis using assms(1) bank_inv_only_seqs by (simp add: only_seqs_def)
next
  case (Inr row)
  then show ?thesis
    using assms
    by (auto simp: account_create_def transaction_Inr op_bind_Inr insert_account_def insert_transfer_def
        read_account_def find_transfer_def Let_def split: option.splits if_splits
        intro!: bank_inv_open_account bank_inv_open_deposit [where a = "\<lparr>ac_id = i, ac_seq = seq_accounts db,
          ac_customerId = c, ac_balanceCents = deposit, ac_createdAt = now\<rparr>"])
qed

lemma process_job_ledger:
  assumes "bank_inv db" "process_job now i db = (r, db')"
  shows "bank_inv db'"
proof (cases "find_transfer i db")
  case None
  then show ?thesis using assms by (simp add: process_job_missing)
next
  case (Some x)
  show ?thesis
  proof (cases "tr_status x = Pending")
    case False
    then show ?thesis using assms Some by (simp add: process_job_done)
  next
    case True
    obtain a b where e: "executable_transfer i db x a b"
      using bank_inv_executable [OF assms(1) Some True] by blast
    have x: "x \<in> set (transfers db)" "tr_id x = i" using find_transfer_id [OF Some] by auto
    have "bank_inv (set_row i (fail_row now code) db)" for code
      using bank_inv_fail [OF assms(1) x(1) True] x(2) by simp
    moreover note bank_inv_move [OF assms(1) e True]
    ultimately show ?thesis
      using assms process_job_settle [OF e True, of now]
      by (auto simp: settle_def verdict_of_def split: if_splits)
  qed
qed

lemma transfer_replay_db: "transfer_replay up k h s = (r, s') \<Longrightarrow> bs_db s' = bs_db s"
  by (auto simp: transfer_replay_def Let_def op_bind_def enqueueTransfer_def
      split: option.splits if_splits prod.splits sum.splits)

lemma transfer_create_cases:
  assumes "transfer_create sha up i now input s = (r, s')"
  shows "bs_db s' = bs_db s \<or> bs_db s' = (bs_db s)\<lparr>seq_transfers := seq_transfers (bs_db s) + 1\<rparr> \<or>
    (bs_db s' = (bs_db s)\<lparr>seq_transfers := seq_transfers (bs_db s) + 1,
        transfers := transfers (bs_db s) @ [pending_row sha i now input (seq_transfers (bs_db s))]\<rparr> \<and>
      find_transfer i (bs_db s) = None \<and> find_key (ci_idempotencyKey input) (bs_db s) = None \<and>
      find_account (ci_fromAccountId input) (bs_db s) \<noteq> None \<and>
      find_account (ci_toAccountId input) (bs_db s) \<noteq> None \<and>
      ci_fromAccountId input \<noteq> ci_toAccountId input \<and> 0 < ci_amountCents input)"
proof -
  consider "ci_fromAccountId input = ci_toAccountId input"
    | e db where "assertAccountsExist input (bs_db s) = (Inl e, db)"
    | "ci_fromAccountId input \<noteq> ci_toAccountId input" "assertAccountsExist input (bs_db s) = (Inr (), bs_db s)"
      "find_account (ci_fromAccountId input) (bs_db s) \<noteq> None"
      "find_account (ci_toAccountId input) (bs_db s) \<noteq> None"
    by (cases "assertAccountsExist input (bs_db s)")
      (metis (full_types) assertAccountsExist_Inr old.unit.exhaust sumE)
  then show ?thesis
  proof cases
    case 1
    then show ?thesis using assms by (simp add: transfer_create_def)
  next
    case 2
    then have "db = bs_db s" by (rule assertAccountsExist_snd)
    then show ?thesis using assms 2
      by (auto simp: transfer_create_def on_db_def op_bind_def split: if_splits)
  next
    case 3
    let ?v = "\<lparr>tv_idempotencyKey = Some (ci_idempotencyKey input), tv_requestHash = Some (hashRequest sha input),
       tv_fromAccountId = Some (ci_fromAccountId input), tv_toAccountId = ci_toAccountId input,
       tv_amountCents = ci_amountCents input, tv_status = Pending, tv_completedAt = None\<rparr>"
    obtain q db1 where ins: "insert_transfer i now ?v (bs_db s) = (q, db1)" by fastforce
    have run: "(r, s') = (case q of
        Inl err \<Rightarrow> if \<not> isUniqueViolation err then (Inl err, s\<lparr>bs_db := db1\<rparr>)
          else transfer_replay up (ci_idempotencyKey input) (hashRequest sha input) (s\<lparr>bs_db := db1\<rparr>)
      | Inr pending \<Rightarrow> op_bind (enqueueTransfer up (tr_id pending) (ci_idempotencyKey input))
               (\<lambda>_. op_return \<lparr>cr_transfer = pending, cr_created = True\<rparr>) (s\<lparr>bs_db := db1\<rparr>))"
      using assms 3 ins by (cases q) (simp_all add: transfer_create_def on_db_def op_bind_def Let_def)
    then have db: "bs_db s' = db1"
      by (cases q) (auto simp: op_bind_def enqueueTransfer_def dest: transfer_replay_db [OF sym] split: if_splits)
    show ?thesis
      using ins 3 unfolding db
      by (auto simp: insert_transfer_def Let_def pending_row_def split: if_splits)
  qed
qed

lemma transfer_create_ledger:
  assumes "bank_inv (bs_db s)" "ci_amountCents input \<le> MAX_SAFE_INTEGER"
    and "transfer_create sha up i now input s = (r, s')"
  shows "bank_inv (bs_db s')"
  using transfer_create_cases [OF assms(3)]
proof (elim disjE conjE)
  assume "bs_db s' = bs_db s"
  then show ?thesis using assms(1) by simp
next
  assume "bs_db s' = (bs_db s)\<lparr>seq_transfers := seq_transfers (bs_db s) + 1\<rparr>"
  then show ?thesis using assms(1) by (auto intro: bank_inv_frame)
next
  assume db: "bs_db s' = (bs_db s)\<lparr>seq_transfers := seq_transfers (bs_db s) + 1,
        transfers := transfers (bs_db s) @ [pending_row sha i now input (seq_transfers (bs_db s))]\<rparr>"
    and h: "find_transfer i (bs_db s) = None" "find_key (ci_idempotencyKey input) (bs_db s) = None"
      "find_account (ci_fromAccountId input) (bs_db s) \<noteq> None"
      "find_account (ci_toAccountId input) (bs_db s) \<noteq> None"
      "ci_fromAccountId input \<noteq> ci_toAccountId input" "0 < ci_amountCents input"
  have "ci_fromAccountId input \<in> account_ids (bs_db s)" "ci_toAccountId input \<in> account_ids (bs_db s)"
    using h(3,4) by (simp_all only: find_account_in account_ids_def)
  then have "transfer_ok (account_ids (bs_db s)) (pending_row sha i now input (seq_transfers (bs_db s)))"
    using h assms(2) by (simp add: transfer_ok_def pending_row_def)
  then show ?thesis
    unfolding db by (intro bank_inv_insert_transfer [OF assms(1)]) (use h in \<open>simp_all add: pending_row_def\<close>)
qed

end
