(* ===== verification/Bank_System.thy ===== *)
theory Bank_System
  imports Ledger
begin

text \<open>
  The banking platform as one state machine: the validated requests of \<open>app-apis\<close>
  (\<open>modules/*/router.ts\<close> with the bounds of \<open>money.ts\<close>) and the executor's job deliveries, in any
  order, one after another. BullMQ is external: any job that was ever added may be delivered at any time
  and any number of times, which covers every retry, redelivery and reordering of the queue. A delivery is
  one step here, although the processor reads the status before the executor's transaction begins: deliveries
  that overlap (a worker that stalls keeps running while another takes its job) are the subject of \<open>Workers\<close>.
\<close>

section \<open>Commands and steps\<close>

definition positiveCents :: "int \<Rightarrow> bool" where
  "positiveCents n \<longleftrightarrow> 0 < n \<and> n \<le> MAX_SAFE_INTEGER"

definition nonNegativeCents :: "int \<Rightarrow> bool" where
  "nonNegativeCents n \<longleftrightarrow> 0 \<le> n \<and> n \<le> MAX_SAFE_INTEGER"

text \<open>The random ids and the clock readings of a request are part of the command.\<close>

datatype command =
    CreateCustomer uuid int string
  | OpenAccount uuid uuid int uuid int \<comment> \<open>account id, deposit id, now, customer, initialDepositCents\<close>
  | AddComment uuid int uuid string
  | CreateLock uuid int uuid string
  | ReleaseLock int uuid uuid
  | SubmitTransfer bool uuid int create_transfer_input \<comment> \<open>does Redis answer?\<close>
  | DeliverJob int transfer_job

fun valid_command :: "command \<Rightarrow> bool" where
  "valid_command (OpenAccount _ _ _ _ deposit) = nonNegativeCents deposit"
| "valid_command (SubmitTransfer _ _ _ input) =
     (positiveCents (ci_amountCents input) \<and> ci_idempotencyKey input \<noteq> [])"
| "valid_command _ = True"

fun run_command :: "(string \<Rightarrow> string) \<Rightarrow> command \<Rightarrow> bank_state \<Rightarrow> bank_state" where
  "run_command sha (CreateCustomer i now name) s = snd (on_db (customer_create i now name) s)"
| "run_command sha (OpenAccount i j now c deposit) s = snd (on_db (account_create i j now c deposit) s)"
| "run_command sha (AddComment i now a body) s = snd (on_db (comment_create i now a body) s)"
| "run_command sha (CreateLock i now a reason) s = snd (on_db (lock_create i now a reason) s)"
| "run_command sha (ReleaseLock now a l) s = snd (on_db (lock_release now a l) s)"
| "run_command sha (SubmitTransfer up i now input) s = snd (transfer_create sha up i now input s)"
| "run_command sha (DeliverJob now job) s = snd (on_db (process_job now (job_transferId job)) s)"

fun enabled :: "command \<Rightarrow> bank_state \<Rightarrow> bool" where
  "enabled (DeliverJob _ job) s = (job \<in> set (bs_added s))"
| "enabled _ s = True"

inductive bank_step :: "(string \<Rightarrow> string) \<Rightarrow> bank_state \<Rightarrow> bank_state \<Rightarrow> bool" for sha where
  command: "valid_command c \<Longrightarrow> enabled c s \<Longrightarrow> bank_step sha s (run_command sha c s)"

inductive_cases bank_stepE: "bank_step sha s t"

definition initial_state :: "bank_state \<Rightarrow> bool" where
  "initial_state s \<longleftrightarrow> s = \<lparr>bs_db = empty_db, bs_added = []\<rparr>"

section \<open>The system invariant\<close>

text \<open>Every job that was queued names a stored transfer, under its own key.\<close>

definition jobs_ok :: "bank_state \<Rightarrow> bool" where
  "jobs_ok s \<longleftrightarrow> (\<forall>j\<in>set (bs_added s). \<exists>t\<in>set (transfers (bs_db s)).
     tr_id t = job_transferId j \<and> tr_idempotencyKey t = Some (job_id j))"

definition state_ok :: "bank_state \<Rightarrow> bool" where
  "state_ok s \<longleftrightarrow> bank_inv (bs_db s) \<and> jobs_ok s"

text \<open>What a step may do to a transfer row: nothing, or decide a pending one.\<close>

definition decided_from :: "transfer_row \<Rightarrow> transfer_row \<Rightarrow> bool" where
  "decided_from t t' \<longleftrightarrow> t' = t \<or> (tr_status t = Pending \<and> tr_status t' \<noteq> Pending \<and>
     tr_id t' = tr_id t \<and> tr_seq t' = tr_seq t \<and> tr_idempotencyKey t' = tr_idempotencyKey t \<and>
     tr_requestHash t' = tr_requestHash t \<and> tr_fromAccountId t' = tr_fromAccountId t \<and>
     tr_toAccountId t' = tr_toAccountId t \<and> tr_amountCents t' = tr_amountCents t \<and>
     tr_createdAt t' = tr_createdAt t)"

definition history_kept :: "bank_db \<Rightarrow> bank_db \<Rightarrow> bool" where
  "history_kept db db' \<longleftrightarrow> (\<forall>t\<in>set (transfers db). \<exists>t'\<in>set (transfers db'). decided_from t t')"

lemma history_kept_same: "transfers db' = transfers db \<Longrightarrow> history_kept db db'"
  by (auto simp: history_kept_def decided_from_def)

lemma history_kept_append: "transfers db' = transfers db @ ts \<Longrightarrow> history_kept db db'"
  by (auto simp: history_kept_def decided_from_def)

lemma decided_trans: "decided_from t u \<Longrightarrow> decided_from u v \<Longrightarrow> decided_from t v"
  unfolding decided_from_def by auto

lemma history_kept_trans: "history_kept a b \<Longrightarrow> history_kept b c \<Longrightarrow> history_kept a c"
  unfolding history_kept_def using decided_trans by meson

lemma history_kept_set_row:
  assumes "distinct (map tr_id (transfers db))" "x \<in> set (transfers db)" "decided_from x (g x)"
    and "transfers db' = update_where (\<lambda>t. tr_id t = tr_id x) g (transfers db)"
  shows "history_kept db db'"
  unfolding history_kept_def
proof
  fix t assume t: "t \<in> set (transfers db)"
  show "\<exists>t'\<in>set (transfers db'). decided_from t t'"
  proof (cases "tr_id t = tr_id x")
    case True
    then have "t = x" using t assms(1,2) by (metis inj_onD distinct_map)
    then show ?thesis using t assms(3,4) by (auto simp: set_update_where)
  next
    case False
    then have "t \<in> set (transfers db')" using t assms(4) by (force simp: set_update_where)
    then show ?thesis by (auto simp: decided_from_def)
  qed
qed

lemma settle_history:
  assumes "bank_inv db" "find_transfer i db = Some x" "tr_status x = Pending"
  shows "history_kept db (snd (settle now i x a b db))"
proof -
  have d: "distinct (map tr_id (transfers db))" using assms(1) by (simp add: bank_inv_def)
  have x: "x \<in> set (transfers db)" "tr_id x = i" using find_transfer_id [OF assms(2)] by auto
  have "decided_from x (fail_row now c x)" for c
    using assms(3) by (simp add: decided_from_def fail_row_def)
  then have "history_kept db (set_row i (fail_row now c) db)" for c
    using history_kept_set_row [OF d x(1), of "fail_row now c"] x(2) by (simp add: set_row_def)
  moreover have "decided_from x (complete_row now x)"
    using assms(3) by (simp add: decided_from_def complete_row_def)
  then have "history_kept db (set_row i (complete_row now) (add_balance p m (add_balance q n db)))" for p m q n
    using history_kept_set_row [OF d x(1), of "complete_row now"] x(2)
    by (simp add: set_row_def add_balance_def)
  ultimately show ?thesis by (auto simp: settle_def history_kept_same split: verdict.splits)
qed

lemma process_job_history:
  assumes "bank_inv db" "process_job now i db = (r, db')"
  shows "history_kept db db'"
proof (cases "find_transfer i db")
  case None
  then show ?thesis using assms by (simp add: process_job_missing history_kept_same)
next
  case (Some x)
  show ?thesis
  proof (cases "tr_status x = Pending")
    case False
    then show ?thesis using assms Some by (simp add: process_job_done history_kept_same)
  next
    case True
    then obtain a b where "executable_transfer i db x a b" using bank_inv_executable assms(1) Some by blast
    from process_job_settle [OF this True, of now] assms(2) show ?thesis
      using settle_history [OF assms(1) Some True, of now a b] by (metis snd_conv)
  qed
qed

section \<open>One preservation lemma per command\<close>

definition ledger_frame :: "bank_db \<Rightarrow> bank_db \<Rightarrow> bool" where
  "ledger_frame db db' \<longleftrightarrow> accounts db' = accounts db \<and> transfers db' = transfers db \<and>
     seq_transfers db' = seq_transfers db"

lemma customer_create_frame [db_frame]: "ledger_frame db (snd (customer_create i n c db))"
  by (simp add: ledger_frame_def customer_create_def insert_customer_def Let_def)

lemma comment_create_frame [db_frame]: "ledger_frame db (snd (comment_create i n a b db))"
  by (auto simp: ledger_frame_def comment_create_def op_bind_def assertAccountExists_def insert_comment_def
      Let_def split: option.splits)

lemma lock_create_frame [db_frame]: "ledger_frame db (snd (lock_create i n a b db))"
  by (auto simp: ledger_frame_def lock_create_def transaction_def rollback_def op_bind_def
      assertAccountExists_def insert_lock_def Let_def split: option.splits)

lemma lock_release_frame [db_frame]: "ledger_frame db (snd (lock_release n a l db))"
  by (auto simp: ledger_frame_def lock_release_cases split: list.splits)

lemma ledger_frame_inv: "ledger_frame db db' \<Longrightarrow> bank_inv db \<Longrightarrow> bank_inv db' \<and> history_kept db db'"
  by (auto simp: ledger_frame_def intro: bank_inv_frame history_kept_same)

lemma snd_on_db: "snd (on_db m s) = s\<lparr>bs_db := snd (m (bs_db s))\<rparr>"
  by (simp add: on_db_def split: prod.splits)

definition state_kept :: "bank_state \<Rightarrow> bank_state \<Rightarrow> bool" where
  "state_kept s t \<longleftrightarrow> history_kept (bs_db s) (bs_db t) \<and> set (bs_added s) \<subseteq> set (bs_added t)"

lemma jobs_ok_kept:
  "jobs_ok s \<Longrightarrow> history_kept (bs_db s) db \<Longrightarrow> jobs_ok (s\<lparr>bs_db := db\<rparr>)"
  unfolding jobs_ok_def history_kept_def
  by simp (metis decided_from_def)

lemma on_db_step:
  assumes "state_ok s" "bank_inv (snd (m (bs_db s)))" "history_kept (bs_db s) (snd (m (bs_db s)))"
  shows "state_ok (snd (on_db m s)) \<and> state_kept s (snd (on_db m s))"
  using assms jobs_ok_kept by (simp add: snd_on_db state_ok_def state_kept_def)

lemma account_create_history:
  "account_create i j now c deposit db = (r, db') \<Longrightarrow> history_kept db db'"
  by (auto simp: account_create_def transaction_def rollback_def op_bind_def insert_account_def
      insert_transfer_def Let_def intro: history_kept_same history_kept_append
      split: option.splits if_splits)

lemma find_key_in: "find_key k db = Some t \<Longrightarrow> t \<in> set (transfers db) \<and> tr_idempotencyKey t = Some k"
  by (auto simp: find_key_def find_Some_iff)

text \<open>The only job a request adds is for the row stored under its key.\<close>

lemma transfer_replay_added:
  assumes "transfer_replay up k h s = (r, s')"
  shows "bs_added s' = bs_added s \<or> (\<exists>t. find_key k (bs_db s) = Some t \<and>
    bs_added s' = bs_added s @ [\<lparr>job_id = k, job_transferId = tr_id t\<rparr>])"
  using assms
  by (auto simp: transfer_replay_def Let_def op_bind_def enqueueTransfer_def read_transfer_def
      split: option.splits if_splits prod.splits sum.splits)

lemma transfer_create_added:
  assumes "transfer_create sha up i now input s = (r, s')"
  shows "bs_added s' = bs_added s \<or> (\<exists>t. t \<in> set (transfers (bs_db s')) \<and>
    tr_idempotencyKey t = Some (ci_idempotencyKey input) \<and>
    bs_added s' = bs_added s @ [\<lparr>job_id = ci_idempotencyKey input, job_transferId = tr_id t\<rparr>])"
proof (cases "ci_fromAccountId input = ci_toAccountId input \<or>
    (\<exists>e db. assertAccountsExist input (bs_db s) = (Inl e, db))")
  case True
  then show ?thesis using assms
    by (auto simp: transfer_create_def on_db_def op_bind_def split: if_splits)
next
  case False
  then obtain db0 where "assertAccountsExist input (bs_db s) = (Inr (), db0)"
    by (metis old.unit.exhaust sumE surj_pair)
  with False have acc: "assertAccountsExist input (bs_db s) = (Inr (), bs_db s)"
    using assertAccountsExist_snd by blast
  let ?v = "\<lparr>tv_idempotencyKey = Some (ci_idempotencyKey input), tv_requestHash = Some (hashRequest sha input),
       tv_fromAccountId = Some (ci_fromAccountId input), tv_toAccountId = ci_toAccountId input,
       tv_amountCents = ci_amountCents input, tv_status = Pending, tv_completedAt = None\<rparr>"
  obtain q db1 where ins: "insert_transfer i now ?v (bs_db s) = (q, db1)" by fastforce
  have run: "(r, s') = (case q of
      Inl err \<Rightarrow> if \<not> isUniqueViolation err then (Inl err, s\<lparr>bs_db := db1\<rparr>)
        else transfer_replay up (ci_idempotencyKey input) (hashRequest sha input) (s\<lparr>bs_db := db1\<rparr>)
    | Inr pending \<Rightarrow> op_bind (enqueueTransfer up (tr_id pending) (ci_idempotencyKey input))
             (\<lambda>_. op_return \<lparr>cr_transfer = pending, cr_created = True\<rparr>) (s\<lparr>bs_db := db1\<rparr>))"
    using assms False acc ins by (cases q) (simp_all add: transfer_create_def on_db_def op_bind_def Let_def)
  show ?thesis
  proof (cases q)
    case (Inl err)
    show ?thesis
    proof (cases "isUniqueViolation err")
      case True
      then have r: "transfer_replay up (ci_idempotencyKey input) (hashRequest sha input) (s\<lparr>bs_db := db1\<rparr>) = (r, s')"
        using run Inl by simp
      from transfer_replay_added [OF this] transfer_replay_db [OF this] show ?thesis
        by (auto dest: find_key_in)
    next
      case False
      then show ?thesis using run Inl by simp
    qed
  next
    case (Inr pending)
    have "\<exists>t\<in>set (transfers db1). tr_idempotencyKey t = Some (ci_idempotencyKey input) \<and> tr_id t = tr_id pending"
      using ins Inr by (auto simp: insert_transfer_def Let_def read_transfer_def split: if_splits)
    then show ?thesis using run Inr by (auto simp: op_bind_def enqueueTransfer_def split: if_splits)
  qed
qed

lemma transfer_create_history:
  "transfer_create sha up i now input s = (r, s') \<Longrightarrow> history_kept (bs_db s) (bs_db s')"
  using transfer_create_cases [of sha up i now input s r s']
  by (auto intro: history_kept_same history_kept_append)

lemma transfer_create_step:
  assumes "state_ok s" "ci_amountCents input \<le> MAX_SAFE_INTEGER"
    and r: "transfer_create sha up i now input s = (r, s')"
  shows "state_ok s' \<and> state_kept s s'"
proof -
  have h: "history_kept (bs_db s) (bs_db s')" using r by (rule transfer_create_history)
  have "bank_inv (bs_db s')" using transfer_create_ledger [OF _ assms(2) r] assms(1) by (simp add: state_ok_def)
  moreover have "jobs_ok (s\<lparr>bs_db := bs_db s'\<rparr>)" using jobs_ok_kept h assms(1) by (simp add: state_ok_def)
  then have "jobs_ok s'" using transfer_create_added [OF r] by (fastforce simp: jobs_ok_def)
  moreover have "set (bs_added s) \<subseteq> set (bs_added s')" using transfer_create_added [OF r] by auto
  ultimately show ?thesis using h by (simp add: state_ok_def state_kept_def)
qed

lemma run_command_ok:
  assumes "state_ok s" "valid_command c"
  shows "state_ok (run_command sha c s) \<and> state_kept s (run_command sha c s)"
proof -
  have inv: "bank_inv (bs_db s)" using assms(1) by (simp add: state_ok_def)
  show ?thesis
  proof (cases c)
    case (OpenAccount i j now cu deposit)
    then have "0 \<le> deposit" "deposit \<le> MAX_SAFE_INTEGER" using assms(2) by (simp_all add: nonNegativeCents_def)
    obtain r db' where r: "account_create i j now cu deposit (bs_db s) = (r, db')" by fastforce
    then show ?thesis
      using OpenAccount on_db_step [OF assms(1), of "account_create i j now cu deposit"]
        account_create_ledger [OF inv \<open>0 \<le> deposit\<close> \<open>deposit \<le> MAX_SAFE_INTEGER\<close> r] account_create_history [OF r]
      by simp
  next
    case (SubmitTransfer up i now input)
    then have "ci_amountCents input \<le> MAX_SAFE_INTEGER" using assms(2) by (simp add: positiveCents_def)
    from transfer_create_step [OF assms(1) this] SubmitTransfer show ?thesis by (metis run_command.simps(6) surjective_pairing)
  next
    case (DeliverJob now job)
    obtain r db' where r: "process_job now (job_transferId job) (bs_db s) = (r, db')" by fastforce
    then show ?thesis
      using DeliverJob on_db_step [OF assms(1), of "process_job now (job_transferId job)"]
        process_job_ledger [OF inv r] process_job_history [OF inv r] by simp
  qed (auto intro!: on_db_step [OF assms(1)] intro: db_frame ledger_frame_inv [THEN conjunct1, OF _ inv]
      ledger_frame_inv [THEN conjunct2, OF _ inv])
qed

lemma state_kept_refl: "state_kept s s"
  by (simp add: state_kept_def history_kept_same)

lemma state_kept_trans: "state_kept s t \<Longrightarrow> state_kept t u \<Longrightarrow> state_kept s u"
  using history_kept_trans by (auto simp: state_kept_def)

interpretation bank: step_system initial_state "bank_step sha" state_ok state_kept for sha
proof unfold_locales
  show "state_ok s" if "initial_state s" for s
    using that bank_inv_empty by (simp add: initial_state_def state_ok_def jobs_ok_def)
  show "state_ok t" if "state_ok s" "bank_step sha s t" for s t
    using that run_command_ok by (auto elim!: bank_stepE)
  show "state_kept s t" if "state_ok s" "bank_step sha s t" for s t
    using that run_command_ok by (auto elim!: bank_stepE)
qed (auto intro: state_kept_refl state_kept_trans)

section \<open>Conservation\<close>

definition deposit_amount :: "transfer_row \<Rightarrow> int" where
  "deposit_amount t = (if tr_status t = Completed \<and> tr_fromAccountId t = None then tr_amountCents t else 0)"

definition total_balance :: "bank_db \<Rightarrow> int" where
  "total_balance db = (\<Sum>r\<leftarrow>accounts db. ac_balanceCents r)"

lemma sum_list_indicator:
  "distinct (map f xs) \<Longrightarrow> (\<Sum>x\<leftarrow>xs. if f x = k then n else 0) = (if k \<in> f ` set xs then n else (0::int))"
  by (induction xs) auto

lemma sum_credits:
  assumes "distinct (map ac_id as)" "transfer_ok (ac_id ` set as) t"
  shows "(\<Sum>a\<leftarrow>as. credit_of (ac_id a) t) - (\<Sum>a\<leftarrow>as. debit_of (ac_id a) t) = deposit_amount t"
proof -
  have "(\<Sum>a\<leftarrow>as. credit_of (ac_id a) t) = (\<Sum>a\<leftarrow>as. if ac_id a = tr_toAccountId t
      then (if tr_status t = Completed then tr_amountCents t else 0) else 0)"
    by (rule arg_cong [where f = sum_list], rule map_cong) (auto simp: credit_of_def)
  also have "\<dots> = (if tr_status t = Completed then tr_amountCents t else 0)"
    using sum_list_indicator [OF assms(1)] assms(2) by (auto simp: transfer_ok_def)
  finally have c: "(\<Sum>a\<leftarrow>as. credit_of (ac_id a) t) = (if tr_status t = Completed then tr_amountCents t else 0)" .
  show ?thesis
  proof (cases "tr_fromAccountId t")
    case None
    have "map (\<lambda>a. debit_of (ac_id a) t) as = map (\<lambda>_. 0) as" by (auto simp: debit_of_def None)
    then have "(\<Sum>a\<leftarrow>as. debit_of (ac_id a) t) = 0" by (simp add: map_replicate_const sum_list_replicate)
    then show ?thesis using c None by (simp add: deposit_amount_def)
  next
    case (Some f)
    have "(\<Sum>a\<leftarrow>as. debit_of (ac_id a) t) = (\<Sum>a\<leftarrow>as. if ac_id a = f
        then (if tr_status t = Completed then tr_amountCents t else 0) else 0)"
      by (rule arg_cong [where f = sum_list], rule map_cong) (auto simp: debit_of_def Some)
    also have "\<dots> = (if tr_status t = Completed then tr_amountCents t else 0)"
      using sum_list_indicator [OF assms(1)] assms(2) Some by (auto simp: transfer_ok_def)
    finally show ?thesis using c Some by (simp add: deposit_amount_def)
  qed
qed

lemma ledger_balance_Cons:
  "ledger_balance j (t # ts) = (credit_of j t - debit_of j t) + ledger_balance j ts"
  by (simp add: ledger_balance_def)

lemma sum_ledger:
  assumes "distinct (map ac_id as)" "\<And>t. t \<in> set ts \<Longrightarrow> transfer_ok (ac_id ` set as) t"
  shows "(\<Sum>a\<leftarrow>as. ledger_balance (ac_id a) ts) = sum_list (map deposit_amount ts)"
  using assms(2)
proof (induction ts)
  case Nil
  then show ?case by (simp add: ledger_balance_def map_replicate_const sum_list_replicate)
next
  case (Cons t ts)
  have "(\<Sum>a\<leftarrow>as. ledger_balance (ac_id a) (t # ts)) =
      (\<Sum>a\<leftarrow>as. credit_of (ac_id a) t) - (\<Sum>a\<leftarrow>as. debit_of (ac_id a) t) + (\<Sum>a\<leftarrow>as. ledger_balance (ac_id a) ts)"
    by (simp add: ledger_balance_Cons sum_list_addf sum_list_subtractf)
  then show ?case using sum_credits [OF assms(1), of t] Cons by simp
qed

lemma bank_inv_total: "bank_inv db \<Longrightarrow> total_balance db = sum_list (map deposit_amount (transfers db))"
proof -
  assume inv: "bank_inv db"
  then have "map ac_balanceCents (accounts db) = map (\<lambda>a. ledger_balance (ac_id a) (transfers db)) (accounts db)"
    by (auto simp: bank_inv_def account_ok_def)
  then have "total_balance db = (\<Sum>a\<leftarrow>accounts db. ledger_balance (ac_id a) (transfers db))"
    by (simp only: total_balance_def)
  also have "\<dots> = sum_list (map deposit_amount (transfers db))"
    using inv by (intro sum_ledger) (auto simp: bank_inv_def account_ids_def)
  finally show ?thesis .
qed

section \<open>A concrete run\<close>

fun run_commands :: "(string \<Rightarrow> string) \<Rightarrow> command list \<Rightarrow> bank_state \<Rightarrow> bank_state option" where
  "run_commands sha [] s = Some s"
| "run_commands sha (c # cs) s =
     (if valid_command c \<and> enabled c s then run_commands sha cs (run_command sha c s) else None)"

lemma run_commands_steps: "run_commands sha cs s = Some t \<Longrightarrow> (bank_step sha)\<^sup>*\<^sup>* s t"
proof (induction cs arbitrary: s)
  case Nil
  then show ?case by simp
next
  case (Cons c cs)
  then have "bank_step sha s (run_command sha c s)" "(bank_step sha)\<^sup>*\<^sup>* (run_command sha c s) t"
    by (auto intro: bank_step.command split: if_splits)
  then show ?case by (rule converse_rtranclp_into_rtranclp)
qed

definition start :: bank_state where
  "start = \<lparr>bs_db = empty_db, bs_added = []\<rparr>"

definition demo_input :: "string \<Rightarrow> int \<Rightarrow> create_transfer_input" where
  "demo_input k n = \<lparr>ci_idempotencyKey = k, ci_fromAccountId = ''a'', ci_toAccountId = ''b'', ci_amountCents = n\<rparr>"

text \<open>Two accounts, a transfer that completes, one that is rejected and one that waits.\<close>

definition demo_commands :: "command list" where
  "demo_commands =
     [CreateCustomer ''c'' 1 ''Ada'', OpenAccount ''a'' ''d1'' 2 ''c'' 100, OpenAccount ''b'' ''d2'' 3 ''c'' 0,
      SubmitTransfer True ''t1'' 4 (demo_input ''k1'' 70), DeliverJob 5 \<lparr>job_id = ''k1'', job_transferId = ''t1''\<rparr>,
      SubmitTransfer False ''t2'' 6 (demo_input ''k2'' 70), SubmitTransfer True ''t3'' 7 (demo_input ''k2'' 70),
      DeliverJob 8 \<lparr>job_id = ''k2'', job_transferId = ''t2''\<rparr>,
      SubmitTransfer True ''t4'' 9 (demo_input ''k3'' 10)]"

definition demo_state :: bank_state where
  "demo_state = the (run_commands (\<lambda>x. x) demo_commands start)"

lemma demo_runs: "run_commands (\<lambda>x. x) demo_commands start \<noteq> None"
  by code_simp

lemma demo_outcomes:
  "map (\<lambda>t. (tr_id t, tr_status t, tr_failureReason t)) (transfers (bs_db demo_state)) =
     [(''d1'', Completed, None), (''t1'', Completed, None),
      (''t2'', FailedStatus, Some ''INSUFFICIENT_FUNDS''), (''t4'', Pending, None)]"
  "map ac_balanceCents (accounts (bs_db demo_state)) = [30, 70]"
  by code_simp+

lemma demo_reachable: "(bank_step (\<lambda>x. x))\<^sup>*\<^sup>* start demo_state"
  using demo_runs run_commands_steps unfolding demo_state_def by fastforce

definition demo_later :: bank_state where
  "demo_later = run_command (\<lambda>x. x) (DeliverJob 10 \<lparr>job_id = ''k3'', job_transferId = ''t4''\<rparr>) demo_state"

lemma demo_later_step: "(bank_step (\<lambda>x. x))\<^sup>*\<^sup>* demo_state demo_later"
proof -
  have "enabled (DeliverJob 10 \<lparr>job_id = ''k3'', job_transferId = ''t4''\<rparr>) demo_state" by code_simp
  then have "bank_step (\<lambda>x. x) demo_state demo_later"
    unfolding demo_later_def by (rule bank_step.command [rotated]) simp
  then show ?thesis by blast
qed

lemma demo_t1: "\<exists>t\<in>set (transfers (bs_db demo_state)). tr_id t = ''t1'' \<and> tr_status t = Completed"
  by code_simp

lemma start_initial: "initial_state start"
  by (simp add: initial_state_def start_def)

section \<open>Properties of the platform\<close>

text \<open>
  C1: the ledger is right in every reachable state, whatever requests arrive and however often,
  late or reordered jobs are delivered: every account's balance is non-negative, fits the column,
  and equals its completed incoming minus its completed outgoing transfers; ids and
  idempotency keys are unique; and a transfer row has a completion time exactly when it is
  decided and a failure reason exactly when it failed.
\<close>

theorem ledger_always_balanced:
  assumes "initial_state s0" "(bank_step sha)\<^sup>*\<^sup>* s0 s"
  shows "bank_inv (bs_db s)"
  using bank.reachable_inv [OF assms] by (simp add: state_ok_def)

theorem ledger_always_balanced_witness:
  "bank_inv (bs_db demo_state) \<and> map ac_balanceCents (accounts (bs_db demo_state)) = [30, 70]"
  using ledger_always_balanced [OF start_initial demo_reachable] demo_outcomes by blast


text \<open>
  C2: money is conserved. In every reachable state the sum of all balances (what
  \<open>totalBalanceCents\<close> reports to the tests) is the sum of the opening deposits: transfers, rejected
  transfers, retries and re-deliveries neither create nor destroy a cent.
\<close>

theorem money_conserved:
  assumes "initial_state s0" "(bank_step sha)\<^sup>*\<^sup>* s0 s"
  shows "total_balance (bs_db s) = sum_list (map deposit_amount (transfers (bs_db s)))"
  using bank.reachable_inv [OF assms] by (intro bank_inv_total) (simp add: state_ok_def)

theorem money_conserved_witness:
  "total_balance (bs_db demo_state) = sum_list (map deposit_amount (transfers (bs_db demo_state)))"
  by (rule money_conserved [OF start_initial demo_reachable])


text \<open>
  C5: decisions are final. Whatever happens after a transfer was completed or failed, the very
  same row is still stored; and a pending transfer's id, accounts, amount, key and payload hash
  never change while it waits.
\<close>

theorem decisions_final:
  assumes "initial_state s0" "(bank_step sha)\<^sup>*\<^sup>* s0 s" "(bank_step sha)\<^sup>*\<^sup>* s s'"
    and "t \<in> set (transfers (bs_db s))"
  shows "\<exists>t'\<in>set (transfers (bs_db s')). decided_from t t' \<and> (tr_status t \<noteq> Pending \<longrightarrow> t' = t)"
proof -
  have "state_kept s s'" using bank.runs_keeps [OF assms(3)] bank.reachable_inv [OF assms(1,2)] .
  then show ?thesis using assms(4) unfolding state_kept_def history_kept_def decided_from_def by blast
qed

theorem decisions_final_witness:
  "\<exists>t\<in>set (transfers (bs_db demo_state)). tr_id t = ''t1'' \<and> t \<in> set (transfers (bs_db demo_later))"
proof -
  obtain t where t: "t \<in> set (transfers (bs_db demo_state))" "tr_id t = ''t1''" "tr_status t = Completed"
    using demo_t1 by blast
  from decisions_final [OF start_initial demo_reachable demo_later_step t(1)] t show ?thesis by auto
qed


text \<open>
  C3: what delivering a job does, in every reachable state. A missing or decided transfer is left
  alone. A pending one is decided by the ledger rules, in this order: an active lock on either
  account fails it with \<open>ACCOUNT_LOCKED\<close>, a balance below the amount fails it with
  \<open>INSUFFICIENT_FUNDS\<close>, a credit that does not fit the column leaves it pending and raises a
  database error (BullMQ retries), and otherwise exactly the amount moves and the row is
  completed. The comparison is right although balances are read as doubles.
\<close>

theorem delivery_contract:
  assumes "initial_state s0" "(bank_step sha)\<^sup>*\<^sup>* s0 s"
  shows "(case find_transfer i (bs_db s) of
      None \<Rightarrow> process_job now i (bs_db s) = (Inr (), bs_db s)
    | Some x \<Rightarrow> if tr_status x \<noteq> Pending then process_job now i (bs_db s) = (Inr (), bs_db s)
        else \<exists>a b. find_account (ac_id a) (bs_db s) = Some a \<and> find_account (ac_id b) (bs_db s) = Some b \<and>
          tr_fromAccountId x = Some (ac_id a) \<and> tr_toAccountId x = ac_id b \<and>
          process_job now i (bs_db s) = settle now i x a b (bs_db s))"
proof -
  have inv: "bank_inv (bs_db s)" using bank.reachable_inv [OF assms] by (simp add: state_ok_def)
  show ?thesis
  proof (cases "find_transfer i (bs_db s)")
    case None
    then show ?thesis by (simp add: process_job_missing)
  next
    case (Some x)
    show ?thesis
    proof (cases "tr_status x = Pending")
      case True
      from bank_inv_executable [OF inv Some True] obtain a b where e: "executable_transfer i (bs_db s) x a b"
        by blast
      then have "find_account (ac_id a) (bs_db s) = Some a \<and> find_account (ac_id b) (bs_db s) = Some b \<and>
          tr_fromAccountId x = Some (ac_id a) \<and> tr_toAccountId x = ac_id b \<and>
          process_job now i (bs_db s) = settle now i x a b (bs_db s)"
        using process_job_settle [OF e True, of now] unfolding executable_transfer_def by blast
      then show ?thesis using Some True by auto
    next
      case False
      then show ?thesis using Some by (simp add: process_job_done)
    qed
  qed
qed

theorem delivery_contract_witness:
  "(case find_transfer ''t1'' (bs_db demo_state) of
      None \<Rightarrow> True | Some x \<Rightarrow> process_job 11 ''t1'' (bs_db demo_state) = (Inr (), bs_db demo_state))"
proof -
  obtain x where x: "find_transfer ''t1'' (bs_db demo_state) = Some x" "tr_status x = Completed"
  proof -
    have "map_option tr_status (find_transfer ''t1'' (bs_db demo_state)) = Some Completed" by code_simp
    then show ?thesis using that by (cases "find_transfer ''t1'' (bs_db demo_state)") auto
  qed
  from delivery_contract [OF start_initial demo_reachable, of 11 "''t1''"] x show ?thesis by simp
qed


text \<open>
  C4: re-delivery is harmless. In every reachable state, delivering a job again after a delivery
  that did not raise a database error changes nothing at all: a transfer is executed at most
  once however often its job runs (one worker at a time).
\<close>

theorem redelivery_idempotent:
  assumes "initial_state s0" "(bank_step sha)\<^sup>*\<^sup>* s0 s"
    and "process_job now i (bs_db s) = (Inr (), db1)"
  shows "process_job now' i db1 = (Inr (), db1)"
proof -
  have inv: "bank_inv (bs_db s)" using bank.reachable_inv [OF assms(1,2)] by (simp add: state_ok_def)
  show ?thesis
  proof (cases "find_transfer i (bs_db s)")
    case None
    then show ?thesis using assms(3) by (simp add: process_job_missing)
  next
    case (Some x)
    show ?thesis
    proof (cases "tr_status x = Pending")
      case False
      then show ?thesis using assms(3) Some by (simp add: process_job_done)
    next
      case True
      from bank_inv_executable [OF inv Some True] obtain a b where e: "executable_transfer i (bs_db s) x a b"
        by blast
      from process_job_settle [OF e True, of now] assms(3)
      obtain g where g: "find_transfer i db1 = Some (g x)" "tr_status (g x) \<noteq> Pending"
      proof -
        have f: "find_transfer i (set_row i g (add_balance p m (add_balance q n (bs_db s)))) = Some (g x)"
          if "\<And>t. tr_id (g t) = tr_id t" for g p m q n
          using find_update_where_same [of tr_id i "transfers (bs_db s)" x g] Some that
          by (simp add: find_transfer_def set_row_def add_balance_def)
        have f': "find_transfer i (set_row i g (bs_db s)) = Some (g x)"
          if "\<And>t. tr_id (g t) = tr_id t" for g
          using find_update_where_same [of tr_id i "transfers (bs_db s)" x g] Some that
          by (simp add: find_transfer_def set_row_def)
        show ?thesis
          using process_job_settle [OF e True, of now] assms(3) that
            f [of "complete_row now"] f' [of "fail_row now _"]
          by (auto simp: settle_def complete_row_def fail_row_def split: verdict.splits)
      qed
      then show ?thesis by (simp add: process_job_done)
    qed
  qed
qed

theorem redelivery_idempotent_witness:
  "(let db1 = snd (process_job 10 ''t4'' (bs_db demo_state))
    in map ac_balanceCents (accounts db1) = [20, 80] \<and> process_job 11 ''t4'' db1 = (Inr (), db1))"
proof -
  have "fst (process_job 10 ''t4'' (bs_db demo_state)) = Inr ()" by code_simp
  then have "process_job 10 ''t4'' (bs_db demo_state) = (Inr (), snd (process_job 10 ''t4'' (bs_db demo_state)))"
    by (simp add: prod_eq_iff)
  from redelivery_idempotent [OF start_initial demo_reachable this, of 11]
  have "process_job 11 ''t4'' (snd (process_job 10 ''t4'' (bs_db demo_state)))
      = (Inr (), snd (process_job 10 ''t4'' (bs_db demo_state)))" .
  moreover have "map ac_balanceCents (accounts (snd (process_job 10 ''t4'' (bs_db demo_state)))) = [20, 80]"
    by code_simp
  ultimately show ?thesis by (simp only: Let_def simp_thms)
qed

end
