(* ===== verification/Workers.thy ===== *)
theory Workers
  imports Bank_System
begin

text \<open>
  Several executor processes (\<open>apps/executor\<close>, "scale it independently") and the API at the same
  time. Between the statements of one job other processes run: a worker first reads the transfer
  row (\<open>processor.ts\<close>), then runs the transaction of \<open>executor.ts\<close>, and after a rejection writes
  the failure in a statement of its own. The transaction itself is one step: it holds the row
  locks of both accounts (theory Row_Locks).
\<close>

section \<open>Workers\<close>

datatype worker_phase =
    Idle
  | Loaded transfer_row \<comment> \<open>the row as the processor read it, still pending\<close>
  | Rejected transfer_row error_code \<comment> \<open>the transaction threw; the failure is not written yet\<close>

record world =
  wd_bank :: bank_state
  wd_workers :: "nat \<Rightarrow> worker_phase"

definition wd_db :: "world \<Rightarrow> bank_db" where
  "wd_db w = bs_db (wd_bank w)"

definition set_worker :: "nat \<Rightarrow> worker_phase \<Rightarrow> bank_db \<Rightarrow> world \<Rightarrow> world" where
  "set_worker n ph db w = w\<lparr>wd_bank := (wd_bank w)\<lparr>bs_db := db\<rparr>, wd_workers := (wd_workers w)(n := ph)\<rparr>"

text \<open>The processor's \<open>SELECT\<close> and its two early returns.\<close>

definition load :: "nat \<Rightarrow> uuid \<Rightarrow> world \<Rightarrow> world" where
  "load n i w = (case find_transfer i (wd_db w) of
       None \<Rightarrow> w
     | Some x \<Rightarrow> if tr_status x \<noteq> Pending then w else set_worker n (Loaded (read_transfer x)) (wd_db w) w)"

text \<open>The \<open>try\<close> block of \<open>execute\<close>.\<close>

definition attempt :: "int \<Rightarrow> transfer_row \<Rightarrow> transfer_row db_op" where
  "attempt now transfer db = (case tr_fromAccountId transfer of
       None \<Rightarrow> (Inl (PlainErr (''Transfer '' @ tr_id transfer @
                 '' has no source account; deposits are not queued'')), db)
     | Some fromAccountId \<Rightarrow> transaction (execute_tx now (tr_id transfer) fromAccountId
         (tr_toAccountId transfer) (tr_amountCents transfer)) db)"

definition commit :: "int \<Rightarrow> nat \<Rightarrow> world \<Rightarrow> world" where
  "commit now n w = (case wd_workers w n of
       Loaded row \<Rightarrow> (case attempt now row (wd_db w) of
           (Inr _, db) \<Rightarrow> set_worker n Idle db w
         | (Inl (AppErr e), db) \<Rightarrow>
             if is_unprocessable (AppErr e) then set_worker n (Rejected row (ae_code e)) db w
             else set_worker n Idle db w
         | (Inl _, db) \<Rightarrow> set_worker n Idle db w)
     | _ \<Rightarrow> w)"

text \<open>The \<open>catch\<close> block.\<close>

definition write_failure :: "int \<Rightarrow> nat \<Rightarrow> world \<Rightarrow> world" where
  "write_failure now n w = (case wd_workers w n of
       Rejected row code \<Rightarrow>
         set_worker n Idle (snd (update_transfer (tr_id row) (fail_row now code) (wd_db w))) w
     | _ \<Rightarrow> w)"

definition crash :: "nat \<Rightarrow> world \<Rightarrow> world" where
  "crash n w = w\<lparr>wd_workers := (wd_workers w)(n := Idle)\<rparr>"

datatype action =
    Api command
  | Load nat uuid
  | Commit int nat
  | WriteFailure int nat
  | Crash nat

fun act :: "(string \<Rightarrow> string) \<Rightarrow> action \<Rightarrow> world \<Rightarrow> world" where
  "act sha (Api c) w = w\<lparr>wd_bank := run_command sha c (wd_bank w)\<rparr>"
| "act sha (Load n i) w = load n i w"
| "act sha (Commit now n) w = commit now n w"
| "act sha (WriteFailure now n) w = write_failure now n w"
| "act sha (Crash n) w = crash n w"

fun held :: "worker_phase \<Rightarrow> uuid option" where
  "held Idle = None"
| "held (Loaded row) = Some (tr_id row)"
| "held (Rejected row _) = Some (tr_id row)"

text \<open>One worker without overlap is exactly the sequential processor.\<close>

lemma execute_attempt:
  "execute now x db = (case attempt now x db of
      (Inr row, db') \<Rightarrow> (Inr row, db')
    | (Inl err, db') \<Rightarrow> (case err of
          AppErr e \<Rightarrow> if is_unprocessable err
            then (Inl err, snd (update_transfer (tr_id x) (fail_row now (ae_code e)) db'))
            else (Inl err, db')
        | _ \<Rightarrow> (Inl err, db')))"
  by (simp add: execute_def attempt_def split: option.splits)

section \<open>Deliveries that do not overlap on one transfer\<close>

text \<open>
  Jobs of the API side are requests only; an idle worker may take a queued job that no other
  worker holds. This is what BullMQ's job lock gives as long as no job stalls.
\<close>

fun api_request :: "command \<Rightarrow> bool" where
  "api_request (DeliverJob _ _) = False"
| "api_request c = valid_command c"

inductive worker_step :: "(string \<Rightarrow> string) \<Rightarrow> world \<Rightarrow> world \<Rightarrow> bool" for sha where
  api: "api_request c \<Longrightarrow> worker_step sha w (act sha (Api c) w)"
| load: "wd_workers w n = Idle \<Longrightarrow> j \<in> set (bs_added (wd_bank w)) \<Longrightarrow>
    (\<forall>m. held (wd_workers w m) \<noteq> Some (job_transferId j)) \<Longrightarrow>
    worker_step sha w (act sha (Load n (job_transferId j)) w)"
| commit: "worker_step sha w (act sha (Commit now n) w)"
| fail: "worker_step sha w (act sha (WriteFailure now n) w)"
| crash: "worker_step sha w (act sha (Crash n) w)"

inductive_cases worker_stepE: "worker_step sha w w'"

definition initial_world :: "world \<Rightarrow> bool" where
  "initial_world w \<longleftrightarrow> initial_state (wd_bank w) \<and> wd_workers w = (\<lambda>_. Idle)"

text \<open>What a worker remembers is still true: its transfer is pending and unchanged.\<close>

definition phase_ok :: "bank_db \<Rightarrow> worker_phase \<Rightarrow> bool" where
  "phase_ok db ph \<longleftrightarrow> (case ph of
       Idle \<Rightarrow> True
     | Loaded row \<Rightarrow> (\<exists>x. find_transfer (tr_id row) db = Some x \<and> tr_status x = Pending \<and> row = read_transfer x)
     | Rejected row _ \<Rightarrow> (\<exists>x. find_transfer (tr_id row) db = Some x \<and> tr_status x = Pending))"

definition world_ok :: "world \<Rightarrow> bool" where
  "world_ok w \<longleftrightarrow> state_ok (wd_bank w) \<and> (\<forall>n. phase_ok (wd_db w) (wd_workers w n)) \<and>
     (\<forall>m n i. held (wd_workers w m) = Some i \<longrightarrow> held (wd_workers w n) = Some i \<longrightarrow> m = n)"

lemma phase_ok_frame:
  assumes "phase_ok db ph" "\<And>i x. held ph = Some i \<Longrightarrow> find_transfer i db = Some x \<Longrightarrow> find_transfer i db' = Some x"
  shows "phase_ok db' ph"
  using assms by (cases ph) (auto simp: phase_ok_def)

lemma find_transfer_append:
  "transfers db' = transfers db @ ts \<Longrightarrow> find_transfer i db = Some x \<Longrightarrow> find_transfer i db' = Some x"
  by (simp add: find_transfer_def find_append)

text \<open>An API request never touches a stored transfer row.\<close>

lemma api_request_transfers:
  assumes "api_request c"
  shows "\<exists>ts. transfers (bs_db (run_command sha c s)) = transfers (bs_db s) @ ts"
proof (cases c)
  case (OpenAccount i j now cu deposit)
  then show ?thesis
    by (auto simp: snd_on_db account_create_def transaction_def rollback_def op_bind_def insert_account_def
        insert_transfer_def Let_def split: option.splits if_splits)
next
  case (SubmitTransfer up i now input)
  obtain r s' where r: "transfer_create sha up i now input s = (r, s')" by fastforce
  from transfer_create_cases [OF this] SubmitTransfer r show ?thesis by auto
next
  case (DeliverJob now job)
  then show ?thesis using assms by simp
qed (use db_frame in \<open>auto simp: snd_on_db ledger_frame_def\<close>)

lemma find_transfer_set_row_other:
  "i \<noteq> j \<Longrightarrow> (\<And>t. tr_id (g t) = tr_id t) \<Longrightarrow> find_transfer j (set_row i g db) = find_transfer j db"
  by (simp add: find_transfer_def set_row_def find_update_where_other)

lemma find_transfer_add_balance [simp]: "find_transfer j (add_balance i d db) = find_transfer j db"
  by (simp add: find_transfer_def add_balance_def)

text \<open>The transaction of a pending transfer, seen from the outside.\<close>

lemma attempt_pending:
  assumes "bank_inv db" "find_transfer i db = Some x" "tr_status x = Pending"
    and "attempt now (read_transfer x) db = (r, db')"
  shows "(\<exists>e. r = Inl e \<and> db' = db) \<or>
    ((\<exists>y. r = Inr y) \<and> bank_inv db' \<and> history_kept db db' \<and>
     (\<forall>j. j \<noteq> i \<longrightarrow> find_transfer j db' = find_transfer j db))"
proof -
  have x: "x \<in> set (transfers db)" "tr_id x = i" using find_transfer_id [OF assms(2)] by auto
  obtain a b where e: "executable_transfer i db x a b" using bank_inv_executable [OF assms(1-3)] by blast
  have h: "history_kept db (snd (settle now i x a b db))" by (rule settle_history [OF assms(1-3)])
  have n: "to_number (tr_amountCents x) = tr_amountCents x"
    using e by (intro to_number_safe) (auto simp: executable_transfer_def)
  let ?v = "verdict_of (ac_id a) (ac_id b) (tr_amountCents x) (ac_balanceCents a) (ac_balanceCents b) db"
  have tx: "attempt now (read_transfer x) db =
      transaction (execute_tx now i (ac_id a) (ac_id b) (tr_amountCents x)) db"
    using e x n by (simp add: attempt_def read_transfer_def executable_transfer_def)
  note verdict = execute_tx_verdict [of "ac_id a" db a "ac_id b" b i x "tr_amountCents x" now]
  show ?thesis
  proof (cases ?v)
    case (Reject code)
    then consider "code = ACCOUNT_LOCKED" | "code = INSUFFICIENT_FUNDS" using verdict_codes by blast
    then show ?thesis using Reject tx verdict e assms(4)
      by cases (auto simp: executable_transfer_def transaction_def)
  next
    case Overflow
    then show ?thesis using tx verdict e assms(4) by (auto simp: executable_transfer_def transaction_def)
  next
    case Move
    then have v: "tr_amountCents x \<le> ac_balanceCents a" "ac_balanceCents b + tr_amountCents x \<le> BIGINT_MAX"
      by (auto simp: verdict_of_def split: if_splits)
    have db': "db' = set_row i (complete_row now)
        (add_balance (ac_id b) (tr_amountCents x) (add_balance (ac_id a) (- tr_amountCents x) db))" "\<exists>y. r = Inr y"
      using Move tx verdict e assms(4) by (auto simp: executable_transfer_def transaction_def)
    have "find_transfer j db' = find_transfer j db" if "j \<noteq> i" for j
      using that find_transfer_set_row_other [of i j "complete_row now"] by (simp add: db' complete_row_def)
    moreover have "bank_inv db'" unfolding db'(1) by (rule bank_inv_move [OF assms(1) e assms(3) v])
    moreover have "history_kept db db'" using h Move by (simp add: settle_def db'(1))
    ultimately show ?thesis using db'(2) by blast
  qed
qed

lemma set_worker_simps [simp]:
  "wd_db (set_worker n ph db w) = db" "wd_workers (set_worker n ph db w) = (wd_workers w)(n := ph)"
  "bs_added (wd_bank (set_worker n ph db w)) = bs_added (wd_bank w)"
  "wd_bank (set_worker n ph db w) = (wd_bank w)\<lparr>bs_db := db\<rparr>"
  by (simp_all add: set_worker_def wd_db_def)

lemma world_ok_set:
  assumes "world_ok w" "bank_inv db" "history_kept (wd_db w) db" "phase_ok db ph"
    and "held ph = None \<or> held ph = held (wd_workers w n)"
    and "\<And>j. held (wd_workers w n) \<noteq> Some j \<Longrightarrow> find_transfer j db = find_transfer j (wd_db w)"
  shows "world_ok (set_worker n ph db w)"
proof -
  have jobs: "jobs_ok ((wd_bank w)\<lparr>bs_db := db\<rparr>)"
    using jobs_ok_kept assms(1,3) by (simp add: world_ok_def state_ok_def wd_db_def)
  have others: "phase_ok db (wd_workers w m)" if "m \<noteq> n" for m
  proof (rule phase_ok_frame)
    show "phase_ok (wd_db w) (wd_workers w m)" using assms(1) by (simp add: world_ok_def)
    fix i x assume "held (wd_workers w m) = Some i" "find_transfer i (wd_db w) = Some x"
    moreover from this(1) have "held (wd_workers w n) \<noteq> Some i" using assms(1) that unfolding world_ok_def by blast
    ultimately show "find_transfer i db = Some x" using assms(6) by simp
  qed
  have same: "held (((wd_workers w)(n := ph)) m) = Some i \<Longrightarrow> held (wd_workers w m) = Some i" for m i
    using assms(5) by (auto split: if_splits)
  show ?thesis
    unfolding world_ok_def
  proof (intro conjI allI impI)
    show "state_ok (wd_bank (set_worker n ph db w))" using jobs assms(2) by (simp add: state_ok_def)
    show "phase_ok (wd_db (set_worker n ph db w)) (wd_workers (set_worker n ph db w) m)" for m
      using others assms(4) by (cases "m = n") simp_all
    show "p = q" if "held (wd_workers (set_worker n ph db w) p) = Some i"
      "held (wd_workers (set_worker n ph db w) q) = Some i" for p q i
      using that same assms(1) unfolding world_ok_def set_worker_simps by blast
  qed
qed

lemma world_ok_load:
  assumes "world_ok w" "find_transfer i (wd_db w) = Some x" "tr_status x = Pending"
    and "\<And>m. held (wd_workers w m) \<noteq> Some i"
  shows "world_ok (set_worker n (Loaded (read_transfer x)) (wd_db w) w)"
proof -
  have i: "tr_id (read_transfer x) = i" using find_transfer_id [OF assms(2)] by (simp add: read_transfer_def)
  have new: "phase_ok (wd_db w) (Loaded (read_transfer x))" using assms(2,3) by (auto simp: phase_ok_def i)
  have bank: "(wd_bank w)\<lparr>bs_db := wd_db w\<rparr> = wd_bank w" by (simp add: wd_db_def)
  show ?thesis
    unfolding world_ok_def set_worker_simps bank
  proof (intro conjI allI impI)
    show "state_ok (wd_bank w)" using assms(1) by (simp add: world_ok_def)
    show "phase_ok (wd_db w) (((wd_workers w)(n := Loaded (read_transfer x))) m)" for m
      using new assms(1) by (simp add: world_ok_def)
    show "p = q" if "held (((wd_workers w)(n := Loaded (read_transfer x))) p) = Some j"
      "held (((wd_workers w)(n := Loaded (read_transfer x))) q) = Some j" for p q j
      using that assms(1,4) i unfolding world_ok_def by (auto split: if_splits)
  qed
qed

lemma update_transfer_snd: "snd (update_transfer i g db) = set_row i g db"
  by (simp add: update_transfer_def set_row_def Let_def)

lemma worker_step_ok:
  assumes "world_ok w" "worker_step sha w w'"
  shows "world_ok w'"
  using assms(2)
proof (cases rule: worker_step.cases)
  case (api c)
  have s: "state_ok (wd_bank w)" using assms(1) by (simp add: world_ok_def)
  obtain ts where "transfers (bs_db (run_command sha c (wd_bank w))) = transfers (wd_db w) @ ts"
    using api_request_transfers [OF api(2)] by (auto simp: wd_db_def)
  then have keep: "find_transfer i (wd_db w) = Some x \<Longrightarrow> find_transfer i (wd_db w') = Some x" for i x
    using find_transfer_append by (simp add: api wd_db_def)
  have "phase_ok (wd_db w') (wd_workers w n)" for n
    by (rule phase_ok_frame [of "wd_db w"]) (use assms(1) keep in \<open>auto simp: world_ok_def\<close>)
  moreover have "valid_command c" using api(2) by (cases c) auto
  ultimately show ?thesis using assms(1) run_command_ok [OF s] api(1) by (simp add: world_ok_def)
next
  case (load n j)
  then show ?thesis
    using assms(1) world_ok_load [OF assms(1), of "job_transferId j"]
    by (auto simp: load_def split: option.splits)
next
  case (commit now n)
  have inv: "bank_inv (wd_db w)" using assms(1) by (simp add: world_ok_def state_ok_def wd_db_def)
  show ?thesis
  proof (cases "wd_workers w n")
    case (Loaded row)
    have "phase_ok (wd_db w) (Loaded row)" using assms(1) Loaded unfolding world_ok_def by metis
    then obtain x where x: "find_transfer (tr_id row) (wd_db w) = Some x" "tr_status x = Pending"
      "row = read_transfer x" unfolding phase_ok_def by auto
    obtain r db' where r: "attempt now row (wd_db w) = (r, db')" by fastforce
    have rej: "phase_ok (wd_db w) (Rejected row c)" for c using x by (simp add: phase_ok_def)
    have idle: "phase_ok db Idle" for db by (simp add: phase_ok_def)
    from attempt_pending [OF inv x(1,2), of now r db'] r x(3)
    consider e where "r = Inl e" "db' = wd_db w" | y where "r = Inr y" "bank_inv db'" "history_kept (wd_db w) db'"
      "\<forall>j. j \<noteq> tr_id row \<longrightarrow> find_transfer j db' = find_transfer j (wd_db w)" by auto
    then show ?thesis
    proof cases
      case 1
      have "world_ok (set_worker n ph (wd_db w) w)" if "ph = Idle \<or> (\<exists>c. ph = Rejected row c)" for ph
        using that inv rej idle Loaded
        by (intro world_ok_set [OF assms(1)]) (auto simp: history_kept_same)
      then show ?thesis using commit 1 r Loaded by (auto simp: commit_def split: thrown.splits)
    next
      case 2
      have "world_ok (set_worker n Idle db' w)"
        using 2 idle Loaded by (intro world_ok_set [OF assms(1)]) auto
      then show ?thesis using commit 2 r Loaded by (simp add: commit_def)
    qed
  qed (use commit assms(1) in \<open>simp_all add: commit_def\<close>)
next
  case (fail now n)
  have inv: "bank_inv (wd_db w)" using assms(1) by (simp add: world_ok_def state_ok_def wd_db_def)
  show ?thesis
  proof (cases "wd_workers w n")
    case (Rejected row code)
    have "phase_ok (wd_db w) (Rejected row code)" using assms(1) Rejected unfolding world_ok_def by metis
    then obtain x where x: "find_transfer (tr_id row) (wd_db w) = Some x" "tr_status x = Pending"
      unfolding phase_ok_def by auto
    then have xs: "x \<in> set (transfers (wd_db w))" "tr_id x = tr_id row" using find_transfer_id by blast+
    let ?db = "set_row (tr_id row) (fail_row now code) (wd_db w)"
    have "bank_inv ?db" using bank_inv_fail [OF inv xs(1) x(2), of now code] xs(2) by simp
    moreover have "history_kept (wd_db w) ?db"
      by (rule history_kept_set_row [of _ x "fail_row now code"])
        (use inv xs x in \<open>auto simp: bank_inv_def decided_from_def fail_row_def set_row_def\<close>)
    moreover have "find_transfer j ?db = find_transfer j (wd_db w)" if "j \<noteq> tr_id row" for j
      using that find_transfer_set_row_other [of "tr_id row" j "fail_row now code"] by (simp add: fail_row_def)
    ultimately have "world_ok (set_worker n Idle ?db w)"
      using Rejected by (intro world_ok_set [OF assms(1)]) (auto simp: phase_ok_def)
    then show ?thesis using fail Rejected by (simp add: write_failure_def update_transfer_snd)
  qed (use fail assms(1) in \<open>simp_all add: write_failure_def\<close>)
next
  case (crash n)
  then show ?thesis using assms(1) by (auto simp: crash_def world_ok_def phase_ok_def wd_db_def)
qed

section \<open>Properties\<close>

text \<open>History is not tracked across workers: \<open>bank_inv\<close> of the world says what is needed.\<close>

interpretation workers: step_system initial_world "worker_step sha" world_ok "\<lambda>_ _. True" for sha
proof unfold_locales
  show "world_ok w" if "initial_world w" for w
    using that bank_inv_empty
    by (auto simp: initial_world_def initial_state_def world_ok_def state_ok_def jobs_ok_def phase_ok_def)
  show "world_ok w'" if "world_ok w" "worker_step sha w w'" for w w'
    using that by (rule worker_step_ok)
qed auto

text \<open>
  C17: any number of executor processes may run side by side with the API. As long as no two of them
  hold the same job at the same time (BullMQ's job lock), every interleaving of their reads,
  transactions, failure writes and crashes with every API request keeps the ledger invariant and
  conserves money, exactly as the sequential processor does.
\<close>

theorem workers_keep_ledger:
  assumes "initial_world w0" "(worker_step sha)\<^sup>*\<^sup>* w0 w"
  shows "bank_inv (wd_db w) \<and>
    total_balance (wd_db w) = sum_list (map deposit_amount (transfers (wd_db w)))"
proof -
  have "bank_inv (wd_db w)"
    using workers.reachable_inv [OF assms] by (simp add: world_ok_def state_ok_def wd_db_def)
  then show ?thesis using bank_inv_total by blast
qed

definition fresh_world :: "world" where
  "fresh_world = \<lparr>wd_bank = start, wd_workers = (\<lambda>_. Idle)\<rparr>"

definition opened_world :: "int \<Rightarrow> world" where
  "opened_world n = fold (act (\<lambda>x. x))
     [Api (CreateCustomer ''c'' 1 ''Ada''), Api (OpenAccount ''a'' ''d1'' 2 ''c'' 100),
      Api (OpenAccount ''b'' ''d2'' 3 ''c'' 0), Api (SubmitTransfer True ''t1'' 4 (demo_input ''k1'' n))] fresh_world"

lemma fold_steps:
  "(\<And>w. worker_step sha w (act sha a w)) \<Longrightarrow> (worker_step sha)\<^sup>*\<^sup>* w0 w \<Longrightarrow>
     (worker_step sha)\<^sup>*\<^sup>* w0 (act sha a w)"
  by (meson rtranclp.rtrancl_into_rtrancl)

lemma opened_reachable: "0 < n \<Longrightarrow> n \<le> 1000 \<Longrightarrow> (worker_step (\<lambda>x. x))\<^sup>*\<^sup>* fresh_world (opened_world n)"
  unfolding opened_world_def fold_simps
  by (intro fold_steps worker_step.api)
    (auto simp: nonNegativeCents_def positiveCents_def demo_input_def MAX_SAFE_INTEGER_def simp del: act.simps)

theorem workers_keep_ledger_witness:
  "bank_inv (wd_db (act (\<lambda>x. x) (Commit 5 0) (act (\<lambda>x. x) (Load 0 ''t1'') (opened_world 40))))"
proof -
  let ?j = "\<lparr>job_id = ''k1'', job_transferId = ''t1''\<rparr>"
  have "map (\<lambda>j. (job_id j, job_transferId j)) (bs_added (wd_bank (opened_world 40))) = [(''k1'', ''t1'')]"
    by code_simp
  then have "?j \<in> set (bs_added (wd_bank (opened_world 40)))" by auto
  moreover have "wd_workers (opened_world 40) m = Idle" for m
    by (simp add: opened_world_def fresh_world_def)
  ultimately have "worker_step (\<lambda>x. x) (opened_world 40) (act (\<lambda>x. x) (Load 0 (job_transferId ?j)) (opened_world 40))"
    by (intro worker_step.load) simp_all
  then have l: "(worker_step (\<lambda>x. x))\<^sup>*\<^sup>* fresh_world (act (\<lambda>x. x) (Load 0 ''t1'') (opened_world 40))"
    using opened_reachable [of 40] by simp
  have r: "(worker_step (\<lambda>x. x))\<^sup>*\<^sup>* fresh_world
      (act (\<lambda>x. x) (Commit 5 0) (act (\<lambda>x. x) (Load 0 ''t1'') (opened_world 40)))"
    by (rule fold_steps [OF worker_step.commit l])
  have "initial_world fresh_world" by (simp add: initial_world_def fresh_world_def start_initial)
  from workers_keep_ledger [OF this r] show ?thesis by blast
qed

text \<open>
  without that exclusion the transaction is no second line of defence: it never re-reads the
  transfer's status. When a stalled job is handed to a second worker after both have read the row
  as pending, a transfer of 40 is executed twice (the balances say 20 and 80 while the single
  completed transfer says 60 and 40), and a transfer of 70 ends up recorded as failed with
  \<open>INSUFFICIENT_FUNDS\<close> although its money has moved.
\<close>

theorem overlapping_workers_double_execute:
  "(let w = fold (act (\<lambda>x. x)) [Load 0 ''t1'', Load 1 ''t1'', Commit 5 0, Commit 6 1] (opened_world 40)
    in map ac_balanceCents (accounts (wd_db w)) = [20, 80] \<and>
       map (\<lambda>i. ledger_balance i (transfers (wd_db w))) [''a'', ''b''] = [60, 40] \<and>
       map (\<lambda>t. (tr_id t, tr_status t)) (transfers (wd_db w)) = [(''d1'', Completed), (''t1'', Completed)]) \<and>
   (let w = fold (act (\<lambda>x. x)) [Load 0 ''t1'', Load 1 ''t1'', Commit 5 0, Commit 6 1, WriteFailure 7 1] (opened_world 70)
    in map ac_balanceCents (accounts (wd_db w)) = [30, 70] \<and>
       map (\<lambda>t. (tr_id t, tr_status t, tr_failureReason t)) (transfers (wd_db w)) =
         [(''d1'', Completed, None), (''t1'', FailedStatus, Some ''INSUFFICIENT_FUNDS'')])"
  by code_simp

end
