(* ===== verification/Row_Locks.thy ===== *)
theory Row_Locks
  imports Executor
begin

text \<open>
  The row locks behind "deterministic ordering prevents deadlocks" (\<open>executor.ts\<close>) and
  \<open>LockService.create\<close>. A transaction takes its locks one by one and releases them together at
  its end. \<open>SELECT ... FOR UPDATE\<close> conflicts with every lock of the row; the foreign-key checks of
  an \<open>INSERT\<close> take \<open>FOR KEY SHARE\<close> on the referenced account rows, in the order of the
  constraints, which conflicts with \<open>FOR UPDATE\<close> only.
\<close>

section \<open>Transactions as lock programs\<close>

datatype lock_mode = ForUpdate | ForKeyShare

datatype bank_tx =
    ExecuteTransfer uuid uuid
  | CreateLockTx uuid
  | InsertPending uuid uuid \<comment> \<open>\<open>TransferService.create\<close>: the foreign keys of the new row\<close>
  | InsertComment uuid

definition execution_order :: "uuid \<Rightarrow> uuid \<Rightarrow> uuid list" where
  "execution_order fromAccountId toAccountId = sort [fromAccountId, toAccountId]"

fun lock_program :: "bank_tx \<Rightarrow> (uuid \<times> lock_mode) list" where
  "lock_program (ExecuteTransfer f t) = map (\<lambda>i. (i, ForUpdate)) (execution_order f t)"
| "lock_program (CreateLockTx a) = [(a, ForUpdate)]"
| "lock_program (InsertPending f t) = [(f, ForKeyShare), (t, ForKeyShare)]"
| "lock_program (InsertComment a) = [(a, ForKeyShare)]"

definition conflict :: "uuid \<times> lock_mode \<Rightarrow> uuid \<times> lock_mode \<Rightarrow> bool" where
  "conflict x y \<longleftrightarrow> fst x = fst y \<and> \<not> (snd x = ForKeyShare \<and> snd y = ForKeyShare)"

text \<open>\<open>pos p\<close> locks are taken; \<open>length + 1\<close> means committed, everything released.\<close>

record lock_table =
  lt_tx :: "bank_tx list"
  lt_pos :: "nat list"

definition program :: "lock_table \<Rightarrow> nat \<Rightarrow> (uuid \<times> lock_mode) list" where
  "program s p = lock_program (lt_tx s ! p)"

definition unfinished :: "lock_table \<Rightarrow> nat \<Rightarrow> bool" where
  "unfinished s p \<longleftrightarrow> p < length (lt_tx s) \<and> lt_pos s ! p \<le> length (program s p)"

definition holds :: "lock_table \<Rightarrow> nat \<Rightarrow> (uuid \<times> lock_mode) list" where
  "holds s p = (if unfinished s p then take (lt_pos s ! p) (program s p) else [])"

definition grantable :: "lock_table \<Rightarrow> nat \<Rightarrow> bool" where
  "grantable s p \<longleftrightarrow> unfinished s p \<and>
     (lt_pos s ! p < length (program s p) \<longrightarrow>
       (\<forall>q<length (lt_tx s). q \<noteq> p \<longrightarrow> (\<forall>y\<in>set (holds s q). \<not> conflict (program s p ! (lt_pos s ! p)) y)))"

definition lock_step :: "nat \<Rightarrow> lock_table \<Rightarrow> lock_table" where
  "lock_step p s = (if grantable s p then s\<lparr>lt_pos := (lt_pos s)[p := lt_pos s ! p + 1]\<rparr> else s)"

text \<open>A deadlock: somebody is not done and nobody can move.\<close>

definition deadlocked :: "lock_table \<Rightarrow> bool" where
  "deadlocked s \<longleftrightarrow> (\<exists>p<length (lt_tx s). unfinished s p) \<and> (\<forall>p<length (lt_tx s). \<not> grantable s p)"

definition begin_all :: "bank_tx list \<Rightarrow> lock_table" where
  "begin_all txs = \<lparr>lt_tx = txs, lt_pos = replicate (length txs) 0\<rparr>"

section \<open>Ordered programs cannot deadlock\<close>

definition ordered :: "bank_tx \<Rightarrow> bool" where
  "ordered tx \<longleftrightarrow> sorted_wrt (<) (map fst (lock_program tx))"

lemma ordered_execute: "f \<noteq> t \<Longrightarrow> ordered (ExecuteTransfer f t)"
  by (auto simp: ordered_def execution_order_def)

lemma held_below_next:
  assumes "ordered (lt_tx s ! p)" "lt_pos s ! p < length (program s p)" "y \<in> set (holds s p)"
  shows "fst y < fst (program s p ! (lt_pos s ! p))"
proof -
  let ?l = "program s p" and ?k = "lt_pos s ! p"
  obtain m where m: "m < ?k" "y = ?l ! m"
    using assms(2,3) by (auto simp: holds_def in_set_conv_nth split: if_splits)
  have "sorted_wrt (<) (map fst ?l)" using assms(1) by (simp add: ordered_def program_def)
  then have "map fst ?l ! m < map fst ?l ! ?k" using m assms(2) by (intro sorted_wrt_nth_less) auto
  then show ?thesis using m assms(2) by simp
qed

lemma no_deadlock:
  assumes "\<And>p. p < length (lt_tx s) \<Longrightarrow> ordered (lt_tx s ! p)"
  shows "\<not> deadlocked s"
proof
  assume d: "deadlocked s"
  define U where "U = {p. p < length (lt_tx s) \<and> unfinished s p}"
  define want where "want p = fst (program s p ! (lt_pos s ! p))" for p
  have fin: "finite U" and ne: "U \<noteq> {}" using d by (auto simp: U_def deadlocked_def)
  have waits: "lt_pos s ! p < length (program s p) \<and> (\<exists>q\<in>U. want p < want q)" if p: "p \<in> U" for p
  proof -
    have ng: "\<not> grantable s p" using p d by (simp add: U_def deadlocked_def)
    then obtain q y where q: "lt_pos s ! p < length (program s p)" "q < length (lt_tx s)" "y \<in> set (holds s q)"
      "conflict (program s p ! (lt_pos s ! p)) y" using p by (auto simp: grantable_def U_def)
    then have qU: "q \<in> U" by (auto simp: U_def holds_def split: if_splits)
    then have "\<not> grantable s q" using d by (simp add: U_def deadlocked_def)
    then have "lt_pos s ! q < length (program s q)" using qU by (auto simp: grantable_def U_def)
    from held_below_next [OF assms [OF q(2)] this q(3)] have "want p < want q"
      using q(4) by (simp add: want_def conflict_def)
    then show ?thesis using q(1) qU by blast
  qed
  have "Max (want ` U) \<in> want ` U" using fin ne by (intro Max_in) auto
  then obtain p where p: "p \<in> U" "want p = Max (want ` U)" by auto
  then obtain q where "q \<in> U" "want p < want q" using waits by blast
  moreover from this(1) have "want q \<le> Max (want ` U)" using fin by simp
  ultimately show False using p(2) by simp
qed

fun orderly :: "bank_tx \<Rightarrow> bool" where
  "orderly (ExecuteTransfer f t) = (f \<noteq> t)"
| "orderly (InsertPending _ _) = False"
| "orderly _ = True"

lemma orderly_ordered: "orderly tx \<Longrightarrow> ordered tx"
  by (cases tx) (auto simp: ordered_execute, auto simp: ordered_def)

lemma lock_step_tx [simp]: "lt_tx (lock_step p s) = lt_tx s"
  by (simp add: lock_step_def)

lemma fold_lock_step_tx [simp]: "lt_tx (fold lock_step ps s) = lt_tx s"
  by (induction ps arbitrary: s) auto

lemma all_less_2: "(\<forall>p<Suc (Suc 0). P p) \<longleftrightarrow> P 0 \<and> P 1" and ex_less_2: "(\<exists>p<Suc (Suc 0). P p) \<longleftrightarrow> P 0 \<or> P 1"
  by (auto simp: less_Suc_eq)

section \<open>Properties\<close>

text \<open>
  C18: executors and lock creations never deadlock each other, whatever their number and however they
  interleave: sorting the two account ids (with \<open>SELECT ... FOR UPDATE\<close> in that order) leaves
  somebody able to proceed in every state; inserting comments keeps that.
\<close>

theorem executors_never_deadlock:
  assumes "\<forall>tx\<in>set txs. orderly tx"
  shows "\<not> deadlocked (fold lock_step schedule (begin_all txs))"
proof (rule no_deadlock)
  fix p assume "p < length (lt_tx (fold lock_step schedule (begin_all txs)))"
  then have "txs ! p \<in> set txs" by (simp add: begin_all_def)
  then show "ordered (lt_tx (fold lock_step schedule (begin_all txs)) ! p)"
    using assms orderly_ordered by (simp add: begin_all_def)
qed

theorem executors_never_deadlock_witness:
  "\<not> deadlocked (fold lock_step [0, 1, 0, 1]
     (begin_all [ExecuteTransfer ''b'' ''a'', ExecuteTransfer ''a'' ''b'', CreateLockTx ''b'']))"
  by (rule executors_never_deadlock) simp

text \<open>
  the ordering does not cover the third kind of transaction. Accepting a transfer from \<open>b\<close> to
  \<open>a\<close> share-locks the two account rows in the order of the foreign keys (source, destination),
  not in id order, so it can deadlock with an executor that works on the same two accounts: the
  executor has locked \<open>a\<close> and waits for \<open>b\<close>, the insert has locked \<open>b\<close> and waits for \<open>a\<close>.
  PostgreSQL then aborts one of them (a 500 for the client or a failed job attempt).
\<close>

theorem submission_can_deadlock:
  "deadlocked (fold lock_step [0, 1] (begin_all [ExecuteTransfer ''a'' ''b'', InsertPending ''b'' ''a'']))"
  by (simp add: deadlocked_def begin_all_def lock_step_def grantable_def unfinished_def holds_def program_def
      execution_order_def conflict_def all_less_2 ex_less_2)

end
