(* ===== verification/Job_Queue.thy ===== *)
theory Job_Queue
  imports Bank_System
begin

text \<open>
  The transfers queue of \<open>packages/queue/src/transfers.ts\<close> between the banking API and the executor: job
  options, job ids, attempts. BullMQ is external: a record of functions with the laws its documentation
  gives. \<open>Bank_System\<close> lets any job that was ever added be delivered at any time; here a job is delivered
  as long as the queue has it, so that it can be said which transfers are decided at all.
\<close>

section \<open>What the code asks of BullMQ\<close>

record queue_options =
  qo_attempts :: nat
  qo_backoffDelayMs :: nat
  qo_removeOnComplete :: nat
  qo_removeOnFail :: nat

record worker_options =
  wo_queueName :: string
  wo_concurrency :: nat
  wo_autorun :: bool

definition transfersQueueName :: string where
  "transfersQueueName = ''transfers''"

definition createTransfersQueue :: "string option \<Rightarrow> string \<times> queue_options" where
  "createTransfersQueue queueName = (case queueName of None \<Rightarrow> transfersQueueName | Some name \<Rightarrow> name,
     \<lparr>qo_attempts = 5, qo_backoffDelayMs = 1000, qo_removeOnComplete = 1000, qo_removeOnFail = 5000\<rparr>)"

definition createTransfersWorker :: "string option \<Rightarrow> bool option \<Rightarrow> worker_options" where
  "createTransfersWorker queueName autorun = \<lparr>wo_queueName = (case queueName of None \<Rightarrow> transfersQueueName | Some name \<Rightarrow> name),
     wo_concurrency = 1, wo_autorun = (case autorun of None \<Rightarrow> True | Some b \<Rightarrow> b)\<rparr>"

abbreviation transfer_options :: queue_options where
  "transfer_options \<equiv> snd (createTransfersQueue None)"

section \<open>BullMQ\<close>

text \<open>A job as the queue holds it: waiting with the attempts made so far, or finished either way.\<close>

datatype job_view =
    Queued (view_data: uuid) nat
  | Succeeded (view_data: uuid)
  | Exhausted (view_data: uuid)

record 'q bullmq =
  bq_accepts :: "string \<Rightarrow> bool" \<comment> \<open>custom job ids \<open>add\<close> does not refuse\<close>
  bq_look :: "'q \<Rightarrow> string \<Rightarrow> job_view option"
  bq_add :: "queue_options \<Rightarrow> transfer_job \<Rightarrow> 'q \<Rightarrow> 'q"
  bq_settle :: "queue_options \<Rightarrow> string \<Rightarrow> bool \<Rightarrow> 'q \<Rightarrow> 'q" \<comment> \<open>the processor resolved or rejected\<close>
  bq_stall :: "queue_options \<Rightarrow> string \<Rightarrow> 'q \<Rightarrow> 'q" \<comment> \<open>the worker was lost during an attempt\<close>

definition attempt_failed :: "queue_options \<Rightarrow> uuid \<Rightarrow> nat \<Rightarrow> job_view" where
  "attempt_failed o' d n = (if Suc n < qo_attempts o' then Queued d (Suc n) else Exhausted d)"

text \<open>Other jobs are left alone, but finished ones may be removed to keep their number bounded.\<close>

definition kept_or_removed :: "job_view option \<Rightarrow> job_view option \<Rightarrow> bool" where
  "kept_or_removed v w \<longleftrightarrow> w = v \<or> (w = None \<and> (\<forall>d n. v \<noteq> Some (Queued d n)))"

definition bullmq_law :: "'q bullmq \<Rightarrow> bool" where
  "bullmq_law bq \<longleftrightarrow>
     (\<forall>o' job q i. bq_look bq (bq_add bq o' job q) i =
        (if i = job_id job \<and> bq_look bq q i = None then Some (Queued (job_transferId job) 0) else bq_look bq q i)) \<and>
     (\<forall>o' q i d n. bq_look bq q i = Some (Queued d n) \<longrightarrow>
        (0 < qo_removeOnComplete o' \<longrightarrow> bq_look bq (bq_settle bq o' i True q) i = Some (Succeeded d)) \<and>
        (0 < qo_removeOnFail o' \<longrightarrow> bq_look bq (bq_settle bq o' i False q) i = Some (attempt_failed o' d n) \<and>
          bq_look bq (bq_stall bq o' i q) i \<in> {Some (Queued d n), Some (Exhausted d)})) \<and>
     (\<forall>o' q i j b. i \<noteq> j \<longrightarrow> kept_or_removed (bq_look bq q j) (bq_look bq (bq_settle bq o' i b q) j) \<and>
        kept_or_removed (bq_look bq q j) (bq_look bq (bq_stall bq o' i q) j))"

lemma look_add:
  "bullmq_law bq \<Longrightarrow> bq_look bq (bq_add bq o' job q) i =
     (if i = job_id job \<and> bq_look bq q i = None then Some (Queued (job_transferId job) 0) else bq_look bq q i)"
  by (simp add: bullmq_law_def)

lemma look_settle:
  assumes "bullmq_law bq" "bq_look bq q i = Some (Queued d n)"
  shows "bq_look bq (bq_settle bq transfer_options i True q) i = Some (Succeeded d)"
    and "bq_look bq (bq_settle bq transfer_options i False q) i = Some (attempt_failed transfer_options d n)"
    and "bq_look bq (bq_stall bq transfer_options i q) i \<in> {Some (Queued d n), Some (Exhausted d)}"
  using assms by (simp_all add: bullmq_law_def createTransfersQueue_def)

lemma look_other:
  assumes "bullmq_law bq" "i \<noteq> j"
  shows "kept_or_removed (bq_look bq q j) (bq_look bq (bq_settle bq o' i b q) j)"
    and "kept_or_removed (bq_look bq q j) (bq_look bq (bq_stall bq o' i q) j)"
  using assms by (simp_all add: bullmq_law_def)

section \<open>The platform with its queue\<close>

record 'q platform =
  pf_bank :: bank_state
  pf_queue :: 'q

text \<open>
  \<open>TransferService.create\<close> against the queue: \<open>queue.add\<close> succeeds when Redis answers and the job id is
  accepted; either failure is a plain \<open>Error\<close>.
\<close>

definition submit :: "'q bullmq \<Rightarrow> (string \<Rightarrow> string) \<Rightarrow> bool \<Rightarrow> uuid \<Rightarrow> int \<Rightarrow> create_transfer_input \<Rightarrow>
    ('q platform, thrown, create_transfer_result) op" where
  "submit bq sha redis newId now input p =
     (case transfer_create sha (redis \<and> bq_accepts bq (ci_idempotencyKey input)) newId now input (pf_bank p) of
        (r, s) \<Rightarrow> (r, p\<lparr>pf_bank := s, pf_queue := (if bs_added s = bs_added (pf_bank p) then pf_queue p
            else bq_add bq transfer_options (last (bs_added s)) (pf_queue p))\<rparr>))"

text \<open>
  One attempt of the executor at a job: it runs; the database cannot be reached; or the process dies,
  before or after the commit.
\<close>

datatype attempt = Ran int | Unreachable | Died "int option"

definition attempt_job :: "'q bullmq \<Rightarrow> string \<Rightarrow> attempt \<Rightarrow> 'q platform \<Rightarrow> 'q platform option" where
  "attempt_job bq i a p = (case bq_look bq (pf_queue p) i of
       Some (Queued d n) \<Rightarrow> Some (case a of
           Ran now \<Rightarrow> (case on_db (process_job now d) (pf_bank p) of
               (r, s) \<Rightarrow> p\<lparr>pf_bank := s, pf_queue := bq_settle bq transfer_options i (r = Inr ()) (pf_queue p)\<rparr>)
         | Unreachable \<Rightarrow> p\<lparr>pf_queue := bq_settle bq transfer_options i False (pf_queue p)\<rparr>
         | Died committed \<Rightarrow> p\<lparr>pf_bank := (case committed of None \<Rightarrow> pf_bank p
               | Some now \<Rightarrow> snd (on_db (process_job now d) (pf_bank p))),
             pf_queue := bq_stall bq transfer_options i (pf_queue p)\<rparr>)
     | _ \<Rightarrow> None)"

datatype occurrence = Request command | Attempt string attempt

fun occur :: "'q bullmq \<Rightarrow> (string \<Rightarrow> string) \<Rightarrow> occurrence \<Rightarrow> 'q platform \<Rightarrow> 'q platform option" where
  "occur bq sha (Request (DeliverJob now job)) p = None"
| "occur bq sha (Request (SubmitTransfer redis i now input)) p =
     (if valid_command (SubmitTransfer redis i now input) then Some (snd (submit bq sha redis i now input p)) else None)"
| "occur bq sha (Request c) p =
     (if valid_command c then Some (p\<lparr>pf_bank := run_command sha c (pf_bank p)\<rparr>) else None)"
| "occur bq sha (Attempt i a) p = attempt_job bq i a p"

definition platform_step :: "'q bullmq \<Rightarrow> (string \<Rightarrow> string) \<Rightarrow> 'q platform \<Rightarrow> 'q platform \<Rightarrow> bool" where
  "platform_step bq sha p p' \<longleftrightarrow> (\<exists>e. occur bq sha e p = Some p')"

definition platform_init :: "'q bullmq \<Rightarrow> 'q platform \<Rightarrow> bool" where
  "platform_init bq p \<longleftrightarrow> initial_state (pf_bank p) \<and> (\<forall>i. bq_look bq (pf_queue p) i = None)"


section \<open>Every job is the job of its transfer\<close>

definition job_ok :: "'q bullmq \<Rightarrow> bank_state \<Rightarrow> string \<Rightarrow> job_view \<Rightarrow> bool" where
  "job_ok bq s i v \<longleftrightarrow> \<lparr>job_id = i, job_transferId = view_data v\<rparr> \<in> set (bs_added s) \<and> bq_accepts bq i \<and>
     (case v of Queued d n \<Rightarrow> n < 5
      | Succeeded d \<Rightarrow> \<exists>t\<in>set (transfers (bs_db s)). tr_id t = d \<and> tr_status t \<noteq> Pending
      | Exhausted d \<Rightarrow> True)"

definition platform_inv :: "'q bullmq \<Rightarrow> 'q platform \<Rightarrow> bool" where
  "platform_inv bq p \<longleftrightarrow> state_ok (pf_bank p) \<and> (\<forall>i v. bq_look bq (pf_queue p) i = Some v \<longrightarrow> job_ok bq (pf_bank p) i v)"

lemma platform_invD:
  assumes "platform_inv bq p"
  shows "state_ok (pf_bank p)" "bq_look bq (pf_queue p) i = Some v \<Longrightarrow> job_ok bq (pf_bank p) i v"
  using assms by (simp_all add: platform_inv_def)

lemma decided_kept:
  "history_kept db db' \<Longrightarrow> \<exists>t\<in>set (transfers db). tr_id t = d \<and> tr_status t \<noteq> Pending \<Longrightarrow>
     \<exists>t\<in>set (transfers db'). tr_id t = d \<and> tr_status t \<noteq> Pending"
  unfolding history_kept_def decided_from_def by metis

lemma job_ok_kept: "state_kept s s' \<Longrightarrow> job_ok bq s i v \<Longrightarrow> job_ok bq s' i v"
  unfolding job_ok_def state_kept_def
  by (elim conjE, intro conjI) (blast, assumption, cases v, simp, simp, elim decided_kept, simp_all)

lemma deliver_ok:
  assumes "state_ok s" "on_db (process_job now d) s = (r, s')"
  shows "state_ok s' \<and> state_kept s s'"
proof -
  have inv: "bank_inv (bs_db s)" using assms(1) by (simp add: state_ok_def)
  obtain db' where "process_job now d (bs_db s) = (r, db')" "s' = s\<lparr>bs_db := db'\<rparr>"
    using assms(2) by (auto simp: on_db_def split: prod.splits)
  then show ?thesis
    using on_db_step [OF assms(1), of "process_job now d"] process_job_ledger [OF inv] process_job_history [OF inv] assms(2)
    by simp
qed

text \<open>A job the processor resolves has decided its transfer.\<close>

lemma resolved_decides:
  assumes "bank_inv db" "process_job now d db = (Inr (), db')" "t \<in> set (transfers db)" "tr_id t = d"
  shows "\<exists>t'\<in>set (transfers db'). tr_id t' = d \<and> tr_status t' \<noteq> Pending"
proof -
  have ft: "find_transfer d db = Some t"
    using assms(1,3,4) by (auto simp: bank_inv_def find_transfer_def find_Some_iff in_set_conv_nth distinct_conv_nth)
  show ?thesis
  proof (cases "tr_status t = Pending")
    case False
    then show ?thesis using assms process_job_done [OF ft] by auto
  next
    case True
    obtain a b where "executable_transfer d db t a b" using bank_inv_executable assms(1) ft True by blast
    from process_job_settle [OF this True, of now] assms(2) have s: "settle now d t a b db = (Inr (), db')" by simp
    have m: "\<exists>t'\<in>set (transfers (set_row d g db2)). tr_id t' = d \<and> tr_status t' \<noteq> Pending"
      if "transfers db2 = transfers db" "tr_id (g t) = d" "tr_status (g t) \<noteq> Pending" for g db2
      using that assms(3,4) by (auto simp: set_row_def set_update_where)
    show ?thesis
      using s assms(4) m by (auto simp: settle_def add_balance_def fail_row_def complete_row_def split: verdict.splits)
  qed
qed

lemma queued_transfer:
  assumes "platform_inv bq p" "bq_look bq (pf_queue p) i = Some v"
  shows "\<exists>t\<in>set (transfers (bs_db (pf_bank p))). tr_id t = view_data v \<and> tr_idempotencyKey t = Some i"
  using platform_invD(1) [OF assms(1)] platform_invD(2) [OF assms]
  unfolding state_ok_def jobs_ok_def job_ok_def by (metis transfer_job.select_convs)


lemma key_unique:
  assumes "bank_inv db" "t \<in> set (transfers db)" "u \<in> set (transfers db)"
    and "tr_idempotencyKey t = Some k" "tr_idempotencyKey u = Some k"
  shows "t = u"
proof -
  have "distinct (List.map_filter tr_idempotencyKey ts) \<Longrightarrow> t \<in> set ts \<Longrightarrow> u \<in> set ts \<Longrightarrow> t = u" for ts
    using assms(4,5) by (induction ts) (force simp: List.map_filter_def image_iff split: option.splits if_splits)+
  then show ?thesis using assms(1-3) unfolding bank_inv_def keys_of_def by blast
qed

lemma find_key_unique:
  "bank_inv db \<Longrightarrow> t \<in> set (transfers db) \<Longrightarrow> tr_idempotencyKey t = Some k \<Longrightarrow> find_key k db = Some t"
proof -
  assume a: "bank_inv db" "t \<in> set (transfers db)" "tr_idempotencyKey t = Some k"
  then have "find_key k db \<noteq> None" by (auto simp: find_key_def find_None_iff)
  then obtain u where "find_key k db = Some u" by blast
  then show ?thesis using key_unique [OF a(1,2)] find_key_in a(3) by blast
qed

section \<open>The invariant\<close>

lemma platform_inv_init: "platform_init bq p \<Longrightarrow> platform_inv bq p"
  by (simp add: platform_init_def platform_inv_def initial_state_def state_ok_def jobs_ok_def bank_inv_empty)

lemma transfer_create_last:
  assumes "transfer_create sha up i now input s = (r, s')" "bs_added s' \<noteq> bs_added s"
  shows "up" "\<exists>d. bs_added s' = bs_added s @ [\<lparr>job_id = ci_idempotencyKey input, job_transferId = d\<rparr>]"
  using assms(2) transfer_create_added [OF assms(1)]
  subgoal
    using assms
    by (cases up) (auto simp: transfer_create_def op_bind_def on_db_def enqueueTransfer_def Let_def transfer_replay_def
      split: if_splits prod.splits sum.splits option.splits)
  subgoal using assms(2) transfer_create_added [OF assms(1)] by blast
  done

lemma submit_inv:
  assumes "bullmq_law bq" "platform_inv bq p" "ci_amountCents input \<le> MAX_SAFE_INTEGER"
    and "submit bq sha redis i now input p = (r, p')"
  shows "platform_inv bq p' \<and> state_kept (pf_bank p) (pf_bank p')"
proof -
  obtain s' where s: "transfer_create sha (redis \<and> bq_accepts bq (ci_idempotencyKey input)) i now input (pf_bank p) = (r, s')"
    "pf_bank p' = s'" "pf_queue p' = (if bs_added s' = bs_added (pf_bank p) then pf_queue p
            else bq_add bq transfer_options (last (bs_added s')) (pf_queue p))"
    using assms(4) by (auto simp: submit_def split: prod.splits)
  have k: "state_ok s' \<and> state_kept (pf_bank p) s'"
    by (rule transfer_create_step [OF platform_invD(1) [OF assms(2)] assms(3) s(1)])
  have old: "job_ok bq s' j v" if "bq_look bq (pf_queue p) j = Some v" for j v
    using job_ok_kept platform_invD(2) [OF assms(2) that] k by blast
  have "job_ok bq s' j v" if v: "bq_look bq (pf_queue p') j = Some v" for j v
  proof (cases "bs_added s' = bs_added (pf_bank p)")
    case True
    then show ?thesis using v s(3) old by simp
  next
    case False
    obtain d where d: "bs_added s' = bs_added (pf_bank p) @ [\<lparr>job_id = ci_idempotencyKey input, job_transferId = d\<rparr>]"
      using transfer_create_last(2) [OF s(1) False] by blast
    have "bq_accepts bq (ci_idempotencyKey input)" using transfer_create_last(1) [OF s(1) False] by blast
    then show ?thesis
      using v old unfolding s(3) by (auto simp: look_add [OF assms(1)] d job_ok_def split: if_splits)
  qed
  then show ?thesis using k s(2) by (simp add: platform_inv_def)
qed

lemma attempt_inv:
  assumes "bullmq_law bq" "platform_inv bq p" "attempt_job bq i a p = Some p'"
  shows "platform_inv bq p' \<and> state_kept (pf_bank p) (pf_bank p')"
proof -
  obtain d n where v: "bq_look bq (pf_queue p) i = Some (Queued d n)"
    using assms(3) by (auto simp: attempt_job_def split: option.splits job_view.splits)
  have ok: "state_ok (pf_bank p)" by (rule platform_invD(1) [OF assms(2)])
  have j: "job_ok bq (pf_bank p) i (Queued d n)" by (rule platform_invD(2) [OF assms(2) v])
  have rest: "job_ok bq s k w" if "state_kept (pf_bank p) s" "kept_or_removed (bq_look bq (pf_queue p) k) (Some w)" for s k w
    using that platform_invD(2) [OF assms(2)] job_ok_kept by (metis kept_or_removed_def option.distinct(1))
  have failed: "job_ok bq s i (attempt_failed transfer_options d n)" "job_ok bq s i (Queued d n)" "job_ok bq s i (Exhausted d)"
    if "state_kept (pf_bank p) s" for s
    using job_ok_kept [OF that j] by (auto simp: attempt_failed_def job_ok_def createTransfersQueue_def)
  have other: "platform_inv bq (p\<lparr>pf_bank := s, pf_queue := q\<rparr>)"
    if "state_ok s" "state_kept (pf_bank p) s" "\<And>w. bq_look bq q i = Some w \<Longrightarrow> job_ok bq s i w"
      "\<And>k. k \<noteq> i \<Longrightarrow> kept_or_removed (bq_look bq (pf_queue p) k) (bq_look bq q k)" for s q
    using that rest unfolding platform_inv_def by simp metis
  show ?thesis
  proof (cases a)
    case (Ran now)
    obtain r s where s: "on_db (process_job now d) (pf_bank p) = (r, s)" by fastforce
    have k: "state_ok s \<and> state_kept (pf_bank p) s" by (rule deliver_ok [OF ok s])
    have "job_ok bq s i w" if "bq_look bq (bq_settle bq transfer_options i (r = Inr ()) (pf_queue p)) i = Some w" for w
    proof (cases "r = Inr ()")
      case True
      then have w: "w = Succeeded d" using that look_settle(1) [OF assms(1) v] by simp
      obtain t where t: "t \<in> set (transfers (bs_db (pf_bank p)))" "tr_id t = d"
        using queued_transfer [OF assms(2) v] by auto
      have "\<exists>t'\<in>set (transfers (bs_db s)). tr_id t' = d \<and> tr_status t' \<noteq> Pending"
        using resolved_decides [OF _ _ t] ok s True by (auto simp: on_db_def state_ok_def split: prod.splits)
      then show ?thesis using job_ok_kept [OF conjunct2 [OF k] j] w by (simp add: job_ok_def)
    next
      case False
      then show ?thesis using that look_settle(2) [OF assms(1) v] failed k by simp
    qed
    then have "platform_inv bq (p\<lparr>pf_bank := s, pf_queue := bq_settle bq transfer_options i (r = Inr ()) (pf_queue p)\<rparr>)"
      using k look_other(1) [OF assms(1)] by (intro other) auto
    then show ?thesis using assms(3) v Ran s k by (auto simp: attempt_job_def)
  next
    case Unreachable
    have "state_kept (pf_bank p) (pf_bank p)" by (rule state_kept_refl)
    then have "platform_inv bq (p\<lparr>pf_bank := pf_bank p, pf_queue := bq_settle bq transfer_options i False (pf_queue p)\<rparr>)"
      using ok look_settle(2) [OF assms(1) v] look_other(1) [OF assms(1)] failed by (intro other) auto
    then show ?thesis using assms(3) v Unreachable by (auto simp: attempt_job_def state_kept_refl)
  next
    case (Died c)
    let ?s = "case c of None \<Rightarrow> pf_bank p | Some now \<Rightarrow> snd (on_db (process_job now d) (pf_bank p))"
    have k: "state_ok ?s \<and> state_kept (pf_bank p) ?s"
      using ok deliver_ok [OF ok] by (cases c) (simp_all add: state_kept_refl prod_eq_iff)
    have "platform_inv bq (p\<lparr>pf_bank := ?s, pf_queue := bq_stall bq transfer_options i (pf_queue p)\<rparr>)"
    proof (rule other)
      show "job_ok bq ?s i w" if "bq_look bq (bq_stall bq transfer_options i (pf_queue p)) i = Some w" for w
        using that look_settle(3) [OF assms(1) v] failed(2,3) [OF conjunct2 [OF k]] by auto
    qed (use k look_other(2) [OF assms(1)] in auto)
    then show ?thesis using assms(3) v Died k by (auto simp: attempt_job_def)
  qed
qed


lemma occur_inv:
  assumes "bullmq_law bq" "platform_inv bq p" "occur bq sha e p = Some p'"
  shows "platform_inv bq p' \<and> state_kept (pf_bank p) (pf_bank p')"
proof -
  have plain: ?thesis if c: "p' = p\<lparr>pf_bank := run_command sha c (pf_bank p)\<rparr>" "valid_command c" for c
  proof -
    have k: "state_ok (run_command sha c (pf_bank p))" "state_kept (pf_bank p) (run_command sha c (pf_bank p))"
      using run_command_ok [OF platform_invD(1) [OF assms(2)] c(2)] by blast+
    have "job_ok bq (run_command sha c (pf_bank p)) i v" if "bq_look bq (pf_queue p) i = Some v" for i v
      by (rule job_ok_kept [OF k(2) platform_invD(2) [OF assms(2) that]])
    then show ?thesis using c(1) k by (simp add: platform_inv_def)
  qed
  show ?thesis
  proof (cases e)
    case (Attempt i a)
    then show ?thesis using attempt_inv [OF assms(1,2)] assms(3) by simp
  next
    case (Request c)
    show ?thesis
    proof (cases c)
      case (SubmitTransfer redis i now input)
      then show ?thesis
        using submit_inv [OF assms(1,2), of input sha redis i now] assms(3) Request
        by (auto simp: positiveCents_def split: if_splits) (metis prod.collapse)+
    qed (use assms(3) Request plain [of c] in \<open>auto split: if_splits\<close>)
  qed
qed

interpretation queue_platform: step_system "platform_init bq" "\<lambda>p p'. bullmq_law bq \<and> platform_step bq sha p p'"
  "platform_inv bq" "\<lambda>p p'. state_kept (pf_bank p) (pf_bank p')" for bq sha
proof unfold_locales
  show "platform_inv bq p" if "platform_init bq p" for p using that by (rule platform_inv_init)
  show "platform_inv bq p'" if "platform_inv bq p" "bullmq_law bq \<and> platform_step bq sha p p'" for p p'
    using that occur_inv unfolding platform_step_def by blast
  show "state_kept (pf_bank p) (pf_bank p')" if "platform_inv bq p" "bullmq_law bq \<and> platform_step bq sha p p'" for p p'
    using that occur_inv unfolding platform_step_def by blast
qed (auto intro: state_kept_refl state_kept_trans)


section \<open>Which jobs touch a transfer\<close>

lemma deliver_other:
  assumes "bank_inv db" "t \<in> set (transfers db)" "tr_id t \<noteq> d"
  shows "t \<in> set (transfers (snd (process_job now d db)))"
proof (cases "find_transfer d db")
  case None
  then show ?thesis using assms(2) by (simp add: process_job_missing)
next
  case (Some x)
  show ?thesis
  proof (cases "tr_status x = Pending")
    case False
    then show ?thesis using assms(2) by (simp add: process_job_done [OF Some])
  next
    case True
    obtain a b where e: "executable_transfer d db x a b" using bank_inv_executable assms(1) Some True by blast
    have "t \<in> set (transfers (set_row d g db2))" if "transfers db2 = transfers db" for g db2
      using that assms(2,3) by (force simp: set_row_def set_update_where)
    then show ?thesis unfolding process_job_settle [OF e True] by (simp add: settle_def add_balance_def assms(2) split: verdict.splits)
  qed
qed

lemma own_job:
  assumes "platform_inv bq p" "bq_look bq (pf_queue p) i = Some v"
    and "t \<in> set (transfers (bs_db (pf_bank p)))" "tr_idempotencyKey t = Some k"
  shows "view_data v = tr_id t \<longleftrightarrow> i = k"
proof -
  have inv: "bank_inv (bs_db (pf_bank p))" using platform_invD(1) [OF assms(1)] by (simp add: state_ok_def)
  obtain u where u: "u \<in> set (transfers (bs_db (pf_bank p)))" "tr_id u = view_data v" "tr_idempotencyKey u = Some i"
    using queued_transfer [OF assms(1,2)] by blast
  have "distinct (map tr_id (transfers (bs_db (pf_bank p))))" using inv by (simp add: bank_inv_def)
  then have "tr_id u = tr_id t \<longleftrightarrow> u = t" using u(1) assms(3) by (metis inj_onD distinct_map)
  then show ?thesis using u assms(4) key_unique [OF inv assms(3) u(1), of k] by auto
qed

lemma request_keeps_rows:
  assumes "\<And>now job. c \<noteq> DeliverJob now job"
  shows "set (transfers (bs_db s)) \<subseteq> set (transfers (bs_db (run_command sha c s)))"
proof (cases c)
  case (SubmitTransfer redis i now input)
  then show ?thesis
    using transfer_create_cases [of sha redis i now input s "fst (transfer_create sha redis i now input s)" "snd (transfer_create sha redis i now input s)"]
    by auto
next
  case (OpenAccount i j now cu deposit)
  then show ?thesis
    by (auto simp: snd_on_db account_create_def transaction_def rollback_def op_bind_def insert_account_def
        insert_transfer_def Let_def split: option.splits if_splits)
next
  case (CreateCustomer i now name)
  then show ?thesis using customer_create_frame [of "bs_db s" i now name] by (simp add: snd_on_db ledger_frame_def)
next
  case (AddComment i now a body)
  then show ?thesis using comment_create_frame [of "bs_db s" i now a body] by (simp add: snd_on_db ledger_frame_def)
next
  case (CreateLock i now a reason)
  then show ?thesis using lock_create_frame [of "bs_db s" i now a reason] by (simp add: snd_on_db ledger_frame_def)
next
  case (ReleaseLock now a l)
  then show ?thesis using lock_release_frame [of "bs_db s" now a l] by (simp add: snd_on_db ledger_frame_def)
qed (use assms in simp)

lemma submit_bank: "pf_bank (snd (submit bq sha redis i now input p)) =
    run_command sha (SubmitTransfer (redis \<and> bq_accepts bq (ci_idempotencyKey input)) i now input) (pf_bank p)"
  by (simp add: submit_def split: prod.splits)

text \<open>A transfer whose job is not waiting is not touched.\<close>

lemma untouched:
  assumes "platform_inv bq p" "occur bq sha e p = Some p'"
    and "t \<in> set (transfers (bs_db (pf_bank p)))" "tr_idempotencyKey t = Some k"
    and "\<And>d n. bq_look bq (pf_queue p) k \<noteq> Some (Queued d n)"
  shows "t \<in> set (transfers (bs_db (pf_bank p')))"
proof (cases e)
  case (Request c)
  then have c: "\<And>now job. c \<noteq> DeliverJob now job" using assms(2) by auto
  have kept: "t \<in> set (transfers (bs_db (run_command sha c (pf_bank p))))"
    using request_keeps_rows [OF c] assms(3) by blast
  show ?thesis
  proof (cases c)
    case (SubmitTransfer redis i now input)
    then have "p' = snd (submit bq sha redis i now input p)" using assms(2) Request by (simp split: if_splits)
    then have "pf_bank p' = run_command sha (SubmitTransfer (redis \<and> bq_accepts bq (ci_idempotencyKey input)) i now input) (pf_bank p)"
      by (simp only: submit_bank)
    then show ?thesis using request_keeps_rows assms(3) by (metis command.distinct(41) subsetD)
  qed (use assms(2) Request kept c in \<open>auto split: if_splits\<close>)
next
  case (Attempt i a)
  then obtain d n where v: "bq_look bq (pf_queue p) i = Some (Queued d n)"
    using assms(2) by (auto simp: attempt_job_def split: option.splits job_view.splits)
  then have "d \<noteq> tr_id t" using own_job [OF assms(1) v assms(3,4)] assms(5) by auto
  moreover have "bank_inv (bs_db (pf_bank p))" using platform_invD(1) [OF assms(1)] by (simp add: state_ok_def)
  ultimately have "t \<in> set (transfers (bs_db (snd (on_db (process_job now d) (pf_bank p)))))" for now
    using deliver_other assms(3) by (simp add: snd_on_db)
  then show ?thesis
    using assms(2,3) Attempt v by (auto simp: attempt_job_def split: attempt.splits prod.splits option.splits) (metis snd_conv)+
qed


section \<open>Attempts in a row\<close>

primrec attempt_all :: "'q bullmq \<Rightarrow> string \<Rightarrow> attempt list \<Rightarrow> 'q platform \<Rightarrow> 'q platform option" where
  "attempt_all bq i [] p = Some p"
| "attempt_all bq i (a # as) p = (case attempt_job bq i a p of None \<Rightarrow> None | Some p' \<Rightarrow> attempt_all bq i as p')"

definition decided_in :: "'q platform \<Rightarrow> uuid \<Rightarrow> bool" where
  "decided_in p d \<longleftrightarrow> (\<exists>t\<in>set (transfers (bs_db (pf_bank p))). tr_id t = d \<and> tr_status t \<noteq> Pending)"

definition same_request :: "(string \<Rightarrow> string) \<Rightarrow> create_transfer_input \<Rightarrow> transfer_row \<Rightarrow> bool" where
  "same_request sha input t \<longleftrightarrow> tr_idempotencyKey t = Some (ci_idempotencyKey input) \<and>
     tr_requestHash t = Some (hashRequest sha input)"

lemma ran_decides:
  assumes "bullmq_law bq" "platform_inv bq p" "bq_look bq (pf_queue p) i = Some (Queued d n)"
    and "fst (process_job now d (bs_db (pf_bank p))) = Inr ()"
  shows "\<exists>p'. attempt_job bq i (Ran now) p = Some p' \<and> decided_in p' d \<and> bq_look bq (pf_queue p') i = Some (Succeeded d)"
proof -
  obtain db' where run: "process_job now d (bs_db (pf_bank p)) = (Inr (), db')" using assms(4) by (cases "process_job now d (bs_db (pf_bank p))") simp
  obtain t where t: "t \<in> set (transfers (bs_db (pf_bank p)))" "tr_id t = d" using queued_transfer [OF assms(2,3)] by auto
  have "bank_inv (bs_db (pf_bank p))" using platform_invD(1) [OF assms(2)] by (simp add: state_ok_def)
  from resolved_decides [OF this run t] show ?thesis
    using look_settle(1) [OF assms(1,3)] assms(3) run by (simp add: attempt_job_def on_db_def decided_in_def)
qed

lemma attempt_all_append:
  "attempt_all bq i (as @ bs) p = (case attempt_all bq i as p of None \<Rightarrow> None | Some q \<Rightarrow> attempt_all bq i bs q)"
  by (induction as arbitrary: p) (auto split: option.splits)

lemma attempts_unreachable:
  assumes "bullmq_law bq"
  shows "platform_inv bq p \<Longrightarrow> bq_look bq (pf_queue p) i = Some (Queued d n) \<Longrightarrow> n + f < 5 \<Longrightarrow>
    \<exists>q. attempt_all bq i (replicate f Unreachable) p = Some q \<and> platform_inv bq q \<and> pf_bank q = pf_bank p \<and>
      bq_look bq (pf_queue q) i = Some (Queued d (n + f))"
proof (induction f arbitrary: p n)
  case (Suc f)
  let ?p = "p\<lparr>pf_queue := bq_settle bq transfer_options i False (pf_queue p)\<rparr>"
  have a: "attempt_job bq i Unreachable p = Some ?p" using Suc.prems(2) by (simp add: attempt_job_def)
  have "bq_look bq (pf_queue ?p) i = Some (Queued d (Suc n))"
    using look_settle(2) [OF assms Suc.prems(2)] Suc.prems(3) by (simp add: attempt_failed_def createTransfersQueue_def)
  moreover have "platform_inv bq ?p" using attempt_inv [OF assms Suc.prems(1) a] by blast
  ultimately show ?case using Suc.IH [of ?p "Suc n"] Suc.prems(3) a by simp
qed simp

text \<open>The credit of a transfer does not fit the column any more.\<close>

definition credit_overflows :: "transfer_row \<Rightarrow> bank_db \<Rightarrow> bool" where
  "credit_overflows t db \<longleftrightarrow> (\<exists>b\<in>set (accounts db). ac_id b = tr_toAccountId t \<and> BIGINT_MAX < ac_balanceCents b + tr_amountCents t)"

lemma pending_outcome:
  assumes "bank_inv db" "t \<in> set (transfers db)" "tr_status t = Pending"
  shows "fst (process_job now (tr_id t) db) = Inr () \<or>
    process_job now (tr_id t) db = (Inl (DbErr NumericOutOfRange), db) \<and> credit_overflows t db"
proof -
  have ft: "find_transfer (tr_id t) db = Some t"
    using assms(1,2) by (auto simp: bank_inv_def find_transfer_def find_Some_iff in_set_conv_nth distinct_conv_nth)
  obtain a b where e: "executable_transfer (tr_id t) db t a b" using bank_inv_executable assms(1) ft assms(3) by blast
  then have "b \<in> set (accounts db)" "ac_id b = tr_toAccountId t"
    using find_account_id by (auto simp: executable_transfer_def)
  then show ?thesis using process_job_settle [OF e assms(3)]
    by (auto simp: settle_def credit_overflows_def verdict_of_def split: verdict.splits if_splits)
qed

lemma pending_attempt:
  assumes "bullmq_law bq" "platform_inv bq p" "bq_look bq (pf_queue p) i = Some (Queued (tr_id t) n)" "n < 5"
    and "t \<in> set (transfers (bs_db (pf_bank p)))" "tr_status t = Pending"
  shows "\<exists>p'. attempt_job bq i (Ran now) p = Some p' \<and>
    (decided_in p' (tr_id t) \<and> bq_look bq (pf_queue p') i = Some (Succeeded (tr_id t)) \<or>
     credit_overflows t (bs_db (pf_bank p)) \<and> t \<in> set (transfers (bs_db (pf_bank p'))) \<and>
       bq_look bq (pf_queue p') i = Some (if n < 4 then Queued (tr_id t) (Suc n) else Exhausted (tr_id t)))"
proof -
  have "bank_inv (bs_db (pf_bank p))" using platform_invD(1) [OF assms(2)] by (simp add: state_ok_def)
  from pending_outcome [OF this assms(5,6), of now] show ?thesis
  proof
    assume "fst (process_job now (tr_id t) (bs_db (pf_bank p))) = Inr ()"
    from ran_decides [OF assms(1-3) this] show ?thesis by blast
  next
    assume "process_job now (tr_id t) (bs_db (pf_bank p)) = (Inl (DbErr NumericOutOfRange), bs_db (pf_bank p)) \<and>
      credit_overflows t (bs_db (pf_bank p))"
    then show ?thesis using assms(3,5) look_settle(2) [OF assms(1,3)]
      by (simp add: attempt_job_def on_db_def attempt_failed_def createTransfersQueue_def)
  qed
qed

lemma resubmission:
  assumes "platform_inv bq p" "t \<in> set (transfers (bs_db (pf_bank p)))" "tr_status t = Pending"
    and "same_request sha input t" "transfer_inputs_ok input (bs_db (pf_bank p))"
  shows "submit bq sha redis i now input p =
    (let s = (pf_bank p)\<lparr>bs_db := (bs_db (pf_bank p))\<lparr>seq_transfers := seq_transfers (bs_db (pf_bank p)) + 1\<rparr>\<rparr>;
         job = \<lparr>job_id = ci_idempotencyKey input, job_transferId = tr_id t\<rparr> in
     if redis \<and> bq_accepts bq (ci_idempotencyKey input)
     then (Inr \<lparr>cr_transfer = read_transfer t, cr_created = False\<rparr>, p\<lparr>pf_bank := s\<lparr>bs_added := bs_added s @ [job]\<rparr>,
         pf_queue := bq_add bq transfer_options job (pf_queue p)\<rparr>)
     else (Inl (PlainErr ''redis connection''), p\<lparr>pf_bank := s\<rparr>))"
proof -
  have "bank_inv (bs_db (pf_bank p))" using platform_invD(1) [OF assms(1)] by (simp add: state_ok_def)
  then have k: "find_key (ci_idempotencyKey input) (bs_db (pf_bank p)) = Some t"
    using find_key_unique assms(2,4) by (auto simp: same_request_def)
  then have c: "transfer_create sha up i now input (pf_bank p) =
      transfer_replay up (ci_idempotencyKey input) (hashRequest sha input)
        ((pf_bank p)\<lparr>bs_db := (bs_db (pf_bank p))\<lparr>seq_transfers := seq_transfers (bs_db (pf_bank p)) + 1\<rparr>\<rparr>)" for up
    using transfer_create_known_key [OF assms(5)] by simp
  have "find_key k (db\<lparr>seq_transfers := n\<rparr>) = find_key k db" for k db n by (simp add: find_key_def)
  then show ?thesis
    using k assms(3,4) by (simp add: submit_def c transfer_replay_def read_transfer_def Let_def op_bind_def enqueueTransfer_def
        same_request_def)
qed

lemma platform_run:
  "bullmq_law bq \<Longrightarrow> (platform_step bq sha)\<^sup>*\<^sup>* p p' \<Longrightarrow> (\<lambda>p p'. bullmq_law bq \<and> platform_step bq sha p p')\<^sup>*\<^sup>* p p'"
  by (erule rtranclp_mono [THEN predicate2D, rotated]) blast

section \<open>Properties\<close>

text \<open>What a client sees who repeats the request of \<open>t\<close>, and the job under its key afterwards.\<close>

definition repeated :: "'q bullmq \<Rightarrow> (string \<Rightarrow> string) \<Rightarrow> transfer_row \<Rightarrow> 'q platform \<Rightarrow> (thrown + create_transfer_result) \<Rightarrow> job_view option \<Rightarrow> bool" where
  "repeated bq sha t p answer job \<longleftrightarrow> (\<forall>input i now. same_request sha input t \<and> transfer_inputs_ok input (bs_db (pf_bank p)) \<longrightarrow>
     (case submit bq sha True i now input p of (r, p') \<Rightarrow> r = answer \<and> bq_look bq (pf_queue p') (ci_idempotencyKey input) = job \<and>
       t \<in> set (transfers (bs_db (pf_bank p')))))"

lemma repeatedI:
  assumes "bullmq_law bq" "platform_inv bq p" "t \<in> set (transfers (bs_db (pf_bank p)))" "tr_status t = Pending" "tr_idempotencyKey t = Some k"
  shows "repeated bq sha t p (if bq_accepts bq k then Inr \<lparr>cr_transfer = read_transfer t, cr_created = False\<rparr> else Inl (PlainErr ''redis connection''))
    (if bq_accepts bq k \<and> bq_look bq (pf_queue p) k = None then Some (Queued (tr_id t) 0) else bq_look bq (pf_queue p) k)"
  using resubmission [OF assms(2-4), of sha _ True] assms(3,5)
  by (auto simp: repeated_def Let_def same_request_def look_add [OF assms(1)])

text \<open>
  C8: where a pending transfer stands, in every reachable state. If its job waits under its key, it has attempts left,
  and after any number of attempts for which the database cannot be reached, fewer than the five allowed, the next one
  that runs either decides the transfer and completes the job or, only if the credit would not fit the column, leaves
  the row and counts as failed. If the job is in the queue's list of failed jobs (five attempts failed, or the worker was
  lost too often), repeating the request is answered with the pending transfer and queues nothing. If the queue has no
  job under the key, repeating the request queues it, provided that the queue takes the key as a job id; otherwise
  the request fails every time. A job that succeeded has always decided its transfer.
\<close>

theorem pending_transfer_prospects:
  assumes "bullmq_law bq" "platform_init bq p0" "(platform_step bq sha)\<^sup>*\<^sup>* p0 p"
    and "t \<in> set (transfers (bs_db (pf_bank p)))" "tr_status t = Pending" "tr_idempotencyKey t = Some k"
  shows "case bq_look bq (pf_queue p) k of
      Some (Queued d n) \<Rightarrow> d = tr_id t \<and> n < 5 \<and> bq_accepts bq k \<and> (\<forall>f now. n + f < 5 \<longrightarrow>
        (\<exists>p'. attempt_all bq k (replicate f Unreachable @ [Ran now]) p = Some p' \<and>
          (decided_in p' d \<and> bq_look bq (pf_queue p') k = Some (Succeeded d) \<or>
           credit_overflows t (bs_db (pf_bank p)) \<and> t \<in> set (transfers (bs_db (pf_bank p'))) \<and>
             bq_look bq (pf_queue p') k = Some (if n + f < 4 then Queued d (Suc (n + f)) else Exhausted d))))
    | Some (Succeeded d) \<Rightarrow> False
    | Some (Exhausted d) \<Rightarrow> d = tr_id t \<and> bq_accepts bq k \<and>
        repeated bq sha t p (Inr \<lparr>cr_transfer = read_transfer t, cr_created = False\<rparr>) (Some (Exhausted d))
    | None \<Rightarrow> if bq_accepts bq k
        then repeated bq sha t p (Inr \<lparr>cr_transfer = read_transfer t, cr_created = False\<rparr>) (Some (Queued (tr_id t) 0))
        else repeated bq sha t p (Inl (PlainErr ''redis connection'')) None"
proof -
  have inv: "platform_inv bq p" by (rule queue_platform.reachable_inv [OF assms(2) platform_run [OF assms(1,3)]])
  then have bank: "bank_inv (bs_db (pf_bank p))" using platform_invD(1) by (auto simp: state_ok_def)
  note rep = repeatedI [OF assms(1) inv assms(4-6), of sha]
  show ?thesis
  proof (cases "bq_look bq (pf_queue p) k")
    case None
    then show ?thesis using rep by (simp split: if_splits)
  next
    case (Some v)
    have d: "view_data v = tr_id t" using own_job [OF inv Some assms(4,6)] by simp
    note j = platform_invD(2) [OF inv Some]
    then have acc: "bq_accepts bq k" by (simp add: job_ok_def)
    show ?thesis
    proof (cases v)
      case (Queued d' n)
      then have v: "bq_look bq (pf_queue p) k = Some (Queued (tr_id t) n)" using Some d by simp
      have "\<exists>p'. attempt_all bq k (replicate f Unreachable @ [Ran now]) p = Some p' \<and>
          (decided_in p' (tr_id t) \<and> bq_look bq (pf_queue p') k = Some (Succeeded (tr_id t)) \<or>
           credit_overflows t (bs_db (pf_bank p)) \<and> t \<in> set (transfers (bs_db (pf_bank p'))) \<and>
             bq_look bq (pf_queue p') k = Some (if n + f < 4 then Queued (tr_id t) (Suc (n + f)) else Exhausted (tr_id t)))"
        if nf: "n + f < 5" for f now
      proof -
        obtain q where q: "attempt_all bq k (replicate f Unreachable) p = Some q" "platform_inv bq q" "pf_bank q = pf_bank p"
            "bq_look bq (pf_queue q) k = Some (Queued (tr_id t) (n + f))"
          using attempts_unreachable [OF assms(1) inv v nf] by blast
        obtain p' where "attempt_job bq k (Ran now) q = Some p'" "decided_in p' (tr_id t) \<and> bq_look bq (pf_queue p') k = Some (Succeeded (tr_id t)) \<or>
           credit_overflows t (bs_db (pf_bank p)) \<and> t \<in> set (transfers (bs_db (pf_bank p'))) \<and>
             bq_look bq (pf_queue p') k = Some (if n + f < 4 then Queued (tr_id t) (Suc (n + f)) else Exhausted (tr_id t))"
          using pending_attempt [OF assms(1) q(2,4) nf, unfolded q(3), OF assms(4,5), of now] by blast
        then show ?thesis by (intro exI [of _ p']) (simp add: attempt_all_append q(1))
      qed
      moreover have "n < 5" using j Queued by (simp add: job_ok_def)
      ultimately show ?thesis using v acc by simp
    next
      case (Succeeded d')
      then obtain u where u: "u \<in> set (transfers (bs_db (pf_bank p)))" "tr_id u = tr_id t" "tr_status u \<noteq> Pending"
        using j d by (auto simp: job_ok_def)
      have "u = t" using u(1,2) assms(4) bank by (metis bank_inv_def distinct_map inj_onD)
      then show ?thesis using u assms(5) by simp
    next
      case (Exhausted d')
      then show ?thesis using Some d rep acc by simp
    qed
  qed
qed

definition stranded :: "'q bullmq \<Rightarrow> string \<Rightarrow> 'q platform \<Rightarrow> bool" where
  "stranded bq k p \<longleftrightarrow> \<not> bq_accepts bq k \<or> (\<exists>d. bq_look bq (pf_queue p) k = Some (Exhausted d))"

text \<open>A failed job is only ever removed.\<close>

lemma failed_job_stays:
  assumes "bullmq_law bq" "occur bq sha e p = Some p'" "bq_look bq (pf_queue p) k = Some (Exhausted d)"
  shows "bq_look bq (pf_queue p') k \<in> {Some (Exhausted d), None}"
proof (cases e)
  case (Request c)
  show ?thesis
  proof (cases c)
    case (SubmitTransfer redis i now input)
    then show ?thesis using assms(2,3) Request
      by (auto simp: submit_def look_add [OF assms(1)] split: if_splits prod.splits)
  qed (use assms(2,3) Request in \<open>auto split: if_splits\<close>)
next
  case (Attempt i a)
  then obtain d' n where v: "bq_look bq (pf_queue p) i = Some (Queued d' n)"
    using assms(2) by (auto simp: attempt_job_def split: option.splits job_view.splits)
  then have "i \<noteq> k" using assms(3) by auto
  from look_other [OF assms(1) this, of "pf_queue p" transfer_options]
  have other: "bq_look bq (bq_settle bq transfer_options i b (pf_queue p)) k \<in> {Some (Exhausted d), None}"
    "bq_look bq (bq_stall bq transfer_options i (pf_queue p)) k \<in> {Some (Exhausted d), None}" for b
    using assms(3) unfolding kept_or_removed_def by simp_all
  have "(\<exists>b. pf_queue p' = bq_settle bq transfer_options i b (pf_queue p)) \<or> pf_queue p' = bq_stall bq transfer_options i (pf_queue p)"
    using assms(2) Attempt v by (auto simp: attempt_job_def split: attempt.splits prod.splits)
  then show ?thesis using other by metis
qed

text \<open>
  C9: what strands a transfer: a job among the failed ones, or an idempotency key that BullMQ does not accept as a job
  id. Whatever requests, deliveries, outages and crashes follow, a transfer whose key is refused stays pending and
  unchanged for ever, and repeating its request fails. One whose job has failed stays pending and unchanged until the
  queue evicts the failed job to keep their number bounded; until then, repeating the request is answered with the
  pending transfer and queues nothing, and only after the eviction can it queue the transfer again.
\<close>

theorem stranded_until_evicted:
  assumes "bullmq_law bq" "platform_init bq p0" "(platform_step bq sha)\<^sup>*\<^sup>* p0 p"
    and "t \<in> set (transfers (bs_db (pf_bank p)))" "tr_status t = Pending" "tr_idempotencyKey t = Some k"
    and "stranded bq k p" "(platform_step bq sha)\<^sup>*\<^sup>* p p'"
  shows "(t \<in> set (transfers (bs_db (pf_bank p'))) \<and> stranded bq k p' \<and>
      repeated bq sha t p' (if bq_accepts bq k then Inr \<lparr>cr_transfer = read_transfer t, cr_created = False\<rparr>
        else Inl (PlainErr ''redis connection'')) (bq_look bq (pf_queue p') k)) \<or>
    (bq_accepts bq k \<and> (\<exists>q. (platform_step bq sha)\<^sup>*\<^sup>* p q \<and> (platform_step bq sha)\<^sup>*\<^sup>* q p' \<and>
      t \<in> set (transfers (bs_db (pf_bank q))) \<and> bq_look bq (pf_queue q) k = None \<and>
      repeated bq sha t q (Inr \<lparr>cr_transfer = read_transfer t, cr_created = False\<rparr>) (Some (Queued (tr_id t) 0))))"
proof -
  have inv0: "platform_inv bq p" by (rule queue_platform.reachable_inv [OF assms(2) platform_run [OF assms(1,3)]])
  let ?left = "\<lambda>x. bq_accepts bq k \<and> (\<exists>q. (platform_step bq sha)\<^sup>*\<^sup>* p q \<and> (platform_step bq sha)\<^sup>*\<^sup>* q x \<and>
      t \<in> set (transfers (bs_db (pf_bank q))) \<and> bq_look bq (pf_queue q) k = None \<and> platform_inv bq q)"
  have run: "platform_inv bq p' \<and> (t \<in> set (transfers (bs_db (pf_bank p'))) \<and> stranded bq k p' \<or> ?left p')"
    using assms(8)
  proof (induction rule: rtranclp_induct)
    case base
    then show ?case using inv0 assms(4,7) by blast
  next
    case (step x y)
    then obtain e where e: "occur bq sha e x = Some y" by (auto simp: platform_step_def)
    have invs: "platform_inv bq x" "platform_inv bq y" using step.IH occur_inv [OF assms(1) _ e] by blast+
    show ?case
    proof (cases "?left x")
      case True
      then show ?thesis using invs(2) step.hyps(2) by (meson rtranclp.rtrancl_into_rtrancl)
    next
      case False
      then have x: "t \<in> set (transfers (bs_db (pf_bank x)))" "stranded bq k x" using step.IH by blast+
      have "bq_look bq (pf_queue x) k \<noteq> Some (Queued d n)" for d n
        using x(2) platform_invD(2) [OF invs(1), of k "Queued d n"] by (auto simp: stranded_def job_ok_def)
      from untouched [OF invs(1) e x(1) assms(6) this] have t: "t \<in> set (transfers (bs_db (pf_bank y)))" .
      show ?thesis
      proof (cases "stranded bq k y")
        case True
        then show ?thesis using t invs(2) by blast
      next
        case False
        then have "bq_accepts bq k" "bq_look bq (pf_queue y) k = None"
          using x(2) failed_job_stays [OF assms(1) e] by (auto simp: stranded_def)
        then show ?thesis using t invs(2) step.hyps by (meson rtranclp.rtrancl_into_rtrancl rtranclp.rtrancl_refl)
      qed
    qed
  qed
  have rep: "repeated bq sha t q (if bq_accepts bq k then Inr \<lparr>cr_transfer = read_transfer t, cr_created = False\<rparr> else Inl (PlainErr ''redis connection''))
      (if bq_accepts bq k \<and> bq_look bq (pf_queue q) k = None then Some (Queued (tr_id t) 0) else bq_look bq (pf_queue q) k)"
    if "platform_inv bq q" "t \<in> set (transfers (bs_db (pf_bank q)))" for q
    by (rule repeatedI [OF assms(1) that assms(5,6)])
  from run show ?thesis
  proof (elim conjE disjE)
    assume "platform_inv bq p'" "t \<in> set (transfers (bs_db (pf_bank p')))" "stranded bq k p'"
    then show ?thesis using rep [of p'] by (auto simp: stranded_def)
  next
    assume acc: "bq_accepts bq k"
    assume "\<exists>q. (platform_step bq sha)\<^sup>*\<^sup>* p q \<and> (platform_step bq sha)\<^sup>*\<^sup>* q p' \<and>
      t \<in> set (transfers (bs_db (pf_bank q))) \<and> bq_look bq (pf_queue q) k = None \<and> platform_inv bq q"
    then obtain q where "(platform_step bq sha)\<^sup>*\<^sup>* p q" "(platform_step bq sha)\<^sup>*\<^sup>* q p'"
      "t \<in> set (transfers (bs_db (pf_bank q)))" "bq_look bq (pf_queue q) k = None" "platform_inv bq q" by blast
    then show ?thesis using rep [of q] acc by (intro disjI2 conjI exI [of _ q]) simp_all
  qed
qed

section \<open>Witnesses\<close>

text \<open>A queue that keeps every finished job.\<close>

definition toy_queue :: "(string \<Rightarrow> job_view option) bullmq" where
  "toy_queue = \<lparr>bq_accepts = (\<lambda>i. i \<noteq> ''42''), bq_look = (\<lambda>q i. q i),
     bq_add = (\<lambda>o' job q. if q (job_id job) = None then q(job_id job \<mapsto> Queued (job_transferId job) 0) else q),
     bq_settle = (\<lambda>o' i b q. case q i of Some (Queued d n) \<Rightarrow> q(i \<mapsto> (if b then Succeeded d else attempt_failed o' d n)) | _ \<Rightarrow> q),
     bq_stall = (\<lambda>o' i q. q)\<rparr>"

lemma toy_queue_law: "bullmq_law toy_queue"
  by (auto simp: bullmq_law_def toy_queue_def kept_or_removed_def split: option.splits job_view.splits)

definition toy_start :: "(string \<Rightarrow> job_view option) platform" where
  "toy_start = \<lparr>pf_bank = start, pf_queue = (\<lambda>_. None)\<rparr>"

fun occur_all :: "'q bullmq \<Rightarrow> (string \<Rightarrow> string) \<Rightarrow> occurrence list \<Rightarrow> 'q platform \<Rightarrow> 'q platform option" where
  "occur_all bq sha [] p = Some p"
| "occur_all bq sha (e # es) p = (case occur bq sha e p of None \<Rightarrow> None | Some p' \<Rightarrow> occur_all bq sha es p')"

lemma occur_all_run: "occur_all bq sha es p = Some p' \<Longrightarrow> (platform_step bq sha)\<^sup>*\<^sup>* p p'"
proof (induction es arbitrary: p)
  case (Cons e es)
  then obtain p1 where "occur bq sha e p = Some p1" "(platform_step bq sha)\<^sup>*\<^sup>* p1 p'"
    by (auto split: option.splits)
  then show ?case by (meson platform_step_def converse_rtranclp_into_rtranclp)
qed simp

definition two_requests :: "string \<Rightarrow> occurrence list" where
  "two_requests k = map Request [CreateCustomer ''c'' 1 ''Ada'', OpenAccount ''a'' ''d1'' 2 ''c'' 100,
     OpenAccount ''b'' ''d2'' 3 ''c'' 0, SubmitTransfer True ''t1'' 4 (demo_input k 70)]"

definition after_requests :: "string \<Rightarrow> (string \<Rightarrow> job_view option) platform" where
  "after_requests k = the (occur_all toy_queue (\<lambda>x. x) (two_requests k) toy_start)"

lemma after_requests_run:
  "occur_all toy_queue (\<lambda>x. x) (two_requests k) toy_start \<noteq> None \<Longrightarrow>
     (platform_step toy_queue (\<lambda>x. x))\<^sup>*\<^sup>* toy_start (after_requests k)"
  unfolding after_requests_def by (auto intro: occur_all_run)

lemma toy_init: "platform_init toy_queue toy_start"
  by (simp add: platform_init_def toy_start_def start_initial toy_queue_def)

lemma two_requests_run: "occur_all toy_queue (\<lambda>x. x) (two_requests ''k1'') toy_start \<noteq> None"
  "occur_all toy_queue (\<lambda>x. x) (two_requests ''42'') toy_start \<noteq> None"
  by code_simp+

lemma two_requests_transfer:
  "\<exists>t\<in>set (transfers (bs_db (pf_bank (after_requests ''k1'')))). tr_status t = Pending \<and> tr_idempotencyKey t = Some ''k1'' \<and> tr_id t = ''t1''"
  "\<exists>t\<in>set (transfers (bs_db (pf_bank (after_requests ''42'')))). tr_status t = Pending \<and> tr_idempotencyKey t = Some ''42'' \<and> tr_id t = ''t1''"
  by code_simp+

lemma two_requests_job:
  "pf_queue (after_requests ''k1'') ''k1'' = Some (Queued ''t1'' 0)"
  "fst (process_job 10 ''t1'' (bs_db (pf_bank (after_requests ''k1'')))) = Inr ()"
  by code_simp+

theorem pending_transfer_prospects_witness:
  "\<exists>p'. attempt_all toy_queue ''k1'' (replicate 4 Unreachable @ [Ran 10]) (after_requests ''k1'') = Some p' \<and> decided_in p' ''t1''"
proof -
  obtain t where t: "t \<in> set (transfers (bs_db (pf_bank (after_requests ''k1''))))" "tr_status t = Pending"
    "tr_idempotencyKey t = Some ''k1''" "tr_id t = ''t1''" using two_requests_transfer(1) by blast
  have look: "bq_look toy_queue q i = q i" for q i by (simp add: toy_queue_def)
  have fits: "\<forall>t\<in>set (transfers (bs_db (pf_bank (after_requests ''k1'')))). tr_id t = ''t1'' \<longrightarrow>
      \<not> credit_overflows t (bs_db (pf_bank (after_requests ''k1'')))"
    unfolding credit_overflows_def by code_simp
  from pending_transfer_prospects [OF toy_queue_law toy_init after_requests_run [OF two_requests_run(1)] t(1-3)]
  have "\<forall>f now. 0 + f < 5 \<longrightarrow>
    (\<exists>p'. attempt_all toy_queue ''k1'' (replicate f Unreachable @ [Ran now]) (after_requests ''k1'') = Some p' \<and> decided_in p' ''t1'')"
    using fits t(1,4) unfolding look two_requests_job(1) option.case job_view.case by blast
  then show ?thesis by (elim allE [of _ 4] allE [of _ 10]) simp
qed

text \<open>
  Five failed attempts, then the request again: the same pending transfer, and no job. With the key \<open>42\<close>, which the
  queue refuses, a request that creates another customer goes through, but the transfer never does.
\<close>

definition outage :: "occurrence list" where
  "outage = replicate 5 (Attempt ''k1'' Unreachable)"

definition retry_of :: "string \<Rightarrow> occurrence" where
  "retry_of k = Request (SubmitTransfer True ''t9'' 9 (demo_input k 70))"

definition later :: "string \<Rightarrow> occurrence list \<Rightarrow> (string \<Rightarrow> job_view option) platform" where
  "later k es = the (occur_all toy_queue (\<lambda>x. x) (two_requests k @ es) toy_start)"

lemma later_run:
  "occur_all toy_queue (\<lambda>x. x) (two_requests k @ es) toy_start \<noteq> None \<Longrightarrow>
     (platform_step toy_queue (\<lambda>x. x))\<^sup>*\<^sup>* toy_start (later k es)"
  unfolding later_def by (auto intro: occur_all_run)

lemma occur_all_append:
  "occur_all bq sha (as @ bs) p = (case occur_all bq sha as p of None \<Rightarrow> None | Some q \<Rightarrow> occur_all bq sha bs q)"
  by (induction as arbitrary: p) (auto split: option.splits)

lemma later_more:
  assumes "occur_all toy_queue (\<lambda>x. x) (two_requests k @ es) toy_start \<noteq> None"
    "occur_all toy_queue (\<lambda>x. x) (two_requests k @ es @ fs) toy_start \<noteq> None"
  shows "(platform_step toy_queue (\<lambda>x. x))\<^sup>*\<^sup>* (later k es) (later k (es @ fs))"
proof -
  have "occur_all toy_queue (\<lambda>x. x) fs (later k es) = Some (later k (es @ fs))"
    using assms by (auto simp: later_def append_assoc [symmetric] occur_all_append simp del: append_assoc split: option.splits)
  then show ?thesis by (rule occur_all_run)
qed

lemma later_steps:
  "occur_all toy_queue (\<lambda>x. x) (two_requests ''k1'' @ outage) toy_start \<noteq> None"
  "occur_all toy_queue (\<lambda>x. x) (two_requests ''k1'' @ outage @ [retry_of ''k1'']) toy_start \<noteq> None"
  "occur_all toy_queue (\<lambda>x. x) (two_requests ''42'' @ []) toy_start \<noteq> None"
  "occur_all toy_queue (\<lambda>x. x) (two_requests ''42'' @ [] @ [retry_of ''42'']) toy_start \<noteq> None"
  by code_simp+

lemma later_transfer:
  "\<exists>t\<in>set (transfers (bs_db (pf_bank (later ''k1'' outage)))). tr_status t = Pending \<and> tr_idempotencyKey t = Some ''k1'' \<and>
     tr_id t = ''t1'' \<and> same_request (\<lambda>x. x) (demo_input ''k1'' 70) t"
  "\<exists>t\<in>set (transfers (bs_db (pf_bank (later ''42'' [])))). tr_status t = Pending \<and> tr_idempotencyKey t = Some ''42'' \<and>
     tr_id t = ''t1'' \<and> same_request (\<lambda>x. x) (demo_input ''42'' 70) t"
  "pf_queue (later ''k1'' outage) ''k1'' = Some (Exhausted ''t1'')"
  "transfer_inputs_ok (demo_input ''k1'' 70) (bs_db (pf_bank (later ''k1'' (outage @ [retry_of ''k1'']))))"
  "transfer_inputs_ok (demo_input ''42'' 70) (bs_db (pf_bank (later ''42'' ([] @ [retry_of ''42'']))))"
  by code_simp+

text \<open>The toy queue evicts nothing.\<close>

lemma toy_keeps_failed:
  assumes "(platform_step toy_queue sha)\<^sup>*\<^sup>* p q" "pf_queue p k = Some (Exhausted d)"
  shows "pf_queue q k = Some (Exhausted d)"
  using assms
proof (induction rule: rtranclp_induct)
  case (step x y)
  then obtain e where e: "occur toy_queue sha e x = Some y" by (auto simp: platform_step_def)
  have x: "pf_queue x k = Some (Exhausted d)" using step by blast
  show ?case
  proof (cases e)
    case (Request c)
    then show ?thesis using e x by (cases c) (auto simp: submit_def toy_queue_def split: if_splits prod.splits)
  next
    case (Attempt i a)
    then show ?thesis using e x
      by (auto simp: attempt_job_def toy_queue_def split: option.splits job_view.splits attempt.splits prod.splits)
  qed
qed

theorem stranded_until_evicted_witness:
  "(\<exists>t\<in>set (transfers (bs_db (pf_bank (later ''k1'' (outage @ [retry_of ''k1'']))))). tr_id t = ''t1'' \<and> tr_status t = Pending \<and>
     fst (submit toy_queue (\<lambda>x. x) True ''t2'' 9 (demo_input ''k1'' 70) (later ''k1'' (outage @ [retry_of ''k1'']))) =
       Inr \<lparr>cr_transfer = read_transfer t, cr_created = False\<rparr>) \<and>
   (\<exists>t\<in>set (transfers (bs_db (pf_bank (later ''42'' ([] @ [retry_of ''42'']))))). tr_id t = ''t1'' \<and> tr_status t = Pending \<and>
     fst (submit toy_queue (\<lambda>x. x) True ''t2'' 9 (demo_input ''42'' 70) (later ''42'' ([] @ [retry_of ''42'']))) =
       Inl (PlainErr ''redis connection''))"
proof
  let ?p = "later ''k1'' outage" and ?q = "later ''k1'' (outage @ [retry_of ''k1''])"
  obtain t where t: "t \<in> set (transfers (bs_db (pf_bank ?p)))" "tr_status t = Pending" "tr_idempotencyKey t = Some ''k1''"
    "tr_id t = ''t1''" "same_request (\<lambda>x. x) (demo_input ''k1'' 70) t" using later_transfer(1) by blast
  have acc: "bq_accepts toy_queue ''k1''" and look: "bq_look toy_queue q i = q i" for q i by (simp_all add: toy_queue_def)
  have s: "stranded toy_queue ''k1'' ?p" using later_transfer(3) by (simp add: stranded_def look)
  have kept: "pf_queue q ''k1'' \<noteq> None" if "(platform_step toy_queue (\<lambda>x. x))\<^sup>*\<^sup>* ?p q" for q
    using toy_keeps_failed [OF that later_transfer(3)] by simp
  from stranded_until_evicted [OF toy_queue_law toy_init later_run [OF later_steps(1)] t(1-3) s later_more [OF later_steps(1,2)]]
  have "t \<in> set (transfers (bs_db (pf_bank ?q)))"
    "repeated toy_queue (\<lambda>x. x) t ?q (Inr \<lparr>cr_transfer = read_transfer t, cr_created = False\<rparr>) (bq_look toy_queue (pf_queue ?q) ''k1'')"
    using acc unfolding look by (auto dest: kept)
  then show "\<exists>t\<in>set (transfers (bs_db (pf_bank ?q))). tr_id t = ''t1'' \<and> tr_status t = Pending \<and>
     fst (submit toy_queue (\<lambda>x. x) True ''t2'' 9 (demo_input ''k1'' 70) ?q) = Inr \<lparr>cr_transfer = read_transfer t, cr_created = False\<rparr>"
    using t later_transfer(4) by (intro bexI [of _ t]) (auto simp: repeated_def split_beta)
next
  let ?p = "later ''42'' []" and ?q = "later ''42'' ([] @ [retry_of ''42''])"
  obtain t where t: "t \<in> set (transfers (bs_db (pf_bank ?p)))" "tr_status t = Pending" "tr_idempotencyKey t = Some ''42''"
    "tr_id t = ''t1''" "same_request (\<lambda>x. x) (demo_input ''42'' 70) t" using later_transfer(2) by blast
  have acc: "\<not> bq_accepts toy_queue ''42''" by (simp add: toy_queue_def)
  then have s: "stranded toy_queue ''42'' ?p" by (simp add: stranded_def)
  from stranded_until_evicted [OF toy_queue_law toy_init later_run [OF later_steps(3)] t(1-3) s later_more [OF later_steps(3,4)]]
  have "t \<in> set (transfers (bs_db (pf_bank ?q)))"
    "repeated toy_queue (\<lambda>x. x) t ?q (Inl (PlainErr ''redis connection'')) (bq_look toy_queue (pf_queue ?q) ''42'')"
    using acc by auto
  then show "\<exists>t\<in>set (transfers (bs_db (pf_bank ?q))). tr_id t = ''t1'' \<and> tr_status t = Pending \<and>
     fst (submit toy_queue (\<lambda>x. x) True ''t2'' 9 (demo_input ''42'' 70) ?q) = Inl (PlainErr ''redis connection'')"
    using t later_transfer(5) by (intro bexI [of _ t]) (auto simp: repeated_def split_beta)
qed

end
