(* ===== verification/Js_Text.thy ===== *)
theory Js_Text
  imports Complex_Main Prelude
begin

text \<open>
  The parts of JavaScript's strings, objects and JSON the HTTP services use: trimming, splitting and
  lower-casing, the property names every object inherits, and JSON values. A string is a list of
  Latin-1 characters; an object is an association list in insertion order.
\<close>

section \<open>Strings\<close>

text \<open>\<open>String.prototype.trim\<close>, \<open>split(',')\<close> and \<open>toLowerCase\<close>; the last on ASCII letters only.\<close>

definition is_space :: "char \<Rightarrow> bool" where
  "is_space c \<longleftrightarrow> (of_char c :: nat) \<in> {9, 10, 11, 12, 13, 32, 160}"

definition js_trim :: "string \<Rightarrow> string" where
  "js_trim s = rev (dropWhile is_space (rev (dropWhile is_space s)))"

fun split_comma :: "string \<Rightarrow> string list" where
  "split_comma [] = [[]]"
| "split_comma (c # cs) = (if c = CHR '','' then [] # split_comma cs
     else (case split_comma cs of [] \<Rightarrow> [[c]] | p # ps \<Rightarrow> (c # p) # ps))"

definition lower_char :: "char \<Rightarrow> char" where
  "lower_char c = (if CHR ''A'' \<le> c \<and> c \<le> CHR ''Z'' then char_of ((of_char c :: nat) + 32) else c)"

definition toLowerCase :: "string \<Rightarrow> string" where
  "toLowerCase s = map lower_char s"

lemma lower_char_idem: "lower_char (lower_char c) = lower_char c"
proof (cases "CHR ''A'' \<le> c \<and> c \<le> CHR ''Z''")
  case True
  then have "65 \<le> (of_char c :: nat)" "(of_char c :: nat) \<le> 90"
    by (simp_all add: less_eq_char_def)
  then have "(of_char (char_of ((of_char c :: nat) + 32)) :: nat) = of_char c + 32"
    by (simp add: of_char_of)
  then show ?thesis using True by (simp add: lower_char_def less_eq_char_def)
next
  case False
  then show ?thesis by (simp only: lower_char_def if_False)
qed

lemma toLowerCase_idem [simp]: "toLowerCase (toLowerCase s) = toLowerCase s"
  by (simp add: toLowerCase_def lower_char_idem)

definition startsWith :: "string \<Rightarrow> string \<Rightarrow> bool" where
  "startsWith s p \<longleftrightarrow> take (length p) s = p"

lemma startsWith_append [simp]: "startsWith (p @ s) p"
  by (simp add: startsWith_def)

lemma startsWith_iff: "startsWith s p \<longleftrightarrow> (\<exists>r. s = p @ r)"
  by (metis append_take_drop_id append_eq_conv_conj startsWith_def)

section \<open>Objects\<close>

text \<open>The property names every plain object inherits: the operator \<open>in\<close> is true of them.\<close>

definition object_prototype :: "string list" where
  "object_prototype = [''constructor'', ''__defineGetter__'', ''__defineSetter__'', ''hasOwnProperty'',
     ''__lookupGetter__'', ''__lookupSetter__'', ''isPrototypeOf'', ''propertyIsEnumerable'', ''toString'',
     ''valueOf'', ''__proto__'', ''toLocaleString'']"

definition js_in :: "string \<Rightarrow> (string, 'v) jsmap \<Rightarrow> bool" where
  "js_in k m \<longleftrightarrow> k \<in> fst ` set m \<or> k \<in> set object_prototype"

datatype json = JNull | JBool bool | JNum rat | JStr string | JArr "json list" | JObj "(string \<times> json) list"

fun is_JStr :: "json \<Rightarrow> bool" where
  "is_JStr (JStr _) = True"
| "is_JStr _ = False"

text \<open>\<open>Boolean(value)\<close>.\<close>

fun truthy :: "json \<Rightarrow> bool" where
  "truthy JNull = False"
| "truthy (JBool b) = b"
| "truthy (JNum n) = (n \<noteq> 0)"
| "truthy (JStr s) = (s \<noteq> [])"
| "truthy _ = True"

text \<open>
  The entries \<open>Object.entries\<close> lists of a value that is an object or an array (\<open>isRecord\<close>), and a
  property read, which is \<open>undefined\<close> on anything else. Reading a property of \<open>null\<close> throws.
\<close>

fun entries_of :: "json \<Rightarrow> (string \<times> json) list option" where
  "entries_of (JObj kvs) = Some kvs"
| "entries_of (JArr xs) = Some (zip (map decimal [0..<length xs]) xs)"
| "entries_of _ = None"

definition prop_of :: "string \<Rightarrow> json \<Rightarrow> json option" where
  "prop_of k v = (case entries_of v of None \<Rightarrow> None | Some kvs \<Rightarrow> map_of kvs k)"

end
