(* ===== verification/Users.thy ===== *)
theory Users
  imports Bank_Db Js_Text
begin

text \<open>
  \<open>apps/auth-api/src/modules/auth/service.ts\<close> on the table of \<open>packages/db/src/schema/users.ts\<close>.
  bcryptjs is external: a \<open>bcrypt\<close> record holds its two functions and the salt of the process'
  dummy hash, and \<open>bcrypt_law\<close> states what its documentation promises.
\<close>

section \<open>The table\<close>

record user_row =
  us_id :: uuid
  us_email :: string
  us_passwordHash :: string
  us_name :: string
  us_createdAt :: int

type_synonym users_table = "user_row list"
type_synonym 'a users_op = "(users_table, thrown, 'a) op"

text \<open>The unique index is on \<open>lower(email)\<close>, which is \<open>toLowerCase\<close> on the addresses \<open>z.email()\<close> admits.\<close>

definition insert_user :: "uuid \<Rightarrow> int \<Rightarrow> string \<Rightarrow> string \<Rightarrow> string \<Rightarrow> user_row users_op" where
  "insert_user newId now email passwordHash name users =
     (let row = \<lparr>us_id = newId, us_email = email, us_passwordHash = passwordHash, us_name = name, us_createdAt = now\<rparr>
      in if \<not> (storable email \<and> storable name) then (Inl (DbErr InvalidText), users)
         else if newId \<in> us_id ` set users then (Inl (DbErr (UniqueViolation ''users_pkey'')), users)
         else if toLowerCase email \<in> (\<lambda>u. toLowerCase (us_email u)) ` set users
         then (Inl (DbErr (UniqueViolation ''users_email_uq'')), users)
         else (Inr row, users @ [row]))"

definition find_email :: "string \<Rightarrow> users_table \<Rightarrow> user_row option" where
  "find_email email users = find (\<lambda>u. toLowerCase (us_email u) = email) users"

section \<open>bcrypt\<close>

record bcrypt =
  bc_hash :: "string \<Rightarrow> string \<Rightarrow> string" \<comment> \<open>salt, password\<close>
  bc_compare :: "string \<Rightarrow> string \<Rightarrow> bool" \<comment> \<open>password, hash\<close>
  bc_bootSalt :: string

definition DUMMY_HASH :: "bcrypt \<Rightarrow> string" where
  "DUMMY_HASH bc = bc_hash bc (bc_bootSalt bc) ''definitely-not-a-real-password''"

text \<open>UTF-8, with bytes as characters, of the characters the model has (Latin-1).\<close>

definition utf8_char :: "char \<Rightarrow> string" where
  "utf8_char c = (let n = of_char c :: nat in if n < 128 then [c] else [char_of (192 + n div 64), char_of (128 + n mod 64)])"

definition utf8 :: "string \<Rightarrow> string" where
  "utf8 s = concat (map utf8_char s)"

text \<open>
  A password matches the hashes of exactly those passwords that have the same first 72 bytes in UTF-8: the
  documented input limit. (A NUL byte would end a password earlier; the law leaves those out.)
\<close>

definition password_bytes :: "string \<Rightarrow> string" where
  "password_bytes p = take 72 (utf8 p)"

definition plain_password :: "string \<Rightarrow> bool" where
  "plain_password p \<longleftrightarrow> CHR 0x00 \<notin> set p"

definition bcrypt_law :: "bcrypt \<Rightarrow> bool" where
  "bcrypt_law bc \<longleftrightarrow> (\<forall>salt p q. plain_password p \<longrightarrow> plain_password q \<longrightarrow>
     bc_compare bc q (bc_hash bc salt p) = (password_bytes q = password_bytes p))"

section \<open>The service\<close>

record register_input =
  ri_email :: string
  ri_password :: string
  ri_name :: string

definition register :: "bcrypt \<Rightarrow> string \<Rightarrow> uuid \<Rightarrow> int \<Rightarrow> register_input \<Rightarrow> user_row users_op" where
  "register bc salt newId now input users =
     (let passwordHash = bc_hash bc salt (ri_password input)
      in case insert_user newId now (toLowerCase (ri_email input)) passwordHash (ri_name input) users of
           (Inr user, users') \<Rightarrow> (Inr user, users')
         | (Inl err, users') \<Rightarrow>
             if isUniqueViolation err
             then (Inl (AppErr (ConflictError EMAIL_TAKEN ''A user with this email already exists'' None)), users')
             else (Inl err, users'))"

definition verifyCredentials :: "bcrypt \<Rightarrow> string \<Rightarrow> string \<Rightarrow> user_row users_op" where
  "verifyCredentials bc email password users =
     (let user = find_email (toLowerCase email) users;
          matches = bc_compare bc password (case user of None \<Rightarrow> DUMMY_HASH bc | Some u \<Rightarrow> us_passwordHash u)
      in case user of
           Some u \<Rightarrow> if \<not> matches
             then (Inl (AppErr (UnauthorizedError INVALID_CREDENTIALS ''Email or password is incorrect'' None)), users)
             else (Inr u, users)
         | None \<Rightarrow> (Inl (AppErr (UnauthorizedError INVALID_CREDENTIALS ''Email or password is incorrect'' None)), users))"

definition user_getById :: "uuid \<Rightarrow> user_row users_op" where
  "user_getById userId users = (case find (\<lambda>u. us_id u = userId) users of
       None \<Rightarrow> (Inl (AppErr (UnauthorizedError UNAUTHORIZED ''User no longer exists'' None)), users)
     | Some u \<Rightarrow> (Inr u, users))"

section \<open>Registrations\<close>

text \<open>
  What every sequence of registrations leaves: one row per id and per address, in lower case. They start from an
  empty table; the administrator the migrate job inserts first (\<open>Seeds\<close>) is as good as an earlier registration.
\<close>

definition users_ok :: "users_table \<Rightarrow> bool" where
  "users_ok users \<longleftrightarrow> distinct (map us_id users) \<and> distinct (map us_email users) \<and>
     (\<forall>u\<in>set users. toLowerCase (us_email u) = us_email u)"

record registration =
  rg_salt :: string
  rg_newId :: uuid
  rg_now :: int
  rg_input :: register_input

definition register_step :: "bcrypt \<Rightarrow> registration \<Rightarrow> users_table \<Rightarrow> users_table" where
  "register_step bc r users = snd (register bc (rg_salt r) (rg_newId r) (rg_now r) (rg_input r) users)"

lemma register_cases:
  "register bc salt i now input users =
     (if \<not> (storable (toLowerCase (ri_email input)) \<and> storable (ri_name input)) then (Inl (DbErr InvalidText), users)
      else if i \<in> us_id ` set users \<or> toLowerCase (ri_email input) \<in> (\<lambda>u. toLowerCase (us_email u)) ` set users
      then (Inl (AppErr (ConflictError EMAIL_TAKEN ''A user with this email already exists'' None)), users)
      else (let row = \<lparr>us_id = i, us_email = toLowerCase (ri_email input),
                us_passwordHash = bc_hash bc salt (ri_password input), us_name = ri_name input, us_createdAt = now\<rparr>
            in (Inr row, users @ [row])))"
  by (simp add: register_def insert_user_def Let_def)

lemma register_ok: "users_ok users \<Longrightarrow> users_ok (snd (register bc salt i now input users))"
  by (auto simp: register_cases users_ok_def Let_def)

lemma register_appends: "\<exists>added. snd (register bc salt i now input users) = users @ added"
  by (simp add: register_cases Let_def)

lemma registers_ok: "users_ok users \<Longrightarrow> users_ok (fold (register_step bc) rs users)"
  by (induction rs arbitrary: users) (auto simp: register_step_def register_ok)

lemma registers_append: "\<exists>added. fold (register_step bc) rs users = users @ added"
proof (induction rs arbitrary: users)
  case Nil
  then show ?case by simp
next
  case (Cons r rs)
  obtain a where "register_step bc r users = users @ a"
    using register_appends [of bc "rg_salt r" "rg_newId r" "rg_now r" "rg_input r" users] by (auto simp: register_step_def)
  then show ?case using Cons [of "users @ a"] by auto
qed

lemma find_email_row:
  assumes "users_ok users" "u \<in> set users"
  shows "find_email (us_email u) users = Some u"
proof -
  have "find (\<lambda>x. us_email x = us_email u) users = Some u"
    using assms find_distinct [of us_email users u] by (simp add: users_ok_def)
  moreover have "find (\<lambda>x. toLowerCase (us_email x) = us_email u) users = find (\<lambda>x. us_email x = us_email u) users"
    by (rule find_cong) (use assms(1) in \<open>auto simp: users_ok_def\<close>)
  ultimately show ?thesis by (simp add: find_email_def)
qed

section \<open>Properties\<close>

lemma users_start: "users_ok []"
  by (simp add: users_ok_def)

definition bad_credentials :: thrown where
  "bad_credentials = AppErr (UnauthorizedError INVALID_CREDENTIALS ''Email or password is incorrect'' None)"

lemma verifyCredentials_cases:
  "verifyCredentials bc email password users = (case find_email (toLowerCase email) users of
       None \<Rightarrow> (Inl bad_credentials, users)
     | Some u \<Rightarrow> if bc_compare bc password (us_passwordHash u) then (Inr u, users) else (Inl bad_credentials, users))"
  by (simp add: verifyCredentials_def bad_credentials_def Let_def split: option.splits)

text \<open>
  once an employee is registered, and whatever is registered later, logging in with the address in
  any letter case succeeds exactly with a password that agrees with the registered one on its first
  72 bytes, and gives that employee. Since \<open>registerBody\<close> admits 200 characters, the rest of a long
  password protects nothing. Any other password gets the error an unknown address gets.
\<close>

theorem login_decides:
  assumes law: "bcrypt_law bc"
    and reg: "register bc salt i now input (fold (register_step bc) earlier []) = (Inr user, users)"
    and plain: "plain_password (ri_password input)" "plain_password password"
    and address: "toLowerCase email = toLowerCase (ri_email input)"
  shows "verifyCredentials bc email password (fold (register_step bc) later users) =
    ((if password_bytes password = password_bytes (ri_password input) then Inr user else Inl bad_credentials),
     fold (register_step bc) later users)"
proof -
  let ?before = "fold (register_step bc) earlier []"
  let ?after = "fold (register_step bc) later users"
  have user: "users = ?before @ [user]" "us_email user = toLowerCase (ri_email input)"
      "us_passwordHash user = bc_hash bc salt (ri_password input)"
    using reg by (auto simp: register_cases Let_def split: if_splits)
  have "users_ok users"
    using register_ok [OF registers_ok [OF users_start], of bc salt i now input bc earlier] reg by simp
  then have ok: "users_ok ?after" by (rule registers_ok)
  have "user \<in> set ?after"
    using registers_append [of bc later users] user(1) by auto
  from find_email_row [OF ok this] have "find_email (toLowerCase email) ?after = Some user"
    by (simp add: user(2) address)
  moreover have "bc_compare bc password (us_passwordHash user) = (password_bytes password = password_bytes (ri_password input))"
    using law plain by (simp add: bcrypt_law_def user(3))
  ultimately show ?thesis by (simp add: verifyCredentials_cases)
qed

text \<open>
  an address belongs to one employee for ever. In every table that registrations lead to, the
  addresses are distinct and in lower case; registering an address again, in any letter case, is the
  409 \<open>EMAIL_TAKEN\<close> and leaves the table (the first employee's name and password) as it was.
\<close>

theorem addresses_taken_once:
  assumes "u \<in> set (fold (register_step bc) rs [])" "toLowerCase (ri_email input) = us_email u"
    and "storable (us_email u)" "storable (ri_name input)"
  shows "distinct (map us_email (fold (register_step bc) rs [])) \<and>
    register bc salt i now input (fold (register_step bc) rs []) =
      (Inl (AppErr (ConflictError EMAIL_TAKEN ''A user with this email already exists'' None)),
       fold (register_step bc) rs [])"
proof -
  have ok: "users_ok (fold (register_step bc) rs [])" by (rule registers_ok [OF users_start])
  then have "toLowerCase (us_email u) = us_email u" using assms(1) by (simp add: users_ok_def)
  then have "toLowerCase (ri_email input) \<in> (\<lambda>u. toLowerCase (us_email u)) ` set (fold (register_step bc) rs [])"
    using assms by (metis imageI)
  then show ?thesis using ok assms(3,4) unfolding assms(2) [symmetric] by (simp add: register_cases users_ok_def)
qed

section \<open>Witnesses\<close>

definition sample_bcrypt :: bcrypt where
  "sample_bcrypt = \<lparr>bc_hash = (\<lambda>salt p. password_bytes p), bc_compare = (\<lambda>p h. password_bytes p = h), bc_bootSalt = []\<rparr>"

lemma sample_bcrypt_law: "bcrypt_law sample_bcrypt"
  by (simp add: bcrypt_law_def sample_bcrypt_def)

definition sample_registration :: registration where
  "sample_registration = \<lparr>rg_salt = [], rg_newId = ''u1'', rg_now = 5,
     rg_input = \<lparr>ri_email = ''Jane@bank.local'', ri_password = ''super-secret-1'', ri_name = ''Jane''\<rparr>\<rparr>"

definition sample_user :: user_row where
  "sample_user = \<lparr>us_id = ''u1'', us_email = ''jane@bank.local'', us_passwordHash = ''super-secret-1'',
     us_name = ''Jane'', us_createdAt = 5\<rparr>"

lemma sample_lower:
  "toLowerCase ''Jane@bank.local'' = ''jane@bank.local''" "toLowerCase ''JANE@bank.local'' = ''jane@bank.local''"
  by code_simp+

lemma sample_bytes: "password_bytes ''super-secret-1'' = ''super-secret-1''" "password_bytes ''super-secret-2'' = ''super-secret-2''"
  by code_simp+

lemma sample_registered:
  "register sample_bcrypt [] ''u1'' 5 (rg_input sample_registration) (fold (register_step sample_bcrypt) [] []) =
     (Inr sample_user, [sample_user])"
  by (simp add: register_cases sample_registration_def sample_user_def sample_bcrypt_def sample_lower Let_def sample_bytes storable_def)

theorem login_decides_witness:
  "fst (verifyCredentials sample_bcrypt ''JANE@bank.local'' ''super-secret-2'' [sample_user]) = Inl bad_credentials"
  using login_decides [OF sample_bcrypt_law sample_registered, of "''super-secret-2''" "''JANE@bank.local''" "[]"]
  by (simp add: plain_password_def sample_registration_def sample_lower sample_bytes)

theorem addresses_taken_once_witness:
  "fst (register sample_bcrypt [] ''u2'' 9 (rg_input sample_registration) [sample_user]) =
     Inl (AppErr (ConflictError EMAIL_TAKEN ''A user with this email already exists'' None))"
proof -
  have one: "fold (register_step sample_bcrypt) [sample_registration] [] = [sample_user]"
    using sample_registered by (simp add: register_step_def) (simp add: sample_registration_def)
  have row: "sample_user \<in> set (fold (register_step sample_bcrypt) [sample_registration] [])" unfolding one by simp
  have same: "toLowerCase (ri_email (rg_input sample_registration)) = us_email sample_user"
    by (simp add: sample_registration_def sample_user_def sample_lower)
  have "storable (us_email sample_user)" "storable (ri_name (rg_input sample_registration))"
    by (simp_all add: storable_def sample_user_def sample_registration_def)
  from addresses_taken_once [OF row same this, of "[]" "''u2''" 9] show ?thesis by (simp only: one fst_conv)
qed

end
