(* ===== verification/Seeds.thy ===== *)
theory Seeds
  imports Users Bank_System
begin

text \<open>
  \<open>packages/db/src/seed\<close> and \<open>packages/db/scripts/migrate.ts\<close>: the job that runs before the services on every
  start of the stack. The migrations themselves are external: the tables exist.
\<close>

section \<open>The assignment's customers\<close>

text \<open>\<open>seedCustomerIds\<close> with the names of the \<open>VALUES\<close> list.\<close>

definition seedCustomerIds :: "(uuid \<times> string) list" where
  "seedCustomerIds = [(''00000000-0000-4000-8000-000000000001'', ''Arisha Barron''),
     (''00000000-0000-4000-8000-000000000002'', ''Branden Gibson''),
     (''00000000-0000-4000-8000-000000000003'', ''Rhonda Church''),
     (''00000000-0000-4000-8000-000000000004'', ''Georgina Hazel'')]"

text \<open>\<open>ON CONFLICT (id) DO NOTHING\<close>: a row that is not inserted has still drawn its number.\<close>

definition seed_customer :: "int \<Rightarrow> uuid \<times> string \<Rightarrow> bank_db \<Rightarrow> bank_db" where
  "seed_customer now c db = (case c of (i, name) \<Rightarrow> snd (insert_customer i now name db))"

definition seedCustomers :: "int \<Rightarrow> bank_db \<Rightarrow> bank_db" where
  "seedCustomers now db = fold (seed_customer now) seedCustomerIds db"

definition seed_db :: "int \<Rightarrow> bank_db \<Rightarrow> bank_db" where
  "seed_db now db = seedCustomers now db"

section \<open>The administrator\<close>

record admin_seed =
  ad_email :: string
  ad_passwordHash :: string
  ad_name :: string

text \<open>\<open>ON CONFLICT DO NOTHING\<close>, whichever unique index conflicts; any other error is thrown.\<close>

definition seedAdminUser :: "uuid \<Rightarrow> int \<Rightarrow> admin_seed \<Rightarrow> unit users_op" where
  "seedAdminUser newId now admin users =
     (case insert_user newId now (ad_email admin) (ad_passwordHash admin) (ad_name admin) users of
        (Inr _, users') \<Rightarrow> (Inr (), users')
      | (Inl err, users') \<Rightarrow> if isUniqueViolation err then (Inr (), users') else (Inl err, users'))"

section \<open>The entrypoint\<close>

definition ADMIN_EMAIL :: "(string \<Rightarrow> string option) \<Rightarrow> string" where
  "ADMIN_EMAIL env = (case env ''ADMIN_EMAIL'' of None \<Rightarrow> ''admin@bank.local'' | Some s \<Rightarrow> s)"

definition ADMIN_PASSWORD :: "(string \<Rightarrow> string option) \<Rightarrow> string" where
  "ADMIN_PASSWORD env = (case env ''ADMIN_PASSWORD'' of None \<Rightarrow> ''admin12345'' | Some s \<Rightarrow> s)"

definition ADMIN_NAME :: "(string \<Rightarrow> string option) \<Rightarrow> string" where
  "ADMIN_NAME env = (case env ''ADMIN_NAME'' of None \<Rightarrow> ''Admin'' | Some s \<Rightarrow> s)"

definition migrate_and_seed :: "bcrypt \<Rightarrow> (string \<Rightarrow> string option) \<Rightarrow> string \<Rightarrow> uuid \<Rightarrow> int \<Rightarrow>
    (bank_db \<times> users_table, thrown, unit) op" where
  "migrate_and_seed bc env salt newId now s = (case s of (db, users) \<Rightarrow>
     if (case env ''DATABASE_URL'' of None \<Rightarrow> True | Some url \<Rightarrow> url = [])
     then (Inl (PlainErr ''DATABASE_URL is required (see packages/db/.env.example)''), s)
     else if length (ADMIN_PASSWORD env) < 8
     then (Inl (PlainErr ''ADMIN_PASSWORD must be at least 8 characters''), s)
     else (case seedAdminUser newId now
         \<lparr>ad_email = toLowerCase (ADMIN_EMAIL env), ad_passwordHash = bc_hash bc salt (ADMIN_PASSWORD env),
          ad_name = ADMIN_NAME env\<rparr> users of
       (r, users') \<Rightarrow> (r, (seed_db now db, users'))))"

section \<open>Lemmas\<close>

lemma seed_customer_tables:
  "storable (snd c) \<Longrightarrow> seed_customer now c db = db\<lparr>seq_customers := seq_customers db + 1,
     customers := customers db @ (if find_customer (fst c) db = None
       then [\<lparr>cu_id = fst c, cu_seq = seq_customers db, cu_name = snd c, cu_createdAt = now\<rparr>] else [])\<rparr>"
  by (auto simp: seed_customer_def insert_customer_def Let_def split: prod.splits)

lemma seed_names: "\<forall>c\<in>set seedCustomerIds. storable (snd c)"
  by (simp add: seedCustomerIds_def storable_def)

lemma seed_customers_fold:
  "\<forall>c\<in>set cs. storable (snd c) \<Longrightarrow> \<exists>added n. fold (seed_customer now) cs db = db\<lparr>seq_customers := n, customers := customers db @ added\<rparr> \<and>
     cu_id ` set (customers db @ added) = cu_id ` set (customers db) \<union> fst ` set cs \<and> cu_id ` set added \<subseteq> fst ` set cs \<and>
     ((\<forall>c\<in>set cs. fst c \<in> cu_id ` set (customers db)) \<longrightarrow> added = [])"
proof (induction cs arbitrary: db)
  case Nil
  show ?case by (rule exI [of _ "[]"], rule exI [of _ "seq_customers db"]) simp
next
  case (Cons c cs)
  let ?row = "\<lparr>cu_id = fst c, cu_seq = seq_customers db, cu_name = snd c, cu_createdAt = now\<rparr>"
  let ?one = "if find_customer (fst c) db = None then [?row] else []"
  let ?d = "db\<lparr>seq_customers := seq_customers db + 1, customers := customers db @ ?one\<rparr>"
  have st: "\<forall>c\<in>set cs. storable (snd c)" using Cons.prems by simp
  have f: "find_customer (fst c) db = None \<longleftrightarrow> fst c \<notin> cu_id ` set (customers db)"
    by (force simp: find_customer_def find_None_iff)
  obtain added n where a: "fold (seed_customer now) cs ?d = ?d\<lparr>seq_customers := n, customers := customers ?d @ added\<rparr>"
    "cu_id ` set (customers ?d @ added) = cu_id ` set (customers ?d) \<union> fst ` set cs"
    "cu_id ` set added \<subseteq> fst ` set cs" "(\<forall>c'\<in>set cs. fst c' \<in> cu_id ` set (customers ?d)) \<longrightarrow> added = []"
    using Cons.IH [OF st, of ?d] by (elim exE conjE) (rule that)
  have "fold (seed_customer now) (c # cs) db = db\<lparr>seq_customers := n, customers := customers db @ ?one @ added\<rparr>"
    using a(1) Cons.prems by (simp add: seed_customer_tables)
  moreover have "cu_id ` set (customers db @ ?one @ added) = cu_id ` set (customers db) \<union> fst ` set (c # cs)"
    using a(2) f by auto
  moreover have "(\<forall>c'\<in>set (c # cs). fst c' \<in> cu_id ` set (customers db)) \<longrightarrow> ?one @ added = []"
    using a(4) f by simp
  moreover have "cu_id ` set (?one @ added) \<subseteq> fst ` set (c # cs)" using a(3) by auto
  ultimately show ?case by blast
qed


lemma seedAdminUser_cases:
  "seedAdminUser i now admin users =
     (if \<not> (storable (ad_email admin) \<and> storable (ad_name admin)) then (Inl (DbErr InvalidText), users)
      else (Inr (), if i \<in> us_id ` set users \<or> toLowerCase (ad_email admin) \<in> (\<lambda>u. toLowerCase (us_email u)) ` set users then users
      else users @ [\<lparr>us_id = i, us_email = ad_email admin, us_passwordHash = ad_passwordHash admin,
        us_name = ad_name admin, us_createdAt = now\<rparr>]))"
  by (simp add: seedAdminUser_def insert_user_def Let_def)

lemma migrate_Inr:
  assumes "migrate_and_seed bc env salt i now (db, users) = (Inr (), (db', users'))"
  shows "db' = seed_db now db" "8 \<le> length (ADMIN_PASSWORD env)"
    "users' = (if i \<in> us_id ` set users \<or> toLowerCase (toLowerCase (ADMIN_EMAIL env)) \<in> (\<lambda>u. toLowerCase (us_email u)) ` set users
      then users else users @ [\<lparr>us_id = i, us_email = toLowerCase (ADMIN_EMAIL env),
        us_passwordHash = bc_hash bc salt (ADMIN_PASSWORD env), us_name = ADMIN_NAME env, us_createdAt = now\<rparr>])"
  using assms by (auto simp: migrate_and_seed_def seedAdminUser_cases split: if_splits option.splits prod.splits)

section \<open>Property\<close>

text \<open>
  C37: the entrypoint may run on every start. It leaves every customer, account, transfer, comment and lock as it was
  and the ledger right, the four customers present and no other added; every user as it was, and one user more exactly if
  the administrator's address was free, still one user per address. Running it again, with any settings for the same
  address, changes no row: in particular the administrator keeps the password of the first run. If the
  address was free, the administrator logs in, with the address in any letter case, exactly with that
  password (its first 72 bytes in UTF-8).
\<close>

theorem migration_safe_on_every_start:
  assumes "bank_inv db" "users_ok users" "bcrypt_law bc" "i \<notin> us_id ` set users"
    and "migrate_and_seed bc env salt i now (db, users) = (Inr (), (db', users'))"
    and "migrate_and_seed bc env2 salt2 i2 now2 (db', users') = (Inr (), (db2, users2))"
    and "toLowerCase (ADMIN_EMAIL env2) = toLowerCase (ADMIN_EMAIL env)"
  shows "bank_inv db' \<and> users_ok users' \<and>
    (\<exists>added. customers db' = customers db @ added \<and> cu_id ` set added \<subseteq> fst ` set seedCustomerIds) \<and>
    same_tables (db\<lparr>customers := customers db'\<rparr>) db' \<and>
    (\<forall>i. i \<in> fst ` set seedCustomerIds \<longrightarrow> find_customer i db' \<noteq> None) \<and>
    users' = users @ (if toLowerCase (ADMIN_EMAIL env) \<in> us_email ` set users then []
      else [\<lparr>us_id = i, us_email = toLowerCase (ADMIN_EMAIL env), us_passwordHash = bc_hash bc salt (ADMIN_PASSWORD env),
        us_name = ADMIN_NAME env, us_createdAt = now\<rparr>]) \<and>
    same_tables db' db2 \<and> users2 = users' \<and>
    (toLowerCase (ADMIN_EMAIL env) \<notin> us_email ` set users \<longrightarrow>
      (\<forall>email password. toLowerCase email = toLowerCase (ADMIN_EMAIL env) \<and> plain_password password \<and>
        plain_password (ADMIN_PASSWORD env) \<longrightarrow>
        (\<exists>u. us_id u = i \<and> verifyCredentials bc email password users2 =
          ((if password_bytes password = password_bytes (ADMIN_PASSWORD env) then Inr u else Inl bad_credentials), users2))))"
proof -
  note m = migrate_Inr [OF assms(5)] and m2 = migrate_Inr [OF assms(6)]
  let ?e = "toLowerCase (ADMIN_EMAIL env)"
  obtain a n where x: "seed_db now db = db\<lparr>seq_customers := n, customers := customers db @ a\<rparr>"
    "cu_id ` set (customers db @ a) = cu_id ` set (customers db) \<union> fst ` set seedCustomerIds"
    "cu_id ` set a \<subseteq> fst ` set seedCustomerIds"
    using seed_customers_fold [OF seed_names, of now db, folded seedCustomers_def, folded seed_db_def] by (elim exE conjE) (rule that)
  have s1: "db' = db\<lparr>seq_customers := n, customers := customers db @ a\<rparr>" by (rule trans [OF m(1) x(1)])
  then have "customers db' = customers db @ a" by simp
  then have s: "db' = db\<lparr>seq_customers := n, customers := customers db @ a\<rparr>"
    "cu_id ` set (customers db') = cu_id ` set (customers db) \<union> fst ` set seedCustomerIds"
    using s1 x(2) by (simp_all only:)
  obtain a2 n2 where x2: "seed_db now2 db' = db'\<lparr>seq_customers := n2, customers := customers db' @ a2\<rparr>"
    "(\<forall>c\<in>set seedCustomerIds. fst c \<in> cu_id ` set (customers db')) \<longrightarrow> a2 = []"
    using seed_customers_fold [OF seed_names, of now2 db', folded seedCustomers_def, folded seed_db_def] by (elim exE conjE) (rule that)
  have "\<forall>c\<in>set seedCustomerIds. fst c \<in> cu_id ` set (customers db')" unfolding s(2) by blast
  then have "a2 = []" using x2(2) by blast
  then have s2: "db2 = db'\<lparr>seq_customers := n2, customers := customers db' @ []\<rparr>"
    using trans [OF m2(1) x2(1)] by (simp only:)
  have found: "\<forall>i. i \<in> fst ` set seedCustomerIds \<longrightarrow> find_customer i db' \<noteq> None"
  proof (intro allI impI)
    fix i :: uuid
    assume "i \<in> fst ` set seedCustomerIds"
    then have "i \<in> cu_id ` set (customers db')" using s(2) by (simp only: Un_iff simp_thms)
    then show "find_customer i db' \<noteq> None" by (auto simp: find_customer_def find_None_iff)
  qed
  have low: "(\<lambda>u. toLowerCase (us_email u)) ` set users = us_email ` set users"
    using assms(2) by (intro image_cong) (auto simp: users_ok_def)
  let ?row = "\<lparr>us_id = i, us_email = ?e, us_passwordHash = bc_hash bc salt (ADMIN_PASSWORD env),
    us_name = ADMIN_NAME env, us_createdAt = now\<rparr>"
  have u: "users' = (if ?e \<in> us_email ` set users then users else users @ [?row])"
    using assms(4) m(3) by (simp add: low)
  have ok: "users_ok users'" using assms(2,4) unfolding u by (auto simp: users_ok_def)
  have "?e \<in> (\<lambda>u. toLowerCase (us_email u)) ` set users'"
    using u ok by (force simp: users_ok_def image_iff split: if_splits)
  then have u2: "users2 = users'" using m2(3) assms(7) by simp
  have login: "\<exists>u. us_id u = i \<and> verifyCredentials bc email password users2 =
      ((if password_bytes password = password_bytes (ADMIN_PASSWORD env) then Inr u else Inl bad_credentials), users2)"
    if "?e \<notin> us_email ` set users" "toLowerCase email = ?e" "plain_password password" "plain_password (ADMIN_PASSWORD env)"
    for email password
  proof -
    have "?row \<in> set users'" using u that(1) by simp
    from find_email_row [OF ok this] have "find_email (toLowerCase email) users2 = Some ?row" using that(2) u2 by simp
    moreover have "bc_compare bc password (us_passwordHash ?row) = (password_bytes password = password_bytes (ADMIN_PASSWORD env))"
      using assms(3) that(3,4) by (simp add: bcrypt_law_def)
    ultimately show ?thesis by (intro exI [of _ ?row]) (simp add: verifyCredentials_cases)
  qed
  have "bank_inv db'" by (rule bank_inv_frame [OF assms(1)]) (simp_all add: s(1))
  moreover have "\<exists>added. customers db' = customers db @ added \<and> cu_id ` set added \<subseteq> fst ` set seedCustomerIds"
    using s(1) x(3) by (intro exI [of _ a]) simp
  ultimately show ?thesis using ok found s(1) s2 u u2 login by (auto simp: same_tables_def)
qed

section \<open>Witness\<close>

definition compose_env :: "string \<Rightarrow> string \<Rightarrow> string option" where
  "compose_env password = [''DATABASE_URL'' \<mapsto> ''postgres://bank'', ''ADMIN_PASSWORD'' \<mapsto> password]"

lemma compose_admin:
  "toLowerCase (ADMIN_EMAIL (compose_env p)) = ''admin@bank.local''" "ADMIN_PASSWORD (compose_env p) = p"
  "ADMIN_NAME (compose_env p) = ''Admin''" "compose_env p ''DATABASE_URL'' = Some ''postgres://bank''"
  by (simp_all add: ADMIN_EMAIL_def ADMIN_PASSWORD_def ADMIN_NAME_def compose_env_def) code_simp

lemma compose_runs:
  "8 \<le> length p \<Longrightarrow> \<exists>s'. migrate_and_seed sample_bcrypt (compose_env p) [] i now s = (Inr (), s')"
  by (simp add: migrate_and_seed_def compose_admin seedAdminUser_cases storable_def split: prod.split)

theorem migration_safe_on_every_start_witness:
  "\<exists>db users. migrate_and_seed sample_bcrypt (compose_env ''first-secret'') [] ''u1'' 1 (empty_db, []) = (Inr (), (db, users)) \<and>
     bank_inv db \<and> snd (snd (migrate_and_seed sample_bcrypt (compose_env ''second-secret'') [] ''u2'' 2 (db, users))) = users \<and>
     (\<exists>u. fst (verifyCredentials sample_bcrypt ''Admin@bank.local'' ''first-secret'' users) = Inr u)"
proof -
  obtain db users where 1: "migrate_and_seed sample_bcrypt (compose_env ''first-secret'') [] ''u1'' 1 (empty_db, []) = (Inr (), (db, users))"
    using compose_runs [of "''first-secret''" "''u1''" 1 "(empty_db, [])"] by auto
  obtain db2 users2 where 2: "migrate_and_seed sample_bcrypt (compose_env ''second-secret'') [] ''u2'' 2 (db, users) = (Inr (), (db2, users2))"
    using compose_runs [of "''second-secret''" "''u2''" 2 "(db, users)"] by auto
  have same: "toLowerCase (ADMIN_EMAIL (compose_env ''second-secret'')) = toLowerCase (ADMIN_EMAIL (compose_env ''first-secret''))"
    by (simp only: compose_admin)
  have fresh: "''u1'' \<notin> us_id ` set []" "toLowerCase (ADMIN_EMAIL (compose_env ''first-secret'')) \<notin> us_email ` set []" by simp_all
  note safe = migration_safe_on_every_start [OF bank_inv_empty users_start sample_bcrypt_law fresh(1) 1 2 same, unfolded compose_admin]
  have inv: "bank_inv db" using safe by (elim conjE)
  have u2: "users2 = users" using safe by (elim conjE)
  have login: "\<forall>email password. toLowerCase email = ''admin@bank.local'' \<and> plain_password password \<and> plain_password ''first-secret'' \<longrightarrow>
      (\<exists>u. us_id u = ''u1'' \<and> verifyCredentials sample_bcrypt email password users2 =
        ((if password_bytes password = password_bytes ''first-secret'' then Inr u else Inl bad_credentials), users2))"
    using safe fresh(2) [unfolded compose_admin] by (elim conjE) (rule mp)
  have "toLowerCase ''Admin@bank.local'' = ''admin@bank.local''" by code_simp
  moreover have "plain_password ''first-secret''" by (simp add: plain_password_def)
  ultimately have "\<exists>u. verifyCredentials sample_bcrypt ''Admin@bank.local'' ''first-secret'' users = (Inr u, users)"
    using login u2 by (elim allE [of _ "''Admin@bank.local''"] allE [of _ "''first-secret''"]) auto
  then show ?thesis using inv 1 2 u2 by auto
qed

end
