(* ===== verification/Http.thy ===== *)
theory Http
  imports Errors Js_Text Js_Number
begin

text \<open>
  What both Express services share: requests and replies, \<open>packages/shared/src/route.ts\<close> with
  \<open>middleware/validate.ts\<close>, and the validation of fields. Express' body parsing and path matching and
  zod's string formats are external: the request carries the outcome of \<open>express.json()\<close>, and the record
  \<open>zod\<close> holds the formats and the messages.
\<close>

section \<open>Requests and replies\<close>

datatype http_method = Get | Post | Put | Patch | Delete | Head

text \<open>\<open>express.json()\<close> leaves \<open>undefined\<close>, sets the parsed body, or passes an error of its own on.\<close>

datatype request_body = NoBody | JsonBody json | BrokenBody string

record http_request =
  rq_method :: http_method
  rq_path :: string
  rq_query :: "(string \<times> json) list"
  rq_headers :: "(string \<times> string) list"
  rq_body :: request_body

definition header :: "string \<Rightarrow> http_request \<Rightarrow> string option" where
  "header name req = map_of (rq_headers req) name"

definition body_json :: "http_request \<Rightarrow> json option" where
  "body_json req = (case rq_body req of JsonBody v \<Rightarrow> Some v | _ \<Rightarrow> None)"

fun method_name :: "http_method \<Rightarrow> string" where
  "method_name Get = ''GET''"
| "method_name Post = ''POST''"
| "method_name Put = ''PUT''"
| "method_name Patch = ''PATCH''"
| "method_name Delete = ''DELETE''"
| "method_name Head = ''HEAD''"

section \<open>Validation\<close>

type_synonym issues = "(string \<times> string) list"

record zod =
  zd_uuid :: "string \<Rightarrow> bool"
  zd_email :: "string \<Rightarrow> bool"
  zd_url :: "string \<Rightarrow> bool"
  zd_coerceNumber :: "json \<Rightarrow> rat option" \<comment> \<open>\<open>Number(value)\<close>, \<open>None\<close> for \<open>NaN\<close> and the infinities\<close>
  zd_message :: "string \<Rightarrow> json option \<Rightarrow> string"

text \<open>A schema maps what it is given (\<open>None\<close> is \<open>undefined\<close>) to the issues or to the parsed value.\<close>

type_synonym 'a schema = "zod \<Rightarrow> string \<Rightarrow> json option \<Rightarrow> issues + 'a"

definition accept :: "(json option \<Rightarrow> 'a option) \<Rightarrow> zod \<Rightarrow> string \<Rightarrow> json option \<Rightarrow> issues + 'a" where
  "accept f zd path v = (case f v of None \<Rightarrow> Inl [(path, zd_message zd path v)] | Some x \<Rightarrow> Inr x)"

text \<open>\<open>z.uuid()\<close>, \<open>z.string().min(a).max(b)\<close> with and without \<open>trim()\<close>, and \<open>z.email().max(n)\<close>.\<close>

definition z_uuid :: "string schema" where
  "z_uuid zd = accept (\<lambda>v. case v of Some (JStr s) \<Rightarrow> if zd_uuid zd s then Some s else None | _ \<Rightarrow> None) zd"

definition z_string :: "nat \<Rightarrow> nat \<Rightarrow> string schema" where
  "z_string a b zd = accept (\<lambda>v. case v of Some (JStr s) \<Rightarrow> if a \<le> length s \<and> length s \<le> b then Some s else None
     | _ \<Rightarrow> None) zd"

definition z_trimmed :: "nat \<Rightarrow> nat \<Rightarrow> string schema" where
  "z_trimmed a b zd = accept (\<lambda>v. case v of
       Some (JStr s) \<Rightarrow> let t = js_trim s in if a \<le> length t \<and> length t \<le> b then Some t else None
     | _ \<Rightarrow> None) zd"

definition z_email :: "nat \<Rightarrow> string schema" where
  "z_email n zd = accept (\<lambda>v. case v of Some (JStr s) \<Rightarrow> if zd_email zd s \<and> length s \<le> n then Some s else None
     | _ \<Rightarrow> None) zd"

text \<open>\<open>z.int()\<close> between two bounds; JSON numbers beyond 2^53 are refused by \<open>z.int()\<close> itself.\<close>

definition whole :: "rat \<Rightarrow> int option" where
  "whole q = (if q = of_int \<lfloor>q\<rfloor> \<and> \<bar>\<lfloor>q\<rfloor>\<bar> \<le> MAX_SAFE_INTEGER then Some \<lfloor>q\<rfloor> else None)"

definition z_int :: "int \<Rightarrow> int \<Rightarrow> int schema" where
  "z_int a b zd = accept (\<lambda>v. case v of
       Some (JNum q) \<Rightarrow> (case whole q of Some n \<Rightarrow> if a \<le> n \<and> n \<le> b then Some n else None | None \<Rightarrow> None)
     | _ \<Rightarrow> None) zd"

text \<open>\<open>z.coerce.number().int()\<close> between two bounds, on a query parameter.\<close>

definition z_coerceInt :: "int \<Rightarrow> int \<Rightarrow> int schema" where
  "z_coerceInt a b zd = accept (\<lambda>v. case v of
       None \<Rightarrow> None
     | Some j \<Rightarrow> (case zd_coerceNumber zd j of None \<Rightarrow> None
         | Some q \<Rightarrow> (case whole q of Some n \<Rightarrow> if a \<le> n \<and> n \<le> b then Some n else None | None \<Rightarrow> None))) zd"

text \<open>\<open>.default(d)\<close> and \<open>.optional()\<close>.\<close>

definition z_default :: "'a \<Rightarrow> 'a schema \<Rightarrow> 'a schema" where
  "z_default d s zd path v = (if v = None then Inr d else s zd path v)"

definition z_optional :: "'a schema \<Rightarrow> 'a option schema" where
  "z_optional s zd path v = (if v = None then Inr None else (case s zd path v of Inl i \<Rightarrow> Inl i | Inr x \<Rightarrow> Inr (Some x)))"

text \<open>\<open>z.object\<close>: the issues of all fields together; anything but a plain object is one issue.\<close>

definition both :: "issues + 'a \<Rightarrow> issues + 'b \<Rightarrow> issues + 'a \<times> 'b" where
  "both x y = (case x of
       Inl i \<Rightarrow> (case y of Inl j \<Rightarrow> Inl (i @ j) | Inr _ \<Rightarrow> Inl i)
     | Inr a \<Rightarrow> (case y of Inl j \<Rightarrow> Inl j | Inr b \<Rightarrow> Inr (a, b)))"

definition z_object :: "zod \<Rightarrow> json option \<Rightarrow> ((string \<Rightarrow> json option) \<Rightarrow> issues + 'a) \<Rightarrow> issues + 'a" where
  "z_object zd v f = (case v of
       Some (JObj kvs) \<Rightarrow> f (map_of kvs)
     | _ \<Rightarrow> Inl [([], zd_message zd [] v)])"

lemma both_Inr: "both x y = Inr p \<longleftrightarrow> x = Inr (fst p) \<and> y = Inr (snd p)"
  by (cases p; cases x; cases y) (auto simp: both_def)

lemma accept_Inr: "accept f zd path v = Inr x \<longleftrightarrow> f v = Some x"
  by (auto simp: accept_def split: option.splits)

lemma z_object_Inr: "z_object zd v f = Inr x \<longleftrightarrow> (\<exists>kvs. v = Some (JObj kvs) \<and> f (map_of kvs) = Inr x)"
  by (auto simp: z_object_def split: option.splits json.splits)

lemma z_int_Inr: "z_int a b zd path v = Inr n \<Longrightarrow> a \<le> n \<and> n \<le> b"
  by (auto simp: z_int_def accept_Inr split: option.splits json.splits if_splits)

lemma z_coerceInt_Inr: "z_coerceInt a b zd path v = Inr n \<Longrightarrow> a \<le> n \<and> n \<le> b"
  by (auto simp: z_coerceInt_def accept_Inr split: option.splits if_splits)

lemma z_string_Inr: "z_string a b zd path v = Inr s \<Longrightarrow> a \<le> length s \<and> length s \<le> b"
  by (auto simp: z_string_def accept_Inr split: option.splits json.splits if_splits)

section \<open>Routes\<close>

text \<open>
  A route: where it is mounted, its request schemas and handler in one (\<open>parse\<close> fails with the first
  failing schema's issues; \<open>run\<close> is the handler on the parsed input), and the statuses it documents.
\<close>

record route =
  rt_method :: http_method
  rt_path :: string
  rt_responses :: "nat list"

definition method_matches :: "http_method \<Rightarrow> http_method \<Rightarrow> bool" where
  "method_matches m q \<longleftrightarrow> m = q \<or> m = Get \<and> q = Head"

text \<open>Express tries the routes in order; \<open>match_path\<close> is its pattern matching.\<close>

fun find_route :: "(string \<Rightarrow> string \<Rightarrow> (string \<times> string) list option) \<Rightarrow> http_request \<Rightarrow> ('e \<times> route) list
    \<Rightarrow> ('e \<times> route \<times> (string \<times> string) list) option" where
  "find_route match_path req [] = None"
| "find_route match_path req ((e, r) # rs) =
     (if method_matches (rt_method r) (rq_method req)
      then (case match_path (rt_path r) (rq_path req) of
          Some params \<Rightarrow> Some (e, r, params)
        | None \<Rightarrow> find_route match_path req rs)
      else find_route match_path req rs)"

lemma find_route_mem: "find_route mp req rs = Some (e, r, params) \<Longrightarrow>
    (e, r) \<in> set rs \<and> method_matches (rt_method r) (rq_method req) \<and> mp (rt_path r) (rq_path req) = Some params"
  by (induction rs) (auto split: if_splits option.splits)

text \<open>Path parameters are strings.\<close>

definition params_json :: "(string \<times> string) list \<Rightarrow> string \<Rightarrow> json option" where
  "params_json params k = map_option JStr (map_of params k)"

definition headers_json :: "http_request \<Rightarrow> string \<Rightarrow> json option" where
  "headers_json req k = map_option JStr (header k req)"

definition query_json :: "http_request \<Rightarrow> string \<Rightarrow> json option" where
  "query_json req k = map_of (rq_query req) k"

record 'b reply =
  rp_status :: nat
  rp_body :: 'b
  rp_location :: "string option"

text \<open>\<open>mountRoutes\<close>: parse, run the handler, send its result; a throw goes to the error middleware.\<close>

definition error_reply :: "(error_body \<Rightarrow> 'b) \<Rightarrow> thrown \<Rightarrow> 'b reply" where
  "error_reply mk err = (case errorHandler err of (status, b) \<Rightarrow>
     \<lparr>rp_status = status, rp_body = mk b, rp_location = None\<rparr>)"

definition mount :: "(error_body \<Rightarrow> 'b) \<Rightarrow> issues + 'i \<Rightarrow> ('i \<Rightarrow> ('s, thrown, 'b reply) op) \<Rightarrow> 's \<Rightarrow> 'b reply \<times> 's" where
  "mount mk parsed run s = (case parsed of
       Inl issues \<Rightarrow> (error_reply mk (ZodErr issues), s)
     | Inr input \<Rightarrow> (case run input s of
         (Inr result, t) \<Rightarrow> (result, t)
       | (Inl err, t) \<Rightarrow> (error_reply mk err, t)))"

section \<open>Which statuses a route can answer\<close>

text \<open>Every error of \<open>f\<close> becomes a status of \<open>S\<close> or the 500.\<close>

definition throws :: "nat set \<Rightarrow> ('s, thrown, 'a) op \<Rightarrow> bool" where
  "throws S f \<longleftrightarrow> (\<forall>s e t. f s = (Inl e, t) \<longrightarrow> fst (errorHandler e) \<in> insert 500 S)"

lemma throwsI: "(\<And>s e t. f s = (Inl e, t) \<Longrightarrow> fst (errorHandler e) \<in> insert 500 S) \<Longrightarrow> throws S f"
  by (auto simp: throws_def)

lemma throws_bind: "throws S m \<Longrightarrow> (\<And>x. throws S (f x)) \<Longrightarrow> throws S (op_bind m f)"
  unfolding throws_def op_bind_Inl by blast

lemma throws_return: "throws S (op_return x)" "throws S (op_gets g)"
  by (simp_all add: throws_def)

lemma throws_mono: "throws S f \<Longrightarrow> S \<subseteq> T \<Longrightarrow> throws T f"
  unfolding throws_def by blast

lemma throws_catch:
  assumes "throws S m" "\<And>err. throws S (h err)" "\<And>x. throws S (k x)"
  shows "throws S (\<lambda>s. case m s of (Inl err, t) \<Rightarrow> if P err then (Inl err, t) else h err t | (Inr x, t) \<Rightarrow> k x t)"
  unfolding throws_def
proof (intro allI impI, goal_cases)
  case (1 s e u)
  show ?case
  proof (cases "m s")
    case (Pair r t)
    show ?thesis
    proof (cases r)
      case (Inl err)
      then have "P err \<Longrightarrow> e = err" "\<not> P err \<Longrightarrow> h err t = (Inl e, u)" using 1 Pair by simp_all
      then show ?thesis using assms(1) assms(2) [of err] Pair Inl unfolding throws_def by blast
    next
      case (Inr x)
      then have "k x t = (Inl e, u)" using 1 Pair by simp
      then show ?thesis using assms(3) [of x] unfolding throws_def by blast
    qed
  qed
qed

text \<open>
  A handler's replies, where \<open>err\<close> says which bodies are error envelopes: a documented status with
  another body, or a throw of a documented error.
\<close>

definition replies :: "('b \<Rightarrow> bool) \<Rightarrow> nat set \<Rightarrow> ('s, thrown, 'b reply) op \<Rightarrow> bool" where
  "replies err S f \<longleftrightarrow> throws (S \<inter> {400..}) f \<and>
     (\<forall>s r t. f s = (Inr r, t) \<longrightarrow> rp_status r \<in> S \<and> rp_status r < 400 \<and> \<not> err (rp_body r))"

lemma replies_mono: "replies err S f \<Longrightarrow> S \<subseteq> T \<Longrightarrow> replies err T f"
  unfolding replies_def by (blast intro: throws_mono)

lemma mount_reply:
  assumes mk: "\<And>x. err (mk x)" and run: "\<And>i. replies err S (run i)" and eq: "mount mk p run s = (r, t)"
  shows "rp_status r \<in> S \<union> {400, 500} \<and> (err (rp_body r) \<longleftrightarrow> 400 \<le> rp_status r)"
proof (cases p)
  case (Inl issues)
  then show ?thesis using eq mk by (auto simp: mount_def error_reply_def)
next
  case (Inr i)
  obtain x t' where x: "run i s = (x, t')" by fastforce
  show ?thesis
  proof (cases x)
    case (Inl e)
    then have "fst (errorHandler e) \<in> insert 500 (S \<inter> {400..})"
      using run [of i] x unfolding replies_def throws_def by blast
    then show ?thesis using eq Inr Inl x mk
      by (auto simp: mount_def error_reply_def split: prod.splits)
  next
    case (Inr r')
    then have "r = r'" using eq \<open>p = Inr i\<close> x by (simp add: mount_def)
    moreover have "rp_status r' \<in> S \<and> rp_status r' < 400 \<and> \<not> err (rp_body r')"
      using run [of i] x Inr unfolding replies_def by blast
    ultimately show ?thesis by auto
  qed
qed

end
