(* ===== verification/Tokens.thy ===== *)
theory Tokens
  imports Users
begin

text \<open>
  The tokens that tie the two APIs together: \<open>apps/auth-api/src/lib/keys.ts\<close> and \<open>tokens.ts\<close>, which
  issue and check them, and \<open>apps/app-apis/src/middleware/auth.ts\<close>, which guards the banking API. The
  library jose is external: the record \<open>jose\<close> holds the functions that are called and \<open>jose_law\<close>
  states what RFC 7515-7519 and its documentation promise of them.
\<close>

section \<open>jose\<close>

type_synonym jwk = "(string, string) jsmap"

text \<open>A key pair is named by its private material; both halves are handled as \<open>CryptoKey\<close>s.\<close>

datatype crypto_key = PrivateKey string | PublicKey string

record jwt_header =
  jh_alg :: string
  jh_kid :: string

record jwt_claims =
  jc_email :: "string option"
  jc_name :: "string option"
  jc_sub :: "string option"
  jc_iss :: "string option"
  jc_aud :: "string option"
  jc_iat :: "int option"
  jc_exp :: "int option"

record jwt_options =
  jp_issuer :: string
  jp_audience :: string
  jp_algorithms :: "string list"

text \<open>\<open>jwtVerify\<close> is given a key (\<open>importJWK\<close>) or a key set (\<open>createRemoteJWKSet\<close>).\<close>

datatype key_source = LocalKey jwk | RemoteSet "jwk list"

record jose =
  jo_importPKCS8 :: "string \<Rightarrow> string option"
  jo_generate :: "nat \<Rightarrow> string"
  jo_exportJWK :: "crypto_key \<Rightarrow> jwk"
  jo_thumbprint :: "jwk \<Rightarrow> string"
  jo_sign :: "string \<Rightarrow> jwt_header \<Rightarrow> jwt_claims \<Rightarrow> string"
  jo_verify :: "key_source \<Rightarrow> jwt_options \<Rightarrow> int \<Rightarrow> string \<Rightarrow> jwt_claims option"

text \<open>\<open>j\<close> is a JWK of the public half of \<open>m\<close>, whatever \<open>kid\<close>, \<open>alg\<close> and \<open>use\<close> it carries.\<close>

definition public_of :: "jose \<Rightarrow> string \<Rightarrow> jwk \<Rightarrow> bool" where
  "public_of jo m j \<longleftrightarrow>
     filter (\<lambda>(k, v). k \<notin> {''kid'', ''alg'', ''use''}) j = jo_exportJWK jo (PublicKey m)"

definition claims_ok :: "jwt_options \<Rightarrow> int \<Rightarrow> jwt_claims \<Rightarrow> bool" where
  "claims_ok opts now c \<longleftrightarrow> jc_iss c = Some (jp_issuer opts) \<and> jc_aud c = Some (jp_audience opts) \<and>
     (case jc_exp c of None \<Rightarrow> True | Some e \<Rightarrow> now < e)"

text \<open>
  A private JWK is the public one with \<open>d\<close>; a token verifies under the public key of the key that
  signed it when its claims hold, and under no other; a key set picks the one key with the token's \<open>kid\<close>.
\<close>

definition export_law :: "jose \<Rightarrow> bool" where
  "export_law jo \<longleftrightarrow>
     (\<forall>m. jo_exportJWK jo (PublicKey m) = filter (\<lambda>(k, v). k \<noteq> ''d'') (jo_exportJWK jo (PrivateKey m)) \<and>
        fst ` set (jo_exportJWK jo (PublicKey m)) \<inter> {''kid'', ''alg'', ''use''} = {})"

definition verify_law :: "jose \<Rightarrow> bool" where
  "verify_law jo \<longleftrightarrow>
     (\<forall>m j opts now h c. public_of jo m j \<longrightarrow> jh_alg h \<in> set (jp_algorithms opts) \<longrightarrow>
        jo_verify jo (LocalKey j) opts now (jo_sign jo m h c) = (if claims_ok opts now c then Some c else None))"

definition unforgeable :: "jose \<Rightarrow> bool" where
  "unforgeable jo \<longleftrightarrow>
     (\<forall>m j opts now token c. public_of jo m j \<longrightarrow> jo_verify jo (LocalKey j) opts now token = Some c \<longrightarrow>
        (\<exists>h. token = jo_sign jo m h c))"

definition key_set_law :: "jose \<Rightarrow> bool" where
  "key_set_law jo \<longleftrightarrow>
     (\<forall>m j js opts now h c. filter (\<lambda>k. map_of k ''kid'' = Some (jh_kid h)) js = [j] \<longrightarrow>
        map_of j ''alg'' = Some (jh_alg h) \<longrightarrow> map_of j ''use'' = Some ''sig'' \<longrightarrow>
        jo_verify jo (RemoteSet js) opts now (jo_sign jo m h c) = jo_verify jo (LocalKey j) opts now (jo_sign jo m h c)) \<and>
     (\<forall>js opts now token c. jo_verify jo (RemoteSet js) opts now token = Some c \<longrightarrow>
        (\<exists>j\<in>set js. jo_verify jo (LocalKey j) opts now token = Some c))"

definition jose_law :: "jose \<Rightarrow> bool" where
  "jose_law jo \<longleftrightarrow> export_law jo \<and> verify_law jo \<and> unforgeable jo \<and> key_set_law jo"

section \<open>Signing keys\<close>

definition JWT_ALG :: string where "JWT_ALG = ''ES256''"

record signing_keys =
  sk_privateKey :: string
  sk_publicJwk :: jwk
  sk_kid :: string

definition publish :: "jose \<Rightarrow> jwk \<Rightarrow> string \<Rightarrow> signing_keys" where
  "publish jo raw m = (let kid = jo_thumbprint jo raw in
     \<lparr>sk_privateKey = m,
      sk_publicJwk = js_set_all [(''kid'', kid), (''alg'', JWT_ALG), (''use'', ''sig'')] raw,
      sk_kid = kid\<rparr>)"

definition toSigningKeys :: "jose \<Rightarrow> string \<Rightarrow> signing_keys" where
  "toSigningKeys jo m = publish jo (jo_exportJWK jo (PublicKey m)) m"

record key_env =
  ke_NODE_ENV :: string
  ke_JWT_PRIVATE_KEY_FILE :: "string option"
  ke_JWT_PRIVATE_KEY :: "string option"

text \<open>An unset variable and an empty one are both falsy. \<open>readFileSync\<close> throws on an unreadable file.\<close>

definition given :: "string option \<Rightarrow> string option" where
  "given s = (if s = Some [] then None else s)"

definition read_pem :: "(string \<Rightarrow> string option) \<Rightarrow> key_env \<Rightarrow> string + string option" where
  "read_pem readFile env = (case given (ke_JWT_PRIVATE_KEY_FILE env) of
       Some path \<Rightarrow> (case readFile path of None \<Rightarrow> Inl ''ENOENT'' | Some text \<Rightarrow> Inr (given (Some text)))
     | None \<Rightarrow> Inr (given (ke_JWT_PRIVATE_KEY env)))"

definition loadSigningKeys :: "jose \<Rightarrow> (string \<Rightarrow> string option) \<Rightarrow> nat \<Rightarrow> key_env \<Rightarrow> string + signing_keys" where
  "loadSigningKeys jo readFile entropy env = bindE (read_pem readFile env) (\<lambda>pem. case pem of
       Some text \<Rightarrow> (case jo_importPKCS8 jo text of
           None \<Rightarrow> Inl ''invalid PKCS8 input''
         | Some m \<Rightarrow>
             let publicJwkRaw = filter (\<lambda>(k, v). k \<noteq> ''d'') (jo_exportJWK jo (PrivateKey m))
             in Inr (publish jo publicJwkRaw m))
     | None \<Rightarrow>
         if ke_NODE_ENV env = ''production''
         then Inl ''JWT_PRIVATE_KEY or JWT_PRIVATE_KEY_FILE must be set in production (ES256 PKCS8 PEM)''
         else Inr (toSigningKeys jo (jo_generate jo entropy)))"

section \<open>Issuing and checking\<close>

record token_config =
  tc_issuer :: string
  tc_audience :: string
  tc_ttlSeconds :: int

record token_user =
  tu_id :: string
  tu_email :: string
  tu_name :: string

text \<open>\<open>now\<close> in seconds: \<open>setIssuedAt()\<close> reads the clock, \<open>setExpirationTime('<ttl>s')\<close> counts from it.\<close>

definition issued_claims :: "token_config \<Rightarrow> token_user \<Rightarrow> int \<Rightarrow> jwt_claims" where
  "issued_claims config user now =
     \<lparr>jc_email = Some (tu_email user), jc_name = Some (tu_name user), jc_sub = Some (tu_id user),
      jc_iss = Some (tc_issuer config), jc_aud = Some (tc_audience config), jc_iat = Some now,
      jc_exp = Some (now + tc_ttlSeconds config)\<rparr>"

definition signToken :: "jose \<Rightarrow> signing_keys \<Rightarrow> token_config \<Rightarrow> token_user \<Rightarrow> int \<Rightarrow> string" where
  "signToken jo keys config user now =
     jo_sign jo (sk_privateKey keys) \<lparr>jh_alg = JWT_ALG, jh_kid = sk_kid keys\<rparr> (issued_claims config user now)"

text \<open>\<open>String(payload.sub)\<close> of a claim that may be missing.\<close>

definition js_String :: "string option \<Rightarrow> string" where
  "js_String v = (case v of None \<Rightarrow> ''undefined'' | Some s \<Rightarrow> s)"

definition user_of :: "jwt_claims \<Rightarrow> token_user" where
  "user_of payload = \<lparr>tu_id = js_String (jc_sub payload), tu_email = js_String (jc_email payload),
     tu_name = js_String (jc_name payload)\<rparr>"

definition bad_token :: thrown where
  "bad_token = AppErr (UnauthorizedError UNAUTHORIZED ''Invalid or expired token'' None)"

definition verifyToken :: "jose \<Rightarrow> signing_keys \<Rightarrow> token_config \<Rightarrow> int \<Rightarrow> string \<Rightarrow> thrown + token_user" where
  "verifyToken jo keys config now token =
     (case jo_verify jo (LocalKey (sk_publicJwk keys))
        \<lparr>jp_issuer = tc_issuer config, jp_audience = tc_audience config, jp_algorithms = [JWT_ALG]\<rparr> now token of
        None \<Rightarrow> Inl bad_token
      | Some payload \<Rightarrow> Inr (user_of payload))"

text \<open>The banking API's verifier, with the key set its last fetch of \<open>/.well-known/jwks.json\<close> returned.\<close>

definition remote_verify :: "jose \<Rightarrow> jwk list \<Rightarrow> string \<Rightarrow> string \<Rightarrow> int \<Rightarrow> string \<Rightarrow> thrown + token_user" where
  "remote_verify jo jwks issuer audience now token =
     (case jo_verify jo (RemoteSet jwks)
        \<lparr>jp_issuer = issuer, jp_audience = audience, jp_algorithms = [''ES256'']\<rparr> now token of
        None \<Rightarrow> Inl bad_token
      | Some payload \<Rightarrow> Inr (user_of payload))"

definition jwks_of :: "signing_keys \<Rightarrow> jwk list" where
  "jwks_of keys = [sk_publicJwk keys]"

section \<open>The guard of the banking API\<close>

definition public_path :: "string list \<Rightarrow> string \<Rightarrow> bool" where
  "public_path prefixes path \<longleftrightarrow> (\<exists>p\<in>set prefixes. path = p \<or> startsWith path (p @ ''/''))"

definition BEARER :: string where "BEARER = ''Bearer ''"

text \<open>The verified user, \<open>None\<close> on a public path, or what is thrown.\<close>

definition requireAuth :: "(string \<Rightarrow> thrown + token_user) \<Rightarrow> string list \<Rightarrow> string \<Rightarrow> string option
    \<Rightarrow> thrown + token_user option" where
  "requireAuth verify prefixes path authorization =
     (if public_path prefixes path then Inr None
      else case authorization of
          None \<Rightarrow> Inl (AppErr (UnauthorizedError UNAUTHORIZED ''Missing bearer token; log in via the auth API and send Authorization: Bearer <token>'' None))
        | Some header \<Rightarrow>
            if \<not> startsWith header BEARER
            then Inl (AppErr (UnauthorizedError UNAUTHORIZED ''Missing bearer token; log in via the auth API and send Authorization: Bearer <token>'' None))
            else bindE (verify (drop (length BEARER) header)) (\<lambda>user. Inr (Some user)))"

section \<open>What the keys are\<close>

lemma jose_export:
  assumes "jose_law jo"
  shows "jo_exportJWK jo (PublicKey m) = filter (\<lambda>(k, v). k \<noteq> ''d'') (jo_exportJWK jo (PrivateKey m))"
    and "fst ` set (jo_exportJWK jo (PublicKey m)) \<inter> {''kid'', ''alg'', ''use''} = {}"
  using assms unfolding jose_law_def export_law_def by blast+

lemma jose_accepts:
  "jose_law jo \<Longrightarrow> public_of jo m j \<Longrightarrow> jh_alg h \<in> set (jp_algorithms opts) \<Longrightarrow>
     jo_verify jo (LocalKey j) opts now (jo_sign jo m h c) = (if claims_ok opts now c then Some c else None)"
  unfolding jose_law_def verify_law_def by blast

lemma jose_authentic:
  "jose_law jo \<Longrightarrow> public_of jo m j \<Longrightarrow> jo_verify jo (LocalKey j) opts now token = Some c \<Longrightarrow> \<exists>h. token = jo_sign jo m h c"
  unfolding jose_law_def unforgeable_def by blast

lemma jose_remote:
  "jose_law jo \<Longrightarrow> filter (\<lambda>k. map_of k ''kid'' = Some (jh_kid h)) js = [j] \<Longrightarrow>
     map_of j ''alg'' = Some (jh_alg h) \<Longrightarrow> map_of j ''use'' = Some ''sig'' \<Longrightarrow>
     jo_verify jo (RemoteSet js) opts now (jo_sign jo m h c) = jo_verify jo (LocalKey j) opts now (jo_sign jo m h c)"
  unfolding jose_law_def key_set_law_def by blast

lemma jose_remote_local:
  "jose_law jo \<Longrightarrow> jo_verify jo (RemoteSet js) opts now token = Some c \<Longrightarrow>
     \<exists>j\<in>set js. jo_verify jo (LocalKey j) opts now token = Some c"
  unfolding jose_law_def key_set_law_def by blast

definition coherent_keys :: "jose \<Rightarrow> signing_keys \<Rightarrow> bool" where
  "coherent_keys jo keys \<longleftrightarrow> public_of jo (sk_privateKey keys) (sk_publicJwk keys) \<and>
     map_of (sk_publicJwk keys) ''kid'' = Some (sk_kid keys) \<and> map_of (sk_publicJwk keys) ''alg'' = Some JWT_ALG \<and>
     map_of (sk_publicJwk keys) ''use'' = Some ''sig'' \<and> ''d'' \<notin> fst ` set (sk_publicJwk keys)"

lemma publish_public:
  assumes "jose_law jo"
  shows "coherent_keys jo (publish jo (jo_exportJWK jo (PublicKey m)) m)"
proof -
  let ?raw = "jo_exportJWK jo (PublicKey m)"
  let ?added = "[(''kid'', jo_thumbprint jo ?raw), (''alg'', JWT_ALG), (''use'', ''sig'')]"
  have fresh: "fst ` set ?added \<inter> fst ` set ?raw = {}"
    using jose_export(2) [OF assms, of m] by auto
  then have jwk: "js_set_all ?added ?raw = ?raw @ ?added" by (intro js_set_all_fresh) auto
  have keep: "filter (\<lambda>(k, v). k \<notin> {''kid'', ''alg'', ''use''}) ?raw = ?raw"
    using fresh by (force simp: filter_id_conv)
  have absent: "map_of ?raw k = None" if "k \<in> {''kid'', ''alg'', ''use''}" for k
    unfolding map_of_eq_None_iff using jose_export(2) [OF assms, of m] that by blast
  have "''d'' \<notin> fst ` set ?raw" by (auto simp: jose_export(1) [OF assms])
  then show ?thesis
    using keep absent unfolding coherent_keys_def publish_def Let_def public_of_def signing_keys.simps jwk
    by (simp add: map_add_def JWT_ALG_def)
qed

lemma loaded_keys:
  assumes "jose_law jo" "loadSigningKeys jo readFile entropy env = Inr keys"
  shows "coherent_keys jo keys"
proof -
  obtain m where "keys = publish jo (jo_exportJWK jo (PublicKey m)) m"
    using assms(2) jose_export(1) [OF assms(1)]
    by (auto simp: loadSigningKeys_def bindE_eq_Inr toSigningKeys_def Let_def split: option.splits if_splits)
  then show ?thesis using publish_public [OF assms(1)] by simp
qed

lemma verify_issued:
  assumes law: "jose_law jo" and keys: "coherent_keys jo keys"
  shows "verifyToken jo keys config now (signToken jo keys config' user issued) =
      (if tc_issuer config' = tc_issuer config \<and> tc_audience config' = tc_audience config \<and> now < issued + tc_ttlSeconds config'
       then Inr user else Inl bad_token)"
    and "remote_verify jo (jwks_of keys) (tc_issuer config) (tc_audience config) now (signToken jo keys config' user issued) =
      verifyToken jo keys config now (signToken jo keys config' user issued)"
proof -
  let ?h = "\<lparr>jh_alg = JWT_ALG, jh_kid = sk_kid keys\<rparr>"
  let ?o = "\<lparr>jp_issuer = tc_issuer config, jp_audience = tc_audience config, jp_algorithms = [JWT_ALG]\<rparr>"
  have pub: "public_of jo (sk_privateKey keys) (sk_publicJwk keys)" using keys by (simp add: coherent_keys_def)
  have one: "filter (\<lambda>k. map_of k ''kid'' = Some (jh_kid ?h)) (jwks_of keys) = [sk_publicJwk keys]"
    "map_of (sk_publicJwk keys) ''alg'' = Some (jh_alg ?h)" "map_of (sk_publicJwk keys) ''use'' = Some ''sig''"
    using keys by (simp_all add: coherent_keys_def jwks_of_def)
  note acc = jose_accepts [OF law pub, of ?h ?o now "issued_claims config' user issued"]
  note rem = jose_remote [OF law one, of ?o now "sk_privateKey keys" "issued_claims config' user issued"]
  show "verifyToken jo keys config now (signToken jo keys config' user issued) =
      (if tc_issuer config' = tc_issuer config \<and> tc_audience config' = tc_audience config \<and> now < issued + tc_ttlSeconds config'
       then Inr user else Inl bad_token)"
    using acc by (simp add: verifyToken_def signToken_def claims_ok_def issued_claims_def user_of_def js_String_def)
  show "remote_verify jo (jwks_of keys) (tc_issuer config) (tc_audience config) now (signToken jo keys config' user issued) =
      verifyToken jo keys config now (signToken jo keys config' user issued)"
    using rem by (simp add: remote_verify_def verifyToken_def signToken_def JWT_ALG_def)
qed

section \<open>Properties\<close>

text \<open>
  a login holds in both services, for exactly its lifetime. With whatever key \<open>loadSigningKeys\<close> chose,
  a token issued at one instant is accepted by \<open>/auth/me\<close> and by the banking API (which only knows
  the published key set) before \<open>issued + ttlSeconds\<close> and by neither afterwards; while accepted, both
  read back the user it was issued to. A token of another issuer or audience is never accepted.
\<close>

theorem token_lifetime:
  assumes "jose_law jo" "loadSigningKeys jo readFile entropy env = Inr keys"
  shows "verifyToken jo keys config now (signToken jo keys config' user issued) =
      (if tc_issuer config' = tc_issuer config \<and> tc_audience config' = tc_audience config \<and> now < issued + tc_ttlSeconds config'
       then Inr user else Inl bad_token) \<and>
    remote_verify jo (jwks_of keys) (tc_issuer config) (tc_audience config) now (signToken jo keys config' user issued) =
      verifyToken jo keys config now (signToken jo keys config' user issued)"
  using verify_issued [OF assms(1) loaded_keys [OF assms]] by simp

text \<open>
  the banking API admits a request to a path that is not public only with a token \<open>signToken\<close> issued
  that has not expired, and as the user it was issued to: provided nothing else signs with the key,
  the assumption being that signatures cannot be forged.
\<close>

theorem admitted_requests_logged_in:
  assumes law: "jose_law jo" and keys: "loadSigningKeys jo readFile entropy env = Inr keys"
    and only_login: "\<And>h c. jo_sign jo (sk_privateKey keys) h c = drop (length BEARER) header \<Longrightarrow>
      \<exists>user issued. drop (length BEARER) header = signToken jo keys config user issued"
    and admitted: "requireAuth (remote_verify jo (jwks_of keys) (tc_issuer config) (tc_audience config) now) prefixes path
      (Some header) = Inr (Some user)"
    and guarded: "\<not> public_path prefixes path"
  shows "\<exists>issued. header = BEARER @ signToken jo keys config user issued \<and> now < issued + tc_ttlSeconds config"
proof -
  let ?v = "remote_verify jo (jwks_of keys) (tc_issuer config) (tc_audience config) now"
  define token where "token = drop (length BEARER) header"
  have h: "header = BEARER @ token" and v: "?v token = Inr user"
    using admitted guarded unfolding token_def requireAuth_def
    by (auto simp: bindE_eq_Inr startsWith_iff split: if_splits)
  have co: "coherent_keys jo keys" by (rule loaded_keys [OF law keys])
  obtain c where "jo_verify jo (LocalKey (sk_publicJwk keys)) \<lparr>jp_issuer = tc_issuer config, jp_audience = tc_audience config,
      jp_algorithms = [''ES256'']\<rparr> now token = Some c"
    using v jose_remote_local [OF law] unfolding remote_verify_def by (fastforce simp: jwks_of_def split: option.splits)
  then obtain h' where "token = jo_sign jo (sk_privateKey keys) h' c"
    using jose_authentic [OF law] co by (metis coherent_keys_def)
  then obtain u issued where t: "token = signToken jo keys config u issued" using only_login unfolding token_def by metis
  have "u = user \<and> now < issued + tc_ttlSeconds config"
    using v verify_issued [OF law co, of config now config u issued] unfolding t by (simp split: if_splits)
  then show ?thesis using h t by auto
qed

text \<open>
  C38: key handling is safe. Whatever is configured, what \<open>/.well-known/jwks.json\<close> publishes never contains
  the private member \<open>d\<close> and names the key by the id its tokens carry; and in production the service
  starts only with a configured PEM, the file taking precedence, never with an ephemeral key.
\<close>

theorem signing_keys_safe:
  assumes "jose_law jo" "loadSigningKeys jo readFile entropy env = Inr keys"
  shows "(\<forall>j\<in>set (jwks_of keys). ''d'' \<notin> fst ` set j \<and> map_of j ''kid'' = Some (sk_kid keys)) \<and>
    (ke_NODE_ENV env = ''production'' \<longrightarrow> (\<exists>text. jo_importPKCS8 jo text = Some (sk_privateKey keys) \<and>
       (case given (ke_JWT_PRIVATE_KEY_FILE env) of Some path \<Rightarrow> readFile path | None \<Rightarrow> ke_JWT_PRIVATE_KEY env) = Some text))"
proof -
  have "\<exists>text. jo_importPKCS8 jo text = Some (sk_privateKey keys) \<and>
      (case given (ke_JWT_PRIVATE_KEY_FILE env) of Some path \<Rightarrow> readFile path | None \<Rightarrow> ke_JWT_PRIVATE_KEY env) = Some text"
    if "ke_NODE_ENV env = ''production''"
    using assms(2) that
    by (auto simp: loadSigningKeys_def read_pem_def bindE_eq_Inr publish_def Let_def given_def split: option.splits if_splits)
  then show ?thesis using loaded_keys [OF assms] by (simp add: coherent_keys_def jwks_of_def)
qed

section \<open>Witnesses\<close>

text \<open>
  An instance of jose: a token spells out the key, the header and the claims, each character marked
  and each field closed by a dot, and verification reads them back.
\<close>

definition field :: "string \<Rightarrow> string" where
  "field s = concat (map (\<lambda>c. [CHR ''x'', c]) s) @ ''.''"

fun fields_of :: "string \<Rightarrow> string \<Rightarrow> string list" where
  "fields_of cur [] = []"
| "fields_of cur [a] = (if a = CHR ''.'' then [cur] else [])"
| "fields_of cur (a # c # r) = (if a = CHR ''.'' then cur # fields_of [] (c # r) else fields_of (cur @ [c]) r)"

lemma fields_of_step: "fields_of cur (field s @ r) = (cur @ s) # fields_of [] r"
proof (induction s arbitrary: cur)
  case Nil
  then show ?case by (cases r) (simp_all add: field_def)
next
  case (Cons c s)
  then show ?case by (simp add: field_def)
qed

definition int_text :: "int \<Rightarrow> string" where
  "int_text i = (if i < 0 then ''-'' else ''+'') @ decimal (nat \<bar>i\<bar>)"

definition text_int :: "string \<Rightarrow> int" where
  "text_int s = (if hd s = CHR ''-'' then - int (undecimal (tl s)) else int (undecimal (tl s)))"

lemma text_int_text [simp]: "text_int (int_text i) = i"
  by (simp add: text_int_def int_text_def undecimal_decimal)

definition some_text :: "string option \<Rightarrow> string" where
  "some_text v = (case v of None \<Rightarrow> [] | Some s \<Rightarrow> CHR ''!'' # s)"

definition text_some :: "string \<Rightarrow> string option" where
  "text_some s = (if s = [] then None else Some (tl s))"

lemma text_some_text [simp]: "text_some (some_text v) = v"
  by (cases v) (simp_all add: text_some_def some_text_def)

definition toy_sign :: "string \<Rightarrow> jwt_header \<Rightarrow> jwt_claims \<Rightarrow> string" where
  "toy_sign m h c = concat (map field [m, jh_alg h, jh_kid h, some_text (jc_email c), some_text (jc_name c),
     some_text (jc_sub c), some_text (jc_iss c), some_text (jc_aud c),
     some_text (map_option int_text (jc_iat c)), some_text (map_option int_text (jc_exp c))])"

definition toy_open :: "string \<Rightarrow> (string \<times> jwt_header \<times> jwt_claims) option" where
  "toy_open token = (case fields_of [] token of
       [m, a, k, em, na, su, iu, au, ia, ex] \<Rightarrow>
         let h = \<lparr>jh_alg = a, jh_kid = k\<rparr>;
             c = \<lparr>jc_email = text_some em, jc_name = text_some na, jc_sub = text_some su, jc_iss = text_some iu,
                  jc_aud = text_some au, jc_iat = map_option text_int (text_some ia),
                  jc_exp = map_option text_int (text_some ex)\<rparr>
         in if toy_sign m h c = token then Some (m, h, c) else None
     | _ \<Rightarrow> None)"

lemma map_option_text [simp]: "map_option text_int (map_option int_text v) = v"
  by (cases v) simp_all

lemma toy_open_sign: "toy_open (toy_sign m h c) = Some (m, h, c)"
proof -
  have "fields_of [] (toy_sign m h c) = [m, jh_alg h, jh_kid h, some_text (jc_email c), some_text (jc_name c),
     some_text (jc_sub c), some_text (jc_iss c), some_text (jc_aud c),
     some_text (map_option int_text (jc_iat c)), some_text (map_option int_text (jc_exp c))]"
    using fields_of_step [of "[]" _ "[]"] by (simp add: toy_sign_def fields_of_step)
  then show ?thesis by (cases h; cases c) (simp add: toy_open_def Let_def)
qed

lemma toy_open_D: "toy_open token = Some (m, h, c) \<Longrightarrow> token = toy_sign m h c"
  by (auto simp: toy_open_def Let_def split: list.splits if_splits)

definition toy_check :: "jwk \<Rightarrow> jwt_options \<Rightarrow> int \<Rightarrow> string \<Rightarrow> jwt_claims option" where
  "toy_check j opts now token = (case toy_open token of
       None \<Rightarrow> None
     | Some (m, h, c) \<Rightarrow>
         if filter (\<lambda>(k, v). k \<notin> {''kid'', ''alg'', ''use''}) j = [(''x'', m)] \<and> jh_alg h \<in> set (jp_algorithms opts) \<and>
            claims_ok opts now c then Some c else None)"

definition toy_verify :: "key_source \<Rightarrow> jwt_options \<Rightarrow> int \<Rightarrow> string \<Rightarrow> jwt_claims option" where
  "toy_verify source opts now token = (case source of
       LocalKey j \<Rightarrow> toy_check j opts now token
     | RemoteSet js \<Rightarrow> (case toy_open token of
         None \<Rightarrow> None
       | Some (m, h, c) \<Rightarrow> (case filter (\<lambda>k. map_of k ''kid'' = Some (jh_kid h)) js of
           [j] \<Rightarrow> toy_check j opts now token
         | _ \<Rightarrow> None)))"

definition toy_jose :: jose where
  "toy_jose = \<lparr>jo_importPKCS8 = Some, jo_generate = decimal,
     jo_exportJWK = (\<lambda>k. case k of PrivateKey m \<Rightarrow> [(''x'', m), (''d'', m)] | PublicKey m \<Rightarrow> [(''x'', m)]),
     jo_thumbprint = (\<lambda>j. the (map_of j ''x'')), jo_sign = toy_sign, jo_verify = toy_verify\<rparr>"

lemma toy_public: "public_of toy_jose m j \<longleftrightarrow> filter (\<lambda>(k, v). k \<notin> {''kid'', ''alg'', ''use''}) j = [(''x'', m)]"
  by (simp only: public_of_def toy_jose_def jose.simps crypto_key.case)

lemma toy_jose_law: "jose_law toy_jose"
  unfolding jose_law_def
proof (intro conjI)
  show "export_law toy_jose" by (simp add: export_law_def toy_jose_def)
  show "verify_law toy_jose"
    unfolding verify_law_def toy_public by (simp add: toy_jose_def toy_verify_def toy_check_def toy_open_sign)
  show "unforgeable toy_jose"
    unfolding unforgeable_def toy_public
    by (auto simp: toy_jose_def toy_verify_def toy_check_def dest!: toy_open_D split: option.splits if_splits)
  show "key_set_law toy_jose"
    unfolding key_set_law_def
  proof (intro conjI allI impI)
    fix m and j :: jwk and js opts now and h :: jwt_header and c :: jwt_claims
    assume "filter (\<lambda>k. map_of k ''kid'' = Some (jh_kid h)) js = [j]"
    then show "jo_verify toy_jose (RemoteSet js) opts now (jo_sign toy_jose m h c) =
        jo_verify toy_jose (LocalKey j) opts now (jo_sign toy_jose m h c)"
      by (simp add: toy_jose_def toy_verify_def toy_open_sign)
  next
    fix js opts now token c
    assume "jo_verify toy_jose (RemoteSet js) opts now token = Some c"
    then obtain h :: jwt_header and j where "filter (\<lambda>k. map_of k ''kid'' = Some (jh_kid h)) js = [j]" "toy_check j opts now token = Some c"
      by (auto simp: toy_jose_def toy_verify_def split: option.splits list.splits)
    moreover from this(1) have "j \<in> set js" by (metis filter_is_subset list.set_intros(1) subsetD)
    ultimately show "\<exists>j\<in>set js. jo_verify toy_jose (LocalKey j) opts now token = Some c"
      by (auto simp: toy_jose_def toy_verify_def)
  qed
qed

definition sample_env :: key_env where
  "sample_env = \<lparr>ke_NODE_ENV = ''production'', ke_JWT_PRIVATE_KEY_FILE = None, ke_JWT_PRIVATE_KEY = Some ''pem''\<rparr>"

definition sample_keys :: signing_keys where
  "sample_keys = publish toy_jose [(''x'', ''pem'')] ''pem''"

lemma sample_loaded: "loadSigningKeys toy_jose (\<lambda>_. None) 0 sample_env = Inr sample_keys"
  by (simp add: loadSigningKeys_def read_pem_def given_def sample_env_def sample_keys_def toy_jose_def)

definition sample_config :: token_config where
  "sample_config = \<lparr>tc_issuer = ''bank-auth'', tc_audience = ''bank-internal-api'', tc_ttlSeconds = 3600\<rparr>"

definition jane :: token_user where
  "jane = \<lparr>tu_id = ''u1'', tu_email = ''jane@bank.local'', tu_name = ''Jane''\<rparr>"

theorem token_lifetime_witness:
  "verifyToken toy_jose sample_keys sample_config 4599 (signToken toy_jose sample_keys sample_config jane 1000) = Inr jane \<and>
   verifyToken toy_jose sample_keys sample_config 4600 (signToken toy_jose sample_keys sample_config jane 1000) = Inl bad_token"
  using token_lifetime [OF toy_jose_law sample_loaded, of sample_config 4599 sample_config jane 1000]
    token_lifetime [OF toy_jose_law sample_loaded, of sample_config 4600 sample_config jane 1000]
  by (simp add: sample_config_def)

theorem signing_keys_safe_witness: "''d'' \<notin> fst ` set (sk_publicJwk sample_keys)"
  using signing_keys_safe [OF toy_jose_law sample_loaded] by (simp add: jwks_of_def)

theorem admitted_requests_logged_in_witness:
  "\<exists>issued. BEARER @ signToken toy_jose sample_keys sample_config jane 1000 =
     BEARER @ signToken toy_jose sample_keys sample_config jane issued \<and> 2000 < issued + tc_ttlSeconds sample_config"
proof (rule admitted_requests_logged_in [OF toy_jose_law sample_loaded, where path = "''/accounts''" and prefixes = "[''/health'']"])
  let ?t = "signToken toy_jose sample_keys sample_config jane 1000"
  have v: "remote_verify toy_jose (jwks_of sample_keys) (tc_issuer sample_config) (tc_audience sample_config) 2000 ?t = Inr jane"
    using verify_issued [OF toy_jose_law loaded_keys [OF toy_jose_law sample_loaded], of sample_config 2000 sample_config jane 1000]
    by (simp add: sample_config_def)
  show "\<And>h c. jo_sign toy_jose (sk_privateKey sample_keys) h c = drop (length BEARER) (BEARER @ ?t) \<Longrightarrow>
      \<exists>user issued. drop (length BEARER) (BEARER @ ?t) = signToken toy_jose sample_keys sample_config user issued"
    by auto
  show "requireAuth (remote_verify toy_jose (jwks_of sample_keys) (tc_issuer sample_config) (tc_audience sample_config) 2000)
      [''/health''] ''/accounts'' (Some (BEARER @ ?t)) = Inr (Some jane)"
    using v by (simp add: requireAuth_def public_path_def startsWith_def)
  show "\<not> public_path [''/health''] ''/accounts''" by (simp add: public_path_def startsWith_def)
qed

end
