(* ===== verification/Bank_Api.thy ===== *)
theory Bank_Api
  imports Bank_System Http Tokens
begin

text \<open>
  The banking API as it answers raw requests: \<open>apps/app-apis/src/app.ts\<close> with the routers and schemas
  of \<open>modules/*\<close>, on top of the services. Serving the OpenAPI document and CORS headers are left out.
\<close>

section \<open>Request schemas\<close>

definition accountParams :: "zod \<Rightarrow> (string \<Rightarrow> json option) \<Rightarrow> issues + uuid" where
  "accountParams zd ps = z_uuid zd ''accountId'' (ps ''accountId'')"

definition customerParams :: "zod \<Rightarrow> (string \<Rightarrow> json option) \<Rightarrow> issues + uuid" where
  "customerParams zd ps = z_uuid zd ''customerId'' (ps ''customerId'')"

definition transferParams :: "zod \<Rightarrow> (string \<Rightarrow> json option) \<Rightarrow> issues + uuid" where
  "transferParams zd ps = z_uuid zd ''transferId'' (ps ''transferId'')"

definition lockParams :: "zod \<Rightarrow> (string \<Rightarrow> json option) \<Rightarrow> issues + uuid \<times> uuid" where
  "lockParams zd ps = both (z_uuid zd ''accountId'' (ps ''accountId'')) (z_uuid zd ''lockId'' (ps ''lockId''))"

definition createCustomerBody :: "zod \<Rightarrow> json option \<Rightarrow> issues + string" where
  "createCustomerBody zd v = z_object zd v (\<lambda>f. z_trimmed 1 200 zd ''name'' (f ''name''))"

definition createAccountBody :: "zod \<Rightarrow> json option \<Rightarrow> issues + uuid \<times> int" where
  "createAccountBody zd v = z_object zd v (\<lambda>f.
     both (z_uuid zd ''customerId'' (f ''customerId''))
          (z_int 0 MAX_SAFE_INTEGER zd ''initialDepositCents'' (f ''initialDepositCents'')))"

definition historyQuery :: "zod \<Rightarrow> (string \<Rightarrow> json option) \<Rightarrow> issues + int \<times> int option" where
  "historyQuery zd q =
     both (z_default 50 (z_coerceInt 1 200) zd ''limit'' (q ''limit''))
          (z_optional (z_coerceInt 1 MAX_SAFE_INTEGER) zd ''cursor'' (q ''cursor''))"

definition createLockBody :: "zod \<Rightarrow> json option \<Rightarrow> issues + string" where
  "createLockBody zd v = z_object zd v (\<lambda>f. z_trimmed 1 1000 zd ''reason'' (f ''reason''))"

definition z_active :: "bool schema" where
  "z_active zd = accept (\<lambda>v. case v of
       Some (JStr s) \<Rightarrow> if s = ''true'' then Some True else if s = ''false'' then Some False else None
     | _ \<Rightarrow> None) zd"

definition lockListQuery :: "zod \<Rightarrow> (string \<Rightarrow> json option) \<Rightarrow> issues + bool option" where
  "lockListQuery zd q = z_optional z_active zd ''active'' (q ''active'')"

definition createCommentBody :: "zod \<Rightarrow> json option \<Rightarrow> issues + string" where
  "createCommentBody zd v = z_object zd v (\<lambda>f. z_trimmed 1 5000 zd ''body'' (f ''body''))"

definition createTransferBody :: "zod \<Rightarrow> json option \<Rightarrow> issues + uuid \<times> uuid \<times> int" where
  "createTransferBody zd v = z_object zd v (\<lambda>f.
     both (z_uuid zd ''fromAccountId'' (f ''fromAccountId''))
       (both (z_uuid zd ''toAccountId'' (f ''toAccountId''))
             (z_int 1 MAX_SAFE_INTEGER zd ''amountCents'' (f ''amountCents''))))"

definition idempotencyHeaders :: "zod \<Rightarrow> (string \<Rightarrow> json option) \<Rightarrow> issues + string" where
  "idempotencyHeaders zd hs = z_string 1 255 zd ''idempotency-key'' (hs ''idempotency-key'')"

section \<open>Routes\<close>

datatype endpoint =
    Health
  | ListCustomers | PostCustomer | GetCustomer | GetCustomerAccounts
  | PostAccount | GetAccount | GetBalance | GetAccountTransfers
  | PostTransfer | GetTransfer
  | PostLock | ListLocks | DeleteLock
  | PostComment | ListComments

definition healthRoutes :: "(endpoint \<times> route) list" where
  "healthRoutes = [(Health, \<lparr>rt_method = Get, rt_path = ''/health'', rt_responses = [200]\<rparr>)]"

definition customerRoutes :: "(endpoint \<times> route) list" where
  "customerRoutes =
     [(ListCustomers, \<lparr>rt_method = Get, rt_path = ''/customers'', rt_responses = [200]\<rparr>),
      (PostCustomer, \<lparr>rt_method = Post, rt_path = ''/customers'', rt_responses = [201, 400]\<rparr>),
      (GetCustomer, \<lparr>rt_method = Get, rt_path = ''/customers/:customerId'', rt_responses = [200, 404]\<rparr>),
      (GetCustomerAccounts, \<lparr>rt_method = Get, rt_path = ''/customers/:customerId/accounts'', rt_responses = [200, 404]\<rparr>)]"

definition accountRoutes :: "(endpoint \<times> route) list" where
  "accountRoutes =
     [(PostAccount, \<lparr>rt_method = Post, rt_path = ''/accounts'', rt_responses = [201, 400, 404]\<rparr>),
      (GetAccount, \<lparr>rt_method = Get, rt_path = ''/accounts/:accountId'', rt_responses = [200, 404]\<rparr>),
      (GetBalance, \<lparr>rt_method = Get, rt_path = ''/accounts/:accountId/balance'', rt_responses = [200, 404]\<rparr>),
      (GetAccountTransfers, \<lparr>rt_method = Get, rt_path = ''/accounts/:accountId/transfers'', rt_responses = [200, 404]\<rparr>)]"

definition transferRoutes :: "(endpoint \<times> route) list" where
  "transferRoutes =
     [(PostTransfer, \<lparr>rt_method = Post, rt_path = ''/transfers'', rt_responses = [202, 200, 400, 404, 409, 422]\<rparr>),
      (GetTransfer, \<lparr>rt_method = Get, rt_path = ''/transfers/:transferId'', rt_responses = [200, 404]\<rparr>)]"

definition lockRoutes :: "(endpoint \<times> route) list" where
  "lockRoutes =
     [(PostLock, \<lparr>rt_method = Post, rt_path = ''/accounts/:accountId/locks'', rt_responses = [201, 400, 404]\<rparr>),
      (ListLocks, \<lparr>rt_method = Get, rt_path = ''/accounts/:accountId/locks'', rt_responses = [200, 404]\<rparr>),
      (DeleteLock, \<lparr>rt_method = Delete, rt_path = ''/accounts/:accountId/locks/:lockId'', rt_responses = [200, 404, 409]\<rparr>)]"

definition commentRoutes :: "(endpoint \<times> route) list" where
  "commentRoutes =
     [(PostComment, \<lparr>rt_method = Post, rt_path = ''/accounts/:accountId/comments'', rt_responses = [201, 400, 404]\<rparr>),
      (ListComments, \<lparr>rt_method = Get, rt_path = ''/accounts/:accountId/comments'', rt_responses = [200, 404]\<rparr>)]"

definition bank_routes :: "(endpoint \<times> route) list" where
  "bank_routes = healthRoutes @ customerRoutes @ accountRoutes @ transferRoutes @ lockRoutes @ commentRoutes"

section \<open>Handlers\<close>

datatype payload =
    HealthBody
  | CustomerBody customer_row | CustomersBody "customer_row list"
  | AccountBody account_row | AccountsBody "account_row list" | DetailBody account_detail | BalanceBody uuid int
  | HistoryBody history_page | TransferBody transfer_dto
  | LockBody lock_row | LocksBody "lock_row list"
  | CommentBody comment_row | CommentsBody "comment_row list"
  | ErrorBody error_body

text \<open>What a request finds around it: the ids and the instant the database draws, and whether Redis answers.\<close>

record surroundings =
  su_id :: uuid
  su_id2 :: uuid
  su_now :: int
  su_redis :: bool

definition ok :: "nat \<Rightarrow> ('a \<Rightarrow> payload) \<Rightarrow> 'a bank_op \<Rightarrow> payload reply bank_op" where
  "ok status mk f = op_bind f (\<lambda>x. op_return \<lparr>rp_status = status, rp_body = mk x, rp_location = None\<rparr>)"

definition post_transfer :: "(string \<Rightarrow> string) \<Rightarrow> surroundings \<Rightarrow> create_transfer_input \<Rightarrow> payload reply bank_op" where
  "post_transfer sha su input = op_bind (transfer_create sha (su_redis su) (su_id su) (su_now su) input) (\<lambda>r.
     op_return \<lparr>rp_status = (if cr_created r then 202 else 200), rp_body = TransferBody (toTransferDto (cr_transfer r)),
                rp_location = Some (''/transfers/'' @ tr_id (cr_transfer r))\<rparr>)"

definition check_health :: "surroundings \<Rightarrow> unit bank_op" where
  "check_health su = (if su_redis su then op_return () else op_throw (PlainErr ''Connection is closed.''))"

text \<open>
  One definition per route: its schemas in the order params, query, body, headers, then its handler.
  \<open>ps\<close>, \<open>q\<close> and \<open>hs\<close> read a path parameter, a query parameter and a header.
\<close>

definition route_Health :: "surroundings \<Rightarrow> bank_state \<Rightarrow> payload reply \<times> bank_state" where
  "route_Health su = mount ErrorBody (Inr ()) (\<lambda>_. ok 200 (\<lambda>_. HealthBody) (check_health su))"

definition route_ListCustomers :: "bank_state \<Rightarrow> payload reply \<times> bank_state" where
  "route_ListCustomers = mount ErrorBody (Inr ()) (\<lambda>_. ok 200 CustomersBody (on_db customer_list))"

definition route_PostCustomer :: "zod \<Rightarrow> surroundings \<Rightarrow> json option \<Rightarrow> bank_state \<Rightarrow> payload reply \<times> bank_state" where
  "route_PostCustomer zd su body = mount ErrorBody (createCustomerBody zd body)
     (\<lambda>name. ok 201 CustomerBody (on_db (customer_create (su_id su) (su_now su) name)))"

definition route_GetCustomer :: "zod \<Rightarrow> (string \<Rightarrow> json option) \<Rightarrow> bank_state \<Rightarrow> payload reply \<times> bank_state" where
  "route_GetCustomer zd ps = mount ErrorBody (customerParams zd ps)
     (\<lambda>i. ok 200 CustomerBody (on_db (customer_getById i)))"

definition route_GetCustomerAccounts :: "zod \<Rightarrow> (string \<Rightarrow> json option) \<Rightarrow> bank_state \<Rightarrow> payload reply \<times> bank_state" where
  "route_GetCustomerAccounts zd ps = mount ErrorBody (customerParams zd ps)
     (\<lambda>i. ok 200 AccountsBody (on_db (customer_listAccounts i)))"

definition route_PostAccount :: "zod \<Rightarrow> surroundings \<Rightarrow> json option \<Rightarrow> bank_state \<Rightarrow> payload reply \<times> bank_state" where
  "route_PostAccount zd su body = mount ErrorBody (createAccountBody zd body)
     (\<lambda>(customer, deposit). ok 201 AccountBody
        (on_db (account_create (su_id su) (su_id2 su) (su_now su) customer deposit)))"

definition route_GetAccount :: "zod \<Rightarrow> (string \<Rightarrow> json option) \<Rightarrow> bank_state \<Rightarrow> payload reply \<times> bank_state" where
  "route_GetAccount zd ps = mount ErrorBody (accountParams zd ps)
     (\<lambda>i. ok 200 DetailBody (on_db (account_getDetail i)))"

definition route_GetBalance :: "zod \<Rightarrow> (string \<Rightarrow> json option) \<Rightarrow> bank_state \<Rightarrow> payload reply \<times> bank_state" where
  "route_GetBalance zd ps = mount ErrorBody (accountParams zd ps)
     (\<lambda>i. ok 200 (\<lambda>(a, cents). BalanceBody a cents) (on_db (account_getBalance i)))"

definition route_GetAccountTransfers :: "zod \<Rightarrow> (string \<Rightarrow> json option) \<Rightarrow> (string \<Rightarrow> json option) \<Rightarrow> bank_state
    \<Rightarrow> payload reply \<times> bank_state" where
  "route_GetAccountTransfers zd ps q = mount ErrorBody
     (bindE (accountParams zd ps) (\<lambda>i. bindE (historyQuery zd q) (\<lambda>(limit, cursor). Inr (i, limit, cursor))))
     (\<lambda>(i, limit, cursor). ok 200 HistoryBody (on_db (account_getHistory i (nat limit) cursor)))"

definition route_PostTransfer :: "zod \<Rightarrow> (string \<Rightarrow> string) \<Rightarrow> surroundings \<Rightarrow> json option \<Rightarrow> (string \<Rightarrow> json option)
    \<Rightarrow> bank_state \<Rightarrow> payload reply \<times> bank_state" where
  "route_PostTransfer zd sha su body hs = mount ErrorBody
     (bindE (createTransferBody zd body) (\<lambda>(f, t, cents). bindE (idempotencyHeaders zd hs) (\<lambda>key. Inr
        \<lparr>ci_idempotencyKey = key, ci_fromAccountId = f, ci_toAccountId = t, ci_amountCents = cents\<rparr>)))
     (post_transfer sha su)"

definition route_GetTransfer :: "zod \<Rightarrow> (string \<Rightarrow> json option) \<Rightarrow> bank_state \<Rightarrow> payload reply \<times> bank_state" where
  "route_GetTransfer zd ps = mount ErrorBody (transferParams zd ps)
     (\<lambda>i. ok 200 (\<lambda>r. TransferBody (toTransferDto r)) (on_db (transfer_getById i)))"

definition route_PostLock :: "zod \<Rightarrow> surroundings \<Rightarrow> (string \<Rightarrow> json option) \<Rightarrow> json option \<Rightarrow> bank_state
    \<Rightarrow> payload reply \<times> bank_state" where
  "route_PostLock zd su ps body = mount ErrorBody
     (bindE (accountParams zd ps) (\<lambda>i. bindE (createLockBody zd body) (\<lambda>reason. Inr (i, reason))))
     (\<lambda>(i, reason). ok 201 LockBody (on_db (lock_create (su_id su) (su_now su) i reason)))"

definition route_ListLocks :: "zod \<Rightarrow> (string \<Rightarrow> json option) \<Rightarrow> (string \<Rightarrow> json option) \<Rightarrow> bank_state
    \<Rightarrow> payload reply \<times> bank_state" where
  "route_ListLocks zd ps q = mount ErrorBody
     (bindE (accountParams zd ps) (\<lambda>i. bindE (lockListQuery zd q) (\<lambda>active. Inr (i, active))))
     (\<lambda>(i, active). ok 200 LocksBody (on_db (lock_list i active)))"

definition route_DeleteLock :: "zod \<Rightarrow> surroundings \<Rightarrow> (string \<Rightarrow> json option) \<Rightarrow> bank_state \<Rightarrow> payload reply \<times> bank_state" where
  "route_DeleteLock zd su ps = mount ErrorBody (lockParams zd ps)
     (\<lambda>(i, l). ok 200 LockBody (on_db (lock_release (su_now su) i l)))"

definition route_PostComment :: "zod \<Rightarrow> surroundings \<Rightarrow> (string \<Rightarrow> json option) \<Rightarrow> json option \<Rightarrow> bank_state
    \<Rightarrow> payload reply \<times> bank_state" where
  "route_PostComment zd su ps body = mount ErrorBody
     (bindE (accountParams zd ps) (\<lambda>i. bindE (createCommentBody zd body) (\<lambda>text. Inr (i, text))))
     (\<lambda>(i, text). ok 201 CommentBody (on_db (comment_create (su_id su) (su_now su) i text)))"

definition route_ListComments :: "zod \<Rightarrow> (string \<Rightarrow> json option) \<Rightarrow> bank_state \<Rightarrow> payload reply \<times> bank_state" where
  "route_ListComments zd ps = mount ErrorBody (accountParams zd ps)
     (\<lambda>i. ok 200 CommentsBody (on_db (comment_list i)))"

definition answer :: "zod \<Rightarrow> (string \<Rightarrow> string) \<Rightarrow> surroundings \<Rightarrow> endpoint \<Rightarrow> http_request \<Rightarrow> (string \<times> string) list
    \<Rightarrow> bank_state \<Rightarrow> payload reply \<times> bank_state" where
  "answer zd sha su e req path_params =
     (let ps = params_json path_params; q = query_json req; body = body_json req; hs = headers_json req in
      case e of
        Health \<Rightarrow> route_Health su
      | ListCustomers \<Rightarrow> route_ListCustomers
      | PostCustomer \<Rightarrow> route_PostCustomer zd su body
      | GetCustomer \<Rightarrow> route_GetCustomer zd ps
      | GetCustomerAccounts \<Rightarrow> route_GetCustomerAccounts zd ps
      | PostAccount \<Rightarrow> route_PostAccount zd su body
      | GetAccount \<Rightarrow> route_GetAccount zd ps
      | GetBalance \<Rightarrow> route_GetBalance zd ps
      | GetAccountTransfers \<Rightarrow> route_GetAccountTransfers zd ps q
      | PostTransfer \<Rightarrow> route_PostTransfer zd sha su body hs
      | GetTransfer \<Rightarrow> route_GetTransfer zd ps
      | PostLock \<Rightarrow> route_PostLock zd su ps body
      | ListLocks \<Rightarrow> route_ListLocks zd ps q
      | DeleteLock \<Rightarrow> route_DeleteLock zd su ps
      | PostComment \<Rightarrow> route_PostComment zd su ps body
      | ListComments \<Rightarrow> route_ListComments zd ps)"

lemmas route_defs = route_Health_def route_ListCustomers_def route_PostCustomer_def route_GetCustomer_def
  route_GetCustomerAccounts_def route_PostAccount_def route_GetAccount_def route_GetBalance_def
  route_GetAccountTransfers_def route_PostTransfer_def route_GetTransfer_def route_PostLock_def
  route_ListLocks_def route_DeleteLock_def route_PostComment_def route_ListComments_def

section \<open>The application\<close>

definition PUBLIC_PATH_PREFIXES :: "string list" where
  "PUBLIC_PATH_PREFIXES = [''/health'', ''/docs'']"

record app =
  ap_zod :: zod
  ap_sha :: "string \<Rightarrow> string"
  ap_match :: "string \<Rightarrow> string \<Rightarrow> (string \<times> string) list option"
  ap_verify :: "string \<Rightarrow> thrown + token_user"

text \<open>\<open>express.json()\<close> runs before \<open>requireAuth\<close>; what no route answers goes to \<open>notFoundHandler\<close>.\<close>

definition serve_bank :: "app \<Rightarrow> surroundings \<Rightarrow> http_request \<Rightarrow> bank_state \<Rightarrow> payload reply \<times> bank_state" where
  "serve_bank ap su req s = (case rq_body req of
       BrokenBody m \<Rightarrow> (error_reply ErrorBody (PlainErr m), s)
     | _ \<Rightarrow> (case requireAuth (ap_verify ap) PUBLIC_PATH_PREFIXES (rq_path req) (header ''authorization'' req) of
         Inl err \<Rightarrow> (error_reply ErrorBody err, s)
       | Inr _ \<Rightarrow> (case find_route (ap_match ap) req bank_routes of
           None \<Rightarrow> (error_reply ErrorBody (notFoundHandler (method_name (rq_method req)) (rq_path req)), s)
         | Some (e, r, params) \<Rightarrow> answer (ap_zod ap) (ap_sha ap) su e req params s)))"

section \<open>Where a request leaves the state\<close>

lemma snd_mount: "snd (mount mk p run s) = (case p of Inl _ \<Rightarrow> s | Inr i \<Rightarrow> snd (run i s))"
  by (auto simp: mount_def split: sum.splits prod.splits)

lemma snd_ok: "snd (ok st mk f s) = snd (f s)"
  by (simp add: ok_def op_bind_def split: prod.splits sum.splits)

lemma snd_post_transfer:
  "snd (post_transfer sha su input s) = snd (transfer_create sha (su_redis su) (su_id su) (su_now su) input s)"
  by (simp add: post_transfer_def op_bind_def split: prod.splits sum.splits)

lemma on_db_read: "(\<And>db. snd (f db) = db) \<Longrightarrow> snd (on_db f s) = s"
  by (simp add: on_db_def split_beta)

lemma transfer_getById_read: "snd (transfer_getById i db) = db"
  by (simp add: transfer_getById_def split: option.splits)

lemmas reads_keep = on_db_read [OF customer_reads_pure(1)] on_db_read [OF customer_reads_pure(2)]
  on_db_read [OF customer_reads_pure(3)] on_db_read [OF account_reads_pure(1)] on_db_read [OF account_reads_pure(2)]
  on_db_read [OF account_reads_pure(3)] on_db_read [OF account_reads_pure(4)] on_db_read [OF locks_reads_pure(1)]
  on_db_read [OF locks_reads_pure(2)] on_db_read [OF transfer_getById_read]

lemma snd_check_health: "snd (check_health su s) = s"
  by (simp add: check_health_def)

definition writes :: "endpoint \<Rightarrow> bool" where
  "writes e \<longleftrightarrow> e \<in> {PostCustomer, PostAccount, PostTransfer, PostLock, DeleteLock, PostComment}"

lemma answer_reads: "\<not> writes e \<Longrightarrow> snd (answer zd sha su e req params s) = s"
  by (cases e)
    (simp_all add: writes_def answer_def Let_def route_defs snd_mount snd_ok reads_keep snd_check_health split_beta
      split: sum.splits prod.splits)

definition a_command :: "(string \<Rightarrow> string) \<Rightarrow> bank_state \<Rightarrow> bank_state \<Rightarrow> bool" where
  "a_command sha s t \<longleftrightarrow> t = s \<or> (\<exists>c. valid_command c \<and> enabled c s \<and> t = run_command sha c s)"

lemma a_command_same: "a_command sha s s"
  by (simp add: a_command_def)

lemma a_commandI: "valid_command c \<Longrightarrow> enabled c s \<Longrightarrow> t = run_command sha c s \<Longrightarrow> a_command sha s t"
  by (auto simp: a_command_def)

lemma createAccountBody_Inr: "createAccountBody zd v = Inr (c, d) \<Longrightarrow> nonNegativeCents d"
  by (auto simp: createAccountBody_def z_object_Inr both_Inr nonNegativeCents_def dest!: z_int_Inr)

lemma createTransferBody_Inr: "createTransferBody zd v = Inr (f, t, c) \<Longrightarrow> positiveCents c"
  by (auto simp: createTransferBody_def z_object_Inr both_Inr positiveCents_def dest!: z_int_Inr)

lemma idempotencyHeaders_Inr: "idempotencyHeaders zd hs = Inr k \<Longrightarrow> k \<noteq> []"
  by (auto simp: idempotencyHeaders_def dest!: z_string_Inr)

lemma a_command_mount:
  assumes "\<And>i. p = Inr i \<Longrightarrow> a_command sha s (snd (run i s))"
  shows "a_command sha s (snd (mount mk p run s))"
  using assms by (simp add: snd_mount a_command_same split: sum.splits)

lemma answer_command: "a_command sha s (snd (answer zd sha su e req params s))"
proof (cases "writes e")
  case False
  then show ?thesis by (simp add: answer_reads a_command_same)
next
  case True
  then consider "e = PostCustomer" | "e = PostAccount" | "e = PostTransfer" | "e = PostLock" | "e = DeleteLock"
    | "e = PostComment" by (auto simp: writes_def)
  then show ?thesis
  proof cases
    case 1
    show ?thesis unfolding 1 answer_def Let_def endpoint.case route_defs
      by (rule a_command_mount, rule_tac c = "CreateCustomer (su_id su) (su_now su) i" in a_commandI) (simp_all add: snd_ok)
  next
    case 2
    show ?thesis unfolding 2 answer_def Let_def endpoint.case route_defs
      by (rule a_command_mount, rule_tac c = "OpenAccount (su_id su) (su_id2 su) (su_now su) (fst i) (snd i)" in a_commandI)
        (auto simp: snd_ok split_beta dest: createAccountBody_Inr)
  next
    case 3
    show ?thesis unfolding 3 answer_def Let_def endpoint.case route_defs
      by (rule a_command_mount, rule_tac c = "SubmitTransfer (su_redis su) (su_id su) (su_now su) i" in a_commandI)
        (auto simp: snd_post_transfer bindE_eq_Inr dest: createTransferBody_Inr idempotencyHeaders_Inr)
  next
    case 4
    show ?thesis unfolding 4 answer_def Let_def endpoint.case route_defs
      by (rule a_command_mount, rule_tac c = "CreateLock (su_id su) (su_now su) (fst i) (snd i)" in a_commandI)
        (simp_all add: snd_ok split_beta)
  next
    case 5
    show ?thesis unfolding 5 answer_def Let_def endpoint.case route_defs
      by (rule a_command_mount, rule_tac c = "ReleaseLock (su_now su) (fst i) (snd i)" in a_commandI)
        (simp_all add: snd_ok split_beta)
  next
    case 6
    show ?thesis unfolding 6 answer_def Let_def endpoint.case route_defs
      by (rule a_command_mount, rule_tac c = "AddComment (su_id su) (su_now su) (fst i) (snd i)" in a_commandI)
        (simp_all add: snd_ok split_beta)
  qed
qed

lemma serve_bank_command: "a_command (ap_sha ap) s (snd (serve_bank ap su req s))"
  by (simp add: serve_bank_def a_command_same answer_command split: request_body.split sum.split option.split)

section \<open>Which statuses a handler can answer\<close>

lemma throws_transaction: "throws S f \<Longrightarrow> throws S (transaction f)"
  unfolding throws_def by (auto simp: transaction_def split: prod.splits sum.splits)

lemma throws_on_db: "throws S f \<Longrightarrow> throws S (on_db f)"
  unfolding throws_def by (auto simp: on_db_def split: prod.splits)

lemmas error_defs = NotFoundError_def ConflictError_def UnprocessableError_def

lemma throws_inserts:
  "throws S (insert_customer i n c)" "throws S (insert_account i n c b)" "throws S (insert_transfer i n v)"
  "throws S (insert_comment i n a x)" "throws S (insert_lock i n a x)"
  by (auto simp: throws_def insert_customer_def insert_account_def insert_transfer_def insert_comment_def insert_lock_def
      Let_def split: if_splits)

lemma throws_finds:
  "throws {404} (customer_getById i)" "throws {404} (account_getById i)" "throws {404} (transfer_getById i)"
  "throws {404} (assertAccountExists i)"
  by (auto simp: throws_def customer_getById_def account_getById_def transfer_getById_def assertAccountExists_def error_defs
      split: option.splits)

lemma throws_services:
  "throws {} customer_list" "throws {} (customer_create i n c)"
  "throws {404} (customer_listAccounts i)"
  "throws {404} (account_create i j n c d)" "throws {404} (account_getDetail i)" "throws {404} (account_getBalance i)"
  "throws {404} (account_getHistory i limit cursor)"
  "throws {404} (lock_create i n a x)" "throws {404} (lock_list a active)"
  "throws {404} (comment_create i n a x)" "throws {404} (comment_list a)"
proof -
  show "throws {} customer_list" by (simp add: throws_def customer_list_def)
  show "throws {} (customer_create i n c)" by (simp add: customer_create_def throws_inserts)
  show "throws {404} (customer_listAccounts i)"
    unfolding customer_listAccounts_def by (intro throws_bind throws_finds throws_return)
  show "throws {404} (account_create i j n c d)"
    unfolding account_create_def
  proof (rule throws_transaction, rule throwsI, goal_cases)
    case (1 s e t)
    have "throws {404} (op_bind (insert_account i n c d) (\<lambda>account. if d > 0 then op_bind (insert_transfer j n
        \<lparr>tv_idempotencyKey = None, tv_requestHash = None, tv_fromAccountId = None, tv_toAccountId = ac_id account,
         tv_amountCents = d, tv_status = Completed, tv_completedAt = Some n\<rparr>) (\<lambda>_. op_return account) else op_return account))"
      by (cases "d > 0") (simp_all add: throws_bind throws_inserts throws_return)
    then show ?case using 1 by (auto simp: throws_def error_defs split: option.splits)
  qed
  show "throws {404} (account_getDetail i)"
    unfolding account_getDetail_def by (intro throws_bind throws_finds throws_return)
  show "throws {404} (account_getBalance i)"
    unfolding account_getBalance_def by (intro throws_bind throws_finds throws_return)
  show "throws {404} (account_getHistory i limit cursor)"
    unfolding account_getHistory_def by (intro throws_bind throws_finds throws_return)
  show "throws {404} (lock_create i n a x)"
    unfolding lock_create_def by (intro throws_transaction throws_bind throws_finds throws_inserts)
  show "throws {404} (lock_list a active)" unfolding lock_list_def by (intro throws_bind throws_finds throws_return)
  show "throws {404} (comment_create i n a x)"
    unfolding comment_create_def by (intro throws_bind throws_finds throws_inserts)
  show "throws {404} (comment_list a)" unfolding comment_list_def by (intro throws_bind throws_finds throws_return)
qed

lemma throws_release: "throws {404, 409} (lock_release n a l)"
proof -
  have "throws {404, 409} (release_rows a l n)" by (simp add: throws_def release_rows_def)
  moreover have "throws {404, 409} (assertAccountExists a)" by (rule throws_mono [OF throws_finds(4)]) simp
  moreover have "throws {404, 409} (case released of l' # _ \<Rightarrow> op_return l'
       | [] \<Rightarrow> op_bind (op_gets (\<lambda>db. find (\<lambda>x. lk_id x = l \<and> lk_accountId x = a) (accountLocks db))) (\<lambda>lock. case lock of
             None \<Rightarrow> op_throw (AppErr (NotFoundError LOCK_NOT_FOUND m None))
           | Some _ \<Rightarrow> op_throw (AppErr (ConflictError LOCK_ALREADY_RELEASED m' None))))" for released m m'
    by (auto simp: throws_def error_defs op_bind_def split: list.splits option.splits)
  ultimately show ?thesis unfolding lock_release_def by (intro throws_bind)
qed

lemma throws_enqueue: "throws S (enqueueTransfer up i k)"
  by (simp add: throws_def enqueueTransfer_def)

lemma throws_replay: "throws {404, 409, 422} (transfer_replay up k h)"
proof (rule throwsI, goal_cases)
  case (1 s e t)
  then show ?case
    by (cases "find_key k (bs_db s)") (auto simp: transfer_replay_def error_defs op_bind_def enqueueTransfer_def Let_def split: if_splits)
qed

lemma check_found_404: "check_found found xs db = (Inl e, t) \<Longrightarrow> fst (errorHandler e) = 404"
  by (induction xs) (auto simp: error_defs split: if_splits)

lemma throws_assert: "throws {404, 409, 422} (assertAccountsExist input)"
  by (rule throwsI, unfold assertAccountsExist_def Let_def, drule check_found_404) simp

lemma throws_transfer: "throws {404, 409, 422} (transfer_create sha up i n input)"
proof (cases "ci_fromAccountId input = ci_toAccountId input")
  case True
  then show ?thesis by (auto simp: throws_def transfer_create_def error_defs)
next
  case False
  have create: "transfer_create sha up i n input = op_bind (on_db (assertAccountsExist input)) (\<lambda>_ s1.
      case on_db (insert_transfer i n
              \<lparr>tv_idempotencyKey = Some (ci_idempotencyKey input), tv_requestHash = Some (hashRequest sha input),
               tv_fromAccountId = Some (ci_fromAccountId input), tv_toAccountId = ci_toAccountId input,
               tv_amountCents = ci_amountCents input, tv_status = Pending, tv_completedAt = None\<rparr>) s1 of
         (Inl err, s2) \<Rightarrow> if \<not> isUniqueViolation err then (Inl err, s2)
           else transfer_replay up (ci_idempotencyKey input) (hashRequest sha input) s2
       | (Inr pending, s2) \<Rightarrow> op_bind (enqueueTransfer up (tr_id pending) (ci_idempotencyKey input))
             (\<lambda>_. op_return \<lparr>cr_transfer = pending, cr_created = True\<rparr>) s2)"
    using False by (intro ext) (simp add: transfer_create_def Let_def)
  show ?thesis
    unfolding create
    by (intro throws_bind throws_catch throws_on_db throws_assert throws_inserts throws_replay throws_enqueue throws_return)
qed

definition is_error :: "payload \<Rightarrow> bool" where
  "is_error b \<longleftrightarrow> (\<exists>x. b = ErrorBody x)"

lemma replies_ok:
  "throws T f \<Longrightarrow> T \<subseteq> S \<inter> {400..} \<Longrightarrow> st \<in> S \<Longrightarrow> st < 400 \<Longrightarrow> (\<And>x. \<not> is_error (mk x)) \<Longrightarrow> replies is_error S (ok st mk f)"
  unfolding replies_def ok_def
  by (auto simp: op_bind_Inr intro!: throws_bind throws_return throws_mono [of T f])

lemma replies_post_transfer: "replies is_error {200, 202, 404, 409, 422} (post_transfer sha su input)"
  unfolding replies_def post_transfer_def
  by (auto simp: op_bind_Inr is_error_def intro!: throws_bind throws_return throws_mono [OF throws_transfer])

lemma throws_health: "throws {} (check_health su)"
  by (simp add: throws_def check_health_def)

lemma responses_of:
  "(e, rt) \<in> set bank_routes \<Longrightarrow> set (rt_responses rt) = (case e of
     Health \<Rightarrow> {200} | ListCustomers \<Rightarrow> {200} | PostCustomer \<Rightarrow> {201, 400} | GetCustomer \<Rightarrow> {200, 404}
   | GetCustomerAccounts \<Rightarrow> {200, 404} | PostAccount \<Rightarrow> {201, 400, 404} | GetAccount \<Rightarrow> {200, 404}
   | GetBalance \<Rightarrow> {200, 404} | GetAccountTransfers \<Rightarrow> {200, 404} | PostTransfer \<Rightarrow> {202, 200, 400, 404, 409, 422}
   | GetTransfer \<Rightarrow> {200, 404} | PostLock \<Rightarrow> {201, 400, 404} | ListLocks \<Rightarrow> {200, 404} | DeleteLock \<Rightarrow> {200, 404, 409}
   | PostComment \<Rightarrow> {201, 400, 404} | ListComments \<Rightarrow> {200, 404})"
  by (auto simp: bank_routes_def healthRoutes_def customerRoutes_def accountRoutes_def transferRoutes_def lockRoutes_def
      commentRoutes_def)

lemma mount_ok:
  assumes "mount ErrorBody p (\<lambda>i. ok st mk (f i)) s = (r, t)" "\<And>i. throws T (f i)"
    and "T \<subseteq> S \<inter> {400..}" "st \<in> S" "st < 400" "\<And>x. \<not> is_error (mk x)"
  shows "rp_status r \<in> S \<union> {400, 500} \<and> (is_error (rp_body r) \<longleftrightarrow> 400 \<le> rp_status r)"
  by (rule mount_reply [OF _ _ assms(1)], simp add: is_error_def, rule replies_ok) (rule assms)+

lemma answer_reply:
  assumes "(e, rt) \<in> set bank_routes" "answer zd sha su e req params s = (r, t)"
  shows "rp_status r \<in> set (rt_responses rt) \<union> {400, 500} \<and> (is_error (rp_body r) \<longleftrightarrow> 400 \<le> rp_status r)"
proof (cases e)
  case Health
  show ?thesis using assms(2) unfolding responses_of [OF assms(1)] Health answer_def Let_def endpoint.case route_defs split_beta
    by (rule mount_ok [OF _ throws_health]) (simp_all add: is_error_def)
next
  case ListCustomers
  show ?thesis using assms(2) unfolding responses_of [OF assms(1)] ListCustomers answer_def Let_def endpoint.case route_defs split_beta
    by (rule mount_ok [OF _ throws_on_db [OF throws_services(1)]]) (simp_all add: is_error_def)
next
  case PostCustomer
  show ?thesis using assms(2) unfolding responses_of [OF assms(1)] PostCustomer answer_def Let_def endpoint.case route_defs split_beta
    by (rule mount_ok [OF _ throws_on_db [OF throws_services(2)]]) (simp_all add: is_error_def)
next
  case GetCustomer
  show ?thesis using assms(2) unfolding responses_of [OF assms(1)] GetCustomer answer_def Let_def endpoint.case route_defs split_beta
    by (rule mount_ok [OF _ throws_on_db [OF throws_finds(1)]]) (simp_all add: is_error_def)
next
  case GetCustomerAccounts
  show ?thesis using assms(2) unfolding responses_of [OF assms(1)] GetCustomerAccounts answer_def Let_def endpoint.case route_defs split_beta
    by (rule mount_ok [OF _ throws_on_db [OF throws_services(3)]]) (simp_all add: is_error_def)
next
  case PostAccount
  show ?thesis using assms(2) unfolding responses_of [OF assms(1)] PostAccount answer_def Let_def endpoint.case route_defs split_beta
    by (rule mount_ok [OF _ throws_on_db [OF throws_services(4)]]) (simp_all add: is_error_def)
next
  case GetAccount
  show ?thesis using assms(2) unfolding responses_of [OF assms(1)] GetAccount answer_def Let_def endpoint.case route_defs split_beta
    by (rule mount_ok [OF _ throws_on_db [OF throws_services(5)]]) (simp_all add: is_error_def)
next
  case GetBalance
  show ?thesis using assms(2) unfolding responses_of [OF assms(1)] GetBalance answer_def Let_def endpoint.case route_defs split_beta
    by (rule mount_ok [OF _ throws_on_db [OF throws_services(6)]]) (simp_all add: is_error_def)
next
  case GetAccountTransfers
  show ?thesis using assms(2) unfolding responses_of [OF assms(1)] GetAccountTransfers answer_def Let_def endpoint.case route_defs split_beta
    by (rule mount_ok [OF _ throws_on_db [OF throws_services(7)]]) (simp_all add: is_error_def)
next
  case GetTransfer
  show ?thesis using assms(2) unfolding responses_of [OF assms(1)] GetTransfer answer_def Let_def endpoint.case route_defs split_beta
    by (rule mount_ok [OF _ throws_on_db [OF throws_finds(3)]]) (simp_all add: is_error_def)
next
  case PostLock
  show ?thesis using assms(2) unfolding responses_of [OF assms(1)] PostLock answer_def Let_def endpoint.case route_defs split_beta
    by (rule mount_ok [OF _ throws_on_db [OF throws_services(8)]]) (simp_all add: is_error_def)
next
  case ListLocks
  show ?thesis using assms(2) unfolding responses_of [OF assms(1)] ListLocks answer_def Let_def endpoint.case route_defs split_beta
    by (rule mount_ok [OF _ throws_on_db [OF throws_services(9)]]) (simp_all add: is_error_def)
next
  case DeleteLock
  show ?thesis using assms(2) unfolding responses_of [OF assms(1)] DeleteLock answer_def Let_def endpoint.case route_defs split_beta
    by (rule mount_ok [OF _ throws_on_db [OF throws_release]]) (simp_all add: is_error_def)
next
  case PostComment
  show ?thesis using assms(2) unfolding responses_of [OF assms(1)] PostComment answer_def Let_def endpoint.case route_defs split_beta
    by (rule mount_ok [OF _ throws_on_db [OF throws_services(10)]]) (simp_all add: is_error_def)
next
  case ListComments
  show ?thesis using assms(2) unfolding responses_of [OF assms(1)] ListComments answer_def Let_def endpoint.case route_defs split_beta
    by (rule mount_ok [OF _ throws_on_db [OF throws_services(11)]]) (simp_all add: is_error_def)
next
  case PostTransfer
  show ?thesis using assms(2) unfolding responses_of [OF assms(1)] PostTransfer answer_def Let_def endpoint.case route_defs
    by (rule mount_reply [rotated 2], simp add: is_error_def, intro replies_mono [OF replies_post_transfer]) simp
qed

section \<open>Properties\<close>

text \<open>What happens to the platform: any request, or the delivery of a job that was queued.\<close>

inductive platform_step :: "app \<Rightarrow> bank_state \<Rightarrow> bank_state \<Rightarrow> bool" for ap where
  request: "platform_step ap s (snd (serve_bank ap su req s))"
| delivery: "job \<in> set (bs_added s) \<Longrightarrow> platform_step ap s (snd (on_db (process_job now (job_transferId job)) s))"

inductive_cases platform_stepE: "platform_step ap s t"

lemma platform_step_bank: "platform_step ap s t \<Longrightarrow> t = s \<or> bank_step (ap_sha ap) s t"
proof (erule platform_stepE, goal_cases)
  case (1 su req)
  then show ?case using serve_bank_command [of ap s su req] bank_step.command [of _ s "ap_sha ap"]
    unfolding a_command_def by metis
next
  case (2 job now)
  then show ?case using bank_step.command [of "DeliverJob now job" s "ap_sha ap"] by simp
qed

text \<open>
  C30: the HTTP layer refines the platform: any run of raw requests (any method, path, headers and body,
  well-formed or not) and of job deliveries is a run of validated commands, so every guarantee about
  the platform's runs, the ledger's balance included, holds of whatever clients send.
\<close>

theorem http_refines_platform:
  assumes "(platform_step ap)\<^sup>*\<^sup>* s t"
  shows "(bank_step (ap_sha ap))\<^sup>*\<^sup>* s t"
  using assms
proof (induction rule: rtranclp_induct)
  case base
  show ?case by simp
next
  case (step t u)
  then show ?case using platform_step_bank rtranclp.rtrancl_into_rtrancl by metis
qed







text \<open>\<open>GET\<close> and \<open>HEAD\<close> requests, and the methods no route uses, change nothing.\<close>

theorem safe_methods_change_nothing:
  assumes "rq_method req \<notin> {Post, Delete}"
  shows "snd (serve_bank ap su req s) = s"
proof -
  have "snd (answer (ap_zod ap) (ap_sha ap) su e req params s) = s"
    if "find_route (ap_match ap) req bank_routes = Some (e, r, params)" for e r params
  proof (rule answer_reads)
    have "(e, r) \<in> set bank_routes" "method_matches (rt_method r) (rq_method req)"
      using find_route_mem [OF that] by auto
    then show "\<not> writes e" using assms
      by (auto simp: writes_def method_matches_def bank_routes_def healthRoutes_def customerRoutes_def accountRoutes_def
          transferRoutes_def lockRoutes_def commentRoutes_def)
  qed
  then show ?thesis
    by (simp add: serve_bank_def split: request_body.split sum.split option.split)
qed

text \<open>
  C32: what the routes document is what they answer: an authenticated request that reaches a route gets one
  of the statuses the route lists, 400 or 500, and the error envelope exactly from 400 up. The 400 is
  missing from every route that takes only path or query parameters (a malformed id is answered so).
\<close>

theorem replies_as_documented:
  assumes "find_route (ap_match ap) req bank_routes = Some (e, rt, params)"
    and "requireAuth (ap_verify ap) PUBLIC_PATH_PREFIXES (rq_path req) (header ''authorization'' req) = Inr u"
    and "rq_body req \<in> {NoBody, JsonBody v}"
  shows "rp_status (fst (serve_bank ap su req s)) \<in> set (rt_responses rt) \<union> {400, 500} \<and>
    (is_error (rp_body (fst (serve_bank ap su req s))) \<longleftrightarrow> 400 \<le> rp_status (fst (serve_bank ap su req s)))"
proof -
  have "serve_bank ap su req s = answer (ap_zod ap) (ap_sha ap) su e req params s"
    using assms by (auto simp: serve_bank_def)
  moreover have "(e, rt) \<in> set bank_routes" using find_route_mem [OF assms(1)] by simp
  ultimately show ?thesis using answer_reply by (metis prod.collapse)
qed

section \<open>Witnesses\<close>

definition sample_app :: app where
  "sample_app = \<lparr>ap_zod = \<lparr>zd_uuid = (\<lambda>s. length s = 36), zd_email = (\<lambda>s. CHR ''@'' \<in> set s), zd_url = (\<lambda>s. True), zd_coerceNumber = (\<lambda>v. None),
       zd_message = (\<lambda>path v. ''Invalid input'')\<rparr>,
     ap_sha = (\<lambda>s. s), ap_match = (\<lambda>pattern path. if path = pattern then Some [] else None),
     ap_verify = (\<lambda>t. if t = ''jwt'' then Inr jane else Inl bad_token)\<rparr>"

definition sample_surroundings :: surroundings where
  "sample_surroundings = \<lparr>su_id = ''c1'', su_id2 = ''t1'', su_now = 5, su_redis = True\<rparr>"

definition list_request :: http_request where
  "list_request = \<lparr>rq_method = Get, rq_path = ''/customers'', rq_query = [], rq_headers = [(''authorization'', ''Bearer jwt'')],
     rq_body = NoBody\<rparr>"

definition no_bank :: bank_state where
  "no_bank = \<lparr>bs_db = empty_db, bs_added = []\<rparr>"

lemma list_private: "\<not> public_path PUBLIC_PATH_PREFIXES (rq_path list_request)"
  by (simp add: public_path_def PUBLIC_PATH_PREFIXES_def startsWith_def list_request_def)

lemma list_admitted:
  "requireAuth (ap_verify sample_app) PUBLIC_PATH_PREFIXES (rq_path list_request) (header ''authorization'' list_request) =
     Inr (Some jane)"
  using list_private by (simp add: requireAuth_def header_def list_request_def startsWith_def BEARER_def sample_app_def)

lemma list_route:
  "find_route (ap_match sample_app) list_request bank_routes = Some (ListCustomers, \<lparr>rt_method = Get, rt_path = ''/customers'', rt_responses = [200]\<rparr>, [])"
  by (simp add: bank_routes_def healthRoutes_def customerRoutes_def list_request_def sample_app_def method_matches_def)

lemma list_reply:
  "serve_bank sample_app sample_surroundings list_request no_bank = (\<lparr>rp_status = 200, rp_body = CustomersBody [], rp_location = None\<rparr>, no_bank)"
proof -
  have "rq_body list_request = NoBody" by (simp add: list_request_def)
  then show ?thesis
    by (simp add: serve_bank_def list_admitted list_route answer_def Let_def route_defs mount_def ok_def op_bind_def on_db_def
        customer_list_def no_bank_def empty_db_def asc_by_def)
qed

definition post_request :: http_request where
  "post_request = list_request\<lparr>rq_method := Post, rq_body := JsonBody (JObj [(''name'', JStr '' Ada '')])\<rparr>"

theorem http_refines_platform_witness:
  "(bank_step (ap_sha sample_app))\<^sup>*\<^sup>* no_bank (snd (serve_bank sample_app sample_surroundings post_request no_bank))"
  by (rule http_refines_platform, rule r_into_rtranclp, rule platform_step.request)



theorem safe_methods_change_nothing_witness:
  "snd (serve_bank sample_app sample_surroundings list_request no_bank) = no_bank"
  by (rule safe_methods_change_nothing) (simp add: list_request_def)

theorem replies_as_documented_witness:
  "\<not> is_error (rp_body (fst (serve_bank sample_app sample_surroundings list_request no_bank))) \<and>
   rp_status (fst (serve_bank sample_app sample_surroundings list_request no_bank)) \<in> {200, 400, 500}"
proof -
  have "rq_body list_request \<in> {NoBody, JsonBody JNull}" by (simp add: list_request_def)
  from replies_as_documented [OF list_route list_admitted this, of sample_surroundings no_bank]
  show ?thesis by (simp add: list_reply is_error_def)
qed

end
