(* ===== verification/Open_Api.thy ===== *)
theory Open_Api
  imports Js_Text
begin

text \<open>
  \<open>packages/shared/src/openapi/merge.ts\<close>: the gateway's combined OpenAPI document. Documents are JSON;
  a property named \<open>__proto__\<close>, which JavaScript treats specially, is left out. The code copies an extra
  document's components by reference and rewrites that document afterwards for the next section, so a
  copied component is a pointer into the extra document until the document has been merged.
\<close>

section \<open>Equality and references\<close>

text \<open>\<open>deepEqual\<close>; a key that \<open>b\<close> does not have reads as \<open>undefined\<close> (or an inherited function).\<close>

fun deepEqual :: "json \<Rightarrow> json \<Rightarrow> bool"
  and equal_items :: "json list \<Rightarrow> json list \<Rightarrow> bool"
  and equal_entries :: "(string \<times> json) list \<Rightarrow> (string \<times> json) list \<Rightarrow> bool" where
  "deepEqual (JArr xs) b = (case b of JArr ys \<Rightarrow> length xs = length ys \<and> equal_items xs ys | _ \<Rightarrow> False)"
| "deepEqual (JObj kvs) b = (case b of JObj kws \<Rightarrow> length kvs = length kws \<and> equal_entries kvs kws | _ \<Rightarrow> False)"
| "deepEqual a b = (a = b)"
| "equal_items [] ys = True"
| "equal_items (x # xs) ys = (case ys of [] \<Rightarrow> False | y # zs \<Rightarrow> deepEqual x y \<and> equal_items xs zs)"
| "equal_entries [] kws = True"
| "equal_entries ((k, v) # kvs) kws =
     ((case map_of kws k of None \<Rightarrow> False | Some w \<Rightarrow> deepEqual v w) \<and> equal_entries kvs kws)"

definition ref_prefix :: "string \<Rightarrow> string" where
  "ref_prefix sec = ''#/components/'' @ sec @ ''/''"

definition rename_ref :: "string \<Rightarrow> (string \<times> string) list \<Rightarrow> string \<Rightarrow> string" where
  "rename_ref sec renames ref =
     (if startsWith ref (ref_prefix sec)
      then (case map_of renames (drop (length (ref_prefix sec)) ref) of
          Some renamed \<Rightarrow> ref_prefix sec @ renamed
        | None \<Rightarrow> ref)
      else ref)"

text \<open>The walk over a document: every \<open>$ref\<close> that is a string is replaced.\<close>

fun js_text :: "json \<Rightarrow> string" where
  "js_text (JStr s) = s"
| "js_text _ = []"

fun map_refs :: "(string \<Rightarrow> string) \<Rightarrow> json \<Rightarrow> json" where
  "map_refs f (JArr xs) = JArr (map (map_refs f) xs)"
| "map_refs f (JObj kvs) = JObj (map (\<lambda>(k, v).
     (k, if k = ''$ref'' \<and> is_JStr v then JStr (f (js_text v)) else map_refs f v)) kvs)"
| "map_refs f v = v"

definition rewriteRefs :: "string \<Rightarrow> (string \<times> string) list \<Rightarrow> json \<Rightarrow> json" where
  "rewriteRefs sec renames = map_refs (rename_ref sec renames)"

section \<open>Merging one component section\<close>

text \<open>\<open>while (candidate in targetSection || candidate in extraSection)\<close>.\<close>

definition numbered :: "string \<Rightarrow> nat \<Rightarrow> string" where
  "numbered name k = name @ ''_'' @ decimal k"

function rename_search :: "string list \<Rightarrow> string \<Rightarrow> string \<Rightarrow> nat \<Rightarrow> string" where
  "rename_search taken name candidate k =
     (if candidate \<in> set taken then rename_search taken name (numbered name k) (k + 1) else candidate)"
  by auto

lemma inj_decimal: "decimal a = decimal b \<Longrightarrow> a = b"
  using undecimal_decimal by metis

lemma finite_numbered: "finite {j. j \<ge> k \<and> numbered name j \<in> set taken}"
proof (rule finite_imageD)
  show "finite (numbered name ` {j. j \<ge> k \<and> numbered name j \<in> set taken})"
    by (rule finite_subset [of _ "set taken"]) auto
  show "inj_on (numbered name) {j. j \<ge> k \<and> numbered name j \<in> set taken}"
    by (auto simp: inj_on_def numbered_def dest: inj_decimal)
qed

text \<open>Each round uses up one taken name, and there are finitely many.\<close>

termination rename_search
proof (relation "measure (\<lambda>(taken, name, candidate, k).
    card {j. j \<ge> k \<and> numbered name j \<in> set taken} + (if candidate \<in> set taken then 1 else 0))", goal_cases)
  case 1
  then show ?case by simp
next
  case (2 taken name candidate k)
  let ?S = "\<lambda>k. {j. j \<ge> k \<and> numbered name j \<in> set taken}"
  have split: "?S k = (if numbered name k \<in> set taken then insert k (?S (k + 1)) else ?S (k + 1))"
    by (auto simp: Suc_le_eq) (metis le_neq_implies_less)+
  have "k \<notin> ?S (k + 1)" by simp
  then have "card (?S k) = card (?S (k + 1)) + (if numbered name k \<in> set taken then 1 else 0)"
    using finite_numbered [of "k + 1" name taken] by (subst split) simp
  then show ?case using 2 by simp
qed

declare rename_search.simps [simp del]

text \<open>A slot of the target: a value of its own, or the extra document's component (section and name).\<close>

datatype slot = Own json | FromExtra string string

type_synonym 'v sections = "(string, (string, 'v) jsmap) jsmap"

definition section_of :: "json \<Rightarrow> string \<Rightarrow> (string \<times> json) list option" where
  "section_of doc sec = Option.bind (prop_of ''components'' doc) (\<lambda>c. Option.bind (prop_of sec c) entries_of)"

definition slot_value :: "json \<Rightarrow> slot \<Rightarrow> json" where
  "slot_value doc sl = (case sl of
       Own v \<Rightarrow> v
     | FromExtra sec name \<Rightarrow> (case section_of doc sec of
           None \<Rightarrow> JNull
         | Some entries \<Rightarrow> (case map_of entries name of None \<Rightarrow> JNull | Some v \<Rightarrow> v)))"

definition conflicts :: "json \<Rightarrow> (string, slot) jsmap \<Rightarrow> string \<times> json \<Rightarrow> bool" where
  "conflicts doc target e \<longleftrightarrow> js_in (fst e) target \<and>
     \<not> (case map_of target (fst e) of None \<Rightarrow> False | Some sl \<Rightarrow> deepEqual (slot_value doc sl) (snd e))"

definition taken_names :: "(string, slot) jsmap \<Rightarrow> (string \<times> json) list \<Rightarrow> string list" where
  "taken_names target extra = map fst target @ map fst extra @ object_prototype"

definition renames_of :: "json \<Rightarrow> (string, slot) jsmap \<Rightarrow> (string \<times> json) list \<Rightarrow> (string \<times> string) list" where
  "renames_of doc target extra =
     map (\<lambda>e. (fst e, rename_search (taken_names target extra) (fst e) (fst e) 2)) (filter (conflicts doc target) extra)"

definition final_name :: "(string \<times> string) list \<Rightarrow> string \<Rightarrow> string" where
  "final_name renames name = (case map_of renames name of None \<Rightarrow> name | Some r \<Rightarrow> r)"

fun copy_entries :: "string \<Rightarrow> (string \<times> string) list \<Rightarrow> (string \<times> json) list \<Rightarrow> (string, slot) jsmap \<Rightarrow> (string, slot) jsmap" where
  "copy_entries sec renames [] target = target"
| "copy_entries sec renames (e # es) target = copy_entries sec renames es
     (if js_in (final_name renames (fst e)) target then target
      else js_set (final_name renames (fst e)) (FromExtra sec (fst e)) target)"

definition section_in :: "string \<Rightarrow> 'v sections \<Rightarrow> (string, 'v) jsmap" where
  "section_in sec target = (case map_of target sec of None \<Rightarrow> [] | Some t \<Rightarrow> t)"

definition mergeComponentSection :: "string \<Rightarrow> slot sections \<times> json \<Rightarrow> slot sections \<times> json" where
  "mergeComponentSection sec st = (case st of (target, doc) \<Rightarrow>
     (case section_of doc sec of
        None \<Rightarrow> (target, doc)
      | Some extra \<Rightarrow>
          let renames = renames_of doc (section_in sec target) extra;
              doc' = (if renames \<noteq> [] then rewriteRefs sec renames doc else doc)
          in (js_set sec (copy_entries sec renames extra (section_in sec target)) target, doc')))"

section \<open>Merging documents\<close>

definition COMPONENT_SECTIONS :: "string list" where
  "COMPONENT_SECTIONS = [''schemas'', ''responses'', ''parameters'', ''securitySchemes'']"

text \<open>The two parts of the base document that merging touches, \<open>{}\<close> where the document lacks them.\<close>

record openapi =
  oa_paths :: "(string, json) jsmap"
  oa_components :: "json sections"

fun copy_paths :: "(string \<times> json) list \<Rightarrow> (string, json) jsmap \<Rightarrow> (string, json) jsmap" where
  "copy_paths [] paths = paths"
| "copy_paths ((path, item) # ps) paths = copy_paths ps (if js_in path paths then paths else js_set path item paths)"

definition own :: "json sections \<Rightarrow> slot sections" where
  "own cs = map (\<lambda>(sec, m). (sec, map (\<lambda>(n, v). (n, Own v)) m)) cs"

definition settle_slots :: "json \<Rightarrow> slot sections \<Rightarrow> json sections" where
  "settle_slots doc cs = map (\<lambda>(sec, m). (sec, map (\<lambda>(n, sl). (n, slot_value doc sl)) m)) cs"

text \<open>Reading \<open>extraDoc.components\<close> of a \<open>null\<close> document throws.\<close>

definition merge_extra :: "openapi \<Rightarrow> json \<Rightarrow> string + openapi" where
  "merge_extra merged original =
     (if original = JNull then Inl ''TypeError: Cannot read properties of null''
      else case fold mergeComponentSection COMPONENT_SECTIONS (own (oa_components merged), original) of (target, extra) \<Rightarrow>
        Inr \<lparr>oa_paths = (case Option.bind (prop_of ''paths'' extra) entries_of of
                 None \<Rightarrow> oa_paths merged
               | Some ps \<Rightarrow> copy_paths ps (oa_paths merged)),
             oa_components = settle_slots extra target\<rparr>)"

fun mergeOpenApiDocuments :: "openapi \<Rightarrow> json list \<Rightarrow> string + openapi" where
  "mergeOpenApiDocuments base [] = Inr base"
| "mergeOpenApiDocuments base (extra # extras) =
     bindE (merge_extra base extra) (\<lambda>merged. mergeOpenApiDocuments merged extras)"

section \<open>Reading a rewritten document\<close>

definition map_ref_entry :: "(string \<Rightarrow> string) \<Rightarrow> string \<times> json \<Rightarrow> string \<times> json" where
  "map_ref_entry f e = (fst e, if fst e = ''$ref'' \<and> is_JStr (snd e) then JStr (f (js_text (snd e))) else map_refs f (snd e))"

lemma map_refs_obj: "map_refs f (JObj kvs) = JObj (map (map_ref_entry f) kvs)"
  by (auto simp: map_ref_entry_def)

lemma fst_map_ref_entry [simp]: "fst (map_ref_entry f e) = fst e"
  by (simp add: map_ref_entry_def)

lemma is_JStr_map_refs [simp]: "is_JStr (map_refs f v) = is_JStr v"
  by (cases v) simp_all

lemma map_refs_comp: "map_refs g (map_refs f v) = map_refs (\<lambda>r. g (f r)) v"
proof (induction f v rule: map_refs.induct)
  case (2 f kvs)
  have "map_ref_entry g (map_ref_entry f e) = map_ref_entry (\<lambda>r. g (f r)) e" if "e \<in> set kvs" for e
    using 2 [OF that, of "fst e" "snd e"] by (auto simp: map_ref_entry_def)
  then show ?case by (simp add: map_refs_obj del: map_refs.simps(2))
qed simp_all

lemma map_refs_id: "map_refs (\<lambda>r. r) v = v"
proof (induction "\<lambda>r::string. r" v rule: map_refs.induct)
  case (1 xs)
  then show ?case by (simp add: map_idI)
next
  case (2 kvs)
  have "map_ref_entry (\<lambda>r. r) e = e" if "e \<in> set kvs" for e
    using 2 [OF that, of "fst e" "snd e"] by (cases "snd e") (auto simp: map_ref_entry_def prod_eq_iff)
  then show ?case by (simp add: map_refs_obj map_idI del: map_refs.simps(2))
qed simp_all

lemma dollar_not_decimal: "decimal n \<noteq> ''$ref''"
  using decimal_digits [of n] by (auto simp: is_digit_def)

lemma entries_of_map_refs: "entries_of (map_refs f v) = map_option (map (map_ref_entry f)) (entries_of v)"
proof (cases v)
  case (JArr xs)
  have "fst x \<noteq> ''$ref''" if "x \<in> set (zip (map decimal [0..<length xs]) xs)" for x
  proof -
    have "fst x \<in> set (map decimal [0..<length xs])" by (rule set_zip_leftD [of _ "snd x"]) (use that in simp)
    then show ?thesis using dollar_not_decimal by (metis (no_types, lifting) image_iff set_map)
  qed
  then show ?thesis unfolding JArr by (simp add: zip_map2 split_beta map_ref_entry_def)
next
  case (JObj kvs)
  then show ?thesis by (simp add: map_refs_obj del: map_refs.simps(2))
qed simp_all

lemma map_of_ref_entry: "map_of (map (map_ref_entry f) kvs) k = map_option (\<lambda>v. snd (map_ref_entry f (k, v))) (map_of kvs k)"
  by (induction kvs) (auto simp: map_ref_entry_def)

lemma prop_of_map_refs: "k \<noteq> ''$ref'' \<Longrightarrow> prop_of k (map_refs f v) = map_option (map_refs f) (prop_of k v)"
  by (simp add: prop_of_def entries_of_map_refs map_of_ref_entry map_ref_entry_def option.map_comp split: option.split)

lemma section_of_map_refs:
  "sec \<noteq> ''$ref'' \<Longrightarrow> section_of (map_refs f doc) sec = map_option (map (map_ref_entry f)) (section_of doc sec)"
  by (simp add: section_of_def prop_of_map_refs entries_of_map_refs split: bind_splits)

section \<open>New names\<close>

lemma rename_search_spec:
  "rename_search taken name candidate k \<notin> set taken \<and>
   (candidate \<notin> set taken \<longrightarrow> rename_search taken name candidate k = candidate) \<and>
   (candidate \<in> set taken \<longrightarrow> (\<exists>j\<ge>k. rename_search taken name candidate k = numbered name j \<and>
      (\<forall>i. k \<le> i \<and> i < j \<longrightarrow> numbered name i \<in> set taken)))"
proof (induction taken name candidate k rule: rename_search.induct)
  case (1 taken name candidate k)
  show ?case
  proof (cases "candidate \<in> set taken")
    case False
    then show ?thesis by (simp add: rename_search.simps)
  next
    case True
    let ?r = "rename_search taken name (numbered name k) (k + 1)"
    have eq: "rename_search taken name candidate k = ?r" using True by (subst rename_search.simps) simp
    note ih = 1 [OF True]
    have "\<exists>j\<ge>k. ?r = numbered name j \<and> (\<forall>i. k \<le> i \<and> i < j \<longrightarrow> numbered name i \<in> set taken)"
    proof (cases "numbered name k \<in> set taken")
      case False
      then show ?thesis using ih by (intro exI [of _ k]) auto
    next
      case in_taken: True
      then obtain j where "j \<ge> k + 1" "?r = numbered name j"
        "\<forall>i. k + 1 \<le> i \<and> i < j \<longrightarrow> numbered name i \<in> set taken" using ih by blast
      moreover have "numbered name i \<in> set taken" if "k \<le> i" "i < j" for i
        using that in_taken calculation(3) by (cases "i = k") auto
      ultimately show ?thesis by (intro exI [of _ j]) auto
    qed
    then show ?thesis using ih True eq by simp
  qed
qed

lemma no_underscore: "CHR ''_'' \<notin> set (decimal n)"
  using decimal_digits [of n] by (auto simp: list_all_iff is_digit_def)

lemma numbered_inject: "numbered a i = numbered b j \<longleftrightarrow> a = b \<and> i = j"
proof
  assume "numbered a i = numbered b j"
  then have eq: "rev (decimal i) @ CHR ''_'' # rev a = rev (decimal j) @ CHR ''_'' # rev b"
    unfolding numbered_def by (metis append.assoc append_Cons append_Nil rev.simps(2) rev_append rev_rev_ident)
  have "takeWhile (\<lambda>c. c \<noteq> CHR ''_'') (rev (decimal n) @ CHR ''_'' # xs) = rev (decimal n)" for n xs
    using no_underscore [of n] by (subst takeWhile_append2) auto
  then have "rev (decimal i) = rev (decimal j)" using arg_cong [OF eq, of "takeWhile (\<lambda>c. c \<noteq> CHR ''_'')"] by metis
  then show "a = b \<and> i = j" using eq by simp
qed simp

lemma final_name_cases:
  fixes doc target extra
  defines "rn \<equiv> renames_of doc target extra"
  assumes "e \<in> set extra" "distinct (map fst extra)"
  obtains (kept) "\<not> conflicts doc target e" "final_name rn (fst e) = fst e"
    | (renamed) j where "conflicts doc target e" "final_name rn (fst e) = numbered (fst e) j"
        "numbered (fst e) j \<notin> set (taken_names target extra)"
proof (cases "conflicts doc target e")
  case False
  have "map_of rn (fst e) = None"
  proof (rule ccontr)
    assume "map_of rn (fst e) \<noteq> None"
    then have "fst e \<in> fst ` set rn" by (simp add: map_of_eq_None_iff)
    then obtain e' where "e' \<in> set extra" "conflicts doc target e'" "fst e' = fst e"
      by (auto simp: rn_def renames_of_def)
    then show False using False assms(2,3) by (metis eq_key_imp_eq_value prod.collapse)
  qed
  then show ?thesis using kept False by (simp add: final_name_def)
next
  case True
  let ?r = "rename_search (taken_names target extra) (fst e) (fst e) 2"
  have "(fst e, ?r) \<in> set rn" using True assms(2) by (auto simp: rn_def renames_of_def)
  moreover have "distinct (map fst rn)"
    using assms(3) by (simp add: rn_def renames_of_def o_def distinct_map_filter)
  ultimately have "map_of rn (fst e) = Some ?r" by simp
  moreover have "fst e \<in> set (taken_names target extra)" using assms(2) by (simp add: taken_names_def)
  then obtain j where "?r = numbered (fst e) j" "?r \<notin> set (taken_names target extra)"
    using rename_search_spec [of "taken_names target extra" "fst e" "fst e" 2] by blast
  ultimately show ?thesis using renamed True by (simp add: final_name_def)
qed

lemma final_names_distinct:
  assumes "distinct (map fst extra)"
  shows "inj_on (final_name (renames_of doc target extra)) (fst ` set extra)"
proof (rule inj_onI, goal_cases)
  case (1 a b)
  note same = 1(3)
  obtain ea eb where e: "ea \<in> set extra" "a = fst ea" "eb \<in> set extra" "b = fst eb" using 1 by blast
  have mem: "a \<in> set (taken_names target extra)" "b \<in> set (taken_names target extra)"
    using e by (auto simp: taken_names_def)
  show ?case
  proof (cases rule: final_name_cases [OF e(1) assms, of doc target])
    case 1
    then show ?thesis
      by (cases rule: final_name_cases [OF e(3) assms, of doc target]) (use same e(2,4) mem in auto)
  next
    case (2 j)
    then show ?thesis
      by (cases rule: final_name_cases [OF e(3) assms, of doc target]) (use same e(2,4) mem in \<open>auto simp: numbered_inject\<close>)
  qed
qed

section \<open>Copying\<close>

lemma js_in_get: "map_of t n = Some sl \<Longrightarrow> js_in n t"
  by (auto simp: js_in_def rev_image_eqI dest: map_of_SomeD)

definition place :: "string \<Rightarrow> string \<Rightarrow> slot \<Rightarrow> (string, slot) jsmap \<Rightarrow> (string, slot) jsmap" where
  "place sec n sl t = (if js_in n t then t else js_set n sl t)"

lemma copy_entries_place: "copy_entries sec rn (e # es) t =
    copy_entries sec rn es (place sec (final_name rn (fst e)) (FromExtra sec (fst e)) t)"
  by (simp add: place_def)

lemma place_keeps: "map_of t n = Some sl \<Longrightarrow> map_of (place sec m x t) n = Some sl"
  using js_in_get [of t n sl] by (auto simp: place_def js_get_set)

lemma place_in: "js_in n (place sec m x t) \<longleftrightarrow> js_in n t \<or> n = m"
  by (auto simp: place_def js_in_def js_set_keys)

lemma place_entries: "set (place sec m x t) \<subseteq> insert (m, x) (set t)"
  using js_set_entries [of m x t] by (auto simp: place_def)

lemma copy_keeps: "map_of t n = Some sl \<Longrightarrow> map_of (copy_entries sec rn es t) n = Some sl"
proof (induction es arbitrary: t)
  case (Cons e es)
  then show ?case unfolding copy_entries_place by (blast intro: place_keeps)
qed simp

lemma copy_slots: "(n, sl) \<in> set (copy_entries sec rn es t) \<Longrightarrow> (n, sl) \<in> set t \<or> (\<exists>e\<in>set es. sl = FromExtra sec (fst e))"
proof (induction es arbitrary: t)
  case (Cons e es)
  from Cons.IH [OF Cons.prems [unfolded copy_entries_place]] place_entries show ?case by fastforce
qed simp

lemma copy_lands:
  assumes "e \<in> set es" "inj_on (final_name rn) (fst ` set es)" "\<not> js_in (final_name rn (fst e)) t" "distinct (map fst es)"
  shows "map_of (copy_entries sec rn es t) (final_name rn (fst e)) = Some (FromExtra sec (fst e))"
  using assms
proof (induction es arbitrary: t)
  case (Cons x es)
  let ?t = "place sec (final_name rn (fst x)) (FromExtra sec (fst x)) t"
  show ?case
  proof (cases "e = x")
    case True
    then have "map_of ?t (final_name rn (fst e)) = Some (FromExtra sec (fst e))"
      using Cons.prems(3) by (simp add: place_def js_get_set)
    then show ?thesis unfolding copy_entries_place by (rule copy_keeps)
  next
    case False
    then have e: "e \<in> set es" using Cons.prems by simp
    then have "fst x \<noteq> fst e" using Cons.prems(4) by auto
    then have "final_name rn (fst x) \<noteq> final_name rn (fst e)"
      using inj_on_contraD [OF Cons.prems(2), of "fst x" "fst e"] e by simp
    then have out: "\<not> js_in (final_name rn (fst e)) ?t" using Cons.prems(3) by (simp add: place_in)
    have inj: "inj_on (final_name rn) (fst ` set es)" using Cons.prems(2) by (rule inj_on_subset) auto
    have "distinct (map fst es)" using Cons.prems(4) by simp
    from Cons.IH [OF e inj out this] show ?thesis unfolding copy_entries_place .
  qed
qed simp

section \<open>Following an extra document through the sections\<close>

definition comp_ref :: "string \<Rightarrow> string \<Rightarrow> string" where
  "comp_ref sec name = ref_prefix sec @ name"

lemma rename_own_section: "rename_ref sec rn (comp_ref sec n) = comp_ref sec (final_name rn n)"
  by (simp add: rename_ref_def comp_ref_def final_name_def split: option.split)

lemma rename_other_section:
  "sec \<in> set COMPONENT_SECTIONS \<Longrightarrow> sec' \<in> set COMPONENT_SECTIONS \<Longrightarrow> sec \<noteq> sec' \<Longrightarrow>
     rename_ref sec' rn (comp_ref sec n) = comp_ref sec n"
  by (auto simp: COMPONENT_SECTIONS_def rename_ref_def comp_ref_def ref_prefix_def startsWith_def)

lemma rename_nothing: "rename_ref sec [] = (\<lambda>r. r)"
  by (auto simp: rename_ref_def)

lemma section_in_set: "section_in sec' (js_set sec x t) = (if sec' = sec then x else section_in sec' t)"
  by (simp add: section_in_def js_get_set)

text \<open>
  Where the extra document's component \<open>n\<close> of section \<open>sec\<close> went: it was copied under the name its
  references now use, or the target already had an equal component of that name.
\<close>

definition landed :: "json \<Rightarrow> slot sections \<Rightarrow> slot sections \<Rightarrow> string \<Rightarrow> string \<Rightarrow> string \<Rightarrow> bool" where
  "landed doc0 target0 target sec n n' \<longleftrightarrow>
     map_of (section_in sec target) n' = Some (FromExtra sec n) \<or>
     (n' = n \<and> (\<exists>v f w entries. map_of (section_in sec target0) n = Some (Own v) \<and> section_of doc0 sec = Some entries \<and>
        (n, w) \<in> set entries \<and> deepEqual v (snd (map_ref_entry f (n, w)))))"

definition follows :: "json \<Rightarrow> slot sections \<Rightarrow> string set \<Rightarrow> (string \<Rightarrow> string) \<Rightarrow> slot sections \<Rightarrow> json \<Rightarrow> bool" where
  "follows doc0 target0 passed f target doc \<longleftrightarrow> doc = map_refs f doc0 \<and>
     (\<forall>sec n sl. map_of (section_in sec target0) n = Some sl \<longrightarrow> map_of (section_in sec target) n = Some sl) \<and>
     (\<forall>sec\<in>set COMPONENT_SECTIONS - passed. section_in sec target = section_in sec target0 \<and>
        (\<forall>n. f (comp_ref sec n) = comp_ref sec n)) \<and>
     (\<forall>sec\<in>passed. \<forall>entries. section_of doc0 sec = Some entries \<longrightarrow>
        (\<forall>n\<in>fst ` set entries. \<exists>n'. f (comp_ref sec n) = comp_ref sec n' \<and> landed doc0 target0 target sec n n')) \<and>
     (\<forall>(sec, m)\<in>set target. \<forall>(n, sl)\<in>set m. (\<exists>m0. (sec, m0) \<in> set target0 \<and> (n, sl) \<in> set m0) \<or>
        (\<exists>entries n0. sec \<in> passed \<and> section_of doc0 sec = Some entries \<and> n0 \<in> fst ` set entries \<and> sl = FromExtra sec n0))"

lemma follows_keep:
  assumes "follows doc0 target0 passed f target doc" "map_of (section_in sec target0) n = Some sl"
  shows "map_of (section_in sec target) n = Some sl"
proof -
  have "\<forall>sec n sl. map_of (section_in sec target0) n = Some sl \<longrightarrow> map_of (section_in sec target) n = Some sl"
    using assms(1) unfolding follows_def by (elim conjE) assumption
  then show ?thesis using assms(2) by simp
qed

lemma follows_passed:
  assumes "follows doc0 target0 passed f target doc" "sec \<in> passed" "section_of doc0 sec = Some entries" "n \<in> fst ` set entries"
  shows "\<exists>n'. f (comp_ref sec n) = comp_ref sec n' \<and> landed doc0 target0 target sec n n'"
proof -
  have "\<forall>sec\<in>passed. \<forall>entries. section_of doc0 sec = Some entries \<longrightarrow>
      (\<forall>n\<in>fst ` set entries. \<exists>n'. f (comp_ref sec n) = comp_ref sec n' \<and> landed doc0 target0 target sec n n')"
    using assms(1) unfolding follows_def by (elim conjE) assumption
  from this [rule_format, OF assms(2,3,4)] show ?thesis .
qed

lemma follows_slots:
  assumes "follows doc0 target0 passed f target doc" "(sec, m) \<in> set target" "(n, sl) \<in> set m"
  shows "(\<exists>m0. (sec, m0) \<in> set target0 \<and> (n, sl) \<in> set m0) \<or>
    (\<exists>entries n0. sec \<in> passed \<and> section_of doc0 sec = Some entries \<and> n0 \<in> fst ` set entries \<and> sl = FromExtra sec n0)"
proof -
  have "\<forall>(sec, m)\<in>set target. \<forall>(n, sl)\<in>set m. (\<exists>m0. (sec, m0) \<in> set target0 \<and> (n, sl) \<in> set m0) \<or>
      (\<exists>entries n0. sec \<in> passed \<and> section_of doc0 sec = Some entries \<and> n0 \<in> fst ` set entries \<and> sl = FromExtra sec n0)"
    using assms(1) unfolding follows_def by (elim conjE) assumption
  from bspec [OF bspec [OF this assms(2), unfolded prod.case] assms(3), unfolded prod.case] show ?thesis .
qed

lemma section_in_mem: "(n, sl) \<in> set (section_in sec t) \<Longrightarrow> \<exists>m. (sec, m) \<in> set t \<and> (n, sl) \<in> set m"
  by (cases "map_of t sec") (auto simp: section_in_def dest: map_of_SomeD)

lemma follows_step:
  assumes f: "follows doc0 target0 passed f target doc"
    and sec: "sec \<in> set COMPONENT_SECTIONS" "sec \<notin> passed" "passed \<subseteq> set COMPONENT_SECTIONS"
    and own: "\<And>sec n sl. map_of (section_in sec target0) n = Some sl \<Longrightarrow> \<exists>v. sl = Own v"
    and keys: "\<And>entries. section_of doc0 sec = Some entries \<Longrightarrow> distinct (map fst entries)"
  shows "\<exists>g. follows doc0 target0 (insert sec passed) g (fst (mergeComponentSection sec (target, doc)))
    (snd (mergeComponentSection sec (target, doc)))"
proof (cases "section_of doc0 sec")
  case None
  have ne: "sec \<noteq> ''$ref''" using sec(1) by (auto simp: COMPONENT_SECTIONS_def)
  have "section_of doc sec = None"
    using f None section_of_map_refs [OF ne] by (simp add: follows_def)
  then have "mergeComponentSection sec (target, doc) = (target, doc)" by (simp add: mergeComponentSection_def)
  then show ?thesis using f None unfolding follows_def by (intro exI [of _ f]) auto
next
  case (Some entries)
  have ne: "sec \<noteq> ''$ref''" using sec(1) by (auto simp: COMPONENT_SECTIONS_def)
  have doc: "doc = map_refs f doc0" and tsec: "section_in sec target = section_in sec target0"
    and idle: "\<And>n. f (comp_ref sec n) = comp_ref sec n"
    using f sec(1,2) by (auto simp: follows_def)
  define extra where "extra = map (map_ref_entry f) entries"
  have ext: "section_of doc sec = Some extra" using section_of_map_refs [OF ne] Some by (simp add: doc extra_def)
  have keys': "map fst extra = map fst entries" by (simp add: extra_def)
  define rn where "rn = renames_of doc (section_in sec target) extra"
  define g where "g = (\<lambda>r. rename_ref sec rn (f r))"
  define copied where "copied = copy_entries sec rn extra (section_in sec target)"
  have doc': "(if rn \<noteq> [] then rewriteRefs sec rn doc else doc) = map_refs g doc0"
    by (cases "rn = []") (simp_all add: rewriteRefs_def doc map_refs_comp g_def rename_nothing)
  have m: "mergeComponentSection sec (target, doc) = (js_set sec copied target, map_refs g doc0)"
    using doc' by (simp add: mergeComponentSection_def ext Let_def copied_def flip: rn_def)
  have land: "\<exists>n'. g (comp_ref sec n) = comp_ref sec n' \<and> landed doc0 target0 (js_set sec copied target) sec n n'"
    if n: "n \<in> fst ` set entries" for n
  proof -
    obtain e where e: "e \<in> set extra" "fst e = n"
      using n keys' by (metis (no_types, lifting) image_iff list.set_map)
    have d: "distinct (map fst extra)" using keys [OF Some] keys' by simp
    have inj: "inj_on (final_name rn) (fst ` set extra)" unfolding rn_def by (rule final_names_distinct [OF d])
    have g: "g (comp_ref sec n) = comp_ref sec (final_name rn n)" by (simp add: g_def idle rename_own_section)
    have in_target: "js_in (final_name rn n) (section_in sec target) \<Longrightarrow> final_name rn n = n \<and> \<not> conflicts doc (section_in sec target) e"
      using e(2) by (cases rule: final_name_cases [OF e(1) d, of doc "section_in sec target"])
        (auto simp: rn_def js_in_def taken_names_def)
    have "landed doc0 target0 (js_set sec copied target) sec n (final_name rn n)"
    proof (cases "js_in (final_name rn n) (section_in sec target)")
      case False
      then have "map_of copied (final_name rn n) = Some (FromExtra sec n)"
        using copy_lands [OF e(1) inj _ d] e(2) by (simp add: copied_def)
      then show ?thesis by (simp add: landed_def section_in_set)
    next
      case True
      then have same: "final_name rn n = n" and nc: "\<not> conflicts doc (section_in sec target) e" using in_target by auto
      obtain sl where sl: "map_of (section_in sec target0) n = Some sl" "deepEqual (slot_value doc sl) (snd e)"
        using nc True same e(2) tsec by (auto simp: conflicts_def split: option.splits)
      obtain v where "sl = Own v" using own [OF sl(1)] by blast
      moreover obtain w where "(n, w) \<in> set entries" "e = map_ref_entry f (n, w)"
        using e by (auto simp: extra_def)
      ultimately show ?thesis using sl Some same by (auto simp: landed_def slot_value_def)
    qed
    then show ?thesis using g by blast
  qed
  have old: "\<exists>n'. g (comp_ref s n) = comp_ref s n' \<and> landed doc0 target0 (js_set sec copied target) s n n'"
    if p: "s \<in> passed" "section_of doc0 s = Some es" "n \<in> fst ` set es" for s es n
  proof -
    obtain n' where n': "f (comp_ref s n) = comp_ref s n'" "landed doc0 target0 target s n n'"
      using follows_passed [OF f p] by blast
    have "s \<noteq> sec" "s \<in> set COMPONENT_SECTIONS" using p(1) sec by auto
    then have "g (comp_ref s n) = comp_ref s n'" "landed doc0 target0 (js_set sec copied target) s n n'"
      using n' sec(1) by (simp_all add: g_def rename_other_section landed_def section_in_set)
    then show ?thesis by blast
  qed
  have keep: "map_of (section_in s (js_set sec copied target)) n = Some sl"
    if a: "map_of (section_in s target0) n = Some sl" for s n sl
  proof -
    have "map_of (section_in s target) n = Some sl" by (rule follows_keep [OF f a])
    then show ?thesis by (cases "s = sec") (simp_all add: section_in_set copied_def copy_keeps)
  qed
  have slots: "(\<exists>m0. (s, m0) \<in> set target0 \<and> (n, sl) \<in> set m0) \<or>
      (\<exists>es n0. s \<in> insert sec passed \<and> section_of doc0 s = Some es \<and> n0 \<in> fst ` set es \<and> sl = FromExtra s n0)"
    if b: "(s, m) \<in> set (js_set sec copied target)" "(n, sl) \<in> set m" for s m n sl
  proof (cases "(s, m) \<in> set target")
    case True
    then show ?thesis using follows_slots [OF f True b(2)] by blast
  next
    case False
    then have s: "s = sec" "m = copied" using b(1) js_set_entries [of sec copied target] by auto
    then consider "(n, sl) \<in> set (section_in sec target)" | e where "e \<in> set extra" "sl = FromExtra sec (fst e)"
      using copy_slots b(2) unfolding copied_def by blast
    then show ?thesis
    proof cases
      case 1
      then have "(n, sl) \<in> set (section_in sec target0)" by (simp add: tsec)
      from section_in_mem [OF this] show ?thesis unfolding s(1) by (intro disjI1)
    next
      case 2
      then have "fst e \<in> fst ` set entries" using keys' by (metis image_eqI list.set_map)
      then show ?thesis using 2(2) s(1) Some by (intro disjI2 exI [of _ entries] exI [of _ "fst e"]) simp
    qed
  qed
  have idle': "section_in s (js_set sec copied target) = section_in s target0 \<and> (\<forall>n. g (comp_ref s n) = comp_ref s n)"
    if "s \<in> set COMPONENT_SECTIONS - insert sec passed" for s
    using f that sec(1) by (auto simp: follows_def section_in_set g_def rename_other_section)
  have "follows doc0 target0 (insert sec passed) g (js_set sec copied target) (map_refs g doc0)"
    unfolding follows_def
  proof (intro conjI allI impI ballI, goal_cases)
    case (6 p)
    then show ?case using slots by blast
  next
    case (5 s es n)
    then show ?case using land old Some by fastforce
  qed (use keep idle' in auto)
  then show ?thesis unfolding m by auto
qed

lemma follows_start: "follows doc0 target0 {} (\<lambda>r. r) target0 doc0"
  unfolding follows_def by (auto simp: map_refs_id)

lemma follows_fold:
  assumes "follows doc0 target0 passed f target doc" "distinct ss" "set ss \<inter> passed = {}" "set ss \<subseteq> set COMPONENT_SECTIONS"
    and "passed \<subseteq> set COMPONENT_SECTIONS"
    and own: "\<And>sec n sl. map_of (section_in sec target0) n = Some sl \<Longrightarrow> \<exists>v. sl = Own v"
    and keys: "\<And>sec entries. sec \<in> set COMPONENT_SECTIONS \<Longrightarrow> section_of doc0 sec = Some entries \<Longrightarrow> distinct (map fst entries)"
  shows "\<exists>g. follows doc0 target0 (passed \<union> set ss) g (fst (fold mergeComponentSection ss (target, doc)))
    (snd (fold mergeComponentSection ss (target, doc)))"
  using assms(1-5)
proof (induction ss arbitrary: passed f target doc)
  case (Cons sec ss)
  have sec: "sec \<in> set COMPONENT_SECTIONS" "sec \<notin> passed" using Cons.prems by auto
  obtain g where g: "follows doc0 target0 (insert sec passed) g (fst (mergeComponentSection sec (target, doc)))
      (snd (mergeComponentSection sec (target, doc)))"
    using follows_step [OF Cons.prems(1) sec Cons.prems(5)] own keys [OF sec(1)] by metis
  have "distinct ss" "set ss \<inter> insert sec passed = {}" "set ss \<subseteq> set COMPONENT_SECTIONS"
    "insert sec passed \<subseteq> set COMPONENT_SECTIONS" using Cons.prems sec by auto
  from Cons.IH [OF g this] show ?case by simp
qed auto

lemma section_in_own: "map_of (section_in sec (own cs)) n = map_option Own (map_of (section_in sec cs) n)"
proof -
  have "map_of (own cs) sec = map_option (map (\<lambda>(n, v). (n, Own v))) (map_of cs sec)"
    by (simp add: own_def map_of_map)
  then show ?thesis by (cases "map_of cs sec") (simp_all add: section_in_def map_of_map)
qed

lemma section_in_settle:
  "map_of (section_in sec (settle_slots doc cs)) n = map_option (slot_value doc) (map_of (section_in sec cs) n)"
proof -
  have "map_of (settle_slots doc cs) sec = map_option (map (\<lambda>(n, sl). (n, slot_value doc sl))) (map_of cs sec)"
    by (simp add: settle_slots_def map_of_map)
  then show ?thesis by (cases "map_of cs sec") (simp_all add: section_in_def map_of_map)
qed

definition extra_paths :: "json \<Rightarrow> (string \<times> json) list" where
  "extra_paths doc = (case Option.bind (prop_of ''paths'' doc) entries_of of None \<Rightarrow> [] | Some ps \<Rightarrow> ps)"

definition plain_sections :: "json \<Rightarrow> bool" where
  "plain_sections doc \<longleftrightarrow> (\<forall>sec\<in>set COMPONENT_SECTIONS. \<forall>entries. section_of doc sec = Some entries \<longrightarrow> distinct (map fst entries))"

lemma extra_paths_map_refs: "extra_paths (map_refs f doc) = map (map_ref_entry f) (extra_paths doc)"
  by (simp add: extra_paths_def prop_of_map_refs entries_of_map_refs split: bind_splits option.split)

text \<open>The shape of one merge: where the references go (\<open>f\<close>), and what the target holds.\<close>

lemma merge_extra_shape:
  assumes "merge_extra merged extra = Inr m" "plain_sections extra"
  obtains f target where "follows extra (own (oa_components merged)) (set COMPONENT_SECTIONS) f target (map_refs f extra)"
    "oa_paths m = copy_paths (map (map_ref_entry f) (extra_paths extra)) (oa_paths merged)"
    "oa_components m = settle_slots (map_refs f extra) target"
proof -
  let ?st = "fold mergeComponentSection COMPONENT_SECTIONS (own (oa_components merged), extra)"
  have "\<exists>g. follows extra (own (oa_components merged)) ({} \<union> set COMPONENT_SECTIONS) g (fst ?st) (snd ?st)"
  proof (rule follows_fold [OF follows_start])
    show "\<exists>v. sl = Own v" if "map_of (section_in sec (own (oa_components merged))) n = Some sl" for sec n sl
      using that by (auto simp: section_in_own)
    show "distinct (map fst entries)" if "sec \<in> set COMPONENT_SECTIONS" "section_of extra sec = Some entries" for sec entries
      using assms(2) that unfolding plain_sections_def by blast
  qed (simp_all add: COMPONENT_SECTIONS_def)
  then obtain f where f: "follows extra (own (oa_components merged)) (set COMPONENT_SECTIONS) f (fst ?st) (snd ?st)" by auto
  then have doc: "snd ?st = map_refs f extra" unfolding follows_def by (elim conjE)
  have "m = \<lparr>oa_paths = (case Option.bind (prop_of ''paths'' (snd ?st)) entries_of of
                 None \<Rightarrow> oa_paths merged | Some ps \<Rightarrow> copy_paths ps (oa_paths merged)),
             oa_components = settle_slots (snd ?st) (fst ?st)\<rparr>"
    using assms(1) by (auto simp: merge_extra_def split: if_splits prod.splits)
  moreover have "(case Option.bind (prop_of ''paths'' d) entries_of of None \<Rightarrow> oa_paths merged
      | Some ps \<Rightarrow> copy_paths ps (oa_paths merged)) = copy_paths (extra_paths d) (oa_paths merged)" for d
    by (simp add: extra_paths_def split: option.split)
  ultimately show ?thesis using that [OF f [unfolded doc]] by (simp add: doc extra_paths_map_refs)
qed

lemma copy_paths_keeps: "map_of paths p = Some item \<Longrightarrow> map_of (copy_paths ps paths) p = Some item"
proof (induction ps paths rule: copy_paths.induct)
  case (2 path x ps paths)
  have "map_of (if js_in path paths then paths else js_set path x paths) p = Some item"
    using 2(2) js_in_get [of paths p item] by (auto simp: js_get_set)
  then show ?case using 2(1) by simp
qed simp

lemma copy_paths_entries: "set (copy_paths ps paths) \<subseteq> set ps \<union> set paths"
proof (induction ps paths rule: copy_paths.induct)
  case (2 path x ps paths)
  have "set (if js_in path paths then paths else js_set path x paths) \<subseteq> insert (path, x) (set paths)"
    using js_set_entries [of path x paths] by auto
  then show ?case using 2 by auto
qed simp

lemma copy_paths_new:
  "map_of ps p = Some item \<Longrightarrow> \<not> js_in p paths \<Longrightarrow> map_of (copy_paths ps paths) p = Some item"
proof (induction ps paths rule: copy_paths.induct)
  case (2 path x ps paths)
  show ?case
  proof (cases "p = path")
    case True
    then show ?thesis using 2 by (simp add: copy_paths_keeps js_get_set)
  next
    case False
    have "\<not> js_in p (if js_in path paths then paths else js_set path x paths)"
      using 2(3) False by (auto simp: js_in_def js_set_keys)
    then show ?thesis using 2 False by simp
  qed
qed simp

section \<open>References that resolve\<close>

fun refs_of :: "json \<Rightarrow> string list" where
  "refs_of (JArr xs) = concat (map refs_of xs)"
| "refs_of (JObj kvs) = concat (map (\<lambda>(k, v). if k = ''$ref'' \<and> is_JStr v then [js_text v] else refs_of v) kvs)"
| "refs_of v = []"

definition refs_of_entry :: "string \<times> json \<Rightarrow> string list" where
  "refs_of_entry e = (if fst e = ''$ref'' \<and> is_JStr (snd e) then [js_text (snd e)] else refs_of (snd e))"

lemma refs_of_obj: "refs_of (JObj kvs) = concat (map refs_of_entry kvs)"
  by (auto simp: refs_of_entry_def split_beta intro!: arg_cong [of _ _ concat])

lemma refs_of_map_refs: "refs_of (map_refs f v) = map f (refs_of v)"
proof (induction f v rule: map_refs.induct)
  case (1 f xs)
  then show ?case by (simp add: map_concat o_def cong: map_cong)
next
  case (2 f kvs)
  have "refs_of_entry (map_ref_entry f e) = map f (refs_of_entry e)" if "e \<in> set kvs" for e
    using 2 [OF that, of "fst e" "snd e"] by (auto simp: map_ref_entry_def refs_of_entry_def)
  then show ?case by (simp add: map_refs_obj refs_of_obj map_concat o_def del: map_refs.simps(2) refs_of.simps(2) cong: map_cong)
qed simp_all

text \<open>An item's reference resolves when it names a component of one of the four sections.\<close>

definition resolves :: "json sections \<Rightarrow> string \<Rightarrow> bool" where
  "resolves cs ref \<longleftrightarrow> (\<exists>sec\<in>set COMPONENT_SECTIONS. \<exists>n. map_of (section_in sec cs) n \<noteq> None \<and> ref = comp_ref sec n)"

definition closed_entries :: "json sections \<Rightarrow> (string \<times> json) list \<Rightarrow> bool" where
  "closed_entries cs es \<longleftrightarrow> (\<forall>e\<in>set es. \<forall>r\<in>set (refs_of (snd e)). resolves cs r)"

definition closed_doc :: "openapi \<Rightarrow> bool" where
  "closed_doc m \<longleftrightarrow> closed_entries (oa_components m) (oa_paths m) \<and>
     (\<forall>(sec, es)\<in>set (oa_components m). closed_entries (oa_components m) es)"

definition as_openapi :: "json \<Rightarrow> openapi" where
  "as_openapi doc = \<lparr>oa_paths = extra_paths doc,
     oa_components = map (\<lambda>sec. (sec, case section_of doc sec of None \<Rightarrow> [] | Some es \<Rightarrow> es)) COMPONENT_SECTIONS\<rparr>"

lemma section_in_as_openapi:
  "sec \<in> set COMPONENT_SECTIONS \<Longrightarrow>
     section_in sec (oa_components (as_openapi doc)) = (case section_of doc sec of None \<Rightarrow> [] | Some es \<Rightarrow> es)"
  by (auto simp: as_openapi_def section_in_def COMPONENT_SECTIONS_def)

lemma resolves_kept:
  assumes "\<And>sec n. map_of (section_in sec cs) n \<noteq> None \<Longrightarrow> map_of (section_in sec cs') n \<noteq> None"
  shows "resolves cs r \<Longrightarrow> resolves cs' r"
  using assms unfolding resolves_def by blast

lemma refs_of_map_ref_entry: "set (refs_of (snd (map_ref_entry f e))) \<subseteq> f ` set (refs_of (snd e))"
  by (auto simp: map_ref_entry_def refs_of_map_refs)

text \<open>One merge keeps every name of the target with its value, and sends every component reference of the extra document to a name of the result.\<close>

lemma shape_keeps:
  assumes "follows extra (own (oa_components merged)) passed f target doc" "oa_components m = settle_slots doc target"
    and "map_of (section_in sec (oa_components merged)) n = Some v"
  shows "map_of (section_in sec (oa_components m)) n = Some v"
proof -
  have "map_of (section_in sec target) n = Some (Own v)"
    by (rule follows_keep [OF assms(1)]) (simp add: section_in_own assms(3))
  then show ?thesis by (simp add: assms(2) section_in_settle slot_value_def)
qed

lemma shape_lands:
  assumes f: "follows extra (own (oa_components merged)) (set COMPONENT_SECTIONS) f target (map_refs f extra)"
    and m: "oa_components m = settle_slots (map_refs f extra) target"
    and sec: "sec \<in> set COMPONENT_SECTIONS" "section_of extra sec = Some entries" "map_of entries n = Some w"
  obtains n' where "f (comp_ref sec n) = comp_ref sec n'"
    "map_of (section_in sec (oa_components m)) n' = Some (snd (map_ref_entry f (n, w))) \<or>
     (n' = n \<and> (\<exists>v g w'. map_of (section_in sec (oa_components m)) n = Some v \<and> (n, w') \<in> set entries \<and>
        deepEqual v (snd (map_ref_entry g (n, w')))))"
proof -
  have "n \<in> fst ` set entries" using sec(3) by (auto simp: rev_image_eqI dest: map_of_SomeD)
  from follows_passed [OF f sec(1,2) this]
  obtain n' where n': "f (comp_ref sec n) = comp_ref sec n'" "landed extra (own (oa_components merged)) target sec n n'" by blast
  have ne: "sec \<noteq> ''$ref''" using sec(1) by (auto simp: COMPONENT_SECTIONS_def)
  from n'(2) show ?thesis unfolding landed_def
  proof (elim disjE, goal_cases)
    case 1
    then have "map_of (section_in sec (oa_components m)) n' = Some (snd (map_ref_entry f (n, w)))"
      using sec(2,3) by (simp add: m section_in_settle slot_value_def section_of_map_refs [OF ne] map_of_ref_entry)
    then show ?case using that [OF n'(1)] by simp
  next
    case 2
    then obtain v g w' where v: "map_of (section_in sec (own (oa_components merged))) n = Some (Own v)"
      "(n, w') \<in> set entries" "deepEqual v (snd (map_ref_entry g (n, w')))" "n' = n" using sec(2) by auto
    have "map_of (section_in sec (oa_components merged)) n = Some v" using v(1) by (auto simp: section_in_own)
    from shape_keeps [OF f m this] show ?case using that [OF n'(1)] v(2-4) by blast
  qed
qed

lemma merge_extra_closed:
  assumes merge: "merge_extra merged extra = Inr m" and plain: "plain_sections extra"
    and base: "closed_doc merged" and ext: "closed_doc (as_openapi extra)"
  shows "closed_doc m"
proof -
  obtain f target where f: "follows extra (own (oa_components merged)) (set COMPONENT_SECTIONS) f target (map_refs f extra)"
    "oa_paths m = copy_paths (map (map_ref_entry f) (extra_paths extra)) (oa_paths merged)"
    "oa_components m = settle_slots (map_refs f extra) target"
    by (rule merge_extra_shape [OF merge plain])
  have keeps: "resolves (oa_components m) r" if r: "resolves (oa_components merged) r" for r
  proof (rule resolves_kept [OF _ r])
    show "map_of (section_in sec (oa_components m)) n \<noteq> None" if a: "map_of (section_in sec (oa_components merged)) n \<noteq> None" for sec n
      using a shape_keeps [OF f(1,3)] by auto
  qed
  have moved: "resolves (oa_components m) (f r)" if r: "resolves (oa_components (as_openapi extra)) r" for r
  proof -
    obtain sec n where s: "sec \<in> set COMPONENT_SECTIONS" "r = comp_ref sec n"
      "map_of (section_in sec (oa_components (as_openapi extra))) n \<noteq> None" using r unfolding resolves_def by blast
    then obtain entries w where e: "section_of extra sec = Some entries" "map_of entries n = Some w"
      by (auto simp: section_in_as_openapi split: option.splits)
    obtain n' where "f (comp_ref sec n) = comp_ref sec n'" "map_of (section_in sec (oa_components m)) n' \<noteq> None"
      by (rule shape_lands [OF f(1,3) s(1) e]) auto
    then show ?thesis unfolding resolves_def s(2) using s(1) by blast
  qed
  have entry: "resolves (oa_components m) r"
    if en: "r \<in> set (refs_of (snd (map_ref_entry f e)))" "\<forall>x\<in>set (refs_of (snd e)). resolves (oa_components (as_openapi extra)) x" for r e
  proof -
    obtain x where "x \<in> set (refs_of (snd e))" "r = f x" using refs_of_map_ref_entry en(1) by blast
    then show ?thesis using moved en(2) by blast
  qed
  have paths: "closed_entries (oa_components m) (oa_paths m)"
    unfolding closed_entries_def
  proof (intro ballI)
    fix e r assume e: "e \<in> set (oa_paths m)" "r \<in> set (refs_of (snd e))"
    have "e \<in> set (map (map_ref_entry f) (extra_paths extra)) \<union> set (oa_paths merged)"
      using e(1) copy_paths_entries unfolding f(2) by blast
    then consider "e \<in> set (oa_paths merged)" | x where "x \<in> set (extra_paths extra)" "e = map_ref_entry f x" by auto
    then show "resolves (oa_components m) r"
    proof cases
      case 1
      then show ?thesis using base e(2) keeps unfolding closed_doc_def closed_entries_def by blast
    next
      case 2
      have "\<forall>y\<in>set (refs_of (snd x)). resolves (oa_components (as_openapi extra)) y"
        using ext 2(1) unfolding closed_doc_def closed_entries_def by (simp add: as_openapi_def)
      then show ?thesis using entry e(2) 2(2) by blast
    qed
  qed
  have "closed_entries (oa_components m) es" if se: "(sec, es) \<in> set (oa_components m)" for sec es
    unfolding closed_entries_def
  proof (intro ballI)
    fix e r assume e: "e \<in> set es" "r \<in> set (refs_of (snd e))"
    obtain slots where slots: "(sec, slots) \<in> set target" "es = map (\<lambda>(n, sl). (n, slot_value (map_refs f extra) sl)) slots"
      using se unfolding f(3) settle_slots_def by auto
    obtain n sl where sl: "(n, sl) \<in> set slots" "e = (n, slot_value (map_refs f extra) sl)" using e(1) slots(2) by auto
    from follows_slots [OF f(1) slots(1) sl(1)] show "resolves (oa_components m) r"
    proof (elim disjE exE conjE, goal_cases)
      case (1 m0)
      then obtain es0 v where "(sec, es0) \<in> set (oa_components merged)" "(n, v) \<in> set es0" "sl = Own v"
        by (auto simp: own_def)
      then have "resolves (oa_components merged) r"
        using base e(2) unfolding closed_doc_def closed_entries_def by (auto simp: sl(2) slot_value_def)
      then show ?case by (rule keeps)
    next
      case (2 entries n0)
      have ne: "sec \<noteq> ''$ref''" using 2(1) by (auto simp: COMPONENT_SECTIONS_def)
      obtain w where w: "map_of entries n0 = Some w" using 2(3) by (metis map_of_eq_None_iff not_None_eq)
      have sec: "sec \<in> set COMPONENT_SECTIONS" using 2 by blast
      have "slot_value (map_refs f extra) sl = snd (map_ref_entry f (n0, w))"
        using 2 w by (simp add: slot_value_def section_of_map_refs [OF ne] map_of_ref_entry)
      then have r: "r \<in> set (refs_of (snd (map_ref_entry f (n0, w))))" using e(2) sl(2) by simp
      have "(n0, w) \<in> set (section_in sec (oa_components (as_openapi extra)))"
        using 2 w by (simp add: section_in_as_openapi [OF sec] map_of_SomeD)
      then obtain es0 where "(sec, es0) \<in> set (oa_components (as_openapi extra))" "(n0, w) \<in> set es0"
        using section_in_mem by (metis (no_types, lifting))
      then have "\<forall>y\<in>set (refs_of (snd (n0, w))). resolves (oa_components (as_openapi extra)) y"
        using ext unfolding closed_doc_def closed_entries_def by blast
      then show ?case using entry r by blast
    qed
  qed
  then show ?thesis using paths unfolding closed_doc_def by blast
qed

section \<open>Properties\<close>

lemma merge_extra_keeps:
  assumes "merge_extra merged extra = Inr m" "plain_sections extra"
  shows "map_of (oa_paths merged) p = Some item \<Longrightarrow> map_of (oa_paths m) p = Some item"
    and "map_of (section_in sec (oa_components merged)) n = Some v \<Longrightarrow> map_of (section_in sec (oa_components m)) n = Some v"
proof -
  obtain f target where f: "follows extra (own (oa_components merged)) (set COMPONENT_SECTIONS) f target (map_refs f extra)"
    "oa_paths m = copy_paths (map (map_ref_entry f) (extra_paths extra)) (oa_paths merged)"
    "oa_components m = settle_slots (map_refs f extra) target"
    by (rule merge_extra_shape [OF assms])
  show "map_of (oa_paths merged) p = Some item \<Longrightarrow> map_of (oa_paths m) p = Some item"
    unfolding f(2) by (rule copy_paths_keeps)
  show "map_of (section_in sec (oa_components merged)) n = Some v \<Longrightarrow> map_of (section_in sec (oa_components m)) n = Some v"
    by (rule shape_keeps [OF f(1,3)])
qed

text \<open>
  C39: the search for a free component name always ends, after at most as many rounds as names are taken,
  with the first of \<open>name_2\<close>, \<open>name_3\<close>, ... that neither document uses.
\<close>

theorem rename_search_ends:
  assumes "name \<in> set taken"
  shows "\<exists>j\<ge>2. j < 2 + length taken \<and> rename_search taken name name 2 = numbered name j \<and>
    numbered name j \<notin> set taken \<and> (\<forall>i. 2 \<le> i \<and> i < j \<longrightarrow> numbered name i \<in> set taken)"
proof -
  obtain j where j: "j \<ge> 2" "rename_search taken name name 2 = numbered name j"
    "\<forall>i. 2 \<le> i \<and> i < j \<longrightarrow> numbered name i \<in> set taken"
    using rename_search_spec [of taken name name 2] assms by blast
  have free: "numbered name j \<notin> set taken" using rename_search_spec [of taken name name 2] j(2) by simp
  have "numbered name ` {2..<j} \<subseteq> set taken - {name}" using j(3) by (auto simp: numbered_def)
  then have "card (numbered name ` {2..<j}) \<le> card (set taken - {name})" by (intro card_mono) auto
  moreover have "card (numbered name ` {2..<j}) = j - 2"
    by (subst card_image) (auto simp: inj_on_def numbered_inject)
  moreover have "card (set taken - {name}) < length taken"
    using assms card_length [of taken] card_Diff1_less [of "set taken" name] by simp
  ultimately have "j < 2 + length taken" using j(1) by linarith
  then show ?thesis using j free by blast
qed

text \<open>
  C40: the combined document is sound. If the base document and every extra document only refer to
  components they define, so does the result, however their names collide; and the base document wins
  every conflict: each of its paths and components is in the result unchanged.
\<close>

theorem merged_references_resolve:
  assumes "mergeOpenApiDocuments base extras = Inr m"
    and "closed_doc base" "\<forall>extra\<in>set extras. plain_sections extra \<and> closed_doc (as_openapi extra)"
  shows "closed_doc m \<and>
    (\<forall>path item. map_of (oa_paths base) path = Some item \<longrightarrow> map_of (oa_paths m) path = Some item) \<and>
    (\<forall>sec n v. map_of (section_in sec (oa_components base)) n = Some v \<longrightarrow> map_of (section_in sec (oa_components m)) n = Some v)"
  using assms
proof (induction extras arbitrary: base)
  case (Cons extra extras)
  obtain mid where mid: "merge_extra base extra = Inr mid" "mergeOpenApiDocuments mid extras = Inr m"
    using Cons.prems(1) by (auto simp: bindE_eq_Inr)
  have e: "plain_sections extra" "closed_doc (as_openapi extra)" using Cons.prems(3) by auto
  have c: "closed_doc mid" by (rule merge_extra_closed [OF mid(1) e(1) Cons.prems(2) e(2)])
  show ?case using Cons.IH [OF mid(2) c] Cons.prems(3) merge_extra_keeps [OF mid(1) e(1)] by simp
qed simp

text \<open>
  an extra document joins with its own meaning: each path the result did not have is there, with its
  references moved; a reference to one of the document's components leads either to that component,
  references moved likewise, or to one of the same name that was textually equal to it.
\<close>

theorem extra_documents_join:
  assumes "merge_extra base extra = Inr m" "plain_sections extra"
  shows "\<exists>f. (\<forall>path item. map_of (extra_paths extra) path = Some item \<longrightarrow> \<not> js_in path (oa_paths base) \<longrightarrow>
      map_of (oa_paths m) path = Some (snd (map_ref_entry f (path, item)))) \<and>
    (\<forall>sec\<in>set COMPONENT_SECTIONS. \<forall>entries n w. section_of extra sec = Some entries \<longrightarrow> map_of entries n = Some w \<longrightarrow>
      (\<exists>n'. f (comp_ref sec n) = comp_ref sec n' \<and>
        (map_of (section_in sec (oa_components m)) n' = Some (snd (map_ref_entry f (n, w))) \<or>
         (n' = n \<and> (\<exists>v g w'. map_of (section_in sec (oa_components m)) n = Some v \<and> (n, w') \<in> set entries \<and>
            deepEqual v (snd (map_ref_entry g (n, w'))))))))"
proof -
  obtain f target where f: "follows extra (own (oa_components base)) (set COMPONENT_SECTIONS) f target (map_refs f extra)"
    "oa_paths m = copy_paths (map (map_ref_entry f) (extra_paths extra)) (oa_paths base)"
    "oa_components m = settle_slots (map_refs f extra) target"
    by (rule merge_extra_shape [OF assms])
  have joins: "map_of (oa_paths m) path = Some (snd (map_ref_entry f (path, item)))"
    if "map_of (extra_paths extra) path = Some item" "\<not> js_in path (oa_paths base)" for path item
    unfolding f(2) by (rule copy_paths_new [OF _ that(2)]) (simp add: map_of_ref_entry that(1))
  have lands: "\<exists>n'. f (comp_ref sec n) = comp_ref sec n' \<and>
        (map_of (section_in sec (oa_components m)) n' = Some (snd (map_ref_entry f (n, w))) \<or>
         (n' = n \<and> (\<exists>v g w'. map_of (section_in sec (oa_components m)) n = Some v \<and> (n, w') \<in> set entries \<and>
            deepEqual v (snd (map_ref_entry g (n, w'))))))"
    if s: "sec \<in> set COMPONENT_SECTIONS" "section_of extra sec = Some entries" "map_of entries n = Some w" for sec entries n w
  proof -
    obtain n' where n': "f (comp_ref sec n) = comp_ref sec n'"
      and "map_of (section_in sec (oa_components m)) n' = Some (snd (map_ref_entry f (n, w))) \<or>
       (n' = n \<and> (\<exists>v g w'. map_of (section_in sec (oa_components m)) n = Some v \<and> (n, w') \<in> set entries \<and>
          deepEqual v (snd (map_ref_entry g (n, w')))))"
      by (rule shape_lands [OF f(1,3) s])
    then show ?thesis by (intro exI [of _ n'] conjI)
  qed
  show ?thesis
    by (rule exI [of _ f], rule conjI, intro allI impI, erule joins, assumption, intro ballI allI impI, erule lands)
qed

section \<open>Two documents that are merged wrongly\<close>

definition ref_to :: "string \<Rightarrow> json" where
  "ref_to name = JObj [(''$ref'', JStr (comp_ref ''schemas'' name))]"

definition typed :: "string \<Rightarrow> json" where
  "typed t = JObj [(''type'', JStr t)]"

text \<open>Both documents define \<open>Page\<close> as a reference to \<open>Item\<close>, and \<open>Item\<close> differently.\<close>

definition numbers_doc :: json where
  "numbers_doc = JObj [(''paths'', JObj [(''/numbers'', ref_to ''Page'')]),
     (''components'', JObj [(''schemas'', JObj [(''Page'', ref_to ''Item''), (''Item'', typed ''number'')])])]"

definition strings_api :: openapi where
  "strings_api = \<lparr>oa_paths = [(''/strings'', ref_to ''Page'')],
     oa_components = [(''schemas'', [(''Page'', ref_to ''Item''), (''Item'', typed ''string'')])]\<rparr>"

definition key_doc :: json where
  "key_doc = JObj [(''paths'', JObj [(''/admin'', JObj [(''security'', JArr [JObj [(''auth'', JArr [])]])])]),
     (''components'', JObj [(''securitySchemes'', JObj [(''auth'', typed ''apiKey'')])])]"

definition bearer_api :: openapi where
  "bearer_api = \<lparr>oa_paths = [], oa_components = [(''securitySchemes'', [(''auth'', typed ''http'')])]\<rparr>"

lemma strings_merge:
  "merge_extra strings_api numbers_doc = Inr
     \<lparr>oa_paths = [(''/strings'', ref_to ''Page''), (''/numbers'', ref_to ''Page'')],
      oa_components = [(''schemas'', [(''Page'', ref_to ''Item''), (''Item'', typed ''string''), (''Item_2'', typed ''number'')])]\<rparr>"
  by code_simp

text \<open>
  merging can change what an extra document says. Components are compared before the references inside
  them are moved, so \<open>/numbers\<close> ends up with the base's \<open>Page\<close>, a page of strings; and a security scheme
  is named by the key of a security requirement, not by a \<open>$ref\<close>, so after its scheme is renamed
  \<open>/admin\<close> asks for the base's bearer token instead of its own API key.
\<close>

theorem merge_changes_meaning:
  "mergeOpenApiDocuments strings_api [numbers_doc] = Inr
     \<lparr>oa_paths = [(''/strings'', ref_to ''Page''), (''/numbers'', ref_to ''Page'')],
      oa_components = [(''schemas'', [(''Page'', ref_to ''Item''), (''Item'', typed ''string''), (''Item_2'', typed ''number'')])]\<rparr> \<and>
   mergeOpenApiDocuments bearer_api [key_doc] = Inr
     \<lparr>oa_paths = [(''/admin'', JObj [(''security'', JArr [JObj [(''auth'', JArr [])]])])],
      oa_components = [(''securitySchemes'', [(''auth'', typed ''http''), (''auth_2'', typed ''apiKey'')])]\<rparr>"
  by code_simp

section \<open>Witnesses\<close>

theorem rename_search_ends_witness:
  "\<exists>j\<ge>2. j < 4 \<and> rename_search [''a'', ''a_2''] ''a'' ''a'' 2 = numbered ''a'' j"
  using rename_search_ends [of "''a''" "[''a'', ''a_2'']"] by fastforce

lemma refs_ref_to [simp]: "refs_of (ref_to n) = [comp_ref ''schemas'' n]" "refs_of (typed t) = []"
  by (simp_all add: ref_to_def typed_def)

lemma resolves_schema: "map_of (section_in ''schemas'' cs) n \<noteq> None \<Longrightarrow> resolves cs (comp_ref ''schemas'' n)"
  unfolding resolves_def by (intro bexI [of _ "''schemas''"] exI [of _ n]) (simp_all add: COMPONENT_SECTIONS_def)

lemma strings_closed: "closed_doc strings_api"
  by (auto simp: closed_doc_def closed_entries_def strings_api_def section_in_def intro!: resolves_schema)

lemma numbers_parts:
  "extra_paths numbers_doc = [(''/numbers'', ref_to ''Page'')]"
  "section_of numbers_doc ''schemas'' = Some [(''Page'', ref_to ''Item''), (''Item'', typed ''number'')]"
  "sec \<in> {''responses'', ''parameters'', ''securitySchemes''} \<Longrightarrow> section_of numbers_doc sec = None"
  by (auto simp: extra_paths_def section_of_def prop_of_def numbers_doc_def)

lemma numbers_plain: "plain_sections numbers_doc"
  by (auto simp: plain_sections_def COMPONENT_SECTIONS_def numbers_parts)

lemma numbers_closed: "closed_doc (as_openapi numbers_doc)"
  by (auto simp: closed_doc_def closed_entries_def as_openapi_def COMPONENT_SECTIONS_def numbers_parts section_in_def
      intro!: resolves_schema)

definition strings_and_numbers :: openapi where
  "strings_and_numbers = \<lparr>oa_paths = [(''/strings'', ref_to ''Page''), (''/numbers'', ref_to ''Page'')],
      oa_components = [(''schemas'', [(''Page'', ref_to ''Item''), (''Item'', typed ''string''), (''Item_2'', typed ''number'')])]\<rparr>"

theorem merged_references_resolve_witness: "closed_doc strings_and_numbers"
proof -
  have "mergeOpenApiDocuments strings_api [numbers_doc] = Inr strings_and_numbers"
    by (simp add: strings_merge strings_and_numbers_def)
  from merged_references_resolve [OF this strings_closed] numbers_plain numbers_closed show ?thesis by auto
qed

theorem extra_documents_join_witness:
  "\<exists>f. \<exists>n'. f (comp_ref ''schemas'' ''Item'') = comp_ref ''schemas'' n' \<and>
     map_of (section_in ''schemas'' (oa_components strings_and_numbers)) n' \<noteq> None"
proof -
  have "merge_extra strings_api numbers_doc = Inr strings_and_numbers" by (simp add: strings_merge strings_and_numbers_def)
  from extra_documents_join [OF this numbers_plain] obtain f where
    "\<forall>sec\<in>set COMPONENT_SECTIONS. \<forall>entries n w. section_of numbers_doc sec = Some entries \<longrightarrow> map_of entries n = Some w \<longrightarrow>
      (\<exists>n'. f (comp_ref sec n) = comp_ref sec n' \<and>
        (map_of (section_in sec (oa_components strings_and_numbers)) n' = Some (snd (map_ref_entry f (n, w))) \<or>
         (n' = n \<and> (\<exists>v g w'. map_of (section_in sec (oa_components strings_and_numbers)) n = Some v \<and> (n, w') \<in> set entries \<and>
            deepEqual v (snd (map_ref_entry g (n, w')))))))" by blast
  from this [rule_format, of "''schemas''" "[(''Page'', ref_to ''Item''), (''Item'', typed ''number'')]" "''Item''" "typed ''number''"]
  show ?thesis by (auto simp: COMPONENT_SECTIONS_def numbers_parts(2))
qed

end
