(* ===== verification/Docs.thy ===== *)
theory Docs
  imports Bank_Api Open_Api
begin

text \<open>
  \<open>packages/shared/src/openapi/registry.ts\<close> and \<open>docs-router.ts\<close>: the OpenAPI paths generated from the
  routes, and serving the combined document with its cache. What \<open>zod-openapi\<close> makes of the schemas is
  external, so an operation is its documented statuses and whether it carries the security requirement.
\<close>

section \<open>Paths from routes\<close>

definition word_char :: "char \<Rightarrow> bool" where
  "word_char c \<longleftrightarrow> CHR ''A'' \<le> c \<and> c \<le> CHR ''Z'' \<or> CHR ''a'' \<le> c \<and> c \<le> CHR ''z'' \<or> is_digit c \<or> c = CHR ''_''"

text \<open>\<open>replace(/:([A-Za-z0-9_]+)/g, '{$1}')\<close>.\<close>

function toOpenApiPath :: "string \<Rightarrow> string" where
  "toOpenApiPath [] = []"
| "toOpenApiPath (c # cs) =
     (if c = CHR '':'' \<and> takeWhile word_char cs \<noteq> []
      then ''{'' @ takeWhile word_char cs @ ''}'' @ toOpenApiPath (dropWhile word_char cs)
      else c # toOpenApiPath cs)"
  by pat_completeness auto
termination
  by (relation "measure length") (simp_all add: le_imp_less_Suc length_dropWhile_le)

record operation =
  op_statuses :: "nat list"
  op_secured :: bool

type_synonym path_items = "(string, (http_method, operation) jsmap) jsmap"

definition add_operation :: "string list option \<Rightarrow> path_items \<Rightarrow> route \<Rightarrow> path_items" where
  "add_operation publicPaths paths def =
     (let secured = (case publicPaths of None \<Rightarrow> False | Some ps \<Rightarrow> rt_path def \<notin> set ps);
          path = toOpenApiPath (rt_path def);
          item = (case map_of paths path of None \<Rightarrow> [] | Some m \<Rightarrow> m)
      in js_set path (js_set (rt_method def) \<lparr>op_statuses = rt_responses def, op_secured = secured\<rparr> item) paths)"

definition buildOpenApiDocument :: "route list \<Rightarrow> string list option \<Rightarrow> path_items" where
  "buildOpenApiDocument defs publicPaths = foldl (add_operation publicPaths) [] defs"

definition documented :: "path_items \<Rightarrow> string \<Rightarrow> http_method \<Rightarrow> operation option" where
  "documented paths path m = Option.bind (map_of paths path) (\<lambda>item. map_of item m)"

section \<open>The documentation endpoint\<close>

text \<open>
  One request to \<open>/docs/openapi.json\<close>: \<open>answers\<close> is what each source returns at that moment, \<open>None\<close> for an
  unreachable one or a reply that is not JSON.
\<close>

definition getDocument :: "openapi \<Rightarrow> string list \<Rightarrow> (string \<Rightarrow> json option) \<Rightarrow> openapi option
    \<Rightarrow> (string + openapi) \<times> openapi option" where
  "getDocument localDocument mergeSpecUrls answers cache =
     (if length mergeSpecUrls = 0 then (Inr localDocument, cache)
      else case cache of
        Some document \<Rightarrow> (Inr document, cache)
      | None \<Rightarrow>
          let remotes = map answers mergeSpecUrls in
          (case mergeOpenApiDocuments localDocument (map the (filter (\<lambda>doc. doc \<noteq> None) remotes)) of
             Inl err \<Rightarrow> (Inl err, None)
           | Inr merged \<Rightarrow> (Inr merged,
               if list_all (\<lambda>doc. case doc of None \<Rightarrow> False | Some v \<Rightarrow> truthy v) remotes then Some merged else None)))"

text \<open>Requests at successive moments.\<close>

fun serve_docs :: "openapi \<Rightarrow> string list \<Rightarrow> (string \<Rightarrow> json option) list \<Rightarrow> openapi option \<Rightarrow> (string + openapi) list" where
  "serve_docs doc urls [] cache = []"
| "serve_docs doc urls (answers # later) cache =
     (case getDocument doc urls answers cache of (reply, cache') \<Rightarrow> reply # serve_docs doc urls later cache')"

section \<open>Lemmas\<close>

lemma documented_add:
  "documented (add_operation ps paths def) path m =
     (if path = toOpenApiPath (rt_path def) \<and> m = rt_method def
      then Some \<lparr>op_statuses = rt_responses def,
             op_secured = (case ps of None \<Rightarrow> False | Some xs \<Rightarrow> rt_path def \<notin> set xs)\<rparr>
      else documented paths path m)"
  by (simp add: documented_def add_operation_def Let_def js_get_set split: option.splits)

lemma documented_foldl:
  "distinct (map (\<lambda>d. (toOpenApiPath (rt_path d), rt_method d)) defs) \<Longrightarrow> d \<in> set defs \<Longrightarrow>
     documented (foldl (add_operation ps) paths defs) (toOpenApiPath (rt_path d)) (rt_method d) =
       Some \<lparr>op_statuses = rt_responses d, op_secured = (case ps of None \<Rightarrow> False | Some xs \<Rightarrow> rt_path d \<notin> set xs)\<rparr>"
proof (induction defs rule: rev_induct)
  case (snoc x defs)
  show ?case
  proof (cases "d = x")
    case True
    show ?thesis unfolding True by (simp add: documented_add)
  next
    case False
    then have d: "d \<in> set defs" using snoc.prems(2) by simp
    then have "(toOpenApiPath (rt_path d), rt_method d) \<in> (\<lambda>d. (toOpenApiPath (rt_path d), rt_method d)) ` set defs" by simp
    then have "\<not> (toOpenApiPath (rt_path d) = toOpenApiPath (rt_path x) \<and> rt_method d = rt_method x)"
      using snoc.prems(1) by auto
    then show ?thesis using snoc.IH [OF _ d] snoc.prems(1) by (auto simp: documented_add)
  qed
qed simp

lemma foldl_documented:
  "documented (foldl (add_operation ps) paths defs) path m = Some op \<Longrightarrow>
     documented paths path m = Some op \<or> (\<exists>d\<in>set defs. path = toOpenApiPath (rt_path d) \<and> m = rt_method d)"
  by (induction defs rule: rev_induct) (auto simp: documented_add split: if_splits)

lemma merge_defined: "(\<exists>m. mergeOpenApiDocuments base extras = Inr m) \<longleftrightarrow> JNull \<notin> set extras"
proof (induction extras arbitrary: base)
  case (Cons x extras)
  show ?case
  proof (cases "x = JNull")
    case True
    then show ?thesis by (simp add: merge_extra_def)
  next
    case False
    then have "\<exists>mid. merge_extra base x = Inr mid"
      by (cases "fold mergeComponentSection COMPONENT_SECTIONS (own (oa_components base), x)") (simp add: merge_extra_def)
    then obtain mid where "merge_extra base x = Inr mid" ..
    then show ?thesis using Cons.IH [of mid] False by simp
  qed
qed simp

section \<open>Properties\<close>

lemma bank_paths:
  "map (\<lambda>r. (toOpenApiPath (rt_path r), rt_method r)) (map snd bank_routes) =
    [(''/health'', Get), (''/customers'', Get), (''/customers'', Post), (''/customers/{customerId}'', Get),
     (''/customers/{customerId}/accounts'', Get), (''/accounts'', Post), (''/accounts/{accountId}'', Get),
     (''/accounts/{accountId}/balance'', Get), (''/accounts/{accountId}/transfers'', Get), (''/transfers'', Post),
     (''/transfers/{transferId}'', Get), (''/accounts/{accountId}/locks'', Post), (''/accounts/{accountId}/locks'', Get),
     (''/accounts/{accountId}/locks/{lockId}'', Delete), (''/accounts/{accountId}/comments'', Post),
     (''/accounts/{accountId}/comments'', Get)]"
  by code_simp

text \<open>
  the published document is true about access: each of the banking API's routes is documented once,
  under its OpenAPI path, with its statuses, and carries the security requirement exactly when the
  guard demands a token for it; nothing but the routes is documented.
\<close>

theorem documentation_matches_guard:
  "(\<forall>(e, r)\<in>set bank_routes.
      documented (buildOpenApiDocument (map snd bank_routes) (Some [''/health''])) (toOpenApiPath (rt_path r)) (rt_method r) =
        Some \<lparr>op_statuses = rt_responses r, op_secured = (\<not> public_path PUBLIC_PATH_PREFIXES (rt_path r))\<rparr>) \<and>
   (\<forall>path m op. documented (buildOpenApiDocument (map snd bank_routes) (Some [''/health''])) path m = Some op \<longrightarrow>
      (\<exists>(e, r)\<in>set bank_routes. path = toOpenApiPath (rt_path r) \<and> m = rt_method r))"
proof -
  let ?defs = "map snd bank_routes"
  have d: "distinct (map (\<lambda>r. (toOpenApiPath (rt_path r), rt_method r)) ?defs)" unfolding bank_paths by simp
  have guard: "(rt_path r \<notin> set [''/health'']) = (\<not> public_path PUBLIC_PATH_PREFIXES (rt_path r))"
    if "(e, r) \<in> set bank_routes" for e r
    using that by (auto simp: bank_routes_def healthRoutes_def customerRoutes_def accountRoutes_def transferRoutes_def
        lockRoutes_def commentRoutes_def public_path_def PUBLIC_PATH_PREFIXES_def startsWith_def)
  have "documented (buildOpenApiDocument ?defs (Some [''/health''])) (toOpenApiPath (rt_path r)) (rt_method r) =
        Some \<lparr>op_statuses = rt_responses r, op_secured = (\<not> public_path PUBLIC_PATH_PREFIXES (rt_path r))\<rparr>"
    if er: "(e, r) \<in> set bank_routes" for e r
  proof -
    have "r \<in> set ?defs" using er by force
    from documented_foldl [OF d this, of "Some [''/health'']" "[]"] guard [OF er] show ?thesis
      by (simp add: buildOpenApiDocument_def)
  qed
  moreover have "\<exists>(e, r)\<in>set bank_routes. path = toOpenApiPath (rt_path r) \<and> m = rt_method r"
    if "documented (buildOpenApiDocument ?defs (Some [''/health''])) path m = Some op" for path m op
    using foldl_documented [OF that [unfolded buildOpenApiDocument_def]] by (auto simp: documented_def)
  ultimately show ?thesis by blast
qed

definition answered :: "string list \<Rightarrow> (string \<Rightarrow> json option) \<Rightarrow> json list" where
  "answered urls answers = map the (filter (\<lambda>doc. doc \<noteq> None) (map answers urls))"

definition complete :: "string list \<Rightarrow> (string \<Rightarrow> json option) \<Rightarrow> bool" where
  "complete urls answers \<longleftrightarrow> list_all (\<lambda>doc. case doc of None \<Rightarrow> False | Some v \<Rightarrow> truthy v) (map answers urls)"

lemma complete_merges: "complete urls a \<Longrightarrow> \<exists>m. mergeOpenApiDocuments doc (answered urls a) = Inr m"
  unfolding merge_defined by (auto simp: complete_def answered_def list_all_iff)

lemma getDocument_merges:
  "urls \<noteq> [] \<Longrightarrow> getDocument doc urls a None =
     (mergeOpenApiDocuments doc (answered urls a),
      if complete urls a then Some (projr (mergeOpenApiDocuments doc (answered urls a))) else None)"
  using complete_merges [of urls a doc]
  by (auto simp: getDocument_def Let_def answered_def complete_def split: sum.splits)

lemma serve_docs_cached: "urls \<noteq> [] \<Longrightarrow> serve_docs doc urls moments (Some m) = map (\<lambda>_. Inr m) moments"
  by (induction moments) (simp_all add: getDocument_def)

text \<open>
  the served document follows its sources until all have answered, and then stands. Up to the first
  moment at which every source answers, each request is answered with the merge of those that answer
  at that moment (a source that is still down is skipped and tried again); from then on every request
  gets that moment's document, whatever the sources do. A request fails only when a source answers the
  JSON value \<open>null\<close>, which is neither skipped nor merged.
\<close>

theorem docs_follow_sources:
  assumes "urls \<noteq> []" "list_all (\<lambda>a. \<not> complete urls a) before" "complete urls full"
  shows "serve_docs doc urls (before @ full # after) None =
      map (\<lambda>a. mergeOpenApiDocuments doc (answered urls a)) before @
      replicate (Suc (length after)) (mergeOpenApiDocuments doc (answered urls full)) \<and>
    (\<forall>a. (\<exists>m. mergeOpenApiDocuments doc (answered urls a) = Inr m) \<longleftrightarrow> Some JNull \<notin> a ` set urls)"
proof -
  have "JNull \<in> set (answered urls a) \<longleftrightarrow> Some JNull \<in> a ` set urls" for a
  proof
    show "JNull \<in> set (answered urls a) \<Longrightarrow> Some JNull \<in> a ` set urls"
      unfolding answered_def by (auto simp: image_iff) (metis)
    assume "Some JNull \<in> a ` set urls"
    then have "Some JNull \<in> set (filter (\<lambda>doc. doc \<noteq> None) (map a urls))" by simp
    then have "the (Some JNull) \<in> set (answered urls a)" unfolding answered_def set_map by (rule imageI)
    then show "JNull \<in> set (answered urls a)" by simp
  qed
  then have n: "\<forall>a. (\<exists>m. mergeOpenApiDocuments doc (answered urls a) = Inr m) \<longleftrightarrow> Some JNull \<notin> a ` set urls"
    by (simp add: merge_defined)
  obtain m where m: "mergeOpenApiDocuments doc (answered urls full) = Inr m"
    using complete_merges [OF assms(3)] by blast
  have "serve_docs doc urls (before @ full # after) None =
      map (\<lambda>a. mergeOpenApiDocuments doc (answered urls a)) before @ Inr m # map (\<lambda>_. Inr m) after"
    using assms(2)
    by (induction before)
      (simp_all add: getDocument_merges [OF assms(1)] assms(3) m serve_docs_cached [OF assms(1)])
  moreover have "replicate (Suc (length after)) (Inr m :: string + openapi) = Inr m # map (\<lambda>_. Inr m) after"
    by (simp add: map_replicate_const)
  ultimately have "serve_docs doc urls (before @ full # after) None =
      map (\<lambda>a. mergeOpenApiDocuments doc (answered urls a)) before @
      replicate (Suc (length after)) (mergeOpenApiDocuments doc (answered urls full))"
    by (simp only: m)
  then show ?thesis using n by (rule conjI)
qed

section \<open>Witnesses\<close>

theorem documentation_matches_guard_witness:
  "documented (buildOpenApiDocument (map snd bank_routes) (Some [''/health''])) (toOpenApiPath ''/accounts/:accountId/locks/:lockId'') Delete =
     Some \<lparr>op_statuses = [200, 404, 409], op_secured = True\<rparr>"
proof -
  have "(DeleteLock, \<lparr>rt_method = Delete, rt_path = ''/accounts/:accountId/locks/:lockId'', rt_responses = [200, 404, 409]\<rparr>) \<in> set bank_routes"
    by (simp add: bank_routes_def lockRoutes_def)
  from bspec [OF documentation_matches_guard [THEN conjunct1] this] show ?thesis
    by (simp add: public_path_def PUBLIC_PATH_PREFIXES_def startsWith_def)
qed

theorem docs_follow_sources_witness:
  "serve_docs strings_api [''auth''] [\<lambda>_. None, \<lambda>_. Some numbers_doc, \<lambda>_. None] None =
     [Inr strings_api, mergeOpenApiDocuments strings_api [numbers_doc], mergeOpenApiDocuments strings_api [numbers_doc]]"
  using docs_follow_sources [of "[''auth'']" "[\<lambda>_. None]" "\<lambda>_. Some numbers_doc" strings_api "[\<lambda>_. None]"]
  by (simp add: complete_def answered_def numbers_doc_def)

end
