(* ===== verification/Normalize.thy ===== *)
theory Normalize
  imports Avl
begin

text \<open>
  \<open>packages/teltonika/src/normalize.ts\<close> and \<open>io-map.ts\<close>: the known IO elements of a record pulled
  out into named fields, everything kept as text in \<open>rawIo\<close>. An optional JavaScript property is an
  \<open>option\<close>; a \<open>Date\<close> is its millisecond value; \<open>Record\<close>s of strings are maps (\<open>jsmap\<close>).
\<close>

section \<open>The AVL ids\<close>

definition ID_totalOdometer :: nat where "ID_totalOdometer = 16"
definition ID_fuelLevelObdPct :: nat where "ID_fuelLevelObdPct = 48"
definition ID_externalVoltage :: nat where "ID_externalVoltage = 66"
definition ID_batteryVoltage :: nat where "ID_batteryVoltage = 67"
definition ID_fuelLevelCanLiters :: nat where "ID_fuelLevelCanLiters = 84"
definition ID_fuelLevelCanPct :: nat where "ID_fuelLevelCanPct = 89"
definition ID_fuelLevelLls1 :: nat where "ID_fuelLevelLls1 = 201"
definition ID_fuelLevelLls2 :: nat where "ID_fuelLevelLls2 = 203"
definition ID_ignition :: nat where "ID_ignition = 239"
definition ID_movement :: nat where "ID_movement = 240"

datatype fuel_source = CanPct | CanLiters | ObdPct | Lls1 | Lls2

text \<open>The double nearest to \<open>0.1\<close>.\<close>

definition FUEL_LITERS_SCALE :: rat where "FUEL_LITERS_SCALE = rnd (1 / 10)"

section \<open>Normalising a record\<close>

record normalized_gps =
  ng_latitude :: rat
  ng_longitude :: rat
  ng_altitudeM :: int
  ng_angleDeg :: nat
  ng_satellites :: nat
  ng_speedKph :: nat

record fuel_reading =
  fu_source :: fuel_source
  fu_pct :: "int option"
  fu_liters :: "rat option"

record telemetry_payload =
  tp_imei :: string
  tp_recordedAt :: int
  tp_receivedAt :: int
  tp_priority :: nat
  tp_eventIoId :: nat
  tp_gps :: "normalized_gps option"
  tp_ignition :: "bool option"
  tp_movement :: "bool option"
  tp_fuel :: "fuel_reading list"
  tp_externalVoltageMv :: "int option"
  tp_batteryVoltageMv :: "int option"
  tp_odometerM :: "int option"
  tp_rawIo :: "(string, string) jsmap"
  tp_rawIoVariable :: "(string, string) jsmap"

definition readNumber :: "(nat, nat) jsmap \<Rightarrow> nat \<Rightarrow> int option" where
  "readNumber io avlId = map_option (\<lambda>v. to_number (int v)) (map_of io avlId)"

definition readBoolean :: "(nat, nat) jsmap \<Rightarrow> nat \<Rightarrow> bool option" where
  "readBoolean io avlId = map_option (\<lambda>v. v \<noteq> 0) (map_of io avlId)"

definition pct_reading :: "fuel_source \<Rightarrow> int option \<Rightarrow> fuel_reading list" where
  "pct_reading source v = (case v of None \<Rightarrow> []
     | Some pct \<Rightarrow> [\<lparr>fu_source = source, fu_pct = Some pct, fu_liters = None\<rparr>])"

definition readFuel :: "(nat, nat) jsmap \<Rightarrow> fuel_reading list" where
  "readFuel io =
     pct_reading CanPct (readNumber io ID_fuelLevelCanPct)
     @ (case readNumber io ID_fuelLevelCanLiters of None \<Rightarrow> []
        | Some v \<Rightarrow> [\<lparr>fu_source = CanLiters, fu_pct = None, fu_liters = Some (fmul (of_int v) FUEL_LITERS_SCALE)\<rparr>])
     @ pct_reading ObdPct (readNumber io ID_fuelLevelObdPct)
     @ pct_reading Lls1 (readNumber io ID_fuelLevelLls1)
     @ pct_reading Lls2 (readNumber io ID_fuelLevelLls2)"

text \<open>\<open>value.toString('hex')\<close>\<close>

definition hex_digit :: "nat \<Rightarrow> char" where
  "hex_digit n = char_of (if n < 10 then 48 + n else 87 + n)"

definition hex_string :: "bytes \<Rightarrow> string" where
  "hex_string bs = concat (map (\<lambda>b. [hex_digit (unat b div 16), hex_digit (unat b mod 16)]) bs)"

definition normalizeRecord :: "string \<Rightarrow> avl_record \<Rightarrow> int \<Rightarrow> telemetry_payload" where
  "normalizeRecord imei r receivedAt =
     (let rawIo = js_set_all (map (\<lambda>(i, v). (decimal i, decimal v)) (avl_io r)) [];
          rawIoVariable = js_set_all (map (\<lambda>(i, v). (decimal i, hex_string v)) (avl_ioVariable r)) [];
          gps = avl_gps r
      in \<lparr>tp_imei = imei,
          tp_recordedAt = avl_timestampMs r,
          tp_receivedAt = receivedAt,
          tp_priority = avl_priority r,
          tp_eventIoId = avl_eventIoId r,
          tp_gps = (if gps_valid gps
             then Some \<lparr>ng_latitude = gps_latitude gps, ng_longitude = gps_longitude gps,
                        ng_altitudeM = gps_altitudeM gps, ng_angleDeg = gps_angleDeg gps,
                        ng_satellites = gps_satellites gps, ng_speedKph = gps_speedKph gps\<rparr>
             else None),
          tp_ignition = readBoolean (avl_io r) ID_ignition,
          tp_movement = readBoolean (avl_io r) ID_movement,
          tp_fuel = readFuel (avl_io r),
          tp_externalVoltageMv = readNumber (avl_io r) ID_externalVoltage,
          tp_batteryVoltageMv = readNumber (avl_io r) ID_batteryVoltage,
          tp_odometerM = readNumber (avl_io r) ID_totalOdometer,
          tp_rawIo = rawIo,
          tp_rawIoVariable = rawIoVariable\<rparr>)"

section \<open>Lemmas\<close>

text \<open>Each sensor contributes at most one reading, and a reading always carries a value.\<close>

lemma readFuel_sources: "distinct (map fu_source (readFuel io))"
  by (auto simp: readFuel_def pct_reading_def split: option.splits)

lemma readFuel_has_value: "f \<in> set (readFuel io) \<Longrightarrow> fu_pct f \<noteq> None \<or> fu_liters f \<noteq> None"
  by (auto simp: readFuel_def pct_reading_def split: option.splits)

lemma map_of_map_key:
  "inj f \<Longrightarrow> map_of (map (\<lambda>(k, v). (f k, g v)) m) (f k) = map_option g (map_of m k)"
  by (induction m) (auto simp: inj_eq)

lemma rawIo_keys:
  assumes "distinct (map fst (avl_io r))"
  shows "tp_rawIo (normalizeRecord imei r t) = map (\<lambda>(i, v). (decimal i, decimal v)) (avl_io r)"
proof -
  have f: "map fst (map (\<lambda>(i, v). (decimal i, decimal v)) (avl_io r)) = map decimal (map fst (avl_io r))"
    by (simp add: comp_def split_beta)
  have "inj decimal" by (rule injI) simp
  then have "distinct (map fst (map (\<lambda>(i, v). (decimal i, decimal v)) (avl_io r)))"
    unfolding f distinct_map [of decimal] using assms inj_on_subset by blast
  then show ?thesis unfolding normalizeRecord_def Let_def by (simp add: js_set_all_fresh)
qed

lemma hex_digit_inject: "m < 16 \<Longrightarrow> n < 16 \<Longrightarrow> hex_digit m = hex_digit n \<Longrightarrow> m = n"
proof -
  assume "m < 16" "n < 16" "hex_digit m = hex_digit n"
  then have "(of_char (hex_digit m) :: nat) = of_char (hex_digit n)" by simp
  then show ?thesis using \<open>m < 16\<close> \<open>n < 16\<close> by (simp add: hex_digit_def of_char_of split: if_splits)
qed

lemma hex_string_inject: "hex_string xs = hex_string ys \<Longrightarrow> xs = ys"
proof (induction xs arbitrary: ys)
  case Nil
  then show ?case by (cases ys) (auto simp: hex_string_def)
next
  case (Cons x xs)
  then obtain y zs where ys: "ys = y # zs" by (cases ys) (auto simp: hex_string_def)
  have b: "unat x < 256" "unat y < 256" using unsigned_less [of x] unsigned_less [of y] by simp_all
  have "hex_digit (unat x div 16) = hex_digit (unat y div 16)"
    "hex_digit (unat x mod 16) = hex_digit (unat y mod 16)" "hex_string xs = hex_string zs"
    using Cons.prems by (simp_all add: ys hex_string_def)
  moreover from this(1,2) have "unat x div 16 = unat y div 16" "unat x mod 16 = unat y mod 16"
    using b by (auto intro: hex_digit_inject)
  then have "x = y" by (metis div_mult_mod_eq word_unat_eq_iff)
  ultimately show ?case using Cons.IH ys by simp
qed

section \<open>Properties\<close>

text \<open>
  normalisation drops nothing. Every IO element of a decoded record, known to this pipeline or
  not, is in \<open>rawIo\<close> under its id with its exact 64-bit value in decimal (although the named fields
  go through doubles), every variable-length element is in \<open>rawIoVariable\<close> as hex from which its
  bytes can be read back, and no other key appears.
\<close>

theorem raw_io_complete:
  assumes "distinct (map fst (avl_io r))" "distinct (map fst (avl_ioVariable r))"
  shows "map_of (tp_rawIo (normalizeRecord imei r t)) (decimal i) = map_option decimal (map_of (avl_io r) i) \<and>
    (\<forall>v. map_option undecimal (map_option decimal (map_of (avl_io r) i)) = Some v \<longleftrightarrow> map_of (avl_io r) i = Some v) \<and>
    map_of (tp_rawIoVariable (normalizeRecord imei r t)) (decimal i) = map_option hex_string (map_of (avl_ioVariable r) i) \<and>
    fst ` set (tp_rawIo (normalizeRecord imei r t)) = decimal ` fst ` set (avl_io r)"
proof -
  have inj: "inj decimal" by (rule injI) simp
  have f: "map fst (map (\<lambda>(i, v). (decimal i, hex_string v)) (avl_ioVariable r)) = map decimal (map fst (avl_ioVariable r))"
    by (simp add: comp_def split_beta)
  have "distinct (map fst (map (\<lambda>(i, v). (decimal i, hex_string v)) (avl_ioVariable r)))"
    unfolding f distinct_map [of decimal] using assms(2) inj inj_on_subset by blast
  then have "tp_rawIoVariable (normalizeRecord imei r t)
      = map (\<lambda>(i, v). (decimal i, hex_string v)) (avl_ioVariable r)"
    unfolding normalizeRecord_def Let_def by (simp add: js_set_all_fresh)
  then have v: "map_of (tp_rawIoVariable (normalizeRecord imei r t)) (decimal i)
      = map_option hex_string (map_of (avl_ioVariable r) i)"
    by (simp add: map_of_map_key [OF inj])
  have w: "map_of (tp_rawIo (normalizeRecord imei r t)) (decimal i) = map_option decimal (map_of (avl_io r) i)"
    by (simp add: rawIo_keys [OF assms(1)] map_of_map_key [OF inj])
  have "map_option undecimal (map_option decimal x) = x" for x
    by (cases x) (simp_all add: undecimal_decimal)
  moreover have "fst ` set (tp_rawIo (normalizeRecord imei r t)) = decimal ` fst ` set (avl_io r)"
    by (force simp: rawIo_keys [OF assms(1)])
  ultimately show ?thesis using v w by simp
qed

theorem raw_io_complete_witness:
  "map_of (tp_rawIo (normalizeRecord ''1'' \<lparr>avl_timestampMs = 0, avl_priority = 0, avl_gps = \<lparr>gps_longitude = 0,
      gps_latitude = 0, gps_altitudeM = 0, gps_angleDeg = 0, gps_satellites = 0, gps_speedKph = 0, gps_valid = False\<rparr>,
      avl_eventIoId = 0, avl_io = [(66, 18446744073709551615)], avl_ioVariable = []\<rparr> 0)) (decimal 66)
    = Some (decimal 18446744073709551615)"
  using raw_io_complete [of "\<lparr>avl_timestampMs = 0, avl_priority = 0, avl_gps = \<lparr>gps_longitude = 0,
      gps_latitude = 0, gps_altitudeM = 0, gps_angleDeg = 0, gps_satellites = 0, gps_speedKph = 0, gps_valid = False\<rparr>,
      avl_eventIoId = 0, avl_io = [(66, 18446744073709551615)], avl_ioVariable = []\<rparr>" "''1''" 0 66]
  by simp

end
