(* ===== verification/Events.thy ===== *)
theory Events
  imports Normalize Imei
begin

text \<open>
  \<open>packages/events\<close>: the event that travels on Kafka, its validation, the split of a packet between
  the live and the backfill topic, and the consumer's batch loop with its dead-letter path. Kafka
  itself is external: publishing is the list of topic batches handed to \<open>sendBatch\<close>, a message is
  its key, offset and value. ISO timestamps are their millisecond values; \<open>JSON.parse\<close> of
  \<open>JSON.stringify\<close> is the identity on events.
\<close>

section \<open>Topics\<close>

definition telemetryLiveTopic :: string where "telemetryLiveTopic = ''vehicle.telemetry.live''"
definition telemetryBackfillTopic :: string where "telemetryBackfillTopic = ''vehicle.telemetry.backfill''"
definition telemetryDlqTopic :: string where "telemetryDlqTopic = ''vehicle.telemetry.dlq''"

definition telemetryTopics :: "string list" where
  "telemetryTopics = [telemetryLiveTopic, telemetryBackfillTopic]"

datatype consumer_name = Locations | Fuel | Engine | Alerting

fun consumerGroups :: "consumer_name \<Rightarrow> string" where
  "consumerGroups Locations = ''telemetry.locations-writer''"
| "consumerGroups Fuel = ''telemetry.fuel-writer''"
| "consumerGroups Engine = ''telemetry.engine-writer''"
| "consumerGroups Alerting = ''telemetry.alerting''"

definition DEFAULT_BACKFILL_THRESHOLD_MS :: int where
  "DEFAULT_BACKFILL_THRESHOLD_MS = 5 * 60 * 1000"

section \<open>Building events\<close>

definition TELEMETRY_SCHEMA_VERSION :: nat where "TELEMETRY_SCHEMA_VERSION = 1"

record telemetry_event =
  te_schemaVersion :: nat
  te_dedupKey :: string
  te_imei :: string
  te_codec :: codec_id
  te_recordedAt :: int
  te_receivedAt :: int
  te_priority :: nat
  te_eventIoId :: nat
  te_gps :: "normalized_gps option"
  te_ignition :: "bool option"
  te_movement :: "bool option"
  te_fuel :: "fuel_reading list"
  te_externalVoltageMv :: "int option"
  te_batteryVoltageMv :: "int option"
  te_odometerM :: "int option"
  te_rawIo :: "(string, string) jsmap"
  te_rawIoVariable :: "(string, string) jsmap"

text \<open>\<open>toISOString\<close> throws on a \<open>Date\<close> beyond 8.64e15 ms from the epoch (an invalid date).\<close>

datatype js_error = RangeError

definition toISOString :: "int \<Rightarrow> js_error + int" where
  "toISOString ms = (if \<bar>ms\<bar> \<le> 8640000000000000 then Inr ms else Inl RangeError)"

definition dedup_key :: "string \<Rightarrow> int \<Rightarrow> nat \<Rightarrow> string" where
  "dedup_key imei timestampMs index = imei @ '':'' @ decimal (nat timestampMs) @ '':'' @ decimal index"

definition build_event :: "string \<Rightarrow> codec_id \<Rightarrow> int \<Rightarrow> nat \<times> avl_record \<Rightarrow> js_error + telemetry_event" where
  "build_event imei codec receivedAt = (\<lambda>(index, r).
     let payload = normalizeRecord imei r receivedAt in
     bindE (toISOString (tp_recordedAt payload)) (\<lambda>recordedIso.
     bindE (toISOString (tp_receivedAt payload)) (\<lambda>receivedIso.
     Inr \<lparr>te_schemaVersion = TELEMETRY_SCHEMA_VERSION,
          te_dedupKey = dedup_key imei (avl_timestampMs r) index,
          te_imei = tp_imei payload,
          te_codec = codec,
          te_recordedAt = recordedIso,
          te_receivedAt = receivedIso,
          te_priority = tp_priority payload,
          te_eventIoId = tp_eventIoId payload,
          te_gps = tp_gps payload,
          te_ignition = tp_ignition payload,
          te_movement = tp_movement payload,
          te_fuel = tp_fuel payload,
          te_externalVoltageMv = tp_externalVoltageMv payload,
          te_batteryVoltageMv = tp_batteryVoltageMv payload,
          te_odometerM = tp_odometerM payload,
          te_rawIo = tp_rawIo payload,
          te_rawIoVariable = tp_rawIoVariable payload\<rparr>)))"

definition buildTelemetryEvents ::
  "string \<Rightarrow> codec_id \<Rightarrow> avl_record list \<Rightarrow> int \<Rightarrow> js_error + telemetry_event list" where
  "buildTelemetryEvents imei codec records receivedAt =
     mapE (build_event imei codec receivedAt) (List.enumerate 0 records)"

section \<open>Validation\<close>

text \<open>\<open>z.number().int()\<close> takes safe integers.\<close>

definition safe_int :: "int \<Rightarrow> bool" where
  "safe_int n \<longleftrightarrow> \<bar>n\<bar> \<le> MAX_SAFE_INTEGER"

definition optional :: "('a \<Rightarrow> bool) \<Rightarrow> 'a option \<Rightarrow> bool" where
  "optional p x = (case x of None \<Rightarrow> True | Some v \<Rightarrow> p v)"

definition gpsSchema :: "normalized_gps \<Rightarrow> bool" where
  "gpsSchema g \<longleftrightarrow> - 90 \<le> ng_latitude g \<and> ng_latitude g \<le> 90 \<and>
     - 180 \<le> ng_longitude g \<and> ng_longitude g \<le> 180 \<and> safe_int (ng_altitudeM g)"

definition fuelReadingSchema :: "fuel_reading \<Rightarrow> bool" where
  "fuelReadingSchema f \<longleftrightarrow> fu_pct f \<noteq> None \<or> fu_liters f \<noteq> None"

definition telemetryEventSchema :: "telemetry_event \<Rightarrow> bool" where
  "telemetryEventSchema e \<longleftrightarrow>
     te_schemaVersion e = TELEMETRY_SCHEMA_VERSION \<and> te_dedupKey e \<noteq> [] \<and> isValidImei (te_imei e) \<and>
     iso_datetime_ok (te_recordedAt e) \<and> iso_datetime_ok (te_receivedAt e) \<and>
     optional gpsSchema (te_gps e) \<and> list_all fuelReadingSchema (te_fuel e) \<and>
     optional safe_int (te_externalVoltageMv e) \<and> optional safe_int (te_batteryVoltageMv e) \<and>
     optional safe_int (te_odometerM e)"

text \<open>A message body: absent, not JSON, JSON that is no event at all, or an event to validate.\<close>

datatype kafka_value = NullValue | InvalidJson string | OtherJson string | EventJson telemetry_event

datatype rejection = NoValue | BadJson string | SchemaMismatch

fun decodeTelemetryEvent :: "kafka_value \<Rightarrow> rejection + telemetry_event" where
  "decodeTelemetryEvent NullValue = Inl NoValue"
| "decodeTelemetryEvent (InvalidJson m) = Inl (BadJson m)"
| "decodeTelemetryEvent (OtherJson m) = Inl SchemaMismatch"
| "decodeTelemetryEvent (EventJson e) = (if telemetryEventSchema e then Inr e else Inl SchemaMismatch)"

section \<open>Publishing\<close>

datatype freshness = Live | Backfill

definition classifyFreshness :: "int \<Rightarrow> telemetry_event \<Rightarrow> freshness" where
  "classifyFreshness thresholdMs e =
     (if te_receivedAt e - te_recordedAt e > thresholdMs then Backfill else Live)"

record publish_options =
  po_liveTopic :: "string option"
  po_backfillTopic :: "string option"
  po_backfillThresholdMs :: "int option"

record outgoing =
  og_key :: string
  og_value :: kafka_value

type_synonym topic_batch = "string \<times> outgoing list"

definition event_topic :: "string \<Rightarrow> string \<Rightarrow> int \<Rightarrow> telemetry_event \<Rightarrow> string" where
  "event_topic liveTopic backfillTopic thresholdMs e =
     (if classifyFreshness thresholdMs e = Backfill then backfillTopic else liveTopic)"

definition outgoing_of :: "telemetry_event \<Rightarrow> outgoing" where
  "outgoing_of e = \<lparr>og_key = te_imei e, og_value = EventJson e\<rparr>"

text \<open>The loop that fills \<open>byTopic\<close>.\<close>

fun batch_by_topic :: "(telemetry_event \<Rightarrow> string) \<Rightarrow> telemetry_event list \<Rightarrow> (string, outgoing list) jsmap
    \<Rightarrow> (string, outgoing list) jsmap" where
  "batch_by_topic topic [] byTopic = byTopic"
| "batch_by_topic topic (e # es) byTopic =
     (let batch = (case map_of byTopic (topic e) of None \<Rightarrow> [] | Some b \<Rightarrow> b)
      in batch_by_topic topic es (js_set (topic e) (batch @ [outgoing_of e]) byTopic))"

text \<open>The argument of \<open>sendBatch\<close>, or no call at all.\<close>

definition publishTelemetry :: "publish_options \<Rightarrow> telemetry_event list \<Rightarrow> topic_batch list option" where
  "publishTelemetry options events =
     (if events = [] then None
      else let liveTopic = (case po_liveTopic options of None \<Rightarrow> telemetryLiveTopic | Some t \<Rightarrow> t);
               backfillTopic = (case po_backfillTopic options of None \<Rightarrow> telemetryBackfillTopic | Some t \<Rightarrow> t);
               thresholdMs = (case po_backfillThresholdMs options of None \<Rightarrow> DEFAULT_BACKFILL_THRESHOLD_MS | Some n \<Rightarrow> n)
           in Some (batch_by_topic (event_topic liveTopic backfillTopic thresholdMs) events []))"

section \<open>Consuming a batch\<close>

record kafka_message =
  km_key :: string
  km_value :: kafka_value
  km_offset :: nat

record dead_letter =
  dl_key :: string
  dl_value :: kafka_value
  dl_reason :: rejection
  dl_source :: string
  dl_offset :: nat
  dl_group :: string

definition deadLetter :: "string \<Rightarrow> string \<Rightarrow> kafka_message \<Rightarrow> rejection \<Rightarrow> dead_letter" where
  "deadLetter groupId source m reason = \<lparr>dl_key = km_key m, dl_value = km_value m, dl_reason = reason,
     dl_source = source, dl_offset = km_offset m, dl_group = groupId\<rparr>"

text \<open>
  The loop of \<open>eachBatch\<close>. Before each message the group membership is checked (\<open>alive\<close>); the
  producer of the dead-letter topic may fail (\<open>dlq_up\<close>), which ends the batch with a throw. Both
  are read per message. Without a dead-letter topic (\<open>has_dlq\<close>) a rejected message is dropped.
\<close>

datatype batch_result =
    Abandoned "dead_letter list" \<comment> \<open>a rebalance took the partition away\<close>
  | DlqFailed "dead_letter list"
  | Collected "telemetry_event list" "dead_letter list"

fun collect_batch :: "(kafka_message \<Rightarrow> bool) \<Rightarrow> (kafka_message \<Rightarrow> bool) \<Rightarrow> bool \<Rightarrow> string \<Rightarrow> string \<Rightarrow>
    kafka_message list \<Rightarrow> telemetry_event list \<Rightarrow> dead_letter list \<Rightarrow> batch_result" where
  "collect_batch alive dlq_up has_dlq groupId topic [] events dead = Collected events dead"
| "collect_batch alive dlq_up has_dlq groupId topic (m # ms) events dead =
     (if \<not> alive m then Abandoned dead
      else case decodeTelemetryEvent (km_value m) of
          Inr e \<Rightarrow> collect_batch alive dlq_up has_dlq groupId topic ms (events @ [e]) dead
        | Inl reason \<Rightarrow>
            if \<not> has_dlq then collect_batch alive dlq_up has_dlq groupId topic ms events dead
            else if \<not> dlq_up m then DlqFailed dead
            else collect_batch alive dlq_up has_dlq groupId topic ms events
                   (dead @ [deadLetter groupId topic m reason]))"

text \<open>
  The rest of \<open>eachBatch\<close>: the handler runs once, on all decoded events, and what it throws
  propagates to kafkajs, which retries the whole batch (\<open>Inl\<close>).
\<close>

datatype 'e batch_error = DlqUnavailable | HandlerError 'e

definition eachBatch :: "(telemetry_event list \<Rightarrow> freshness \<Rightarrow> 's \<Rightarrow> ('e + unit) \<times> 's) \<Rightarrow> string \<Rightarrow> string \<Rightarrow> string \<Rightarrow>
    (kafka_message \<Rightarrow> bool) \<Rightarrow> (kafka_message \<Rightarrow> bool) \<Rightarrow> bool \<Rightarrow> kafka_message list \<Rightarrow> 's \<Rightarrow>
    ('e batch_error + unit) \<times> dead_letter list \<times> 's" where
  "eachBatch handler backfill groupId topic alive dlq_up has_dlq messages s =
     (case collect_batch alive dlq_up has_dlq groupId topic messages [] [] of
        Abandoned dead \<Rightarrow> (Inr (), dead, s)
      | DlqFailed dead \<Rightarrow> (Inl DlqUnavailable, dead, s)
      | Collected events dead \<Rightarrow>
          if events = [] then (Inr (), dead, s)
          else (case handler events (if topic = backfill then Backfill else Live) s of
              (Inr _, s') \<Rightarrow> (Inr (), dead, s')
            | (Inl e, s') \<Rightarrow> (Inl (HandlerError e), dead, s')))"

section \<open>Lemmas\<close>

lemma mapE_Inr_nth: "mapE f xs = Inr ys \<Longrightarrow> length ys = length xs \<and> (\<forall>i<length xs. f (xs ! i) = Inr (ys ! i))"
proof (induction xs arbitrary: ys)
  case Nil
  then show ?case by simp
next
  case (Cons x xs)
  then obtain y zs where z: "f x = Inr y" "mapE f xs = Inr zs" "ys = y # zs" by (auto simp: bindE_eq_Inr)
  from Cons.IH [OF z(2)] z show ?case by (auto simp: nth_Cons split: nat.splits)
qed

lemma build_event_Inr:
  "build_event imei codec t (i, r) = Inr e \<longleftrightarrow> \<bar>avl_timestampMs r\<bar> \<le> 8640000000000000 \<and> \<bar>t\<bar> \<le> 8640000000000000 \<and>
     e = (let p = normalizeRecord imei r t in
       \<lparr>te_schemaVersion = TELEMETRY_SCHEMA_VERSION, te_dedupKey = dedup_key imei (avl_timestampMs r) i,
        te_imei = imei, te_codec = codec, te_recordedAt = avl_timestampMs r, te_receivedAt = t,
        te_priority = tp_priority p, te_eventIoId = tp_eventIoId p, te_gps = tp_gps p,
        te_ignition = tp_ignition p, te_movement = tp_movement p, te_fuel = tp_fuel p,
        te_externalVoltageMv = tp_externalVoltageMv p, te_batteryVoltageMv = tp_batteryVoltageMv p,
        te_odometerM = tp_odometerM p, te_rawIo = tp_rawIo p, te_rawIoVariable = tp_rawIoVariable p\<rparr>)"
  by (auto simp: build_event_def Let_def bindE_eq_Inr toISOString_def normalizeRecord_def split: if_splits)

lemma batch_by_topic_get:
  "map_of (batch_by_topic topic es m) t =
     (case filter (\<lambda>e. topic e = t) es of
        [] \<Rightarrow> map_of m t
      | hits \<Rightarrow> Some ((case map_of m t of None \<Rightarrow> [] | Some b \<Rightarrow> b) @ map outgoing_of hits))"
proof (induction es arbitrary: m)
  case Nil
  then show ?case by simp
next
  case (Cons e es)
  show ?case
    by (simp add: Let_def Cons js_get_set split: list.splits option.splits)
qed

lemma batch_by_topic_keys:
  "fst ` set (batch_by_topic topic es m) = fst ` set m \<union> topic ` set es"
  by (induction es arbitrary: m) (auto simp: Let_def js_set_keys)

lemma batch_by_topic_distinct:
  "distinct (map fst m) \<Longrightarrow> distinct (map fst (batch_by_topic topic es m))"
  by (induction es arbitrary: m) (auto simp: Let_def js_set_distinct)

text \<open>What a healthy batch delivers: every message goes exactly one way, in order.\<close>

definition decoded_of :: "kafka_message list \<Rightarrow> telemetry_event list" where
  "decoded_of ms = List.map_filter (\<lambda>m. case decodeTelemetryEvent (km_value m) of Inr e \<Rightarrow> Some e | Inl _ \<Rightarrow> None) ms"

definition rejected_of :: "string \<Rightarrow> string \<Rightarrow> kafka_message list \<Rightarrow> dead_letter list" where
  "rejected_of groupId topic ms = List.map_filter (\<lambda>m. case decodeTelemetryEvent (km_value m) of
     Inr e \<Rightarrow> None | Inl reason \<Rightarrow> Some (deadLetter groupId topic m reason)) ms"

lemma collect_batch_healthy:
  assumes "list_all alive ms" "list_all dlq_up ms"
  shows "collect_batch alive dlq_up True g t ms es ds = Collected (es @ decoded_of ms) (ds @ rejected_of g t ms)"
  using assms
  by (induction ms arbitrary: es ds)
    (auto simp: decoded_of_def rejected_of_def map_filter_simps split: sum.splits)

text \<open>
  What the loop should do with a message, said without the loop: whether it carries an event of the schema, why it is
  rejected otherwise, and whether the loop gets past it.
\<close>

definition carries_event :: "kafka_message \<Rightarrow> bool" where
  "carries_event m = (case km_value m of EventJson e \<Rightarrow> telemetryEventSchema e | _ \<Rightarrow> False)"

definition reason_of :: "kafka_value \<Rightarrow> rejection" where
  "reason_of v = (case v of NullValue \<Rightarrow> NoValue | InvalidJson m \<Rightarrow> BadJson m | _ \<Rightarrow> SchemaMismatch)"

definition gets_through :: "(kafka_message \<Rightarrow> bool) \<Rightarrow> (kafka_message \<Rightarrow> bool) \<Rightarrow> bool \<Rightarrow> kafka_message \<Rightarrow> bool" where
  "gets_through alive dlq_up has_dlq m \<longleftrightarrow> alive m \<and> (if has_dlq then carries_event m \<or> dlq_up m else True)"

lemma decode_message:
  "decodeTelemetryEvent (km_value m) = (case km_value m of EventJson e \<Rightarrow> if carries_event m then Inr e else Inl SchemaMismatch
     | v \<Rightarrow> Inl (reason_of v))"
  by (simp add: carries_event_def reason_of_def split: kafka_value.splits)

lemma decoded_values: "map EventJson (decoded_of ms) = map km_value (filter carries_event ms)"
  by (induction ms) (auto simp: decoded_of_def map_filter_simps carries_event_def split: kafka_value.splits)

lemma rejected_values:
  "rejected_of g t ms = map (\<lambda>m. \<lparr>dl_key = km_key m, dl_value = km_value m, dl_reason = reason_of (km_value m),
     dl_source = t, dl_offset = km_offset m, dl_group = g\<rparr>) (filter (\<lambda>m. \<not> carries_event m) ms)"
  by (induction ms)
    (auto simp: rejected_of_def map_filter_simps carries_event_def reason_of_def deadLetter_def split: kafka_value.splits)

lemma decoded_Cons: "decoded_of (m # ms) = (case decodeTelemetryEvent (km_value m) of Inr e \<Rightarrow> e # decoded_of ms | Inl _ \<Rightarrow> decoded_of ms)"
  by (simp add: decoded_of_def map_filter_simps split: sum.split)

lemma rejected_Cons: "rejected_of g t (m # ms) = (case decodeTelemetryEvent (km_value m) of
    Inr _ \<Rightarrow> rejected_of g t ms | Inl r \<Rightarrow> deadLetter g t m r # rejected_of g t ms)"
  by (simp add: rejected_of_def map_filter_simps split: sum.split)

lemma collect_batch_outcome:
  "collect_batch alive dlq_up has_dlq g t ms es ds =
    (let passed = takeWhile (gets_through alive dlq_up has_dlq) ms; dead = ds @ (if has_dlq then rejected_of g t passed else []) in
     case dropWhile (gets_through alive dlq_up has_dlq) ms of
       [] \<Rightarrow> Collected (es @ decoded_of passed) dead
     | m # rest \<Rightarrow> if alive m then DlqFailed dead else Abandoned dead)"
proof (induction ms arbitrary: es ds)
  case Nil
  then show ?case by (simp add: decoded_of_def rejected_of_def map_filter_simps)
next
  case (Cons m ms)
  have empty: "rejected_of g t [] = []" by (simp add: rejected_of_def map_filter_simps)
  have g: "gets_through alive dlq_up h m \<longleftrightarrow> alive m \<and> (if h then carries_event m \<or> dlq_up m else True)" for h
    by (rule gets_through_def)
  consider e where "decodeTelemetryEvent (km_value m) = Inr e" "carries_event m"
    | r where "decodeTelemetryEvent (km_value m) = Inl r" "\<not> carries_event m"
    by (cases "km_value m"; cases "carries_event m") (simp_all add: carries_event_def)
  then show ?case
  proof cases
    case 1
    then show ?thesis using Cons.IH [of "es @ [e]" ds]
      by (cases has_dlq; cases "alive m"; cases "dlq_up m"; cases "dropWhile (gets_through alive dlq_up has_dlq) ms")
        (simp_all add: g decoded_Cons rejected_Cons empty Let_def del: dropWhile_eq_Nil_conv dropWhile_eq_Cons_conv)
  next
    case 2
    then show ?thesis using Cons.IH [of es ds] Cons.IH [of es "ds @ [deadLetter g t m r]"]
      by (cases has_dlq; cases "alive m"; cases "dlq_up m"; cases "dropWhile (gets_through alive dlq_up has_dlq) ms")
        (simp_all add: g decoded_Cons rejected_Cons empty Let_def del: dropWhile_eq_Nil_conv dropWhile_eq_Cons_conv)
  qed
qed

lemma decode_Inr: "decodeTelemetryEvent v = Inr e \<longleftrightarrow> v = EventJson e \<and> telemetryEventSchema e"
  by (cases v) auto

section \<open>Properties\<close>

text \<open>
  publishing splits a packet by freshness and loses nothing: the request has one batch per topic
  used; a topic's batch holds exactly the events that belong there, in the packet's order, each
  keyed by its IMEI (so a vehicle stays on one partition); and a record is backfill exactly when
  it is more than the threshold old on arrival.
\<close>

theorem publish_partitions:
  assumes "events \<noteq> []" "po_liveTopic o1 = None" "po_backfillTopic o1 = None" "po_backfillThresholdMs o1 = Some n"
  shows "\<exists>batches. publishTelemetry o1 events = Some batches \<and> distinct (map fst batches) \<and>
    fst ` set batches \<subseteq> set telemetryTopics \<and>
    (case map_of batches telemetryLiveTopic of None \<Rightarrow> [] | Some b \<Rightarrow> b) =
      map outgoing_of (filter (\<lambda>e. te_receivedAt e - te_recordedAt e \<le> n) events) \<and>
    (case map_of batches telemetryBackfillTopic of None \<Rightarrow> [] | Some b \<Rightarrow> b) =
      map outgoing_of (filter (\<lambda>e. te_receivedAt e - te_recordedAt e > n) events)"
proof -
  let ?t = "event_topic telemetryLiveTopic telemetryBackfillTopic n"
  have ne: "telemetryLiveTopic \<noteq> telemetryBackfillTopic"
    by (simp add: telemetryLiveTopic_def telemetryBackfillTopic_def)
  have l: "?t e = telemetryLiveTopic \<longleftrightarrow> te_receivedAt e - te_recordedAt e \<le> n" for e
    using ne by (auto simp: event_topic_def classifyFreshness_def)
  have b: "?t e = telemetryBackfillTopic \<longleftrightarrow> te_receivedAt e - te_recordedAt e > n" for e
    using ne by (auto simp: event_topic_def classifyFreshness_def)
  have "publishTelemetry o1 events = Some (batch_by_topic ?t events [])"
    using assms by (simp add: publishTelemetry_def)
  moreover have "distinct (map fst (batch_by_topic ?t events []))" by (rule batch_by_topic_distinct) simp
  moreover have "fst ` set (batch_by_topic ?t events []) \<subseteq> set telemetryTopics"
    unfolding batch_by_topic_keys by (auto simp: event_topic_def telemetryTopics_def)
  ultimately show ?thesis
    by (intro exI [of _ "batch_by_topic ?t events []"])
      (auto simp: batch_by_topic_get l b split: list.splits)
qed

text \<open>
  C19: what \<open>eachBatch\<close> does with any batch, whatever fails. It works through the messages up to the first one before
  which the group membership is lost, or which is bad while the dead-letter producer is down. Of those it passes, each
  is one of two things: it carries a valid event, or a copy of it (key, value, offset, source, group and reason) is on
  the dead-letter topic, if there is one; without one a bad message is dropped. If it passes all, the valid events go
  to the handler in order and in one call, none if there are none, and what the handler throws makes kafkajs deliver
  the batch again. If the dead-letter producer is down, the batch is delivered again too and the handler has seen
  nothing. If the membership is lost, it returns as if the batch were done, and the handler has seen nothing either.
\<close>

theorem batch_exactly_one_way:
  fixes ms alive dlq_up has_dlq
  defines "passed \<equiv> takeWhile (gets_through alive dlq_up has_dlq) ms"
  shows "\<exists>events dead. map EventJson events = map km_value (filter carries_event passed) \<and>
    dead = (if has_dlq then map (\<lambda>m. \<lparr>dl_key = km_key m, dl_value = km_value m, dl_reason = reason_of (km_value m),
        dl_source = topic, dl_offset = km_offset m, dl_group = groupId\<rparr>) (filter (\<lambda>m. \<not> carries_event m) passed) else []) \<and>
    eachBatch handler backfill groupId topic alive dlq_up has_dlq ms s =
      (case dropWhile (gets_through alive dlq_up has_dlq) ms of
         m # _ \<Rightarrow> (if alive m then Inl DlqUnavailable else Inr (), dead, s)
       | [] \<Rightarrow> if events = [] then (Inr (), dead, s)
           else (case handler events (if topic = backfill then Backfill else Live) s of
               (Inr _, s') \<Rightarrow> (Inr (), dead, s')
             | (Inl e, s') \<Rightarrow> (Inl (HandlerError e), dead, s')))"
proof -
  define dead where "dead = (if has_dlq then rejected_of groupId topic passed else [])"
  have c: "collect_batch alive dlq_up has_dlq groupId topic ms [] [] = (case dropWhile (gets_through alive dlq_up has_dlq) ms of
      [] \<Rightarrow> Collected (decoded_of passed) dead | m # rest \<Rightarrow> if alive m then DlqFailed dead else Abandoned dead)"
    unfolding collect_batch_outcome Let_def passed_def dead_def append_Nil ..
  have "eachBatch handler backfill groupId topic alive dlq_up has_dlq ms s =
      (case dropWhile (gets_through alive dlq_up has_dlq) ms of
         m # _ \<Rightarrow> (if alive m then Inl DlqUnavailable else Inr (), dead, s)
       | [] \<Rightarrow> if decoded_of passed = [] then (Inr (), dead, s)
           else (case handler (decoded_of passed) (if topic = backfill then Backfill else Live) s of
               (Inr _, s') \<Rightarrow> (Inr (), dead, s')
             | (Inl e, s') \<Rightarrow> (Inl (HandlerError e), dead, s')))"
    unfolding eachBatch_def c by (simp split: list.split del: dropWhile_eq_Nil_conv)
  then show ?thesis
    by (intro exI [of _ "decoded_of passed"] exI [of _ dead]) (simp only: decoded_values rejected_values dead_def simp_thms)
qed

lemma built_event_valid:
  assumes "build_event imei codec t (i, r) = Inr e" "isValidImei imei"
  shows "telemetryEventSchema e \<longleftrightarrow>
    iso_datetime_ok (avl_timestampMs r) \<and> iso_datetime_ok t \<and>
    (gps_valid (avl_gps r) \<longrightarrow> \<bar>gps_latitude (avl_gps r)\<bar> \<le> 90 \<and> \<bar>gps_longitude (avl_gps r)\<bar> \<le> 180 \<and>
       safe_int (gps_altitudeM (avl_gps r))) \<and>
    optional safe_int (readNumber (avl_io r) ID_externalVoltage) \<and>
    optional safe_int (readNumber (avl_io r) ID_batteryVoltage) \<and>
    optional safe_int (readNumber (avl_io r) ID_totalOdometer)"
proof -
  have "list_all fuelReadingSchema (readFuel (avl_io r))"
    using readFuel_has_value by (fastforce simp: list_all_iff fuelReadingSchema_def)
  then show ?thesis
    using assms
    by (auto simp: build_event_Inr telemetryEventSchema_def Let_def normalizeRecord_def dedup_key_def
        optional_def gpsSchema_def abs_le_iff)
qed

text \<open>
  C20: which device records the consumers can accept at all. An event built from a record under a valid
  IMEI passes the schema exactly when both clocks have four-digit years, a reported position is
  inside the coordinate ranges and altitude, voltages and odometer are safe integers. Everything
  else about a device's data (unknown ids, any fuel value, any IO width) is accepted.
\<close>

theorem built_event_valid_iff:
  assumes "build_event imei codec t (i, r) = Inr e" "isValidImei imei"
  shows "telemetryEventSchema e \<longleftrightarrow>
    iso_datetime_ok (avl_timestampMs r) \<and> iso_datetime_ok t \<and>
    (gps_valid (avl_gps r) \<longrightarrow> \<bar>gps_latitude (avl_gps r)\<bar> \<le> 90 \<and> \<bar>gps_longitude (avl_gps r)\<bar> \<le> 180 \<and>
       safe_int (gps_altitudeM (avl_gps r))) \<and>
    optional safe_int (readNumber (avl_io r) ID_externalVoltage) \<and>
    optional safe_int (readNumber (avl_io r) ID_batteryVoltage) \<and>
    optional safe_int (readNumber (avl_io r) ID_totalOdometer)"
  by (rule built_event_valid [OF assms])

definition sample_avl :: "int \<Rightarrow> avl_record" where
  "sample_avl ts = \<lparr>avl_timestampMs = ts, avl_priority = 0, avl_gps = \<lparr>gps_longitude = 25, gps_latitude = 54,
     gps_altitudeM = 0, gps_angleDeg = 0, gps_satellites = 9, gps_speedKph = 0, gps_valid = True\<rparr>,
     avl_eventIoId = 0, avl_io = [(ID_fuelLevelCanPct, 40)], avl_ioVariable = []\<rparr>"

theorem built_event_valid_iff_witness:
  "\<exists>e. build_event ''356307042441013'' Codec8 1700000000000 (0, sample_avl 1600000000000) = Inr e \<and> telemetryEventSchema e"
proof -
  obtain e where e: "build_event ''356307042441013'' Codec8 1700000000000 (0, sample_avl 1600000000000) = Inr e"
    by (simp add: build_event_Inr sample_avl_def)
  have "isValidImei ''356307042441013''" by (simp add: isValidImei_def IMEI_DIGITS_def is_digit_def)
  from built_event_valid_iff [OF e this] e show ?thesis
    by (simp add: sample_avl_def iso_datetime_ok_def optional_def readNumber_def safe_int_def MAX_SAFE_INTEGER_def
        ID_fuelLevelCanPct_def ID_externalVoltage_def ID_batteryVoltage_def ID_totalOdometer_def)
qed

definition sample_event :: "int \<Rightarrow> telemetry_event" where
  "sample_event ts = projr (build_event ''356307042441013'' Codec8 1700000000000 (0, sample_avl ts))"

lemma sample_event_fields:
  "\<bar>ts\<bar> \<le> 8640000000000000 \<Longrightarrow> te_recordedAt (sample_event ts) = ts \<and> te_receivedAt (sample_event ts) = 1700000000000"
  by (simp add: sample_event_def build_event_def toISOString_def normalizeRecord_def sample_avl_def Let_def)

lemma sample_event_valid:
  "0 \<le> ts \<Longrightarrow> ts \<le> 253402300799999 \<Longrightarrow> telemetryEventSchema (sample_event ts)"
  by (simp add: sample_event_def build_event_def toISOString_def normalizeRecord_def sample_avl_def Let_def
      telemetryEventSchema_def dedup_key_def isValidImei_def IMEI_DIGITS_def is_digit_def iso_datetime_ok_def optional_def
      gpsSchema_def safe_int_def MAX_SAFE_INTEGER_def readNumber_def readFuel_def pct_reading_def fuelReadingSchema_def
      ID_fuelLevelCanPct_def ID_fuelLevelCanLiters_def ID_fuelLevelObdPct_def ID_fuelLevelLls1_def ID_fuelLevelLls2_def
      ID_externalVoltage_def ID_batteryVoltage_def ID_totalOdometer_def)

lemma sample_event_gps:
  "\<bar>ts\<bar> \<le> 8640000000000000 \<Longrightarrow> te_gps (sample_event ts) = Some \<lparr>ng_latitude = 54, ng_longitude = 25, ng_altitudeM = 0,
     ng_angleDeg = 0, ng_satellites = 9, ng_speedKph = 0\<rparr>"
  by (simp add: sample_event_def build_event_def toISOString_def normalizeRecord_def sample_avl_def Let_def)

theorem publish_partitions_witness:
  "\<exists>batches. publishTelemetry \<lparr>po_liveTopic = None, po_backfillTopic = None, po_backfillThresholdMs = Some 300000\<rparr>
      [sample_event 1600000000000, sample_event 1700000000000] = Some batches \<and>
    (case map_of batches telemetryBackfillTopic of None \<Rightarrow> [] | Some b \<Rightarrow> b) = [outgoing_of (sample_event 1600000000000)]"
proof -
  let ?o = "\<lparr>po_liveTopic = None, po_backfillTopic = None, po_backfillThresholdMs = Some 300000\<rparr>"
  let ?es = "[sample_event 1600000000000, sample_event 1700000000000]"
  have f: "filter (\<lambda>e. te_receivedAt e - te_recordedAt e > 300000) ?es = [sample_event 1600000000000]"
    by (simp add: sample_event_fields)
  have "\<exists>batches. publishTelemetry ?o ?es = Some batches \<and> distinct (map fst batches) \<and>
    fst ` set batches \<subseteq> set telemetryTopics \<and>
    (case map_of batches telemetryLiveTopic of None \<Rightarrow> [] | Some b \<Rightarrow> b) =
      map outgoing_of (filter (\<lambda>e. te_receivedAt e - te_recordedAt e \<le> 300000) ?es) \<and>
    (case map_of batches telemetryBackfillTopic of None \<Rightarrow> [] | Some b \<Rightarrow> b) =
      map outgoing_of (filter (\<lambda>e. te_receivedAt e - te_recordedAt e > 300000) ?es)"
    by (rule publish_partitions) simp_all
  then obtain batches where "publishTelemetry ?o ?es = Some batches"
    "(case map_of batches telemetryBackfillTopic of None \<Rightarrow> [] | Some b \<Rightarrow> b) =
      map outgoing_of (filter (\<lambda>e. te_receivedAt e - te_recordedAt e > 300000) ?es)"
    by (elim exE conjE) (rule that)
  then show ?thesis unfolding f by (intro exI [of _ batches]) simp
qed

text \<open>
  Three messages, the second one empty: with the producer up the handler gets both events; with it down the batch is
  thrown; and when the membership is lost before the third, the first event is passed over in silence.
\<close>

definition mixed_batch :: "kafka_message list" where
  "mixed_batch = [\<lparr>km_key = ''k'', km_value = EventJson (sample_event 1600000000000), km_offset = 7\<rparr>,
     \<lparr>km_key = ''k'', km_value = NullValue, km_offset = 8\<rparr>,
     \<lparr>km_key = ''k'', km_value = EventJson (sample_event 1600000001000), km_offset = 9\<rparr>]"

theorem batch_exactly_one_way_witness:
  "eachBatch (\<lambda>es fr n. (Inr () :: string + unit, n + length es)) ''b'' ''g'' ''t'' (\<lambda>m. km_offset m < 9) (\<lambda>_. True) True mixed_batch 0 =
     (Inr (), [\<lparr>dl_key = ''k'', dl_value = NullValue, dl_reason = NoValue, dl_source = ''t'', dl_offset = 8, dl_group = ''g''\<rparr>], 0) \<and>
   eachBatch (\<lambda>es fr n. (Inr () :: string + unit, n + length es)) ''b'' ''g'' ''t'' (\<lambda>_. True) (\<lambda>_. False) True mixed_batch 0 =
     (Inl DlqUnavailable, [], 0)"
  using batch_exactly_one_way [of "\<lambda>m. km_offset m < 9" "\<lambda>_. True" True mixed_batch "''t''" "''g''"
      "\<lambda>es fr n. (Inr () :: string + unit, n + length es)" "''b''" 0]
    batch_exactly_one_way [of "\<lambda>_. True" "\<lambda>_. False" True mixed_batch "''t''" "''g''"
      "\<lambda>es fr n. (Inr () :: string + unit, n + length es)" "''b''" 0]
  by (simp add: mixed_batch_def gets_through_def carries_event_def reason_of_def sample_event_valid)

end
