(* ===== verification/Telemetry_Db.thy ===== *)
theory Telemetry_Db
  imports Events Errors
begin

text \<open>
  The telemetry cluster: the tables of \<open>packages/db-telemetry/src/schema/telemetry.ts\<close> as lists of
  rows in insertion order, and the multi-row \<open>INSERT ... ON CONFLICT DO NOTHING\<close> the writers use.
  The random \<open>id\<close> and the \<open>created_at\<close> of the reading tables and of \<open>vehicle_alerts\<close> are read by
  nobody and left out. A timestamp is its millisecond value, a \<open>numeric(8,2)\<close> its hundredths.
\<close>

section \<open>Tables\<close>

type_synonym uuid = string

datatype engine_event_type = Ignition_on | Ignition_off | Movement_start | Movement_stop

datatype vehicle_alert_type = Low_fuel | Geofence_exit | Speeding

record vehicle_row =
  ve_id :: uuid
  ve_seq :: int
  ve_imei :: string
  ve_label :: "string option"

record location_row =
  lo_vehicleId :: uuid
  lo_recordedAt :: int
  lo_receivedAt :: int
  lo_latitude :: rat
  lo_longitude :: rat
  lo_altitudeM :: int
  lo_angleDeg :: int
  lo_satellites :: int
  lo_speedKph :: int

record fuel_row =
  fr_vehicleId :: uuid
  fr_recordedAt :: int
  fr_receivedAt :: int
  fr_source :: fuel_source
  fr_levelPct :: "int option"
  fr_levelLiters :: "int option"

record engine_row =
  en_vehicleId :: uuid
  en_recordedAt :: int
  en_receivedAt :: int
  en_eventType :: engine_event_type

record geofence_row =
  ge_id :: uuid
  ge_name :: string
  ge_centerLatitude :: rat
  ge_centerLongitude :: rat
  ge_radiusM :: int
  ge_active :: bool

text \<open>What an alert rule matched on: a JSON object.\<close>

datatype alert_details =
    FuelDetails (levelPct: int) (thresholdPct: int) (sourceName: fuel_source)
  | SpeedDetails (speedKph: int) (limitKph: int)
  | FenceDetails (nearestGeofenceId: uuid) (nearestGeofenceName: string) (distanceM: int) (radiusM: int)

record alert_row =
  al_vehicleId :: uuid
  al_alertType :: vehicle_alert_type
  al_recordedAt :: int
  al_details :: alert_details

record alert_state_row =
  as_vehicleId :: uuid
  as_alertType :: vehicle_alert_type
  as_active :: bool
  as_lastFiredAt :: "int option"
  as_updatedAt :: int

record telemetry_db =
  tb_vehicles :: "vehicle_row list"
  tb_locations :: "location_row list"
  tb_fuel :: "fuel_row list"
  tb_engine :: "engine_row list"
  tb_geofences :: "geofence_row list"
  tb_alerts :: "alert_row list"
  tb_alertStates :: "alert_state_row list"
  tb_seq_vehicles :: int

definition empty_telemetry_db :: telemetry_db where
  "empty_telemetry_db = \<lparr>tb_vehicles = [], tb_locations = [], tb_fuel = [], tb_engine = [], tb_geofences = [],
     tb_alerts = [], tb_alertStates = [], tb_seq_vehicles = 1\<rparr>"

section \<open>INSERT ... ON CONFLICT DO NOTHING\<close>

text \<open>
  Each row's values and CHECK constraints are tested first (\<open>chk\<close>), then its key is looked up among
  the stored rows and the ones this statement already added. An error undoes the statement.
\<close>

fun insert_rows :: "('r \<Rightarrow> pg_error option) \<Rightarrow> ('r \<Rightarrow> 'k) \<Rightarrow> 'r list \<Rightarrow> 'r list \<Rightarrow> pg_error + 'r list" where
  "insert_rows chk key [] tbl = Inr tbl"
| "insert_rows chk key (r # rs) tbl = (case chk r of
       Some e \<Rightarrow> Inl e
     | None \<Rightarrow> if key r \<in> key ` set tbl then insert_rows chk key rs tbl
               else insert_rows chk key rs (tbl @ [r]))"

text \<open>The foreign key to \<open>vehicles\<close> is checked for the added rows when the statement ends.\<close>

definition insert_ignore :: "('r \<Rightarrow> pg_error option) \<Rightarrow> ('r \<Rightarrow> 'k) \<Rightarrow> string \<Rightarrow> ('r \<Rightarrow> bool) \<Rightarrow> 'r list \<Rightarrow> 'r list
    \<Rightarrow> pg_error + 'r list" where
  "insert_ignore chk key fk_name fk rows tbl =
     bindE (insert_rows chk key rows tbl) (\<lambda>tbl'.
       if list_all fk (drop (length tbl) tbl') then Inr tbl' else Inl (ForeignKeyViolation fk_name))"

definition vehicle_exists :: "telemetry_db \<Rightarrow> uuid \<Rightarrow> bool" where
  "vehicle_exists db i \<longleftrightarrow> (\<exists>v\<in>set (tb_vehicles db). ve_id v = i)"

definition find_vehicle :: "string \<Rightarrow> telemetry_db \<Rightarrow> vehicle_row option" where
  "find_vehicle imei db = find (\<lambda>v. ve_imei v = imei) (tb_vehicles db)"

subsection \<open>Vehicles\<close>

definition vehicles_imei_digits :: "string \<Rightarrow> bool" where
  "vehicles_imei_digits imei \<longleftrightarrow> length imei = 15 \<and> list_all is_digit imei"

text \<open>The conflict target is any unique index: the IMEI's and the primary key's.\<close>

definition insert_vehicle :: "uuid \<Rightarrow> string \<Rightarrow> (telemetry_db, thrown, unit) op" where
  "insert_vehicle newId imei db =
     (let db' = db\<lparr>tb_seq_vehicles := tb_seq_vehicles db + 1\<rparr>;
          row = \<lparr>ve_id = newId, ve_seq = tb_seq_vehicles db, ve_imei = imei, ve_label = None\<rparr>
      in if \<not> vehicles_imei_digits imei then (Inl (DbErr (CheckViolation ''vehicles_imei_digits'')), db')
         else if find_vehicle imei db \<noteq> None \<or> vehicle_exists db newId then (Inr (), db')
         else (Inr (), db'\<lparr>tb_vehicles := tb_vehicles db @ [row]\<rparr>))"

subsection \<open>Readings\<close>

definition int4 :: "int \<Rightarrow> bool" where
  "int4 n \<longleftrightarrow> - (2 ^ 31) \<le> n \<and> n < 2 ^ 31"

definition int2 :: "int \<Rightarrow> bool" where
  "int2 n \<longleftrightarrow> - (2 ^ 15) \<le> n \<and> n < 2 ^ 15"

definition numeric_8_2 :: "int \<Rightarrow> bool" where
  "numeric_8_2 hundredths \<longleftrightarrow> \<bar>hundredths\<bar> < 10 ^ 8"

definition location_check :: "location_row \<Rightarrow> pg_error option" where
  "location_check r =
     (if \<not> (int4 (lo_altitudeM r) \<and> int4 (lo_angleDeg r) \<and> int2 (lo_satellites r) \<and> int4 (lo_speedKph r))
      then Some NumericOutOfRange
      else if \<not> (- 90 \<le> lo_latitude r \<and> lo_latitude r \<le> 90 \<and> - 180 \<le> lo_longitude r \<and> lo_longitude r \<le> 180)
      then Some (CheckViolation ''vehicle_locations_coordinates_in_range'')
      else None)"

definition location_key :: "location_row \<Rightarrow> uuid \<times> int" where
  "location_key r = (lo_vehicleId r, lo_recordedAt r)"

definition fuel_check :: "fuel_row \<Rightarrow> pg_error option" where
  "fuel_check r =
     (if \<not> optional int4 (fr_levelPct r) \<or> \<not> optional numeric_8_2 (fr_levelLiters r) then Some NumericOutOfRange
      else if fr_levelPct r = None \<and> fr_levelLiters r = None
      then Some (CheckViolation ''vehicle_fuel_readings_has_a_value'')
      else if \<not> optional (\<lambda>p. 0 \<le> p \<and> p \<le> 100) (fr_levelPct r)
      then Some (CheckViolation ''vehicle_fuel_readings_pct_in_range'')
      else None)"

definition fuel_key :: "fuel_row \<Rightarrow> uuid \<times> int \<times> fuel_source" where
  "fuel_key r = (fr_vehicleId r, fr_recordedAt r, fr_source r)"

definition engine_key :: "engine_row \<Rightarrow> uuid \<times> int \<times> engine_event_type" where
  "engine_key r = (en_vehicleId r, en_recordedAt r, en_eventType r)"

definition insert_locations :: "location_row list \<Rightarrow> (telemetry_db, thrown, unit) op" where
  "insert_locations rows db =
     (case insert_ignore location_check location_key ''vehicle_locations_vehicle_id_vehicles_id_fk''
             (\<lambda>r. vehicle_exists db (lo_vehicleId r)) rows (tb_locations db) of
        Inl e \<Rightarrow> (Inl (DbErr e), db)
      | Inr tbl \<Rightarrow> (Inr (), db\<lparr>tb_locations := tbl\<rparr>))"

definition insert_fuel :: "fuel_row list \<Rightarrow> (telemetry_db, thrown, unit) op" where
  "insert_fuel rows db =
     (case insert_ignore fuel_check fuel_key ''vehicle_fuel_readings_vehicle_id_vehicles_id_fk''
             (\<lambda>r. vehicle_exists db (fr_vehicleId r)) rows (tb_fuel db) of
        Inl e \<Rightarrow> (Inl (DbErr e), db)
      | Inr tbl \<Rightarrow> (Inr (), db\<lparr>tb_fuel := tbl\<rparr>))"

definition insert_engine :: "engine_row list \<Rightarrow> (telemetry_db, thrown, unit) op" where
  "insert_engine rows db =
     (case insert_ignore (\<lambda>_. None) engine_key ''vehicle_engine_events_vehicle_id_vehicles_id_fk''
             (\<lambda>r. vehicle_exists db (en_vehicleId r)) rows (tb_engine db) of
        Inl e \<Rightarrow> (Inl (DbErr e), db)
      | Inr tbl \<Rightarrow> (Inr (), db\<lparr>tb_engine := tbl\<rparr>))"

section \<open>What a deduplicating insert stores\<close>

text \<open>The rows whose key was not there before, the first of each key.\<close>

fun keep_new :: "('r \<Rightarrow> 'k) \<Rightarrow> 'k set \<Rightarrow> 'r list \<Rightarrow> 'r list" where
  "keep_new key seen [] = []"
| "keep_new key seen (r # rs) =
     (if key r \<in> seen then keep_new key seen rs else r # keep_new key (insert (key r) seen) rs)"

lemma insert_rows_ok:
  "list_all (\<lambda>r. chk r = None) rows \<Longrightarrow> insert_rows chk key rows tbl = Inr (tbl @ keep_new key (key ` set tbl) rows)"
  by (induction rows arbitrary: tbl) (auto simp: image_Un)

lemma insert_rows_bad:
  "\<not> list_all (\<lambda>r. chk r = None) rows \<Longrightarrow> \<exists>e. insert_rows chk key rows tbl = Inl e"
  by (induction rows arbitrary: tbl) (auto split: option.splits)

lemma insert_rows_error:
  "insert_rows chk key rows tbl = Inl e \<Longrightarrow> \<exists>r\<in>set rows. chk r = Some e"
  by (induction rows arbitrary: tbl) (auto split: option.splits if_splits)

lemma keep_new_keys: "key ` set (keep_new key seen rows) = key ` set rows - seen"
  by (induction rows arbitrary: seen) auto

lemma keep_new_subset: "set (keep_new key seen rows) \<subseteq> set rows"
  by (induction rows arbitrary: seen) auto

lemma keep_new_distinct: "distinct (map key (keep_new key seen rows))"
proof (induction rows arbitrary: seen)
  case Nil
  then show ?case by simp
next
  case (Cons r rs)
  have "key r \<notin> key ` set (keep_new key (insert (key r) seen) rs)" by (simp add: keep_new_keys)
  then show ?case using Cons by auto
qed

lemma keep_new_known: "key ` set rows \<subseteq> seen \<Longrightarrow> keep_new key seen rows = []"
  by (induction rows) auto

lemma keep_new_all: "distinct (map key rows) \<Longrightarrow> key ` set rows \<inter> seen = {} \<Longrightarrow> keep_new key seen rows = rows"
  by (induction rows arbitrary: seen) auto

lemma insert_ignore_ok:
  assumes "list_all (\<lambda>r. chk r = None) rows" "list_all fk rows"
  shows "insert_ignore chk key n fk rows tbl = Inr (tbl @ keep_new key (key ` set tbl) rows)"
proof -
  have "list_all fk (keep_new key (key ` set tbl) rows)"
    using assms(2) keep_new_subset by (fastforce simp: list_all_iff)
  then show ?thesis using assms(1) by (simp add: insert_ignore_def insert_rows_ok)
qed

lemma insert_ignore_bad:
  "\<not> list_all (\<lambda>r. chk r = None) rows \<Longrightarrow> \<exists>e. insert_ignore chk key n fk rows tbl = Inl e"
  using insert_rows_bad [of chk rows key tbl] by (auto simp: insert_ignore_def)

lemma insert_ignore_Inr:
  "insert_ignore chk key n fk rows tbl = Inr tbl' \<Longrightarrow>
     tbl' = tbl @ keep_new key (key ` set tbl) rows \<and> list_all (\<lambda>r. chk r = None) rows"
  using insert_ignore_bad [of chk rows key n fk tbl]
  by (cases "list_all (\<lambda>r. chk r = None) rows")
    (auto simp: insert_ignore_def insert_rows_ok split: if_splits)

end
