(* ===== verification/Vehicles.thy ===== *)
theory Vehicles
  imports Telemetry_Db
begin

text \<open>
  \<open>apps/telemetry-consumers/src/vehicles.ts\<close>: the registry that turns an IMEI into a vehicle id and
  registers it on first sight, its cache, and what keeps it coherent when several consumer
  processes race on a new device.
\<close>

section \<open>The registry\<close>

text \<open>
  The state of one consumer process: the database, the registry's cache, the last known engine
  states and the loaded geofences. A uuid is never the empty string, so \<open>if (cached)\<close> tests presence.
\<close>

record vehicle_state =
  vs_ignition :: "bool option"
  vs_movement :: "bool option"

record worker =
  wk_db :: telemetry_db
  wk_cache :: "(string, uuid) jsmap"
  wk_states :: "(uuid, vehicle_state) jsmap"
  wk_fences :: "(geofence_row list \<times> int) option"

definition new_worker :: "telemetry_db \<Rightarrow> worker" where
  "new_worker db = \<lparr>wk_db = db, wk_cache = [], wk_states = [], wk_fences = None\<rparr>"

type_synonym 'a worker_op = "(worker, thrown, 'a) op"

definition on_db :: "(telemetry_db, thrown, 'a) op \<Rightarrow> 'a worker_op" where
  "on_db f w = (case f (wk_db w) of (r, db) \<Rightarrow> (r, w\<lparr>wk_db := db\<rparr>))"

definition vanished :: "string \<Rightarrow> thrown" where
  "vanished imei = PlainErr (''vehicle for IMEI '' @ imei @ '' vanished after upsert'')"

text \<open>\<open>newId imei\<close> is the id the database draws if this call inserts \<open>imei\<close>.\<close>

definition resolve :: "(string \<Rightarrow> uuid) \<Rightarrow> string \<Rightarrow> uuid worker_op" where
  "resolve newId imei w = (case map_of (wk_cache w) imei of
       Some cached \<Rightarrow> (Inr cached, w)
     | None \<Rightarrow> op_bind (on_db (insert_vehicle (newId imei) imei)) (\<lambda>_.
         op_bind (op_gets (\<lambda>w. find_vehicle imei (wk_db w))) (\<lambda>row.
         case row of
           None \<Rightarrow> op_throw (vanished imei)
         | Some row \<Rightarrow> (\<lambda>w. (Inr (ve_id row), w\<lparr>wk_cache := js_set imei (ve_id row) (wk_cache w)\<rparr>)))) w)"

text \<open>\<open>new Set(imeis)\<close> iterates over the first occurrence of each.\<close>

fun js_Set :: "'a list \<Rightarrow> 'a list" where
  "js_Set [] = []"
| "js_Set (x # xs) = x # js_Set (filter (\<lambda>y. y \<noteq> x) xs)"

fun resolve_each :: "(string \<Rightarrow> uuid) \<Rightarrow> string list \<Rightarrow> (string, uuid) jsmap \<Rightarrow> (string, uuid) jsmap worker_op" where
  "resolve_each newId [] resolved = op_return resolved"
| "resolve_each newId (imei # imeis) resolved =
     op_bind (resolve newId imei) (\<lambda>i. resolve_each newId imeis (js_set imei i resolved))"

definition resolveAll :: "(string \<Rightarrow> uuid) \<Rightarrow> string list \<Rightarrow> (string, uuid) jsmap worker_op" where
  "resolveAll newId imeis = resolve_each newId (js_Set imeis) []"

section \<open>Coherence\<close>

text \<open>The database side: one row per IMEI and per id. The cache only repeats stored rows.\<close>

definition fleet_ok :: "telemetry_db \<Rightarrow> bool" where
  "fleet_ok db \<longleftrightarrow> distinct (map ve_imei (tb_vehicles db)) \<and> distinct (map ve_id (tb_vehicles db)) \<and>
     (\<forall>v\<in>set (tb_vehicles db). vehicles_imei_digits (ve_imei v))"

definition vehicle_id :: "telemetry_db \<Rightarrow> string \<Rightarrow> uuid option" where
  "vehicle_id db imei = map_option ve_id (find_vehicle imei db)"

definition cache_ok :: "telemetry_db \<Rightarrow> (string, uuid) jsmap \<Rightarrow> bool" where
  "cache_ok db cache \<longleftrightarrow> (\<forall>(imei, i)\<in>set cache. vehicle_id db imei = Some i)"

definition registry_ok :: "worker \<Rightarrow> bool" where
  "registry_ok w \<longleftrightarrow> fleet_ok (wk_db w) \<and> cache_ok (wk_db w) (wk_cache w)"

text \<open>Ids drawn at random do not collide with stored ones or each other.\<close>

definition ids_fresh :: "(string \<Rightarrow> uuid) \<Rightarrow> telemetry_db \<Rightarrow> bool" where
  "ids_fresh newId db \<longleftrightarrow> inj newId \<and> (\<forall>v\<in>set (tb_vehicles db). \<forall>imei. newId imei = ve_id v \<longrightarrow> imei = ve_imei v)"

text \<open>Only \<open>vehicles\<close> (and its sequence) may differ, and it only grows.\<close>

definition fleet_grows :: "telemetry_db \<Rightarrow> telemetry_db \<Rightarrow> bool" where
  "fleet_grows db db' \<longleftrightarrow> (\<exists>vs n. db' = db\<lparr>tb_vehicles := tb_vehicles db @ vs, tb_seq_vehicles := n\<rparr>)"

lemma fleet_grows_refl: "fleet_grows db db"
  unfolding fleet_grows_def by (intro exI [of _ "[]"] exI [of _ "tb_seq_vehicles db"]) simp

lemma fleet_grows_trans:
  assumes "fleet_grows a b" "fleet_grows b c"
  shows "fleet_grows a c"
proof -
  obtain vs n ws m where "b = a\<lparr>tb_vehicles := tb_vehicles a @ vs, tb_seq_vehicles := n\<rparr>"
      "c = b\<lparr>tb_vehicles := tb_vehicles b @ ws, tb_seq_vehicles := m\<rparr>"
    using assms by (auto simp: fleet_grows_def)
  then show ?thesis unfolding fleet_grows_def by (intro exI [of _ "vs @ ws"] exI [of _ m]) simp
qed

lemma fleet_grows_tables:
  assumes "fleet_grows db db'"
  shows "tb_locations db' = tb_locations db" "tb_fuel db' = tb_fuel db" "tb_engine db' = tb_engine db"
    "tb_geofences db' = tb_geofences db" "tb_alerts db' = tb_alerts db" "tb_alertStates db' = tb_alertStates db"
  using assms by (auto simp: fleet_grows_def)

lemma fleet_grows_id: "fleet_grows db db' \<Longrightarrow> vehicle_id db imei = Some i \<Longrightarrow> vehicle_id db' imei = Some i"
  by (auto simp: fleet_grows_def vehicle_id_def find_vehicle_def find_append split: option.splits)

lemma fleet_grows_cache: "fleet_grows db db' \<Longrightarrow> cache_ok db c \<Longrightarrow> cache_ok db' c"
  by (auto simp: cache_ok_def fleet_grows_id)

lemma vehicle_id_exists: "vehicle_id db imei = Some i \<Longrightarrow> vehicle_exists db i"
  by (auto simp: vehicle_id_def find_vehicle_def vehicle_exists_def dest!: find_eq_Some_set)

lemma find_vehicle_None: "find_vehicle imei db = None \<longleftrightarrow> imei \<notin> ve_imei ` set (tb_vehicles db)"
  by (auto simp: find_vehicle_def find_None_iff)

lemma insert_vehicle_spec:
  assumes "insert_vehicle i imei db = (Inr u, db')" "fleet_ok db"
  shows "fleet_ok db' \<and> fleet_grows db db' \<and> vehicles_imei_digits imei \<and>
    (\<not> vehicle_exists db i \<longrightarrow> vehicle_id db' imei \<noteq> None)"
proof -
  have d: "vehicles_imei_digits imei" using assms(1) by (auto simp: insert_vehicle_def Let_def split: if_splits)
  show ?thesis
  proof (cases "find_vehicle imei db \<noteq> None \<or> vehicle_exists db i")
    case True
    then have eq: "db' = db\<lparr>tb_seq_vehicles := tb_seq_vehicles db + 1\<rparr>"
      using assms(1) d by (simp add: insert_vehicle_def Let_def)
    have "fleet_grows db db'"
      unfolding fleet_grows_def by (intro exI [of _ "[]"] exI [of _ "tb_seq_vehicles db + 1"]) (simp add: eq)
    then show ?thesis using True assms(2) d
      by (auto simp: eq fleet_ok_def vehicle_id_def find_vehicle_def)
  next
    case False
    then have eq: "db' = db\<lparr>tb_vehicles := tb_vehicles db @
        [\<lparr>ve_id = i, ve_seq = tb_seq_vehicles db, ve_imei = imei, ve_label = None\<rparr>], tb_seq_vehicles := tb_seq_vehicles db + 1\<rparr>"
      using assms(1) d by (auto simp: insert_vehicle_def Let_def)
    have "fleet_grows db db'" unfolding fleet_grows_def eq by blast
    moreover have "vehicle_id db' imei \<noteq> None"
      by (simp add: vehicle_id_def find_vehicle_None eq)
    moreover have "fleet_ok db'"
      using False assms(2) d by (auto simp: eq fleet_ok_def find_vehicle_None vehicle_exists_def)
    ultimately show ?thesis using d by simp
  qed
qed

lemma resolve_spec:
  assumes "resolve newId imei w = (Inr i, w')" "registry_ok w"
  shows "registry_ok w' \<and> fleet_grows (wk_db w) (wk_db w') \<and> vehicle_id (wk_db w') imei = Some i \<and>
    wk_states w' = wk_states w \<and> wk_fences w' = wk_fences w \<and> map_of (wk_cache w') imei = Some i"
proof (cases "map_of (wk_cache w) imei")
  case (Some c)
  then show ?thesis
    using assms by (auto simp: resolve_def registry_ok_def cache_ok_def fleet_grows_refl dest: map_of_SomeD)
next
  case None
  then obtain db' row where ins: "insert_vehicle (newId imei) imei (wk_db w) = (Inr (), db')"
      and row: "find_vehicle imei db' = Some row"
      and w': "i = ve_id row" "w' = w\<lparr>wk_db := db', wk_cache := js_set imei (ve_id row) (wk_cache w)\<rparr>"
    using assms(1)
    by (auto simp: resolve_def op_bind_Inr on_db_def split: prod.splits option.splits)
  have f: "fleet_ok (wk_db w)" using assms(2) by (simp add: registry_ok_def)
  note spec = insert_vehicle_spec [OF ins f]
  have vid: "vehicle_id db' imei = Some i" by (simp add: vehicle_id_def row w')
  have "cache_ok db' (wk_cache w)"
    using assms(2) spec fleet_grows_cache by (auto simp: registry_ok_def)
  then have "cache_ok db' (js_set imei (ve_id row) (wk_cache w))"
    using vid w'(1) js_set_entries [of imei "ve_id row" "wk_cache w"] by (fastforce simp: cache_ok_def)
  then show ?thesis using spec vid by (auto simp: w' registry_ok_def js_get_set)
qed

lemma js_Set_set [simp]: "set (js_Set xs) = set xs"
  by (induction xs rule: js_Set.induct) auto

lemma js_Set_distinct: "distinct (js_Set xs)"
  by (induction xs rule: js_Set.induct) auto

lemma resolve_each_spec:
  assumes "resolve_each newId imeis m w = (Inr ids, w')" "registry_ok w" "cache_ok (wk_db w) m"
  shows "registry_ok w' \<and> fleet_grows (wk_db w) (wk_db w') \<and> cache_ok (wk_db w') ids \<and>
    fst ` set ids = fst ` set m \<union> set imeis \<and> wk_states w' = wk_states w \<and> wk_fences w' = wk_fences w"
  using assms
proof (induction imeis arbitrary: m w)
  case Nil
  then show ?case by (simp add: fleet_grows_refl)
next
  case (Cons imei imeis)
  then obtain i u where r: "resolve newId imei w = (Inr i, u)"
      and rest: "resolve_each newId imeis (js_set imei i m) u = (Inr ids, w')"
    by (auto simp: op_bind_Inr)
  note one = resolve_spec [OF r Cons.prems(2)]
  have "cache_ok (wk_db u) m" using one Cons.prems(3) fleet_grows_cache by blast
  then have "cache_ok (wk_db u) (js_set imei i m)"
    using one js_set_entries [of imei i m] by (fastforce simp: cache_ok_def)
  note ih = Cons.IH [OF rest conjunct1 [OF one] this]
  have "fleet_grows (wk_db w) (wk_db w')" using ih one fleet_grows_trans by blast
  then show ?case using ih one by (auto simp: js_set_keys)
qed

text \<open>\<open>resolveAll\<close> answers every IMEI asked for, with the id its row has, and touches nothing else.\<close>

lemma cache_ok_get: "cache_ok db m \<Longrightarrow> map_of m imei = Some i \<Longrightarrow> vehicle_id db imei = Some i"
  by (auto simp: cache_ok_def dest: map_of_SomeD)

lemma resolveAll_spec:
  assumes "resolveAll newId imeis w = (Inr ids, w')" "registry_ok w"
  shows "registry_ok w'" "fleet_grows (wk_db w) (wk_db w')"
    "wk_states w' = wk_states w" "wk_fences w' = wk_fences w"
    "\<And>imei. map_of ids imei = (if imei \<in> set imeis then vehicle_id (wk_db w') imei else None)"
    "\<And>imei. imei \<in> set imeis \<Longrightarrow> vehicle_id (wk_db w') imei \<noteq> None"
proof -
  have "cache_ok (wk_db w) []" by (simp add: cache_ok_def)
  note spec = resolve_each_spec [OF assms(1) [unfolded resolveAll_def] assms(2) this]
  show "registry_ok w'" "fleet_grows (wk_db w) (wk_db w')" "wk_states w' = wk_states w" "wk_fences w' = wk_fences w"
    using spec by auto
  have k: "fst ` set ids = set imeis" and c: "cache_ok (wk_db w') ids" using spec by auto
  show *: "map_of ids imei = (if imei \<in> set imeis then vehicle_id (wk_db w') imei else None)" for imei
  proof (cases "map_of ids imei")
    case None
    then have "imei \<notin> set imeis" using k by (metis map_of_eq_None_iff)
    then show ?thesis using None by simp
  next
    case (Some i)
    then have "imei \<in> set imeis" using k by (metis map_of_SomeD fst_conv image_eqI)
    then show ?thesis using Some cache_ok_get [OF c Some] by simp
  qed
  show "imei \<in> set imeis \<Longrightarrow> vehicle_id (wk_db w') imei \<noteq> None" for imei
    using * [of imei] k by (metis map_of_eq_None_iff)
qed

text \<open>It cannot fail on valid IMEIs unless the random ids collide.\<close>

lemma resolve_total:
  assumes "registry_ok w" "ids_fresh newId (wk_db w)" "vehicles_imei_digits imei"
  shows "\<exists>i w'. resolve newId imei w = (Inr i, w') \<and> ids_fresh newId (wk_db w')"
proof (cases "map_of (wk_cache w) imei")
  case (Some i)
  then show ?thesis using assms by (simp add: resolve_def)
next
  case None
  show ?thesis
  proof (cases "find_vehicle imei (wk_db w)")
    case (Some v)
    then show ?thesis using None assms
      by (simp add: resolve_def op_bind_def on_db_def insert_vehicle_def Let_def ids_fresh_def find_vehicle_def)
  next
    case miss: None
    then have "\<not> vehicle_exists (wk_db w) (newId imei)"
      using assms(2) unfolding ids_fresh_def vehicle_exists_def find_vehicle_None by (metis image_eqI)
    then show ?thesis using None miss assms(2,3)
      by (auto simp: resolve_def op_bind_def on_db_def insert_vehicle_def Let_def find_vehicle_def find_append
          ids_fresh_def inj_eq)
  qed
qed

lemma resolve_each_total:
  assumes "registry_ok w" "ids_fresh newId (wk_db w)" "list_all vehicles_imei_digits imeis"
  shows "\<exists>ids w'. resolve_each newId imeis m w = (Inr ids, w') \<and> ids_fresh newId (wk_db w')"
  using assms
proof (induction imeis arbitrary: w m)
  case Nil
  then show ?case by simp
next
  case (Cons imei imeis)
  then obtain i u where r: "resolve newId imei w = (Inr i, u)" "ids_fresh newId (wk_db u)"
    using resolve_total [of w newId imei] by auto
  have "registry_ok u" using resolve_spec [OF r(1) Cons.prems(1)] by simp
  then show ?case using Cons.IH [of u] Cons.prems(3) r by (simp add: op_bind_def)
qed

lemma resolveAll_total:
  assumes "registry_ok w" "ids_fresh newId (wk_db w)" "\<forall>imei\<in>set imeis. vehicles_imei_digits imei"
  shows "\<exists>ids w'. resolveAll newId imeis w = (Inr ids, w') \<and> ids_fresh newId (wk_db w')"
  unfolding resolveAll_def
  by (rule resolve_each_total) (use assms in \<open>auto simp: list_all_iff\<close>)

text \<open>Once its IMEIs are cached, a batch resolves without touching anything.\<close>

definition cached :: "worker \<Rightarrow> string list \<Rightarrow> bool" where
  "cached w imeis \<longleftrightarrow> (\<forall>imei\<in>set imeis. map_of (wk_cache w) imei \<noteq> None)"

lemma resolve_each_cached: "cached w imeis \<Longrightarrow> \<exists>ids. resolve_each newId imeis m w = (Inr ids, w)"
  by (induction imeis arbitrary: m) (auto simp: cached_def resolve_def op_bind_def)

lemma resolveAll_cached: "cached w imeis \<Longrightarrow> \<exists>ids. resolveAll newId imeis w = (Inr ids, w)"
  unfolding resolveAll_def by (rule resolve_each_cached) (simp add: cached_def)

lemma resolve_cache_grows:
  "resolve newId imei w = (Inr i, w') \<Longrightarrow> map_of (wk_cache w) k \<noteq> None \<or> k = imei \<Longrightarrow> map_of (wk_cache w') k \<noteq> None"
  by (auto simp: resolve_def op_bind_Inr on_db_def js_get_set split: option.splits prod.splits)

lemma resolve_each_cache_grows:
  "resolve_each newId imeis m w = (Inr ids, w') \<Longrightarrow> map_of (wk_cache w) k \<noteq> None \<or> k \<in> set imeis \<Longrightarrow>
     map_of (wk_cache w') k \<noteq> None"
proof (induction imeis arbitrary: m w)
  case Nil
  then show ?case by simp
next
  case (Cons imei imeis)
  then obtain i u where r: "resolve newId imei w = (Inr i, u)"
      and rest: "resolve_each newId imeis (js_set imei i m) u = (Inr ids, w')"
    by (auto simp: op_bind_Inr)
  show ?case
    using Cons.IH [OF rest] Cons.prems(2) resolve_cache_grows [OF r, of k] by auto
qed

lemma resolveAll_caches: "resolveAll newId imeis w = (Inr ids, w') \<Longrightarrow> cached w' imeis"
  unfolding resolveAll_def cached_def using resolve_each_cache_grows [of newId "js_Set imeis" "[]" w ids w'] by auto

lemma resolveAll_cached_mono: "resolveAll newId imeis w = (Inr ids, w') \<Longrightarrow> cached w ks \<Longrightarrow> cached w' ks"
  unfolding resolveAll_def cached_def using resolve_each_cache_grows [of newId "js_Set imeis" "[]" w ids w'] by blast

text \<open>Success or failure, only vehicles change.\<close>

lemma insert_vehicle_grows: "fleet_grows db (snd (insert_vehicle i imei db))"
proof -
  have "fleet_grows db (db\<lparr>tb_seq_vehicles := n\<rparr>)" for n
    unfolding fleet_grows_def by (intro exI [of _ "[]"] exI [of _ n]) simp
  moreover have "fleet_grows db (db\<lparr>tb_seq_vehicles := n, tb_vehicles := tb_vehicles db @ vs\<rparr>)" for vs n
    unfolding fleet_grows_def by (intro exI [of _ vs] exI [of _ n]) simp
  ultimately show ?thesis by (auto simp: insert_vehicle_def Let_def)
qed

lemma resolve_grows: "fleet_grows (wk_db w) (wk_db (snd (resolve newId imei w)))"
proof -
  obtain x db where i: "insert_vehicle (newId imei) imei (wk_db w) = (x, db)" by fastforce
  have "fleet_grows (wk_db w) db" using insert_vehicle_grows [of "wk_db w" "newId imei" imei] i by simp
  then show ?thesis
    using i by (auto simp: resolve_def op_bind_def on_db_def fleet_grows_refl split: option.splits sum.splits)
qed

lemma resolve_each_grows: "fleet_grows (wk_db w) (wk_db (snd (resolve_each newId imeis m w)))"
proof (induction imeis arbitrary: m w)
  case Nil
  then show ?case by (simp add: fleet_grows_refl)
next
  case (Cons imei imeis)
  obtain x u where r: "resolve newId imei w = (x, u)" by fastforce
  have "fleet_grows (wk_db w) (wk_db u)" using resolve_grows [of w newId imei] r by simp
  then show ?case using r Cons fleet_grows_trans by (cases x) (auto simp: op_bind_def)
qed

lemma resolveAll_grows: "resolveAll newId imeis w = (x, w') \<Longrightarrow> fleet_grows (wk_db w) (wk_db w')"
  unfolding resolveAll_def using resolve_each_grows [of w newId "js_Set imeis" "[]"] by simp

end
