(* ===== verification/Reading_Tables.thy ===== *)
theory Reading_Tables
  imports Vehicles
begin

text \<open>
  The interface between the reading tables and the handlers that fill them. \<open>reading_table\<close> is what
  an at-least-once writer relies on: an insert adds the rows of new keys, fails without effect, and
  is the identity on rows whose keys are stored. \<open>reading_writer\<close> extends it by a handler of the
  shape \<open>locations.ts\<close> and \<open>fuel.ts\<close> share. The tables are interpreted here, the handlers in their
  own theories.
\<close>

section \<open>The shape of a writer\<close>

text \<open>Pick the events with something to store, resolve their vehicles, insert their rows.\<close>

definition rows_for :: "(uuid \<Rightarrow> telemetry_event \<Rightarrow> 'r list) \<Rightarrow> (string, uuid) jsmap \<Rightarrow> telemetry_event \<Rightarrow> 'r list" where
  "rows_for rows_of vehicleIds e =
     (case map_of vehicleIds (te_imei e) of None \<Rightarrow> [] | Some vehicleId \<Rightarrow> rows_of vehicleId e)"

definition write_readings :: "(telemetry_event \<Rightarrow> bool) \<Rightarrow> (uuid \<Rightarrow> telemetry_event \<Rightarrow> 'r list)
    \<Rightarrow> ('r list \<Rightarrow> (telemetry_db, thrown, unit) op) \<Rightarrow> (string \<Rightarrow> uuid) \<Rightarrow> telemetry_event list \<Rightarrow> unit worker_op" where
  "write_readings relevant rows_of ins newId events =
     (let hits = filter relevant events in
      if hits = [] then op_return ()
      else op_bind (resolveAll newId (map te_imei hits)) (\<lambda>vehicleIds.
        let rows = concat (map (rows_for rows_of vehicleIds) hits) in
        if rows = [] then op_return () else on_db (ins rows)))"

text \<open>The same rows, from the stored vehicles instead of the resolved map.\<close>

definition batch_rows :: "(telemetry_event \<Rightarrow> bool) \<Rightarrow> (uuid \<Rightarrow> telemetry_event \<Rightarrow> 'r list) \<Rightarrow> telemetry_db
    \<Rightarrow> telemetry_event list \<Rightarrow> 'r list" where
  "batch_rows relevant rows_of db events = concat (map (\<lambda>e. case vehicle_id db (te_imei e) of
     None \<Rightarrow> [] | Some i \<Rightarrow> rows_of i e) (filter relevant events))"

lemma batch_rows_subset:
  "set es \<subseteq> set fs \<Longrightarrow> set (batch_rows relevant rows_of db es) \<subseteq> set (batch_rows relevant rows_of db fs)"
  by (auto simp: batch_rows_def)

lemma rows_for_resolved:
  assumes "\<And>imei. map_of ids imei = (if imei \<in> set (map te_imei hits) then vehicle_id db imei else None)"
  shows "map (rows_for rows_of ids) hits =
    map (\<lambda>e. case vehicle_id db (te_imei e) of None \<Rightarrow> [] | Some i \<Rightarrow> rows_of i e) hits"
  using assms by (auto simp: rows_for_def)

lemma write_readings_run:
  assumes "filter relevant events \<noteq> []" "resolveAll newId (map te_imei (filter relevant events)) w = (x, v)"
  shows "write_readings relevant rows_of ins newId events w = (case x of
      Inl e \<Rightarrow> (Inl e, v)
    | Inr ids \<Rightarrow> (let rs = concat (map (rows_for rows_of ids) (filter relevant events))
        in if rs = [] then (Inr (), v) else on_db (ins rs) v))"
  using assms by (cases x) (simp_all add: write_readings_def Let_def op_bind_def del: concat_eq_Nil_conv filter_empty_conv)

text \<open>A stream of batches that all succeeded.\<close>

definition deliver_all :: "((string \<Rightarrow> uuid) \<Rightarrow> telemetry_event list \<Rightarrow> freshness \<Rightarrow> unit worker_op)
    \<Rightarrow> ((string \<Rightarrow> uuid) \<times> telemetry_event list \<times> freshness) list \<Rightarrow> worker \<Rightarrow> worker option" where
  "deliver_all handler batches w = foldl (\<lambda>acc (newId, events, fr). case acc of None \<Rightarrow> None
     | Some w \<Rightarrow> (case handler newId events fr w of (Inr _, w') \<Rightarrow> Some w' | (Inl _, _) \<Rightarrow> None)) (Some w) batches"

lemma deliver_all_snoc:
  "deliver_all handler (batches @ [(newId, events, fr)]) w = (case deliver_all handler batches w of None \<Rightarrow> None
     | Some v \<Rightarrow> (case handler newId events fr v of (Inr _, w') \<Rightarrow> Some w' | (Inl _, _) \<Rightarrow> None))"
  by (simp add: deliver_all_def)

definition delivered :: "((string \<Rightarrow> uuid) \<times> telemetry_event list \<times> freshness) list \<Rightarrow> telemetry_event list" where
  "delivered batches = concat (map (\<lambda>(newId, events, fr). events) batches)"

section \<open>A deduplicating table\<close>

locale reading_table =
  fixes tbl :: "telemetry_db \<Rightarrow> 'r list"
    and ins :: "'r list \<Rightarrow> (telemetry_db, thrown, unit) op"
    and chk :: "'r \<Rightarrow> pg_error option"
    and key :: "'r \<Rightarrow> 'k"
    and vehicle_of :: "'r \<Rightarrow> uuid"
  assumes ins_ok: "ins rows db = (Inr u, db') \<Longrightarrow>
      tbl db' = tbl db @ keep_new key (key ` set (tbl db)) rows \<and> list_all (\<lambda>r. chk r = None) rows \<and>
      tb_vehicles db' = tb_vehicles db"
    and ins_fail: "ins rows db = (Inl e, db') \<Longrightarrow> db' = db"
    and ins_total: "list_all (\<lambda>r. chk r = None) rows \<Longrightarrow> list_all (\<lambda>r. vehicle_exists db (vehicle_of r)) rows \<Longrightarrow>
      \<exists>db'. ins rows db = (Inr (), db')"
    and ins_known: "list_all (\<lambda>r. chk r = None) rows \<Longrightarrow> key ` set rows \<subseteq> key ` set (tbl db) \<Longrightarrow>
      ins rows db = (Inr (), db)"
    and tbl_fleet: "fleet_grows db db' \<Longrightarrow> tbl db' = tbl db"
begin

lemma ins_keys: "ins rows db = (Inr u, db') \<Longrightarrow> key ` set (tbl db') = key ` set (tbl db) \<union> key ` set rows"
  using ins_ok [of rows db u db'] by (auto simp: keep_new_keys image_Un)

lemma ins_distinct:
  assumes "ins rows db = (Inr u, db')" "distinct (map key (tbl db))"
  shows "distinct (map key (tbl db'))"
proof -
  have "key ` set (keep_new key (key ` set (tbl db)) rows) \<inter> key ` set (tbl db) = {}"
    by (auto simp: keep_new_keys)
  then show ?thesis using ins_ok [OF assms(1)] assms(2) keep_new_distinct [of key] by auto
qed

end

section \<open>A writer of readings\<close>

locale reading_writer = reading_table tbl ins chk key vehicle_of
  for tbl :: "telemetry_db \<Rightarrow> 'r list"
    and ins :: "'r list \<Rightarrow> (telemetry_db, thrown, unit) op"
    and chk :: "'r \<Rightarrow> pg_error option"
    and key :: "'r \<Rightarrow> 'k"
    and vehicle_of :: "'r \<Rightarrow> uuid" +
  fixes handler :: "(string \<Rightarrow> uuid) \<Rightarrow> telemetry_event list \<Rightarrow> freshness \<Rightarrow> unit worker_op"
    and relevant :: "telemetry_event \<Rightarrow> bool"
    and rows_of :: "uuid \<Rightarrow> telemetry_event \<Rightarrow> 'r list"
  assumes handler_shape: "handler newId events freshness = write_readings relevant rows_of ins newId events"
    and rows_vehicle: "r \<in> set (rows_of i e) \<Longrightarrow> vehicle_of r = i"
begin

definition rows :: "telemetry_db \<Rightarrow> telemetry_event list \<Rightarrow> 'r list" where
  "rows = batch_rows relevant rows_of"

definition imeis :: "telemetry_event list \<Rightarrow> string list" where
  "imeis events = map te_imei (filter relevant events)"

text \<open>What a handled batch leaves behind.\<close>

lemma handler_ok:
  assumes "handler newId events fr w = (Inr u, w')" "registry_ok w"
  shows "registry_ok w' \<and> cached w' (imeis events) \<and>
    tbl (wk_db w') = tbl (wk_db w) @ keep_new key (key ` set (tbl (wk_db w))) (rows (wk_db w') events) \<and>
    list_all (\<lambda>r. chk r = None) (rows (wk_db w') events) \<and>
    (\<forall>ks. cached w ks \<longrightarrow> cached w' ks) \<and>
    (\<forall>imei i. vehicle_id (wk_db w) imei = Some i \<longrightarrow> vehicle_id (wk_db w') imei = Some i)"
proof (cases "filter relevant events = []")
  case True
  then show ?thesis using assms
    by (simp add: handler_shape write_readings_def rows_def batch_rows_def imeis_def cached_def)
next
  case False
  then obtain ids v where r: "resolveAll newId (map te_imei (filter relevant events)) w = (Inr ids, v)"
      and k: "(let rs = concat (map (rows_for rows_of ids) (filter relevant events)) in
        if rs = [] then op_return () else on_db (ins rs)) v = (Inr u, w')"
    using assms(1) by (auto simp: handler_shape write_readings_def op_bind_Inr Let_def)
  note spec = resolveAll_spec [OF r assms(2)]
  have rs: "concat (map (rows_for rows_of ids) (filter relevant events)) = rows (wk_db v) events"
    using rows_for_resolved [OF spec(5), of rows_of] by (simp only: rows_def batch_rows_def)
  have c: "cached v (imeis events)" unfolding imeis_def by (rule resolveAll_caches [OF r])
  have t: "tbl (wk_db v) = tbl (wk_db w)" by (rule tbl_fleet [OF spec(2)])
  have m: "cached w ks \<Longrightarrow> cached v ks" for ks by (rule resolveAll_cached_mono [OF r])
  have g: "vehicle_id (wk_db w) imei = Some i \<Longrightarrow> vehicle_id (wk_db v) imei = Some i" for imei i
    by (rule fleet_grows_id [OF spec(2)])
  show ?thesis
  proof (cases "rows (wk_db v) events = []")
    case True
    then show ?thesis using k rs spec(1) c t m g by (auto simp: Let_def)
  next
    case False
    then obtain db where i: "ins (rows (wk_db v) events) (wk_db v) = (Inr u, db)" and w': "w' = v\<lparr>wk_db := db\<rparr>"
      using k rs by (auto simp: Let_def on_db_def split: prod.splits)
    note ok = ins_ok [OF i]
    have vid: "vehicle_id db = vehicle_id (wk_db v)" using ok by (simp add: vehicle_id_def find_vehicle_def fun_eq_iff)
    then have eqs: "rows db events = rows (wk_db v) events" "cache_ok db (wk_cache v) = cache_ok (wk_db v) (wk_cache v)"
      by (simp_all add: rows_def batch_rows_def cache_ok_def)
    have "registry_ok w'" using ok spec(1) eqs(2) by (simp add: w' registry_ok_def fleet_ok_def)
    moreover have "cached w' ks = cached v ks" for ks by (simp add: w' cached_def)
    ultimately show ?thesis using ok eqs(1) vid c t m g by (simp add: w')
  qed
qed

text \<open>Every event with something to store has a vehicle, and its rows passed the table's checks.\<close>

lemma handler_vehicle:
  assumes "handler newId events fr w = (Inr u, w')" "registry_ok w" "e \<in> set events" "relevant e"
  shows "\<exists>i. vehicle_id (wk_db w') (te_imei e) = Some i \<and>
    (\<forall>r\<in>set (rows_of i e). r \<in> set (rows (wk_db w') events) \<and> chk r = None \<and> key r \<in> key ` set (tbl (wk_db w')))"
proof -
  note ok = handler_ok [OF assms(1,2)]
  have "te_imei e \<in> set (imeis events)" using assms(3,4) by (simp add: imeis_def)
  then have "map_of (wk_cache w') (te_imei e) \<noteq> None" using ok unfolding cached_def by blast
  then obtain i where "map_of (wk_cache w') (te_imei e) = Some i" by blast
  then have i: "vehicle_id (wk_db w') (te_imei e) = Some i"
    using ok cache_ok_get by (auto simp: registry_ok_def)
  have "r \<in> set (rows (wk_db w') events)" if "r \<in> set (rows_of i e)" for r
    unfolding rows_def batch_rows_def using that assms(3,4) i
    by (auto intro!: bexI [of _ e])
  moreover have "key ` set (tbl (wk_db w')) = key ` set (tbl (wk_db w)) \<union> key ` set (rows (wk_db w') events)"
    using ok by (simp add: image_Un keep_new_keys)
  ultimately show ?thesis using ok i unfolding list_all_iff by blast
qed

text \<open>A failed batch stores no reading: only vehicles may have been registered.\<close>

lemma handler_failed:
  assumes "handler newId events fr w = (Inl e, w')"
  shows "tbl (wk_db w') = tbl (wk_db w)"
proof (cases "filter relevant events = []")
  case True
  then show ?thesis using assms by (simp add: handler_shape write_readings_def)
next
  case False
  obtain x v where r: "resolveAll newId (map te_imei (filter relevant events)) w = (x, v)" by fastforce
  note t = tbl_fleet [OF resolveAll_grows [OF r]]
  note run = write_readings_run [OF False r, of rows_of ins, folded handler_shape [of _ _ fr]]
  show ?thesis
  proof (cases x)
    case Inl
    then show ?thesis using assms t unfolding run by simp
  next
    case (Inr ids)
    then show ?thesis
      using assms t unfolding run by (auto simp: Let_def on_db_def dest!: ins_fail split: if_splits prod.splits)
  qed
qed

text \<open>A redelivered batch is the identity, whatever its freshness, order or repetition.\<close>

lemma handler_known:
  assumes "registry_ok w" "cached w (imeis events)"
    "key ` set (rows (wk_db w) events) \<subseteq> key ` set (tbl (wk_db w))"
    "list_all (\<lambda>r. chk r = None) (rows (wk_db w) events)"
  shows "handler newId events fr w = (Inr (), w)"
proof (cases "filter relevant events = []")
  case True
  then show ?thesis by (simp add: handler_shape write_readings_def)
next
  case False
  obtain ids where r: "resolveAll newId (map te_imei (filter relevant events)) w = (Inr ids, w)"
    using resolveAll_cached assms(2) unfolding imeis_def by blast
  note spec = resolveAll_spec [OF r assms(1)]
  have rs: "concat (map (rows_for rows_of ids) (filter relevant events)) = rows (wk_db w) events"
    using rows_for_resolved [OF spec(5), of rows_of] by (simp only: rows_def batch_rows_def)
  show ?thesis
    using False r rs ins_known [OF assms(4,3)]
    by (simp add: handler_shape write_readings_def Let_def on_db_def)
qed

text \<open>Every batch of valid readings of valid devices is stored.\<close>

lemma handler_total:
  assumes "registry_ok w" "ids_fresh newId (wk_db w)" "\<forall>e\<in>set events. isValidImei (te_imei e)"
    "\<And>i e r. e \<in> set events \<Longrightarrow> relevant e \<Longrightarrow> r \<in> set (rows_of i e) \<Longrightarrow> chk r = None"
  shows "\<exists>w'. handler newId events fr w = (Inr (), w')"
proof (cases "filter relevant events = []")
  case True
  then show ?thesis by (simp add: handler_shape write_readings_def)
next
  case False
  have "\<forall>i\<in>set (map te_imei (filter relevant events)). vehicles_imei_digits i"
    using assms(3) by (auto simp: isValidImei_def vehicles_imei_digits_def IMEI_DIGITS_def)
  from resolveAll_total [OF assms(1,2) this] obtain ids v where
    r: "resolveAll newId (map te_imei (filter relevant events)) w = (Inr ids, v)" by blast
  note spec = resolveAll_spec [OF r assms(1)]
  have rs: "concat (map (rows_for rows_of ids) (filter relevant events)) = rows (wk_db v) events"
    using rows_for_resolved [OF spec(5), of rows_of] by (simp only: rows_def batch_rows_def)
  have "list_all (\<lambda>r. chk r = None) (rows (wk_db v) events)"
    using assms(4) by (auto simp: list_all_iff rows_def batch_rows_def split: option.splits)
  moreover have "list_all (\<lambda>r. vehicle_exists (wk_db v) (vehicle_of r)) (rows (wk_db v) events)"
    using rows_vehicle vehicle_id_exists
    by (fastforce simp: list_all_iff rows_def batch_rows_def split: option.splits)
  ultimately obtain db' where "ins (rows (wk_db v) events) (wk_db v) = (Inr (), db')" using ins_total by blast
  then show ?thesis
    using False r rs by (auto simp: handler_shape write_readings_def Let_def on_db_def)
qed

text \<open>Absorbed events: known devices, stored keys. Later batches keep them absorbed.\<close>

definition absorbed :: "worker \<Rightarrow> telemetry_event list \<Rightarrow> bool" where
  "absorbed w events \<longleftrightarrow> cached w (imeis events) \<and> key ` set (rows (wk_db w) events) \<subseteq> key ` set (tbl (wk_db w)) \<and>
     list_all (\<lambda>r. chk r = None) (rows (wk_db w) events)"

lemma rows_append: "rows db (es @ fs) = rows db es @ rows db fs"
  by (simp add: rows_def batch_rows_def)

lemma imeis_append: "imeis (es @ fs) = imeis es @ imeis fs"
  by (simp add: imeis_def)

lemma absorbed_append: "absorbed w (es @ fs) \<longleftrightarrow> absorbed w es \<and> absorbed w fs"
  unfolding absorbed_def rows_append imeis_append cached_def set_append image_Un Un_subset_iff ball_Un list_all_append
  by blast

lemma absorbed_subset:
  assumes "set es \<subseteq> set fs" "absorbed w fs"
  shows "absorbed w es"
proof -
  have sub: "set (rows (wk_db w) es) \<subseteq> set (rows (wk_db w) fs)"
    unfolding rows_def by (rule batch_rows_subset [OF assms(1)])
  have "cached w (imeis es)" using assms by (auto simp: absorbed_def cached_def imeis_def)
  moreover have "key ` set (rows (wk_db w) es) \<subseteq> key ` set (tbl (wk_db w))"
    using sub assms(2) unfolding absorbed_def by (meson image_mono order_trans)
  moreover have "list_all (\<lambda>r. chk r = None) (rows (wk_db w) es)"
    using sub assms(2) unfolding absorbed_def list_all_iff by blast
  ultimately show ?thesis by (simp add: absorbed_def)
qed

lemma handler_absorbs:
  "handler newId events fr w = (Inr u, w') \<Longrightarrow> registry_ok w \<Longrightarrow> absorbed w' events"
  using handler_ok [of newId events fr w u w'] by (simp add: absorbed_def keep_new_keys image_Un)

lemma handler_keeps_absorbed:
  assumes "handler newId events fr w = (Inr u, w')" "registry_ok w" "absorbed w es"
  shows "absorbed w' es"
proof -
  note ok = handler_ok [OF assms(1,2)]
  have "vehicle_id (wk_db w') (te_imei e) = vehicle_id (wk_db w) (te_imei e)" if "e \<in> set (filter relevant es)" for e
  proof -
    have "te_imei e \<in> set (imeis es)" using that by (auto simp: imeis_def)
    moreover have "cached w (imeis es)" using assms(3) by (simp add: absorbed_def)
    ultimately have "map_of (wk_cache w) (te_imei e) \<noteq> None" unfolding cached_def by blast
    then obtain i where "map_of (wk_cache w) (te_imei e) = Some i" by blast
    then have "vehicle_id (wk_db w) (te_imei e) = Some i"
      using assms(2) cache_ok_get by (auto simp: registry_ok_def)
    then show ?thesis using ok by simp
  qed
  then have r: "rows (wk_db w') es = rows (wk_db w) es"
    unfolding rows_def batch_rows_def by (intro arg_cong [of _ _ concat] map_cong) auto
  show ?thesis using assms(3) ok by (auto simp: absorbed_def r)
qed

text \<open>A stream of batches, then any of its events again, in any batch.\<close>

lemma deliver_all_absorbs:
  "deliver_all handler batches w = Some w' \<Longrightarrow> registry_ok w \<Longrightarrow>
     registry_ok w' \<and> absorbed w' (delivered batches)"
proof (induction batches arbitrary: w' rule: rev_induct)
  case Nil
  then show ?case by (simp add: deliver_all_def delivered_def absorbed_def cached_def imeis_def rows_def batch_rows_def)
next
  case (snoc b batches)
  obtain newId events fr where b: "b = (newId, events, fr)" by (cases b)
  obtain v where v: "deliver_all handler batches w = Some v"
    using snoc.prems(1) unfolding b deliver_all_snoc by (cases "deliver_all handler batches w") auto
  obtain x t where xt: "handler newId events fr v = (x, t)" by fastforce
  have h: "handler newId events fr v = (Inr (), w')"
    using snoc.prems(1) unfolding b deliver_all_snoc v by (cases x) (simp_all add: xt)
  note ih = snoc.IH [OF v snoc.prems(2)]
  show ?case
    using handler_ok [OF h conjunct1 [OF ih]] handler_absorbs [OF h conjunct1 [OF ih]]
      handler_keeps_absorbed [OF h conjunct1 [OF ih] conjunct2 [OF ih]]
    by (simp add: b absorbed_append delivered_def)
qed

text \<open>Where the rows come from: they were stored before, or one of the delivered events made them.\<close>

lemma rows_D: "r \<in> set (rows db es) \<Longrightarrow> \<exists>e\<in>set es. relevant e \<and> vehicle_id db (te_imei e) = Some (vehicle_of r) \<and> r \<in> set (rows_of (vehicle_of r) e)"
  using rows_vehicle by (fastforce simp: rows_def batch_rows_def split: option.splits)

lemma rows_mono:
  assumes "\<And>imei i. vehicle_id db imei = Some i \<Longrightarrow> vehicle_id db' imei = Some i"
  shows "set (rows db es) \<subseteq> set (rows db' es)"
proof
  fix r assume "r \<in> set (rows db es)"
  from rows_D [OF this] obtain e i where "e \<in> set es" "relevant e" "vehicle_id db (te_imei e) = Some i" "r \<in> set (rows_of i e)"
    by blast
  then show "r \<in> set (rows db' es)" using assms by (auto simp: rows_def batch_rows_def intro!: bexI [of _ e])
qed

lemma deliver_all_rows:
  "deliver_all handler batches w = Some w' \<Longrightarrow> registry_ok w \<Longrightarrow>
     set (tbl (wk_db w')) \<subseteq> set (tbl (wk_db w)) \<union> set (rows (wk_db w') (delivered batches))"
proof (induction batches arbitrary: w' rule: rev_induct)
  case Nil
  then show ?case by (simp add: deliver_all_def)
next
  case (snoc b batches)
  obtain newId events fr where b: "b = (newId, events, fr)" by (cases b)
  obtain v where v: "deliver_all handler batches w = Some v"
    using snoc.prems(1) unfolding b deliver_all_snoc by (cases "deliver_all handler batches w") auto
  obtain x t where xt: "handler newId events fr v = (x, t)" by fastforce
  have h: "handler newId events fr v = (Inr (), w')"
    using snoc.prems(1) unfolding b deliver_all_snoc v by (cases x) (simp_all add: xt)
  note ok = handler_ok [OF h conjunct1 [OF deliver_all_absorbs [OF v snoc.prems(2)]]]
  have "set (rows (wk_db v) (delivered batches)) \<subseteq> set (rows (wk_db w') (delivered batches))"
    using ok by (intro rows_mono) blast
  then have "set (tbl (wk_db v)) \<subseteq> set (tbl (wk_db w)) \<union> set (rows (wk_db w') (delivered batches))"
    using snoc.IH [OF v snoc.prems(2)] by blast
  moreover have "set (tbl (wk_db w')) \<subseteq> set (tbl (wk_db v)) \<union> set (rows (wk_db w') events)"
    using ok keep_new_subset [of key "key ` set (tbl (wk_db v))" "rows (wk_db w') events"] by auto
  ultimately show ?case by (auto simp: b delivered_def rows_append)
qed

lemma absorbed_row:
  assumes "absorbed w es" "registry_ok w" "e \<in> set es" "relevant e"
  shows "\<exists>i. vehicle_id (wk_db w) (te_imei e) = Some i \<and> key ` set (rows_of i e) \<subseteq> key ` set (tbl (wk_db w))"
proof -
  have "te_imei e \<in> set (imeis es)" using assms(3,4) by (simp add: imeis_def)
  then have "map_of (wk_cache w) (te_imei e) \<noteq> None" using assms(1) unfolding absorbed_def cached_def by blast
  then obtain i where "map_of (wk_cache w) (te_imei e) = Some i" by blast
  then have i: "vehicle_id (wk_db w) (te_imei e) = Some i"
    using assms(2) cache_ok_get by (auto simp: registry_ok_def)
  have "set (rows_of i e) \<subseteq> set (rows (wk_db w) es)"
    unfolding rows_def batch_rows_def using assms(3,4) i by (auto intro!: bexI [of _ e])
  then show ?thesis using i assms(1) unfolding absorbed_def by (meson image_mono order_trans)
qed

lemma replay_identity:
  assumes "deliver_all handler batches w = Some w'" "registry_ok w" "set es \<subseteq> set (delivered batches)"
  shows "handler newId es fr w' = (Inr (), w')"
proof -
  have a: "registry_ok w'" "absorbed w' (delivered batches)"
    using deliver_all_absorbs [OF assms(1,2)] by auto
  have "absorbed w' es" by (rule absorbed_subset [OF assms(3) a(2)])
  then show ?thesis using handler_known [OF a(1)] by (simp add: absorbed_def)
qed

end

end
