(* ===== verification/Writers.thy ===== *)
theory Writers
  imports Reading_Tables
begin

text \<open>
  \<open>apps/telemetry-consumers/src/consumers/locations.ts\<close> and \<open>fuel.ts\<close>: the two writers that store what
  an event carries, as instances of \<open>reading_writer\<close>.
\<close>

section \<open>Locations\<close>

definition location_of :: "uuid \<Rightarrow> telemetry_event \<Rightarrow> location_row list" where
  "location_of vehicleId e = (case te_gps e of
       None \<Rightarrow> []
     | Some gps \<Rightarrow> [\<lparr>lo_vehicleId = vehicleId, lo_recordedAt = te_recordedAt e, lo_receivedAt = te_receivedAt e,
         lo_latitude = ng_latitude gps, lo_longitude = ng_longitude gps, lo_altitudeM = ng_altitudeM gps,
         lo_angleDeg = int (ng_angleDeg gps), lo_satellites = int (ng_satellites gps),
         lo_speedKph = int (ng_speedKph gps)\<rparr>])"

definition createLocationsHandler :: "(string \<Rightarrow> uuid) \<Rightarrow> telemetry_event list \<Rightarrow> freshness \<Rightarrow> unit worker_op" where
  "createLocationsHandler newId events freshness =
     (let positioned = filter (\<lambda>e. te_gps e \<noteq> None) events in
      if positioned = [] then op_return ()
      else op_bind (resolveAll newId (map te_imei positioned)) (\<lambda>vehicleIds.
        let rows = concat (map (\<lambda>e. case map_of vehicleIds (te_imei e) of
              None \<Rightarrow> []
            | Some vehicleId \<Rightarrow> location_of vehicleId e) positioned) in
        if rows = [] then op_return () else on_db (insert_locations rows)))"

section \<open>Fuel\<close>

text \<open>
  \<open>x.toFixed(2)\<close> as hundredths: the integer \<open>n\<close> with \<open>n / 100\<close> nearest to the exact value of the
  double, the larger of two; a negative number is negated first.
\<close>

definition toFixed2 :: "rat \<Rightarrow> int" where
  "toFixed2 x = (if x < 0 then - \<lfloor>- x * 100 + 1 / 2\<rfloor> else \<lfloor>x * 100 + 1 / 2\<rfloor>)"

definition fuel_row_of :: "uuid \<Rightarrow> telemetry_event \<Rightarrow> fuel_reading \<Rightarrow> fuel_row" where
  "fuel_row_of vehicleId e reading = \<lparr>fr_vehicleId = vehicleId, fr_recordedAt = te_recordedAt e,
     fr_receivedAt = te_receivedAt e, fr_source = fu_source reading, fr_levelPct = fu_pct reading,
     fr_levelLiters = map_option toFixed2 (fu_liters reading)\<rparr>"

definition createFuelHandler :: "(string \<Rightarrow> uuid) \<Rightarrow> telemetry_event list \<Rightarrow> freshness \<Rightarrow> unit worker_op" where
  "createFuelHandler newId events freshness =
     (let withFuel = filter (\<lambda>e. length (te_fuel e) > 0) events in
      if withFuel = [] then op_return ()
      else op_bind (resolveAll newId (map te_imei withFuel)) (\<lambda>vehicleIds.
        let rows = concat (map (\<lambda>e. case map_of vehicleIds (te_imei e) of
              None \<Rightarrow> []
            | Some vehicleId \<Rightarrow> map (fuel_row_of vehicleId e) (te_fuel e)) withFuel) in
        if rows = [] then op_return () else on_db (insert_fuel rows)))"

section \<open>The tables keep their contract\<close>

lemma insert_locations_Inr:
  "insert_locations rows db = (Inr u, db') \<Longrightarrow>
     tb_locations db' = tb_locations db @ keep_new location_key (location_key ` set (tb_locations db)) rows \<and>
     list_all (\<lambda>r. location_check r = None) rows \<and> tb_vehicles db' = tb_vehicles db"
  by (auto simp: insert_locations_def dest: insert_ignore_Inr split: sum.splits)

interpretation locations: reading_table tb_locations insert_locations location_check location_key lo_vehicleId
proof
  fix rows :: "location_row list" and db db' :: telemetry_db and u :: unit and e :: thrown
  show "insert_locations rows db = (Inr u, db') \<Longrightarrow>
     tb_locations db' = tb_locations db @ keep_new location_key (location_key ` set (tb_locations db)) rows \<and>
     list_all (\<lambda>r. location_check r = None) rows \<and> tb_vehicles db' = tb_vehicles db"
    by (rule insert_locations_Inr)
  show "insert_locations rows db = (Inl e, db') \<Longrightarrow> db' = db"
    by (auto simp: insert_locations_def split: sum.splits)
  show "list_all (\<lambda>r. location_check r = None) rows \<Longrightarrow> list_all (\<lambda>r. vehicle_exists db (lo_vehicleId r)) rows \<Longrightarrow>
      \<exists>db'. insert_locations rows db = (Inr (), db')"
    by (simp add: insert_locations_def insert_ignore_ok)
  show "list_all (\<lambda>r. location_check r = None) rows \<Longrightarrow>
      location_key ` set rows \<subseteq> location_key ` set (tb_locations db) \<Longrightarrow> insert_locations rows db = (Inr (), db)"
    by (simp add: insert_locations_def insert_ignore_def insert_rows_ok keep_new_known)
  show "fleet_grows db db' \<Longrightarrow> tb_locations db' = tb_locations db" by (rule fleet_grows_tables)
qed

interpretation fuel: reading_table tb_fuel insert_fuel fuel_check fuel_key fr_vehicleId
proof
  fix rows :: "fuel_row list" and db db' :: telemetry_db and u :: unit and e :: thrown
  show "insert_fuel rows db = (Inr u, db') \<Longrightarrow>
     tb_fuel db' = tb_fuel db @ keep_new fuel_key (fuel_key ` set (tb_fuel db)) rows \<and>
     list_all (\<lambda>r. fuel_check r = None) rows \<and> tb_vehicles db' = tb_vehicles db"
    by (auto simp: insert_fuel_def dest: insert_ignore_Inr split: sum.splits)
  show "insert_fuel rows db = (Inl e, db') \<Longrightarrow> db' = db"
    by (auto simp: insert_fuel_def split: sum.splits)
  show "list_all (\<lambda>r. fuel_check r = None) rows \<Longrightarrow> list_all (\<lambda>r. vehicle_exists db (fr_vehicleId r)) rows \<Longrightarrow>
      \<exists>db'. insert_fuel rows db = (Inr (), db')"
    by (simp add: insert_fuel_def insert_ignore_ok)
  show "list_all (\<lambda>r. fuel_check r = None) rows \<Longrightarrow>
      fuel_key ` set rows \<subseteq> fuel_key ` set (tb_fuel db) \<Longrightarrow> insert_fuel rows db = (Inr (), db)"
    by (simp add: insert_fuel_def insert_ignore_def insert_rows_ok keep_new_known)
  show "fleet_grows db db' \<Longrightarrow> tb_fuel db' = tb_fuel db" by (rule fleet_grows_tables)
qed

interpretation location_writer: reading_writer tb_locations insert_locations location_check location_key lo_vehicleId
  createLocationsHandler "\<lambda>e. te_gps e \<noteq> None" location_of
proof
  fix newId events freshness and r i e
  show "createLocationsHandler newId events freshness =
      write_readings (\<lambda>e. te_gps e \<noteq> None) location_of insert_locations newId events"
    unfolding createLocationsHandler_def write_readings_def rows_for_def [abs_def] by (rule refl)
  show "r \<in> set (location_of i e) \<Longrightarrow> lo_vehicleId r = i"
    by (auto simp: location_of_def split: option.splits)
qed

interpretation fuel_writer: reading_writer tb_fuel insert_fuel fuel_check fuel_key fr_vehicleId
  createFuelHandler "\<lambda>e. length (te_fuel e) > 0" "\<lambda>i e. map (fuel_row_of i e) (te_fuel e)"
proof
  fix newId events freshness and r i e
  show "createFuelHandler newId events freshness =
      write_readings (\<lambda>e. length (te_fuel e) > 0) (\<lambda>i e. map (fuel_row_of i e) (te_fuel e)) insert_fuel newId events"
    unfolding createFuelHandler_def write_readings_def rows_for_def [abs_def] by (rule refl)
  show "r \<in> set (map (fuel_row_of i e) (te_fuel e)) \<Longrightarrow> fr_vehicleId r = i"
    by (auto simp: fuel_row_of_def)
qed

section \<open>Properties\<close>

definition int_gps_ok :: "telemetry_event \<Rightarrow> bool" where
  "int_gps_ok e \<longleftrightarrow> optional (\<lambda>g. int4 (ng_altitudeM g) \<and> int4 (int (ng_angleDeg g)) \<and>
     int2 (int (ng_satellites g)) \<and> int4 (int (ng_speedKph g))) (te_gps e)"

lemma location_check_ok:
  "telemetryEventSchema e \<Longrightarrow> int_gps_ok e \<Longrightarrow> r \<in> set (location_of i e) \<Longrightarrow> location_check r = None"
  by (auto simp: location_of_def location_check_def telemetryEventSchema_def optional_def gpsSchema_def
      int_gps_ok_def split: option.splits)

lemma location_rows_D:
  "r \<in> set (batch_rows (\<lambda>e. te_gps e \<noteq> None) location_of db es) \<Longrightarrow>
     \<exists>e\<in>set es. vehicle_id db (te_imei e) = Some (lo_vehicleId r) \<and> r \<in> set (location_of (lo_vehicleId r) e)"
  using location_writer.rows_vehicle by (fastforce simp: batch_rows_def split: option.splits)

text \<open>
  position history is stored exactly once. A batch of valid events always succeeds; afterwards
  every event with a satellite fix has a row under its vehicle and device clock, events without a
  fix have none, no two rows share a vehicle and clock, and stored rows are never changed.
\<close>

theorem positions_stored_once:
  assumes "registry_ok w" "ids_fresh newId (wk_db w)" "list_all telemetryEventSchema events" "list_all int_gps_ok events"
    "distinct (map location_key (tb_locations (wk_db w)))"
  shows "\<exists>w' added. createLocationsHandler newId events fr w = (Inr (), w') \<and>
    tb_locations (wk_db w') = tb_locations (wk_db w) @ added \<and>
    distinct (map location_key (tb_locations (wk_db w'))) \<and>
    (\<forall>e\<in>set events. te_gps e \<noteq> None \<longrightarrow> (\<exists>i. vehicle_id (wk_db w') (te_imei e) = Some i \<and>
       (i, te_recordedAt e) \<in> location_key ` set (tb_locations (wk_db w')))) \<and>
    (\<forall>r\<in>set added. \<exists>e\<in>set events. vehicle_id (wk_db w') (te_imei e) = Some (lo_vehicleId r) \<and>
       r \<in> set (location_of (lo_vehicleId r) e))"
proof -
  have v: "\<forall>e\<in>set events. isValidImei (te_imei e)"
    using assms(3) by (auto simp: list_all_iff telemetryEventSchema_def)
  have c: "e \<in> set events \<Longrightarrow> te_gps e \<noteq> None \<Longrightarrow> r \<in> set (location_of i e) \<Longrightarrow> location_check r = None" for e i r
    using assms(3,4) location_check_ok by (auto simp: list_all_iff)
  have "\<exists>w'. createLocationsHandler newId events fr w = (Inr (), w')"
    by (rule location_writer.handler_total [OF assms(1,2) v]) (rule c)
  then obtain w' where h: "createLocationsHandler newId events fr w = (Inr (), w')" ..
  let ?rows = "batch_rows (\<lambda>e. te_gps e \<noteq> None) location_of (wk_db w') events"
  let ?added = "keep_new location_key (location_key ` set (tb_locations (wk_db w))) ?rows"
  note ok = location_writer.handler_ok [OF h assms(1), unfolded location_writer.rows_def]
  have t: "tb_locations (wk_db w') = tb_locations (wk_db w) @ ?added" using ok by simp
  have d: "distinct (map location_key (tb_locations (wk_db w')))"
    using assms(5) keep_new_distinct [of location_key] by (auto simp: t keep_new_keys)
  have "\<exists>i. vehicle_id (wk_db w') (te_imei e) = Some i \<and> (i, te_recordedAt e) \<in> location_key ` set (tb_locations (wk_db w'))"
    if e: "e \<in> set events" "te_gps e \<noteq> None" for e
  proof -
    obtain i where i: "vehicle_id (wk_db w') (te_imei e) = Some i"
        "\<forall>r\<in>set (location_of i e). location_key r \<in> location_key ` set (tb_locations (wk_db w'))"
      using location_writer.handler_vehicle [OF h assms(1) e] by blast
    obtain r where "r \<in> set (location_of i e)" "location_key r = (i, te_recordedAt e)"
      using e(2) by (auto simp: location_of_def location_key_def)
    then show ?thesis using i by metis
  qed
  moreover have "\<exists>e\<in>set events. vehicle_id (wk_db w') (te_imei e) = Some (lo_vehicleId r) \<and> r \<in> set (location_of (lo_vehicleId r) e)"
    if r: "r \<in> set ?added" for r
  proof -
    have "r \<in> set ?rows" by (rule subsetD [OF keep_new_subset r])
    then show ?thesis by (rule location_rows_D)
  qed
  ultimately show ?thesis using h t d by blast
qed

text \<open>
  C21: at-least-once delivery stores at most once. After any stream of batches, live or backlog, in
  any order, delivering any of their events again - one batch, a regrouped batch, on the other
  topic - changes nothing: not a row, not a vehicle, not the cache.
\<close>

theorem redelivered_readings_are_ignored:
  assumes "registry_ok w" "set es \<subseteq> set (delivered batches)"
  shows "(deliver_all createLocationsHandler batches w = Some w' \<longrightarrow>
      createLocationsHandler newId es fr w' = (Inr (), w')) \<and>
    (deliver_all createFuelHandler batches w = Some w' \<longrightarrow> createFuelHandler newId es fr w' = (Inr (), w'))"
  using location_writer.replay_identity [OF _ assms] fuel_writer.replay_identity [OF _ assms] by blast

text \<open>
  what a fuel reading must satisfy is checked by the table, not by the event schema, and one
  reading outside it fails its whole batch: no reading of the batch is stored, and every retry
  fails the same way, on whatever state.
\<close>

theorem fuel_out_of_range_blocks_batch:
  assumes "registry_ok w" "e \<in> set events" "f \<in> set (te_fuel e)" "fu_pct f = Some p" "p < 0 \<or> 100 < p"
  shows "\<exists>err w'. createFuelHandler newId events fr w = (Inl err, w') \<and> tb_fuel (wk_db w') = tb_fuel (wk_db w)"
proof -
  obtain x w' where h: "createFuelHandler newId events fr w = (x, w')" by fastforce
  show ?thesis
  proof (cases x)
    case (Inl err)
    then show ?thesis using fuel_writer.handler_failed h by blast
  next
    case (Inr u)
    have "length (te_fuel e) > 0" using assms(3) by auto
    from fuel_writer.handler_vehicle [OF h [unfolded Inr] assms(1,2) this] obtain i where
      "\<forall>r\<in>set (map (fuel_row_of i e) (te_fuel e)). fuel_check r = None" by blast
    then have "fuel_check (fuel_row_of i e f) = None" using assms(3) by simp
    then have False using assms(4,5) by (auto simp: fuel_check_def fuel_row_of_def optional_def split: if_splits)
    then show ?thesis ..
  qed
qed

section \<open>Witnesses\<close>

definition sample_worker :: worker where
  "sample_worker = new_worker empty_telemetry_db"

lemma sample_worker_ok: "registry_ok sample_worker" "ids_fresh (\<lambda>imei. imei) (wk_db sample_worker)"
  by (simp_all add: sample_worker_def new_worker_def empty_telemetry_db_def registry_ok_def fleet_ok_def cache_ok_def
      ids_fresh_def)

lemma sample_event_gps_ok: "int_gps_ok (sample_event 1600000000000)"
  by (simp add: int_gps_ok_def sample_event_gps optional_def int4_def int2_def)

theorem positions_stored_once_witness:
  "\<exists>w'. createLocationsHandler (\<lambda>imei. imei) [sample_event 1600000000000] Live sample_worker = (Inr (), w') \<and>
     1600000000000 \<in> snd ` location_key ` set (tb_locations (wk_db w'))"
proof -
  have d: "distinct (map location_key (tb_locations (wk_db sample_worker)))"
    by (simp add: sample_worker_def new_worker_def empty_telemetry_db_def)
  have v: "list_all telemetryEventSchema [sample_event 1600000000000]" "list_all int_gps_ok [sample_event 1600000000000]"
    by (simp_all add: sample_event_valid sample_event_gps_ok)
  have g: "te_gps (sample_event 1600000000000) \<noteq> None" by (simp add: sample_event_gps)
  have t: "te_recordedAt (sample_event 1600000000000) = 1600000000000" by (simp add: sample_event_fields)
  obtain w' i where h: "createLocationsHandler (\<lambda>imei. imei) [sample_event 1600000000000] Live sample_worker = (Inr (), w')"
      "(i, te_recordedAt (sample_event 1600000000000)) \<in> location_key ` set (tb_locations (wk_db w'))"
    using positions_stored_once [OF sample_worker_ok v d, of Live] g by (meson list.set_intros(1))
  then have "snd (i, te_recordedAt (sample_event 1600000000000)) \<in> snd ` location_key ` set (tb_locations (wk_db w'))"
    by (rule_tac imageI)
  then show ?thesis using h(1) unfolding t snd_conv by blast
qed

theorem redelivered_readings_are_ignored_witness:
  "\<exists>w'. deliver_all createLocationsHandler [(\<lambda>imei. imei, [sample_event 1600000000000], Live)] sample_worker = Some w' \<and>
     createLocationsHandler (\<lambda>imei. imei) [sample_event 1600000000000, sample_event 1600000000000] Backfill w' = (Inr (), w')"
proof -
  let ?e = "sample_event 1600000000000"
  have "telemetryEventSchema ?e" by (simp add: sample_event_valid)
  then have "isValidImei (te_imei ?e)" by (simp add: telemetryEventSchema_def)
  then have v: "\<forall>e\<in>set [?e]. isValidImei (te_imei e)" by simp
  have "\<exists>w'. createLocationsHandler (\<lambda>imei. imei) [?e] Live sample_worker = (Inr (), w')"
    by (rule location_writer.handler_total [OF sample_worker_ok v], rule location_check_ok)
      (simp_all add: sample_event_valid sample_event_gps_ok)
  then obtain w' where "createLocationsHandler (\<lambda>imei. imei) [?e] Live sample_worker = (Inr (), w')" ..
  then have "deliver_all createLocationsHandler [(\<lambda>imei. imei, [?e], Live)] sample_worker = Some w'"
    by (simp add: deliver_all_def)
  then show ?thesis
    using redelivered_readings_are_ignored [OF sample_worker_ok(1), of "[?e, ?e]" "[(\<lambda>imei. imei, [?e], Live)]"]
    by (auto simp: delivered_def)
qed

definition sample_lls_event :: telemetry_event where
  "sample_lls_event = (sample_event 1600000000000)\<lparr>te_fuel := [\<lparr>fu_source = Lls1, fu_pct = Some 1000, fu_liters = None\<rparr>]\<rparr>"

text \<open>An LLS sensor reports its raw value (0 to 1023 or 4095), so this event is an ordinary one.\<close>

theorem fuel_out_of_range_blocks_batch_witness:
  "telemetryEventSchema sample_lls_event \<and> (\<exists>err w'.
     createFuelHandler (\<lambda>imei. imei) [sample_event 1600000000000, sample_lls_event] Live sample_worker = (Inl err, w') \<and>
     tb_fuel (wk_db w') = tb_fuel (wk_db sample_worker))"
proof -
  have "telemetryEventSchema sample_lls_event"
    using sample_event_valid [of 1600000000000]
    by (simp add: sample_lls_event_def telemetryEventSchema_def fuelReadingSchema_def)
  moreover have "\<exists>err w'.
     createFuelHandler (\<lambda>imei. imei) [sample_event 1600000000000, sample_lls_event] Live sample_worker = (Inl err, w') \<and>
     tb_fuel (wk_db w') = tb_fuel (wk_db sample_worker)"
    by (rule fuel_out_of_range_blocks_batch [OF sample_worker_ok(1), where e = sample_lls_event and p = 1000
          and f = "\<lparr>fu_source = Lls1, fu_pct = Some 1000, fu_liters = None\<rparr>"])
      (simp_all add: sample_lls_event_def)
  ultimately show ?thesis by blast
qed

end
