(* ===== verification/Engine.thy ===== *)
theory Engine
  imports Writers
begin

text \<open>
  \<open>apps/telemetry-consumers/src/consumers/engine.ts\<close>: ignition and movement transitions, one row per
  change, from what the device reports and from comparison with the last known state.
\<close>

section \<open>Transitions\<close>

fun IGNITION_EVENTS :: "engine_event_type \<Rightarrow> bool" where
  "IGNITION_EVENTS t = (t = Ignition_on \<or> t = Ignition_off)"

fun MOVEMENT_EVENTS :: "engine_event_type \<Rightarrow> bool" where
  "MOVEMENT_EVENTS t = (t = Movement_start \<or> t = Movement_stop)"

text \<open>
  The newest stored transition of one kind. The query orders by \<open>recorded_at\<close> only; among rows of
  the same instant, where PostgreSQL may answer any, this takes the first stored.
\<close>

fun newest :: "engine_row list \<Rightarrow> engine_row option" where
  "newest [] = None"
| "newest (r # rs) = (case newest rs of
       None \<Rightarrow> Some r
     | Some b \<Rightarrow> if en_recordedAt r \<ge> en_recordedAt b then Some r else Some b)"

definition lastTransition :: "telemetry_db \<Rightarrow> uuid \<Rightarrow> (engine_event_type \<Rightarrow> bool) \<Rightarrow> engine_event_type option" where
  "lastTransition db vehicleId types =
     map_option en_eventType (newest (filter (\<lambda>r. en_vehicleId r = vehicleId \<and> types (en_eventType r)) (tb_engine db)))"

definition loadState :: "uuid \<Rightarrow> worker \<Rightarrow> vehicle_state \<times> worker" where
  "loadState vehicleId w = (case map_of (wk_states w) vehicleId of
       Some state \<Rightarrow> (state, w)
     | None \<Rightarrow>
         let latestIgnition = lastTransition (wk_db w) vehicleId IGNITION_EVENTS;
             latestMovement = lastTransition (wk_db w) vehicleId MOVEMENT_EVENTS;
             state = \<lparr>vs_ignition = map_option (\<lambda>t. t = Ignition_on) latestIgnition,
                      vs_movement = map_option (\<lambda>t. t = Movement_start) latestMovement\<rparr>
         in (state, w\<lparr>wk_states := js_set vehicleId state (wk_states w)\<rparr>))"

text \<open>The transitions of a record, and the state after it (the code mutates \<open>state\<close> in place).\<close>

definition transitionsFor :: "telemetry_event \<Rightarrow> vehicle_state \<Rightarrow> bool \<Rightarrow> engine_event_type list \<times> vehicle_state" where
  "transitionsFor e state isLive =
     (let (ts1, state1) = (case te_ignition e of
          None \<Rightarrow> ([], state)
        | Some ignition \<Rightarrow>
            let deviceReportedChange = (te_eventIoId e = ID_ignition);
                differsFromKnown = (vs_ignition state \<noteq> None \<and> vs_ignition state \<noteq> Some ignition)
            in (if deviceReportedChange \<or> isLive \<and> differsFromKnown
                then [if ignition then Ignition_on else Ignition_off] else [],
                if isLive then state\<lparr>vs_ignition := Some ignition\<rparr> else state));
          (ts2, state2) = (case te_movement e of
          None \<Rightarrow> ([], state1)
        | Some movement \<Rightarrow>
            let deviceReportedChange = (te_eventIoId e = ID_movement);
                differsFromKnown = (vs_movement state1 \<noteq> None \<and> vs_movement state1 \<noteq> Some movement)
            in (if deviceReportedChange \<or> isLive \<and> differsFromKnown
                then [if movement then Movement_start else Movement_stop] else [],
                if isLive then state1\<lparr>vs_movement := Some movement\<rparr> else state1))
      in (ts1 @ ts2, state2))"

definition engine_row_of :: "uuid \<Rightarrow> telemetry_event \<Rightarrow> engine_event_type \<Rightarrow> engine_row" where
  "engine_row_of vehicleId e t = \<lparr>en_vehicleId = vehicleId, en_recordedAt = te_recordedAt e,
     en_receivedAt = te_receivedAt e, en_eventType = t\<rparr>"

text \<open>The loop over the batch. The mutated state object is the one the \<open>states\<close> map holds.\<close>

fun engine_rows :: "(string, uuid) jsmap \<Rightarrow> bool \<Rightarrow> telemetry_event list \<Rightarrow> worker \<Rightarrow> engine_row list \<times> worker" where
  "engine_rows vehicleIds isLive [] w = ([], w)"
| "engine_rows vehicleIds isLive (e # es) w = (case map_of vehicleIds (te_imei e) of
       None \<Rightarrow> engine_rows vehicleIds isLive es w
     | Some vehicleId \<Rightarrow>
         (case loadState vehicleId w of (state, w1) \<Rightarrow>
         (case transitionsFor e state isLive of (ts, state') \<Rightarrow>
         (case engine_rows vehicleIds isLive es (w1\<lparr>wk_states := js_set vehicleId state' (wk_states w1)\<rparr>) of
            (rows, w2) \<Rightarrow> (map (engine_row_of vehicleId e) ts @ rows, w2)))))"

definition engine_relevant :: "telemetry_event \<Rightarrow> bool" where
  "engine_relevant e \<longleftrightarrow> te_ignition e \<noteq> None \<or> te_movement e \<noteq> None"

definition createEngineHandler :: "(string \<Rightarrow> uuid) \<Rightarrow> telemetry_event list \<Rightarrow> freshness \<Rightarrow> unit worker_op" where
  "createEngineHandler newId events freshness =
     (let relevant = filter engine_relevant events in
      if relevant = [] then op_return ()
      else op_bind (resolveAll newId (map te_imei relevant)) (\<lambda>vehicleIds w.
        (case engine_rows vehicleIds (freshness = Live) relevant w of (rows, w') \<Rightarrow>
           (if rows = [] then op_return () else on_db (insert_engine rows)) w')))"

interpretation engine: reading_table tb_engine insert_engine "\<lambda>_. None" engine_key en_vehicleId
proof
  fix rows :: "engine_row list" and db db' :: telemetry_db and u :: unit and e :: thrown
  show "insert_engine rows db = (Inr u, db') \<Longrightarrow>
     tb_engine db' = tb_engine db @ keep_new engine_key (engine_key ` set (tb_engine db)) rows \<and>
     list_all (\<lambda>r. None = None) rows \<and> tb_vehicles db' = tb_vehicles db"
    by (auto simp: insert_engine_def dest: insert_ignore_Inr split: sum.splits)
  show "insert_engine rows db = (Inl e, db') \<Longrightarrow> db' = db"
    by (auto simp: insert_engine_def split: sum.splits)
  show "list_all (\<lambda>r. None = None) rows \<Longrightarrow> list_all (\<lambda>r. vehicle_exists db (en_vehicleId r)) rows \<Longrightarrow>
      \<exists>db'. insert_engine rows db = (Inr (), db')"
    by (simp add: insert_engine_def insert_ignore_ok)
  show "list_all (\<lambda>r. None = None) rows \<Longrightarrow>
      engine_key ` set rows \<subseteq> engine_key ` set (tb_engine db) \<Longrightarrow> insert_engine rows db = (Inr (), db)"
    by (simp add: insert_engine_def insert_ignore_def insert_rows_ok keep_new_known)
  show "fleet_grows db db' \<Longrightarrow> tb_engine db' = tb_engine db" by (rule fleet_grows_tables)
qed

section \<open>The two signals, read uniformly\<close>

datatype engine_signal = Ignition | Movement

fun signal_of :: "engine_signal \<Rightarrow> telemetry_event \<Rightarrow> bool option" where
  "signal_of Ignition e = te_ignition e"
| "signal_of Movement e = te_movement e"

fun known :: "engine_signal \<Rightarrow> vehicle_state \<Rightarrow> bool option" where
  "known Ignition s = vs_ignition s"
| "known Movement s = vs_movement s"

fun trigger :: "engine_signal \<Rightarrow> nat" where
  "trigger Ignition = ID_ignition"
| "trigger Movement = ID_movement"

fun transition :: "engine_signal \<Rightarrow> bool \<Rightarrow> engine_event_type" where
  "transition Ignition b = (if b then Ignition_on else Ignition_off)"
| "transition Movement b = (if b then Movement_start else Movement_stop)"

definition signal_types :: "engine_signal \<Rightarrow> engine_event_type set" where
  "signal_types sg = {transition sg True, transition sg False}"

text \<open>The new values that a list of transitions of one signal announces.\<close>

definition values_of :: "engine_signal \<Rightarrow> engine_event_type list \<Rightarrow> bool list" where
  "values_of sg ts = map (\<lambda>t. t = transition sg True) (filter (\<lambda>t. t \<in> signal_types sg) ts)"

lemma values_of_append: "values_of sg (xs @ ys) = values_of sg xs @ values_of sg ys"
  by (simp add: values_of_def)

lemma transitionsFor_signal:
  assumes "transitionsFor e st isLive = (ts, st')"
  shows "known sg st' = (if isLive \<and> signal_of sg e \<noteq> None then signal_of sg e else known sg st)"
    and "values_of sg ts = (case signal_of sg e of None \<Rightarrow> []
      | Some b \<Rightarrow> if te_eventIoId e = trigger sg \<or> isLive \<and> known sg st = Some (\<not> b) then [b] else [])"
  using assms
  by (cases sg; auto simp: transitionsFor_def Let_def values_of_def signal_types_def split: option.splits if_splits)+

section \<open>Live data: transitions compress the signal\<close>

lemma loadState_get:
  assumes "loadState v w = (st, w1)"
  shows "map_of (wk_states w1) v = Some st" "wk_db w1 = wk_db w" "wk_cache w1 = wk_cache w"
    "\<And>u st. map_of (wk_states w) u = Some st \<Longrightarrow> map_of (wk_states w1) u = Some st"
    "\<And>s. map_of (wk_states w) v = Some s \<Longrightarrow> st = s \<and> w1 = w"
  using assms by (auto simp: loadState_def Let_def js_get_set split: option.splits)

definition reads_of :: "engine_signal \<Rightarrow> (string, uuid) jsmap \<Rightarrow> uuid \<Rightarrow> telemetry_event list \<Rightarrow> bool list" where
  "reads_of sg vehicleIds v es = map (\<lambda>e. the (signal_of sg e))
     (filter (\<lambda>e. map_of vehicleIds (te_imei e) = Some v \<and> signal_of sg e \<noteq> None) es)"

definition announced :: "engine_signal \<Rightarrow> uuid \<Rightarrow> engine_row list \<Rightarrow> bool list" where
  "announced sg v rows = values_of sg (map en_eventType (filter (\<lambda>r. en_vehicleId r = v) rows))"

lemma announced_append: "announced sg v (xs @ ys) = announced sg v xs @ announced sg v ys"
  by (simp add: announced_def values_of_append)

lemma announced_row: "announced sg v (map (engine_row_of u e) ts) = (if u = v then values_of sg ts else [])"
  by (auto simp: announced_def engine_row_of_def comp_def filter_map values_of_def)

lemma engine_rows_step:
  assumes "engine_rows ids isLive (e # es) w = (rows, w')" "map_of ids (te_imei e) = Some v"
  obtains st w1 ts st' rest where "loadState v w = (st, w1)" "transitionsFor e st isLive = (ts, st')"
    "engine_rows ids isLive es (w1\<lparr>wk_states := js_set v st' (wk_states w1)\<rparr>) = (rest, w')"
    "rows = map (engine_row_of v e) ts @ rest"
  using assms by (auto split: prod.splits)

lemma live_rows:
  assumes "engine_rows ids True es w = (rows, w')" "map_of (wk_states w) v = Some st" "known sg st = Some k"
  shows "remdups_adj (k # announced sg v rows) = remdups_adj (k # reads_of sg ids v es) \<and>
    ((\<forall>e\<in>set es. te_eventIoId e \<noteq> trigger sg) \<longrightarrow>
      k # announced sg v rows = remdups_adj (k # reads_of sg ids v es))"
  using assms
proof (induction es arbitrary: w rows st k)
  case Nil
  then show ?case by (simp add: announced_def reads_of_def values_of_def)
next
  case (Cons e es)
  note h = Cons.prems
  show ?case
  proof (cases "map_of ids (te_imei e)")
    case None
    then have "engine_rows ids True es w = (rows, w')" "reads_of sg ids v (e # es) = reads_of sg ids v es"
      using h(1) by (simp_all add: reads_of_def)
    then show ?thesis using Cons.IH [of w rows st k] h(2,3) by auto
  next
    case (Some u)
    from engine_rows_step [OF h(1) Some] obtain su w1 ts su' rest where
      l: "loadState u w = (su, w1)" and t: "transitionsFor e su True = (ts, su')"
      and r: "engine_rows ids True es (w1\<lparr>wk_states := js_set u su' (wk_states w1)\<rparr>) = (rest, w')"
      and rows: "rows = map (engine_row_of u e) ts @ rest" .
    note ls = loadState_get [OF l] and sg = transitionsFor_signal [OF t, of sg]
    let ?w2 = "w1\<lparr>wk_states := js_set u su' (wk_states w1)\<rparr>"
    show ?thesis
    proof (cases "u = v")
      case False
      then have "map_of (wk_states ?w2) v = Some st" using ls(4) [OF h(2)] by (simp add: js_get_set)
      moreover have "announced sg v rows = announced sg v rest" using False by (simp add: rows announced_append announced_row)
      moreover have "reads_of sg ids v (e # es) = reads_of sg ids v es" using False Some by (simp add: reads_of_def)
      ultimately show ?thesis using Cons.IH [OF r _ h(3)] by auto
    next
      case True
      then have su: "su = st" using ls(5) h(2) by blast
      have g: "map_of (wk_states ?w2) v = Some su'" using True by (simp add: js_get_set)
      have a: "announced sg v rows = values_of sg ts @ announced sg v rest"
        using True by (simp add: rows announced_append announced_row)
      show ?thesis
      proof (cases "signal_of sg e")
        case None
        then have "values_of sg ts = []" "known sg su' = Some k" "reads_of sg ids v (e # es) = reads_of sg ids v es"
          using sg h(3) su by (simp_all add: reads_of_def)
        then show ?thesis using Cons.IH [OF r g] a by auto
      next
        case (Some b)
        then have "known sg su' = Some b" using sg by simp
        note ih = Cons.IH [OF r g this]
        have rd: "reads_of sg ids v (e # es) = b # reads_of sg ids v es"
          using Some True \<open>map_of ids (te_imei e) = Some u\<close> by (simp add: reads_of_def)
        have vals: "values_of sg ts = (if te_eventIoId e = trigger sg \<or> k \<noteq> b then [b] else [])"
          using sg(2) Some h(3) su by auto
        show ?thesis using ih vals a rd by auto
      qed
    qed
  qed
qed

section \<open>Backlog: only what the device reports\<close>

definition reported :: "engine_signal \<Rightarrow> telemetry_event \<Rightarrow> engine_event_type list" where
  "reported sg e = (case signal_of sg e of None \<Rightarrow> []
     | Some b \<Rightarrow> if te_eventIoId e = trigger sg then [transition sg b] else [])"

definition backlog_rows :: "(string, uuid) jsmap \<Rightarrow> telemetry_event list \<Rightarrow> engine_row list" where
  "backlog_rows ids es = concat (map (\<lambda>e. case map_of ids (te_imei e) of None \<Rightarrow> []
     | Some v \<Rightarrow> map (engine_row_of v e) (reported Ignition e @ reported Movement e)) es)"

lemma transitionsFor_backlog: "transitionsFor e st False = (reported Ignition e @ reported Movement e, st)"
  by (auto simp: transitionsFor_def Let_def reported_def split: option.splits)

lemma backlog_engine_rows:
  "engine_rows ids False es w = (rows, w') \<Longrightarrow> rows = backlog_rows ids es \<and> wk_db w' = wk_db w \<and> wk_cache w' = wk_cache w \<and>
     (\<forall>u st. map_of (wk_states w) u = Some st \<longrightarrow> map_of (wk_states w') u = Some st)"
proof (induction es arbitrary: w rows)
  case Nil
  then show ?case by (simp add: backlog_rows_def)
next
  case (Cons e es)
  show ?case
  proof (cases "map_of ids (te_imei e)")
    case None
    then show ?thesis using Cons by (simp add: backlog_rows_def)
  next
    case (Some u)
    from engine_rows_step [OF Cons.prems Some] obtain su w1 ts su' rest where
      l: "loadState u w = (su, w1)" and t: "transitionsFor e su False = (ts, su')"
      and r: "engine_rows ids False es (w1\<lparr>wk_states := js_set u su' (wk_states w1)\<rparr>) = (rest, w')"
      and rows: "rows = map (engine_row_of u e) ts @ rest" .
    note ls = loadState_get [OF l] and ih = Cons.IH [OF r]
    have ts: "ts = reported Ignition e @ reported Movement e" "su' = su" using t by (simp_all add: transitionsFor_backlog)
    have "map_of (js_set u su (wk_states w1)) = map_of (wk_states w1)" using ls(1) by (auto simp: js_get_set)
    then show ?thesis using ih ls Some by (simp add: rows ts backlog_rows_def)
  qed
qed

section \<open>Properties\<close>

text \<open>
  C22: on live data the stored transitions are a lossless, minimal record of each signal. Starting
  from a known value, the values a batch's transitions announce are the readings with repetitions
  removed (up to repetitions the device itself insisted on): replaying them gives the signal at
  every reading, and without device-triggered records every row is a real change.
\<close>

theorem transitions_compress_signal:
  assumes "engine_rows ids True es w = (rows, w')" "map_of (wk_states w) v = Some st" "known sg st = Some k"
  shows "remdups_adj (k # announced sg v rows) = remdups_adj (k # reads_of sg ids v es) \<and>
    ((\<forall>e\<in>set es. te_eventIoId e \<noteq> trigger sg) \<longrightarrow>
      k # announced sg v rows = remdups_adj (k # reads_of sg ids v es))"
  by (rule live_rows [OF assms])

lemma backlog_handler:
  assumes "createEngineHandler newId es Backfill w = (Inr u, w')" "registry_ok w"
  shows "registry_ok w' \<and> cached w' (map te_imei (filter engine_relevant es)) \<and>
    (\<forall>u st. map_of (wk_states w) u = Some st \<longrightarrow> map_of (wk_states w') u = Some st) \<and>
    (\<exists>ids. (\<forall>e\<in>set es. engine_relevant e \<longrightarrow> map_of ids (te_imei e) = vehicle_id (wk_db w') (te_imei e)) \<and>
      tb_engine (wk_db w') = tb_engine (wk_db w) @
        keep_new engine_key (engine_key ` set (tb_engine (wk_db w))) (backlog_rows ids (filter engine_relevant es)))"
proof (cases "filter engine_relevant es = []")
  case True
  then show ?thesis using assms by (auto simp: createEngineHandler_def backlog_rows_def cached_def filter_empty_conv intro!: exI [of _ "[]"])
next
  case False
  then obtain ids v where r: "resolveAll newId (map te_imei (filter engine_relevant es)) w = (Inr ids, v)"
      and k: "(case engine_rows ids False (filter engine_relevant es) v of (rows, w') \<Rightarrow>
           (if rows = [] then op_return () else on_db (insert_engine rows)) w') = (Inr u, w')"
    using assms(1) by (auto simp: createEngineHandler_def op_bind_Inr Let_def)
  note spec = resolveAll_spec [OF r assms(2)]
  obtain rows v' where er: "engine_rows ids False (filter engine_relevant es) v = (rows, v')" by fastforce
  note b = backlog_engine_rows [OF er]
  have t: "tb_engine (wk_db v) = tb_engine (wk_db w)" by (rule engine.tbl_fleet [OF spec(2)])
  have ids: "map_of ids (te_imei e) = vehicle_id (wk_db v) (te_imei e)" if "e \<in> set es" "engine_relevant e" for e
    using spec(5) [of "te_imei e"] that by auto
  have c: "cached v (map te_imei (filter engine_relevant es))" by (rule resolveAll_caches [OF r])
  show ?thesis
  proof (cases "rows = []")
    case True
    then have "w' = v'" using k er by simp
    then show ?thesis
      using b t ids spec(1,3) c True by (auto simp: registry_ok_def cached_def intro!: exI [of _ ids])
  next
    case False
    then obtain db where i: "insert_engine rows (wk_db v') = (Inr u, db)" and w': "w' = v'\<lparr>wk_db := db\<rparr>"
      using k er by (auto simp: on_db_def split: prod.splits)
    note ok = engine.ins_ok [OF i]
    have vid: "vehicle_id db = vehicle_id (wk_db v)" using ok b by (simp add: vehicle_id_def find_vehicle_def fun_eq_iff)
    have "registry_ok w'" using spec(1) ok b vid by (simp add: w' registry_ok_def fleet_ok_def cache_ok_def)
    moreover have "cached w' ks = cached v ks" for ks using b by (simp add: w' cached_def)
    moreover have "tb_engine (wk_db w') = tb_engine (wk_db w) @
        keep_new engine_key (engine_key ` set (tb_engine (wk_db w))) (backlog_rows ids (filter engine_relevant es))"
      using ok b t by (simp add: w')
    ultimately show ?thesis using c b spec(3) ids vid by (auto simp: w' intro!: exI [of _ ids])
  qed
qed

text \<open>
  backlog cannot disturb what is known about now. A backlog batch adds exactly the transitions
  the device reported as such, leaves every known state as it was, and delivering it again leaves
  the database as it is.
\<close>

theorem backlog_is_stateless:
  assumes "createEngineHandler newId es Backfill w = (Inr u, w')" "registry_ok w"
  shows "(\<forall>v st. map_of (wk_states w) v = Some st \<longrightarrow> map_of (wk_states w') v = Some st) \<and>
    (\<exists>ids. (\<forall>e\<in>set es. engine_relevant e \<longrightarrow> map_of ids (te_imei e) = vehicle_id (wk_db w') (te_imei e)) \<and>
      tb_engine (wk_db w') = tb_engine (wk_db w) @
        keep_new engine_key (engine_key ` set (tb_engine (wk_db w))) (backlog_rows ids (filter engine_relevant es))) \<and>
    (\<exists>w''. createEngineHandler newId' es Backfill w' = (Inr (), w'') \<and> wk_db w'' = wk_db w')"
proof -
  note h = backlog_handler [OF assms]
  obtain ids where ids: "\<forall>e\<in>set es. engine_relevant e \<longrightarrow> map_of ids (te_imei e) = vehicle_id (wk_db w') (te_imei e)"
    and t: "tb_engine (wk_db w') = tb_engine (wk_db w) @
        keep_new engine_key (engine_key ` set (tb_engine (wk_db w))) (backlog_rows ids (filter engine_relevant es))"
    using h by blast
  have "\<exists>w''. createEngineHandler newId' es Backfill w' = (Inr (), w'') \<and> wk_db w'' = wk_db w'"
  proof (cases "filter engine_relevant es = []")
    case True
    then show ?thesis by (simp add: createEngineHandler_def)
  next
    case False
    have "cached w' (map te_imei (filter engine_relevant es))" using h by simp
    then obtain ids2 where r: "resolveAll newId' (map te_imei (filter engine_relevant es)) w' = (Inr ids2, w')"
      using resolveAll_cached by blast
    have "registry_ok w'" using h by simp
    note spec = resolveAll_spec [OF r this]
    have same: "map_of ids2 (te_imei e) = map_of ids (te_imei e)" if "e \<in> set (filter engine_relevant es)" for e
      using spec(5) [of "te_imei e"] ids that by auto
    have bk: "backlog_rows ids2 (filter engine_relevant es) = backlog_rows ids (filter engine_relevant es)"
      unfolding backlog_rows_def by (intro arg_cong [of _ _ concat] map_cong refl) (simp only: same)
    obtain rows v' where er: "engine_rows ids2 False (filter engine_relevant es) w' = (rows, v')" by fastforce
    note b = backlog_engine_rows [OF er]
    have "engine_key ` set rows \<subseteq> engine_key ` set (tb_engine (wk_db w'))"
      using b bk by (auto simp: t image_Un keep_new_keys)
    then have "insert_engine rows (wk_db v') = (Inr (), wk_db v')"
      using b engine.ins_known [of rows "wk_db v'"] by (simp add: list_all_iff)
    then show ?thesis
      using False r er b by (simp add: createEngineHandler_def Let_def on_db_def op_bind_def)
  qed
  then show ?thesis using h by blast
qed

definition live_fleet :: worker where
  "live_fleet = (new_worker (empty_telemetry_db\<lparr>tb_vehicles :=
      [\<lparr>ve_id = ''v'', ve_seq = 1, ve_imei = ''356307042441013'', ve_label = None\<rparr>]\<rparr>))
     \<lparr>wk_cache := [(''356307042441013'', ''v'')], wk_states := [(''v'', \<lparr>vs_ignition = Some True, vs_movement = None\<rparr>)]\<rparr>"

definition ignition_event :: "int \<Rightarrow> bool \<Rightarrow> telemetry_event" where
  "ignition_event ts b = (sample_event 0)\<lparr>te_imei := ''356307042441013'', te_eventIoId := 0, te_recordedAt := ts,
     te_receivedAt := 5000, te_ignition := Some b, te_movement := None\<rparr>"

definition on_then_off :: "(string \<Rightarrow> uuid) \<times> telemetry_event list \<times> freshness" where
  "on_then_off = (\<lambda>imei. imei, [ignition_event 1000 True, ignition_event 2000 False], Live)"

definition stored_transitions :: "worker \<Rightarrow> (uuid \<times> int \<times> engine_event_type) list" where
  "stored_transitions w = map engine_key (tb_engine (wk_db w))"

text \<open>
  redelivered live data is not harmless. A batch in which the ignition is on and then off,
  delivered once to a vehicle known to be on, stores one transition; delivered again, it stores an
  \<open>ignition_on\<close> that never happened, because the comparison now starts from the batch's own end.
\<close>

theorem live_redelivery_invents_transition:
  "map_option stored_transitions (deliver_all createEngineHandler [on_then_off] live_fleet) = Some [(''v'', 2000, Ignition_off)] \<and>
   map_option stored_transitions (deliver_all createEngineHandler [on_then_off, on_then_off] live_fleet) =
     Some [(''v'', 2000, Ignition_off), (''v'', 1000, Ignition_on)]"
  by (simp add: deliver_all_def stored_transitions_def on_then_off_def createEngineHandler_def live_fleet_def
      ignition_event_def engine_relevant_def
      new_worker_def empty_telemetry_db_def resolveAll_def op_bind_def resolve_def js_set_def loadState_def
      transitionsFor_def Let_def ID_ignition_def engine_row_of_def on_db_def insert_engine_def insert_ignore_def
      vehicle_exists_def engine_key_def ex_bool_eq all_bool_eq)

section \<open>Witnesses\<close>

theorem transitions_compress_signal_witness:
  "announced Ignition ''v'' (fst (engine_rows [(''356307042441013'', ''v'')] True
     [ignition_event 1000 True, ignition_event 2000 False, ignition_event 3000 False] live_fleet)) = [False]"
proof -
  let ?ids = "[(''356307042441013'', ''v'')]"
  let ?es = "[ignition_event 1000 True, ignition_event 2000 False, ignition_event 3000 False]"
  obtain rows w' where r: "engine_rows ?ids True ?es live_fleet = (rows, w')" by fastforce
  have "map_of (wk_states live_fleet) ''v'' = Some \<lparr>vs_ignition = Some True, vs_movement = None\<rparr>"
      "known Ignition \<lparr>vs_ignition = Some True, vs_movement = None\<rparr> = Some True"
    by (simp_all add: live_fleet_def)
  note spec = transitions_compress_signal [OF r this]
  have "\<forall>e\<in>set ?es. te_eventIoId e \<noteq> trigger Ignition" by (simp add: ignition_event_def ID_ignition_def)
  then have "True # announced Ignition ''v'' rows = remdups_adj (True # reads_of Ignition ?ids ''v'' ?es)"
    using spec by blast
  moreover have "reads_of Ignition ?ids ''v'' ?es = [True, False, False]"
    by (simp add: reads_of_def ignition_event_def ex_bool_eq all_bool_eq)
  ultimately show ?thesis unfolding r fst_conv by simp
qed

lemma live_fleet_ok: "registry_ok live_fleet"
  by (simp add: registry_ok_def live_fleet_def new_worker_def empty_telemetry_db_def fleet_ok_def cache_ok_def
      vehicle_id_def find_vehicle_def vehicles_imei_digits_def is_digit_def)

theorem backlog_is_stateless_witness:
  "\<exists>w' w''. createEngineHandler (\<lambda>imei. imei) [ignition_event 1000 False] Backfill live_fleet = (Inr (), w') \<and>
     createEngineHandler (\<lambda>imei. imei) [ignition_event 1000 False] Backfill w' = (Inr (), w'') \<and> wk_db w'' = wk_db w'"
proof -
  have h: "createEngineHandler (\<lambda>imei. imei) [ignition_event 1000 False] Backfill live_fleet =
      (Inr (), live_fleet)"
    by (simp add: createEngineHandler_def live_fleet_def ignition_event_def engine_relevant_def
      new_worker_def empty_telemetry_db_def resolveAll_def op_bind_def resolve_def js_set_def loadState_def
      transitionsFor_def Let_def ID_ignition_def)
  from backlog_is_stateless [OF h live_fleet_ok] h show ?thesis by blast
qed

end
