(* ===== verification/Alert_Rules.thy ===== *)
theory Alert_Rules
  imports Complex_Main Vehicles
begin

text \<open>
  \<open>apps/telemetry-consumers/src/alerting/rules.ts\<close>: which conditions a reading satisfies. Distances
  are real numbers: the rounding of the double arithmetic behind \<open>Math.sin\<close> and the like, which
  ECMAScript leaves to the implementation, is not modelled. Everything else is exact.
\<close>

section \<open>Distance\<close>

definition EARTH_RADIUS_M :: real where
  "EARTH_RADIUS_M = 6371008.8"

definition toRadians :: "real \<Rightarrow> real" where
  "toRadians degrees = degrees * pi / 180"

text \<open>The two points are latitude and longitude.\<close>

definition haversineMeters :: "rat \<times> rat \<Rightarrow> rat \<times> rat \<Rightarrow> real" where
  "haversineMeters a b =
     (let aLat = of_rat (fst a); aLng = of_rat (snd a); bLat = of_rat (fst b); bLng = of_rat (snd b);
          deltaLat = toRadians (bLat - aLat);
          deltaLng = toRadians (bLng - aLng);
          chord = sin (deltaLat / 2) ^ 2 + cos (toRadians aLat) * cos (toRadians bLat) * sin (deltaLng / 2) ^ 2
      in 2 * EARTH_RADIUS_M * arcsin (min 1 (sqrt chord)))"

section \<open>Rules\<close>

record alert_rule_config =
  rc_lowFuelPct :: int
  rc_speedLimitKph :: int
  rc_geofences :: "geofence_row list"

record alert_candidate =
  ca_alertType :: vehicle_alert_type
  ca_details :: alert_details

text \<open>The reduction over the readings that carry a percentage.\<close>

definition worse :: "(fuel_source \<times> int) option \<Rightarrow> fuel_reading \<Rightarrow> (fuel_source \<times> int) option" where
  "worse worst reading = (case fu_pct reading of
       None \<Rightarrow> worst
     | Some pct \<Rightarrow> (case worst of
           None \<Rightarrow> Some (fu_source reading, pct)
         | Some (s, p) \<Rightarrow> if pct < p then Some (fu_source reading, pct) else worst))"

definition lowest_fuel :: "fuel_reading list \<Rightarrow> (fuel_source \<times> int) option" where
  "lowest_fuel readings = foldl worse None (filter (\<lambda>r. fu_pct r \<noteq> None) readings)"

definition gps_point :: "normalized_gps \<Rightarrow> rat \<times> rat" where
  "gps_point g = (ng_latitude g, ng_longitude g)"

definition center :: "geofence_row \<Rightarrow> rat \<times> rat" where
  "center g = (ge_centerLatitude g, ge_centerLongitude g)"

definition nearer :: "geofence_row \<times> real \<Rightarrow> geofence_row \<times> real \<Rightarrow> geofence_row \<times> real" where
  "nearer best current = (if snd current < snd best then current else best)"

text \<open>\<open>Math.round\<close>\<close>

definition js_round :: "real \<Rightarrow> int" where
  "js_round x = \<lfloor>x + 1 / 2\<rfloor>"

definition fuel_candidates :: "telemetry_event \<Rightarrow> alert_rule_config \<Rightarrow> alert_candidate list" where
  "fuel_candidates e config = (case lowest_fuel (te_fuel e) of
       None \<Rightarrow> []
     | Some (s, pct) \<Rightarrow> if pct < rc_lowFuelPct config
         then [\<lparr>ca_alertType = Low_fuel, ca_details = FuelDetails pct (rc_lowFuelPct config) s\<rparr>] else [])"

definition speed_candidates :: "normalized_gps \<Rightarrow> alert_rule_config \<Rightarrow> alert_candidate list" where
  "speed_candidates g config = (if int (ng_speedKph g) > rc_speedLimitKph config
     then [\<lparr>ca_alertType = Speeding, ca_details = SpeedDetails (int (ng_speedKph g)) (rc_speedLimitKph config)\<rparr>] else [])"

definition fence_candidates :: "normalized_gps \<Rightarrow> alert_rule_config \<Rightarrow> alert_candidate list" where
  "fence_candidates g config = (case map (\<lambda>f. (f, haversineMeters (gps_point g) (center f))) (rc_geofences config) of
       [] \<Rightarrow> []
     | d # ds \<Rightarrow>
         if \<exists>(f, distance)\<in>set (d # ds). distance \<le> of_int (ge_radiusM f) then []
         else (case foldl nearer d ds of (f, distance) \<Rightarrow>
           [\<lparr>ca_alertType = Geofence_exit,
             ca_details = FenceDetails (ge_id f) (ge_name f) (js_round distance) (ge_radiusM f)\<rparr>]))"

definition evaluateRules :: "telemetry_event \<Rightarrow> alert_rule_config \<Rightarrow> alert_candidate list" where
  "evaluateRules e config = fuel_candidates e config @ (case te_gps e of
       None \<Rightarrow> []
     | Some g \<Rightarrow> speed_candidates g config @ fence_candidates g config)"

section \<open>Lemmas\<close>

lemma haversine_self: "haversineMeters p p = 0"
  by (simp add: haversineMeters_def toRadians_def Let_def)

lemma haversine_sym: "haversineMeters p q = haversineMeters q p"
proof -
  have m: "toRadians (a - b) = - toRadians (b - a)" for a b :: real by (simp add: toRadians_def field_simps)
  have s: "sin (toRadians (a - b) / 2) ^ 2 = sin (toRadians (b - a) / 2) ^ 2" for a b :: real
    by (subst m) simp
  show ?thesis
    unfolding haversineMeters_def Let_def
    by (subst s [of "of_rat (fst q)"], subst s [of "of_rat (snd q)"]) (simp add: mult.commute)
qed

text \<open>In range latitudes give a distance between zero and half the circumference.\<close>

lemma cos_latitude: "\<bar>l\<bar> \<le> 90 \<Longrightarrow> 0 \<le> cos (toRadians l)"
proof -
  assume l: "\<bar>l\<bar> \<le> 90"
  have "l * pi \<le> 90 * pi" "- 90 * pi \<le> l * pi" using l by (intro mult_right_mono; simp)+
  then have "toRadians l \<le> pi / 2" "- (pi / 2) \<le> toRadians l" by (simp_all add: toRadians_def)
  then show ?thesis by (intro cos_ge_zero)
qed

lemma haversine_bounds:
  assumes "\<bar>fst p\<bar> \<le> 90" "\<bar>fst q\<bar> \<le> 90"
  shows "0 \<le> haversineMeters p q" "haversineMeters p q \<le> pi * EARTH_RADIUS_M"
proof -
  define chord where "chord = sin (toRadians (of_rat (fst q) - of_rat (fst p)) / 2) ^ 2 +
    cos (toRadians (of_rat (fst p))) * cos (toRadians (of_rat (fst q))) *
    sin (toRadians (of_rat (snd q) - of_rat (snd p)) / 2) ^ 2"
  have d: "haversineMeters p q = 2 * EARTH_RADIUS_M * arcsin (min 1 (sqrt chord))"
    by (simp add: haversineMeters_def Let_def chord_def)
  have r: "\<bar>of_rat x :: real\<bar> \<le> 90" if "\<bar>x\<bar> \<le> 90" for x :: rat
  proof -
    have "of_rat \<bar>x\<bar> \<le> (of_rat 90 :: real)" using that by (simp only: of_rat_less_eq)
    then show ?thesis by simp
  qed
  have "0 \<le> chord" unfolding chord_def
    using cos_latitude [OF r [OF assms(1)]] cos_latitude [OF r [OF assms(2)]] by (intro add_nonneg_nonneg mult_nonneg_nonneg) auto
  then have s: "0 \<le> min 1 (sqrt chord)" "min 1 (sqrt chord) \<le> 1" by auto
  then have "0 \<le> arcsin (min 1 (sqrt chord))" using arcsin_le_arcsin [of 0] by simp
  moreover have "arcsin (min 1 (sqrt chord)) \<le> pi / 2" by (rule arcsin_ubound) (use s in linarith)+
  ultimately show "0 \<le> haversineMeters p q" "haversineMeters p q \<le> pi * EARTH_RADIUS_M"
    unfolding d by (simp_all add: EARTH_RADIUS_M_def)
qed

lemma worse_fold:
  "foldl worse acc rs = Some (s, p) \<Longrightarrow>
     (acc = Some (s, p) \<or> (\<exists>r\<in>set rs. fu_pct r = Some p \<and> fu_source r = s)) \<and>
     (\<forall>q. (\<exists>t. acc = Some (t, q)) \<or> (\<exists>r\<in>set rs. fu_pct r = Some q) \<longrightarrow> p \<le> q)"
proof (induction rs arbitrary: acc)
  case Nil
  then show ?case by auto
next
  case (Cons r rs)
  from Cons.IH [of "worse acc r"] Cons.prems show ?case
    by (auto simp: worse_def split: option.splits prod.splits if_splits)
qed

lemma worse_fold_None: "foldl worse acc rs = None \<longleftrightarrow> acc = None \<and> (\<forall>r\<in>set rs. fu_pct r = None)"
  by (induction rs arbitrary: acc) (auto simp: worse_def split: option.splits)

lemma lowest_fuel_Some:
  "lowest_fuel rs = Some (s, p) \<Longrightarrow> (\<exists>r\<in>set rs. fu_pct r = Some p \<and> fu_source r = s) \<and>
     (\<forall>r\<in>set rs. \<forall>q. fu_pct r = Some q \<longrightarrow> p \<le> q)"
  unfolding lowest_fuel_def by (drule worse_fold) auto

lemma lowest_fuel_None: "lowest_fuel rs = None \<longleftrightarrow> (\<forall>r\<in>set rs. fu_pct r = None)"
  unfolding lowest_fuel_def worse_fold_None by auto

lemma nearer_fold: "foldl nearer d ds \<in> set (d # ds) \<and> (\<forall>x\<in>set (d # ds). snd (foldl nearer d ds) \<le> snd x)"
proof (induction ds arbitrary: d)
  case Nil
  then show ?case by simp
next
  case (Cons x ds)
  from Cons.IH [of "nearer d x"] show ?case by (auto simp: nearer_def split: if_splits)
qed

lemma fuel_candidates_iff:
  "(\<exists>c. c \<in> set (fuel_candidates e config)) \<longleftrightarrow>
     (\<exists>r\<in>set (te_fuel e). \<exists>p. fu_pct r = Some p \<and> p < rc_lowFuelPct config)"
proof (cases "lowest_fuel (te_fuel e)")
  case None
  then show ?thesis using lowest_fuel_None [of "te_fuel e"] by (auto simp: fuel_candidates_def)
next
  case (Some sp)
  obtain s p where sp: "sp = (s, p)" by fastforce
  note low = lowest_fuel_Some [OF Some [unfolded sp]]
  show ?thesis using low by (auto simp: fuel_candidates_def Some sp)
qed

lemma fuel_candidates_D:
  assumes "c \<in> set (fuel_candidates e config)"
  shows "ca_alertType c = Low_fuel \<and> (\<exists>p s. ca_details c = FuelDetails p (rc_lowFuelPct config) s \<and>
    (\<exists>r\<in>set (te_fuel e). fu_pct r = Some p \<and> fu_source r = s) \<and>
    (\<forall>r\<in>set (te_fuel e). \<forall>q. fu_pct r = Some q \<longrightarrow> p \<le> q))"
proof -
  obtain s p where "lowest_fuel (te_fuel e) = Some (s, p)"
      and c: "c = \<lparr>ca_alertType = Low_fuel, ca_details = FuelDetails p (rc_lowFuelPct config) s\<rparr>"
    using assms by (cases "lowest_fuel (te_fuel e)") (auto simp: fuel_candidates_def split: prod.splits if_splits)
  then show ?thesis using lowest_fuel_Some by auto
qed

lemma fence_candidates_iff:
  "(\<exists>c. c \<in> set (fence_candidates g config)) \<longleftrightarrow> rc_geofences config \<noteq> [] \<and>
     (\<forall>f\<in>set (rc_geofences config). of_int (ge_radiusM f) < haversineMeters (gps_point g) (center f))"
proof (cases "rc_geofences config")
  case Nil
  then show ?thesis by (simp add: fence_candidates_def)
next
  case (Cons f fs)
  let ?m = "\<lambda>f. (f, haversineMeters (gps_point g) (center f))"
  obtain h dist where n: "foldl nearer (?m f) (map ?m fs) = (h, dist)" by fastforce
  show ?thesis by (auto simp: fence_candidates_def Cons n not_le) (metis not_le)
qed

lemma fence_candidates_D:
  assumes "c \<in> set (fence_candidates g config)"
  shows "ca_alertType c = Geofence_exit \<and> (\<exists>f\<in>set (rc_geofences config).
    ca_details c = FenceDetails (ge_id f) (ge_name f) (js_round (haversineMeters (gps_point g) (center f))) (ge_radiusM f) \<and>
    (\<forall>h\<in>set (rc_geofences config). haversineMeters (gps_point g) (center f) \<le> haversineMeters (gps_point g) (center h)))"
proof -
  let ?m = "\<lambda>f. (f, haversineMeters (gps_point g) (center f))"
  obtain f fs where fs: "rc_geofences config = f # fs"
    using assms by (cases "rc_geofences config") (auto simp: fence_candidates_def)
  obtain h dist where n: "foldl nearer (?m f) (map ?m fs) = (h, dist)" by fastforce
  have hd: "(h, dist) \<in> set (map ?m (f # fs))" "\<forall>x\<in>set (map ?m (f # fs)). dist \<le> snd x"
    using nearer_fold [of "?m f" "map ?m fs"] unfolding n by simp_all
  have "c = \<lparr>ca_alertType = Geofence_exit, ca_details = FenceDetails (ge_id h) (ge_name h) (js_round dist) (ge_radiusM h)\<rparr>"
    using assms n by (auto simp: fence_candidates_def fs split: if_splits)
  moreover have "h \<in> set (rc_geofences config)" "dist = haversineMeters (gps_point g) (center h)"
    using hd(1) unfolding fs by auto
  moreover have "\<forall>k\<in>set (rc_geofences config). dist \<le> haversineMeters (gps_point g) (center k)"
    using hd(2) unfolding fs by auto
  ultimately show ?thesis by auto
qed

lemma speed_candidates_iff:
  "c \<in> set (speed_candidates g config) \<longleftrightarrow> int (ng_speedKph g) > rc_speedLimitKph config \<and>
     c = \<lparr>ca_alertType = Speeding, ca_details = SpeedDetails (int (ng_speedKph g)) (rc_speedLimitKph config)\<rparr>"
  by (auto simp: speed_candidates_def)

lemma length_candidates:
  "length (fuel_candidates e config) \<le> 1" "length (speed_candidates g config) \<le> 1" "length (fence_candidates g config) \<le> 1"
  by (auto simp: fuel_candidates_def speed_candidates_def fence_candidates_def split: option.splits prod.splits list.splits)

lemma short_list: "length xs \<le> 1 \<Longrightarrow> xs = [] \<or> (\<exists>x. xs = [x])"
  by (cases xs) auto

lemma evaluateRules_distinct: "distinct (map ca_alertType (evaluateRules e config))"
proof -
  have "distinct (map ca_alertType (fuel_candidates e config))" "distinct (map ca_alertType (speed_candidates g config))"
    "distinct (map ca_alertType (fence_candidates g config))" for g
    using short_list [OF length_candidates(1), of e config] short_list [OF length_candidates(2), of g config]
      short_list [OF length_candidates(3), of g config] by auto
  then show ?thesis
    by (auto simp: evaluateRules_def speed_candidates_iff dest!: fuel_candidates_D fence_candidates_D split: option.splits)
qed

section \<open>Properties\<close>

text \<open>
  an alert rule fires exactly on its condition, with the figures that prove it. Low fuel: some
  sensor is below the threshold, and the reading named is the lowest one. Speeding: the speed is
  above the limit. Geofence exit: there is a position, there are zones, and every zone's centre is
  farther than its radius; the zone named is a nearest one. No condition is reported twice.
\<close>

theorem rules_fire_on_their_conditions:
  "distinct (map ca_alertType (evaluateRules e config)) \<and>
   (Low_fuel \<in> ca_alertType ` set (evaluateRules e config) \<longleftrightarrow>
     (\<exists>r\<in>set (te_fuel e). \<exists>p. fu_pct r = Some p \<and> p < rc_lowFuelPct config)) \<and>
   (Speeding \<in> ca_alertType ` set (evaluateRules e config) \<longleftrightarrow>
     (\<exists>g. te_gps e = Some g \<and> int (ng_speedKph g) > rc_speedLimitKph config)) \<and>
   (Geofence_exit \<in> ca_alertType ` set (evaluateRules e config) \<longleftrightarrow>
     (\<exists>g. te_gps e = Some g \<and> rc_geofences config \<noteq> [] \<and>
       (\<forall>f\<in>set (rc_geofences config). of_int (ge_radiusM f) < haversineMeters (gps_point g) (center f)))) \<and>
   (\<forall>p t s. \<lparr>ca_alertType = Low_fuel, ca_details = FuelDetails p t s\<rparr> \<in> set (evaluateRules e config) \<longrightarrow>
     (\<forall>r\<in>set (te_fuel e). \<forall>q. fu_pct r = Some q \<longrightarrow> p \<le> q))"
proof -
  have types: "ca_alertType ` set (evaluateRules e config) = ca_alertType ` set (fuel_candidates e config) \<union>
      (case te_gps e of None \<Rightarrow> {} | Some g \<Rightarrow>
        ca_alertType ` set (speed_candidates g config) \<union> ca_alertType ` set (fence_candidates g config))"
    by (cases "te_gps e") (simp_all only: evaluateRules_def option.case append_Nil2 set_append image_Un Un_empty_right)
  have ft: "c \<in> set (fuel_candidates e config) \<Longrightarrow> ca_alertType c = Low_fuel" for c
    by (simp add: fuel_candidates_D)
  have gt: "c \<in> set (fence_candidates g config) \<Longrightarrow> ca_alertType c = Geofence_exit" for c g
    by (simp add: fence_candidates_D)
  have f: "t \<in> ca_alertType ` set (fuel_candidates e config) \<longleftrightarrow> t = Low_fuel \<and> (\<exists>c. c \<in> set (fuel_candidates e config))" for t
    using ft by force
  have g: "t \<in> ca_alertType ` set (fence_candidates g config) \<longleftrightarrow> t = Geofence_exit \<and> (\<exists>c. c \<in> set (fence_candidates g config))" for t g
    using gt by force
  have sp: "t \<in> ca_alertType ` set (speed_candidates g config) \<longleftrightarrow> t = Speeding \<and> int (ng_speedKph g) > rc_speedLimitKph config" for t g
    by (auto simp: speed_candidates_def)
  note kinds = f g sp
  have least: "\<lparr>ca_alertType = Low_fuel, ca_details = FuelDetails p t s\<rparr> \<in> set (evaluateRules e config) \<Longrightarrow>
      (\<forall>r\<in>set (te_fuel e). \<forall>q. fu_pct r = Some q \<longrightarrow> p \<le> q)" for p t s
    by (auto simp: evaluateRules_def speed_candidates_iff dest!: fence_candidates_D fuel_candidates_D split: option.splits)
  show ?thesis
    using evaluateRules_distinct least unfolding types
    by (cases "te_gps e") (simp_all add: kinds fuel_candidates_iff fence_candidates_iff)
qed

theorem rules_fire_on_their_conditions_witness:
  "Low_fuel \<in> ca_alertType ` set (evaluateRules
     ((sample_event 1600000000000)\<lparr>te_fuel := [\<lparr>fu_source = CanPct, fu_pct = Some 9, fu_liters = None\<rparr>]\<rparr>)
     \<lparr>rc_lowFuelPct = 15, rc_speedLimitKph = 90, rc_geofences = []\<rparr>)"
  by (subst rules_fire_on_their_conditions [THEN conjunct2, THEN conjunct1]) simp

end
