(* ===== verification/Alerting.thy ===== *)
theory Alerting
  imports Alert_Rules Writers
begin

text \<open>
  \<open>apps/telemetry-consumers/src/alerting/consumer.ts\<close>: alerts on live telemetry, edge-triggered per
  vehicle and condition through \<open>vehicle_alert_states\<close>. \<open>edge_step\<close> is the abstract trigger that
  \<open>shouldFire\<close> implements on one row of that table. One reading of the clock stands for the calls to
  \<open>now()\<close> of a batch.
\<close>

section \<open>The consumer\<close>

definition ALERT_TYPES :: "vehicle_alert_type list" where
  "ALERT_TYPES = [Low_fuel, Geofence_exit, Speeding]"

record alerting_config =
  ag_lowFuelPct :: int
  ag_speedLimitKph :: int
  ag_cooldownMs :: int
  ag_maxAgeMs :: int
  ag_geofenceRefreshMs :: int

definition activeGeofences :: "alerting_config \<Rightarrow> int \<Rightarrow> worker \<Rightarrow> geofence_row list \<times> worker" where
  "activeGeofences config now w = (case wk_fences w of
       Some (fences, loadedAt) \<Rightarrow>
         if now - loadedAt < ag_geofenceRefreshMs config then (fences, w)
         else (let rows = filter ge_active (tb_geofences (wk_db w)) in (rows, w\<lparr>wk_fences := Some (rows, now)\<rparr>))
     | None \<Rightarrow> (let rows = filter ge_active (tb_geofences (wk_db w)) in (rows, w\<lparr>wk_fences := Some (rows, now)\<rparr>)))"

definition is_state :: "uuid \<Rightarrow> vehicle_alert_type \<Rightarrow> alert_state_row \<Rightarrow> bool" where
  "is_state vehicleId alertType r \<longleftrightarrow> as_vehicleId r = vehicleId \<and> as_alertType r = alertType"

text \<open>\<open>INSERT ... ON CONFLICT (vehicle_id, alert_type) DO UPDATE\<close>, with the foreign key.\<close>

definition upsert_state :: "alert_state_row \<Rightarrow> (alert_state_row \<Rightarrow> alert_state_row) \<Rightarrow> (telemetry_db, thrown, unit) op" where
  "upsert_state row upd db =
     (if \<exists>r\<in>set (tb_alertStates db). is_state (as_vehicleId row) (as_alertType row) r
      then (Inr (), db\<lparr>tb_alertStates := update_where (is_state (as_vehicleId row) (as_alertType row)) upd (tb_alertStates db)\<rparr>)
      else if \<not> vehicle_exists db (as_vehicleId row)
      then (Inl (DbErr (ForeignKeyViolation ''vehicle_alert_states_vehicle_id_vehicles_id_fk'')), db)
      else (Inr (), db\<lparr>tb_alertStates := tb_alertStates db @ [row]\<rparr>))"

definition find_state :: "uuid \<Rightarrow> vehicle_alert_type \<Rightarrow> telemetry_db \<Rightarrow> alert_state_row option" where
  "find_state vehicleId alertType db = find (is_state vehicleId alertType) (tb_alertStates db)"

definition shouldFire :: "int \<Rightarrow> uuid \<Rightarrow> vehicle_alert_type \<Rightarrow> bool \<Rightarrow> int \<Rightarrow> (telemetry_db, thrown, bool) op" where
  "shouldFire cooldownMs vehicleId alertType holding stamp db =
     (let existing = find_state vehicleId alertType db in
      if \<not> holding then
        (Inr False,
         if (case existing of Some r \<Rightarrow> as_active r | None \<Rightarrow> False)
         then db\<lparr>tb_alertStates := update_where (is_state vehicleId alertType)
                (\<lambda>r. r\<lparr>as_active := False, as_updatedAt := stamp\<rparr>) (tb_alertStates db)\<rparr>
         else db)
      else
        let lastFiredAt = (case existing of Some r \<Rightarrow> as_lastFiredAt r | None \<Rightarrow> None);
            cooledDown = (case lastFiredAt of Some l \<Rightarrow> stamp - l \<ge> cooldownMs | None \<Rightarrow> False);
            fire = (\<not> (case existing of Some r \<Rightarrow> as_active r | None \<Rightarrow> False) \<or> cooledDown)
        in op_bind (upsert_state
             \<lparr>as_vehicleId = vehicleId, as_alertType = alertType, as_active = True,
              as_lastFiredAt = (if fire then Some stamp else case lastFiredAt of Some l \<Rightarrow> Some l | None \<Rightarrow> Some stamp),
              as_updatedAt = stamp\<rparr>
             (\<lambda>r. (if fire then r\<lparr>as_lastFiredAt := Some stamp\<rparr> else r)\<lparr>as_active := True, as_updatedAt := stamp\<rparr>))
           (\<lambda>_. op_return fire) db)"

definition raise_alert :: "uuid \<Rightarrow> alert_candidate option \<Rightarrow> int \<Rightarrow> (telemetry_db, thrown, unit) op" where
  "raise_alert vehicleId candidate recordedAt db = (case candidate of
       None \<Rightarrow> (Inr (), db)
     | Some c \<Rightarrow>
         if \<not> vehicle_exists db vehicleId
         then (Inl (DbErr (ForeignKeyViolation ''vehicle_alerts_vehicle_id_vehicles_id_fk'')), db)
         else (Inr (), db\<lparr>tb_alerts := tb_alerts db @ [\<lparr>al_vehicleId = vehicleId, al_alertType = ca_alertType c,
                al_recordedAt = recordedAt, al_details = ca_details c\<rparr>]\<rparr>))"

text \<open>\<open>new Map(candidates.map(...))\<close>: a later candidate of the same type would replace an earlier one.\<close>

definition byType :: "alert_candidate list \<Rightarrow> (vehicle_alert_type, alert_candidate) jsmap" where
  "byType candidates = js_set_all (map (\<lambda>c. (ca_alertType c, c)) candidates) []"

fun alert_types_loop :: "int \<Rightarrow> uuid \<Rightarrow> (vehicle_alert_type, alert_candidate) jsmap \<Rightarrow> int \<Rightarrow> vehicle_alert_type list
    \<Rightarrow> (telemetry_db, thrown, unit) op" where
  "alert_types_loop cooldownMs vehicleId candidates recordedAt [] = op_return ()"
| "alert_types_loop cooldownMs vehicleId candidates recordedAt (t # ts) =
     op_bind (shouldFire cooldownMs vehicleId t (map_of candidates t \<noteq> None) recordedAt) (\<lambda>fire.
     op_bind (if fire then raise_alert vehicleId (map_of candidates t) recordedAt else op_return ()) (\<lambda>_.
       alert_types_loop cooldownMs vehicleId candidates recordedAt ts))"

fun alert_events_loop :: "int \<Rightarrow> alert_rule_config \<Rightarrow> (string, uuid) jsmap \<Rightarrow> telemetry_event list
    \<Rightarrow> (telemetry_db, thrown, unit) op" where
  "alert_events_loop cooldownMs rules vehicleIds [] = op_return ()"
| "alert_events_loop cooldownMs rules vehicleIds (e # es) =
     op_bind (case map_of vehicleIds (te_imei e) of
         None \<Rightarrow> op_return ()
       | Some vehicleId \<Rightarrow>
           alert_types_loop cooldownMs vehicleId (byType (evaluateRules e rules)) (te_recordedAt e) ALERT_TYPES)
       (\<lambda>_. alert_events_loop cooldownMs rules vehicleIds es)"

definition createAlertingHandler :: "alerting_config \<Rightarrow> int \<Rightarrow> (string \<Rightarrow> uuid) \<Rightarrow> telemetry_event list \<Rightarrow> freshness
    \<Rightarrow> unit worker_op" where
  "createAlertingHandler config now newId events freshness w =
     (let cutoff = now - ag_maxAgeMs config;
          fresh = filter (\<lambda>e. te_recordedAt e \<ge> cutoff) events
      in if fresh = [] then (Inr (), w)
         else (case activeGeofences config now w of (fences, w1) \<Rightarrow>
           op_bind (resolveAll newId (map te_imei fresh)) (\<lambda>vehicleIds.
             on_db (alert_events_loop (ag_cooldownMs config)
               \<lparr>rc_lowFuelPct = ag_lowFuelPct config, rc_speedLimitKph = ag_speedLimitKph config, rc_geofences = fences\<rparr>
               vehicleIds fresh)) w1))"

section \<open>The abstract trigger\<close>

type_synonym edge = "bool \<times> int option"

definition edge_step :: "int \<Rightarrow> bool \<Rightarrow> int \<Rightarrow> edge \<Rightarrow> bool \<times> edge" where
  "edge_step cooldownMs holding stamp s = (case s of (active, lastFired) \<Rightarrow>
     if \<not> holding then (False, (False, lastFired))
     else if \<not> active \<or> (case lastFired of Some l \<Rightarrow> stamp - l \<ge> cooldownMs | None \<Rightarrow> False)
     then (True, (True, Some stamp)) else (False, (True, lastFired)))"

text \<open>What one row of the table means. An absent row is an inactive condition that never fired.\<close>

definition alert_state :: "telemetry_db \<Rightarrow> uuid \<Rightarrow> vehicle_alert_type \<Rightarrow> edge" where
  "alert_state db v t = (case find_state v t db of None \<Rightarrow> (False, None) | Some r \<Rightarrow> (as_active r, as_lastFiredAt r))"

lemma find_map_same:
  assumes "\<And>r. q (f r) \<longleftrightarrow> q r"
  shows "find q (map f rs) = map_option f (find q rs)"
  using assms by (induction rs) auto

lemma find_state_update:
  assumes "\<And>r. as_vehicleId (g r) = as_vehicleId r \<and> as_alertType (g r) = as_alertType r"
  shows "find (is_state u s) (update_where (is_state v t) g rs) =
    (if u = v \<and> s = t then map_option g (find (is_state u s) rs) else find (is_state u s) rs)"
  using assms by (induction rs) (auto simp: update_where_def is_state_def)

lemma find_state_append:
  "find (is_state u s) (rs @ [r]) = (case find (is_state u s) rs of Some x \<Rightarrow> Some x
     | None \<Rightarrow> if is_state u s r then Some r else None)"
  by (auto simp: find_append split: option.splits)

lemma upsert_find_state:
  assumes "upsert_state row upd db = (Inr u, db')"
    "\<And>r. as_vehicleId (upd r) = as_vehicleId r \<and> as_alertType (upd r) = as_alertType r"
  shows "find_state v t db' = (if v = as_vehicleId row \<and> t = as_alertType row
     then Some (case find_state v t db of None \<Rightarrow> row | Some r \<Rightarrow> upd r) else find_state v t db)"
proof (cases "\<exists>r\<in>set (tb_alertStates db). is_state (as_vehicleId row) (as_alertType row) r")
  case True
  then have eq: "db' = db\<lparr>tb_alertStates := update_where (is_state (as_vehicleId row) (as_alertType row)) upd (tb_alertStates db)\<rparr>"
    using assms(1) by (simp add: upsert_state_def)
  have "find (is_state (as_vehicleId row) (as_alertType row)) (tb_alertStates db) \<noteq> None"
    using True by (auto simp: find_None_iff)
  then show ?thesis using find_state_update [OF assms(2)] by (auto simp: find_state_def eq)
next
  case False
  then have eq: "db' = db\<lparr>tb_alertStates := tb_alertStates db @ [row]\<rparr>"
    using assms(1) by (auto simp: upsert_state_def split: if_splits)
  have none: "find (is_state (as_vehicleId row) (as_alertType row)) (tb_alertStates db) = None"
    using False by (auto simp: find_None_iff)
  have "is_state v t row \<longleftrightarrow> v = as_vehicleId row \<and> t = as_alertType row" by (auto simp: is_state_def)
  then show ?thesis using none by (auto simp: find_state_def eq find_state_append split: option.splits)
qed

definition states_only :: "telemetry_db \<Rightarrow> telemetry_db \<Rightarrow> bool" where
  "states_only db db' \<longleftrightarrow> (\<exists>st. db' = db\<lparr>tb_alertStates := st\<rparr>)"

lemma upsert_states_only: "upsert_state row upd db = (Inr u, db') \<Longrightarrow> states_only db db'"
  by (auto simp: upsert_state_def states_only_def split: if_splits)

lemma upsert_total: "vehicle_exists db (as_vehicleId row) \<Longrightarrow> \<exists>db'. upsert_state row upd db = (Inr (), db')"
  by (simp add: upsert_state_def)

lemma states_only_frame:
  "states_only db db' \<Longrightarrow> tb_vehicles db' = tb_vehicles db \<and> tb_alerts db' = tb_alerts db \<and> vehicle_exists db' = vehicle_exists db"
  by (auto simp: states_only_def vehicle_exists_def fun_eq_iff)

lemma shouldFire_edge:
  assumes "shouldFire cd v t h a db = (Inr b, db')"
  shows "(b, alert_state db' v t) = edge_step cd h a (alert_state db v t) \<and>
    (\<forall>u s. (u, s) \<noteq> (v, t) \<longrightarrow> alert_state db' u s = alert_state db u s) \<and> states_only db db'"
proof (cases h)
  case False
  then have b: "\<not> b" and db': "db' = (if (case find_state v t db of Some r \<Rightarrow> as_active r | None \<Rightarrow> False)
         then db\<lparr>tb_alertStates := update_where (is_state v t)
                (\<lambda>r. r\<lparr>as_active := False, as_updatedAt := a\<rparr>) (tb_alertStates db)\<rparr>
         else db)"
    using assms by (auto simp: shouldFire_def Let_def)
  have "find_state u s db' = (if (u, s) = (v, t)
      then map_option (\<lambda>r. if as_active r then r\<lparr>as_active := False, as_updatedAt := a\<rparr> else r) (find_state v t db)
      else find_state u s db)" for u s
    using find_state_update [of "\<lambda>r. r\<lparr>as_active := False, as_updatedAt := a\<rparr>"]
    by (auto simp: db' find_state_def split: option.splits)
  then have "alert_state db' u s = (if (u, s) = (v, t) then (False, snd (alert_state db v t)) else alert_state db u s)" for u s
    by (auto simp: alert_state_def split: option.splits)
  moreover have "states_only db db'" unfolding states_only_def db' by (auto intro: exI [of _ "tb_alertStates db"])
  ultimately show ?thesis using False b by (simp add: edge_step_def split_beta)
next
  case True
  obtain active last where st: "alert_state db v t = (active, last)" by fastforce
  have acc: "(case find_state v t db of Some r \<Rightarrow> as_active r | None \<Rightarrow> False) = active"
      "(case find_state v t db of Some r \<Rightarrow> as_lastFiredAt r | None \<Rightarrow> None) = last"
    using st by (auto simp: alert_state_def split: option.splits)
  define fire where "fire \<longleftrightarrow> \<not> active \<or> (case last of Some l \<Rightarrow> a - l \<ge> cd | None \<Rightarrow> False)"
  let ?row = "\<lparr>as_vehicleId = v, as_alertType = t, as_active = True,
      as_lastFiredAt = (if fire then Some a else case last of Some l \<Rightarrow> Some l | None \<Rightarrow> Some a), as_updatedAt = a\<rparr>"
  let ?upd = "\<lambda>r. (if fire then r\<lparr>as_lastFiredAt := Some a\<rparr> else r)\<lparr>as_active := True, as_updatedAt := a\<rparr>"
  have up: "upsert_state ?row ?upd db = (Inr (), db')" and b: "b = fire"
    using assms True unfolding shouldFire_def Let_def acc fire_def [symmetric] by (auto simp: op_bind_Inr)
  have find: "find_state u s db' = (if u = v \<and> s = t
      then Some (case find_state v t db of None \<Rightarrow> ?row | Some r \<Rightarrow> ?upd r) else find_state u s db)" for u s
    by (subst upsert_find_state [OF up]) simp_all
  have "alert_state db' v t = (True, if fire then Some a else last)"
    using st by (auto simp: alert_state_def find fire_def split: option.splits)
  moreover have "\<forall>u s. (u, s) \<noteq> (v, t) \<longrightarrow> alert_state db' u s = alert_state db u s"
    by (auto simp: alert_state_def find)
  ultimately show ?thesis
    using True b upsert_states_only [OF up] by (auto simp: edge_step_def st fire_def)
qed

lemma shouldFire_total: "vehicle_exists db v \<Longrightarrow> \<exists>b db'. shouldFire cd v t h a db = (Inr b, db')"
  by (cases h) (auto simp: shouldFire_def Let_def op_bind_def upsert_state_def)

section \<open>One event, three triggers\<close>

definition trigger_fires :: "int \<Rightarrow> telemetry_db \<Rightarrow> uuid \<Rightarrow> vehicle_alert_type set \<Rightarrow> int \<Rightarrow> vehicle_alert_type \<Rightarrow> bool" where
  "trigger_fires cd db v holding a t = fst (edge_step cd (t \<in> holding) a (alert_state db v t))"

definition alert_for :: "uuid \<Rightarrow> int \<Rightarrow> alert_candidate \<Rightarrow> alert_row" where
  "alert_for v a c = \<lparr>al_vehicleId = v, al_alertType = ca_alertType c, al_recordedAt = a, al_details = ca_details c\<rparr>"

lemma edge_fires_holding: "fst (edge_step cd h a s) \<Longrightarrow> h"
  by (auto simp: edge_step_def split: prod.splits if_splits)

lemma types_loop:
  assumes "vehicle_exists db v" "distinct ts"
  shows "\<exists>db'. alert_types_loop cd v m a ts db = (Inr (), db') \<and> vehicle_exists db' = vehicle_exists db \<and>
    tb_vehicles db' = tb_vehicles db \<and>
    (\<forall>u t. alert_state db' u t = (if u = v \<and> t \<in> set ts then snd (edge_step cd (map_of m t \<noteq> None) a (alert_state db v t))
       else alert_state db u t)) \<and>
    tb_alerts db' = tb_alerts db @ map (\<lambda>t. alert_for v a (the (map_of m t)))
      (filter (\<lambda>t. fst (edge_step cd (map_of m t \<noteq> None) a (alert_state db v t))) ts)"
  using assms
proof (induction ts arbitrary: db)
  case Nil
  then show ?case by simp
next
  case (Cons t ts)
  obtain b db1 where f: "shouldFire cd v t (map_of m t \<noteq> None) a db = (Inr b, db1)"
    using shouldFire_total [OF Cons.prems(1)] by blast
  note e = shouldFire_edge [OF f]
  have fr: "tb_vehicles db1 = tb_vehicles db" "tb_alerts db1 = tb_alerts db" "vehicle_exists db1 = vehicle_exists db"
    using states_only_frame e by auto
  have b: "b = fst (edge_step cd (map_of m t \<noteq> None) a (alert_state db v t))"
    and s1: "alert_state db1 v t = snd (edge_step cd (map_of m t \<noteq> None) a (alert_state db v t))"
    using e by (metis fst_conv, metis snd_conv)
  let ?add = "if b then [alert_for v a (the (map_of m t))] else []"
  define db2 where "db2 = db1\<lparr>tb_alerts := tb_alerts db @ ?add\<rparr>"
  have hit: "b \<Longrightarrow> map_of m t \<noteq> None" unfolding b by (rule edge_fires_holding)
  have r: "(if b then raise_alert v (map_of m t) a else op_return ()) db1 = (Inr (), db2)"
    using Cons.prems(1) fr hit
    by (cases "map_of m t") (auto simp: raise_alert_def db2_def alert_for_def)
  have a2: "alert_state db2 = alert_state db1" by (simp add: fun_eq_iff db2_def alert_state_def find_state_def)
  have v2: "vehicle_exists db2 = vehicle_exists db" using fr by (simp add: fun_eq_iff db2_def vehicle_exists_def)
  have "vehicle_exists db2 v" "distinct ts" using Cons.prems v2 by auto
  from Cons.IH [OF this] obtain db' where ih:
    "alert_types_loop cd v m a ts db2 = (Inr (), db')" "vehicle_exists db' = vehicle_exists db2" "tb_vehicles db' = tb_vehicles db2"
    "\<forall>u t. alert_state db' u t = (if u = v \<and> t \<in> set ts then snd (edge_step cd (map_of m t \<noteq> None) a (alert_state db2 v t))
       else alert_state db2 u t)"
    "tb_alerts db' = tb_alerts db2 @ map (\<lambda>t. alert_for v a (the (map_of m t)))
      (filter (\<lambda>t. fst (edge_step cd (map_of m t \<noteq> None) a (alert_state db2 v t))) ts)"
    by blast
  have other: "alert_state db2 u s = alert_state db u s" if "(u, s) \<noteq> (v, t)" for u s
    using e that by (simp add: a2)
  have "alert_types_loop cd v m a (t # ts) db = (Inr (), db')"
    using f r ih(1) by (simp add: op_bind_def)
  moreover have "alert_state db' u s = (if u = v \<and> s \<in> set (t # ts)
      then snd (edge_step cd (map_of m s \<noteq> None) a (alert_state db v s)) else alert_state db u s)" for u s
    using ih(4) other s1 Cons.prems(2) by (cases "(u, s) = (v, t)") (auto simp: a2)
  moreover have "filter (\<lambda>t. fst (edge_step cd (map_of m t \<noteq> None) a (alert_state db2 v t))) ts =
      filter (\<lambda>t. fst (edge_step cd (map_of m t \<noteq> None) a (alert_state db v t))) ts"
  proof (rule filter_cong [OF refl])
    fix x assume "x \<in> set ts"
    then have "(v, x) \<noteq> (v, t)" using Cons.prems(2) by auto
    then show "fst (edge_step cd (map_of m x \<noteq> None) a (alert_state db2 v x)) =
        fst (edge_step cd (map_of m x \<noteq> None) a (alert_state db v x))" by (subst other) simp_all
  qed
  then have "tb_alerts db' = tb_alerts db @ map (\<lambda>t. alert_for v a (the (map_of m t)))
      (filter (\<lambda>t. fst (edge_step cd (map_of m t \<noteq> None) a (alert_state db v t))) (t # ts))"
    using ih(5) b by (auto simp: db2_def)
  ultimately show ?case using ih(2,3) v2 fr by (intro exI [of _ db']) (simp add: db2_def)
qed

lemma byType_get: "distinct (map ca_alertType cs) \<Longrightarrow> map_of (byType cs) t = find (\<lambda>c. ca_alertType c = t) cs"
proof -
  assume d: "distinct (map ca_alertType cs)"
  have "byType cs = map (\<lambda>c. (ca_alertType c, c)) cs"
    unfolding byType_def using d by (subst js_set_all_fresh) (simp_all add: comp_def)
  moreover have "map_of (map (\<lambda>c. (ca_alertType c, c)) cs) t = find (\<lambda>c. ca_alertType c = t) cs"
    by (induction cs) auto
  ultimately show ?thesis by simp
qed

section \<open>A run of observations\<close>

text \<open>Conditions observed one after the other, for any vehicles and types interleaved.\<close>

fun observe_all :: "int \<Rightarrow> (uuid \<times> vehicle_alert_type \<times> bool \<times> int) list \<Rightarrow> (telemetry_db, thrown, bool list) op" where
  "observe_all cd [] = op_return []"
| "observe_all cd ((v, t, h, a) # obs) =
     op_bind (shouldFire cd v t h a) (\<lambda>b. op_bind (observe_all cd obs) (\<lambda>bs. op_return (b # bs)))"

lemma observe_holding:
  assumes "observe_all cd obs db = (Inr bs, db')" "\<forall>(u, s, h, a)\<in>set obs. (u, s) = (v, t) \<longrightarrow> h"
    "alert_state db v t = (True, Some l)" "l = a0 \<or> l - a0 \<ge> cd" "0 \<le> cd"
  shows "\<exists>l'. alert_state db' v t = (True, Some l') \<and> (l' = a0 \<or> l' - a0 \<ge> cd)"
  using assms
proof (induction obs arbitrary: db bs l)
  case Nil
  then show ?case by simp
next
  case (Cons ob obs)
  obtain u s h a where ob: "ob = (u, s, h, a)" by (cases ob)
  from Cons.prems(1) obtain b db1 bs' where f: "shouldFire cd u s h a db = (Inr b, db1)"
      and r: "observe_all cd obs db1 = (Inr bs', db')"
    by (auto simp: ob op_bind_Inr)
  note e = shouldFire_edge [OF f]
  have "\<exists>l1. alert_state db1 v t = (True, Some l1) \<and> (l1 = a0 \<or> l1 - a0 \<ge> cd)"
  proof (cases "(u, s) = (v, t)")
    case False
    then show ?thesis using e Cons.prems(3,4) by auto
  next
    case True
    then have "h" using Cons.prems(2) by (auto simp: ob)
    then show ?thesis using e True Cons.prems(3,4,5) by (auto simp: edge_step_def split: if_splits)
  qed
  then obtain l1 where l1: "alert_state db1 v t = (True, Some l1)" "l1 = a0 \<or> l1 - a0 \<ge> cd" by blast
  have "\<forall>(u, s, h, a)\<in>set obs. (u, s) = (v, t) \<longrightarrow> h" using Cons.prems(2) by simp
  from Cons.IH [OF r this l1 Cons.prems(5)] show ?case .
qed

section \<open>Whatever happens, only fresh readings alert\<close>

text \<open>What a run, successful or not, adds to \<open>vehicle_alerts\<close>.\<close>

definition alerts_added :: "(alert_row \<Rightarrow> bool) \<Rightarrow> telemetry_db \<Rightarrow> telemetry_db \<Rightarrow> bool" where
  "alerts_added p db db' \<longleftrightarrow> (\<exists>added. tb_alerts db' = tb_alerts db @ added \<and> list_all p added)"

lemma alerts_added_refl: "tb_alerts db' = tb_alerts db \<Longrightarrow> alerts_added p db db'"
  by (simp add: alerts_added_def)

lemma alerts_added_trans: "alerts_added p a b \<Longrightarrow> alerts_added p b c \<Longrightarrow> alerts_added p a c"
  by (auto simp: alerts_added_def)

lemma alerts_added_bind:
  assumes "op_bind m f db = (x, db')" "\<And>y db1. m db = (y, db1) \<Longrightarrow> alerts_added p db db1"
    "\<And>y db1. m db = (Inr y, db1) \<Longrightarrow> f y db1 = (x, db') \<Longrightarrow> alerts_added p db1 db'"
  shows "alerts_added p db db'"
proof -
  obtain y db1 where m: "m db = (y, db1)" by fastforce
  show ?thesis
  proof (cases y)
    case (Inl e)
    then show ?thesis using assms(1,2) m by (simp add: op_bind_def)
  next
    case (Inr z)
    then show ?thesis using assms m alerts_added_trans by (simp add: op_bind_def)
  qed
qed

lemma shouldFire_alerts: "shouldFire cd v t h a db = (x, db') \<Longrightarrow> tb_alerts db' = tb_alerts db"
  by (auto simp: shouldFire_def Let_def op_bind_def upsert_state_def split: if_splits)

lemma raise_alerts:
  "(if b then raise_alert v c a else op_return ()) db = (x, db') \<Longrightarrow> alerts_added (\<lambda>r. al_recordedAt r = a) db db'"
  by (auto simp: raise_alert_def alerts_added_def split: if_splits option.splits)

lemma types_loop_alerts:
  "alert_types_loop cd v m a ts db = (x, db') \<Longrightarrow> alerts_added (\<lambda>r. al_recordedAt r = a) db db'"
proof (induction ts arbitrary: db)
  case Nil
  then show ?case by (simp add: alerts_added_refl)
next
  case (Cons t ts)
  show ?case
  proof (rule alerts_added_bind [OF Cons.prems [unfolded alert_types_loop.simps]])
    fix y db1 assume "shouldFire cd v t (map_of m t \<noteq> None) a db = (y, db1)"
    then show "alerts_added (\<lambda>r. al_recordedAt r = a) db db1" by (intro alerts_added_refl shouldFire_alerts)
  next
    fix y db1 assume "op_bind (if y then raise_alert v (map_of m t) a else op_return ())
        (\<lambda>_. alert_types_loop cd v m a ts) db1 = (x, db')"
    then show "alerts_added (\<lambda>r. al_recordedAt r = a) db1 db'"
      by (rule alerts_added_bind) (auto intro: raise_alerts Cons.IH)
  qed
qed

lemma events_loop_alerts:
  "alert_events_loop cd rules ids es db = (x, db') \<Longrightarrow>
     alerts_added (\<lambda>r. \<exists>e\<in>set es. al_recordedAt r = te_recordedAt e) db db'"
proof (induction es arbitrary: db)
  case Nil
  then show ?case by (simp add: alerts_added_refl)
next
  case (Cons e es)
  have weaken: "alerts_added p a b \<Longrightarrow> (\<And>r. p r \<Longrightarrow> q r) \<Longrightarrow> alerts_added q a b" for p q a b
    by (auto simp: alerts_added_def list_all_iff)
  show ?case
  proof (rule alerts_added_bind [OF Cons.prems [unfolded alert_events_loop.simps]])
    fix y db1 assume *: "(case map_of ids (te_imei e) of None \<Rightarrow> op_return ()
       | Some vehicleId \<Rightarrow> alert_types_loop cd vehicleId (byType (evaluateRules e rules)) (te_recordedAt e) ALERT_TYPES) db = (y, db1)"
    have "alerts_added (\<lambda>r. al_recordedAt r = te_recordedAt e) db db1"
      using * types_loop_alerts by (cases "map_of ids (te_imei e)") (auto intro: alerts_added_refl)
    then show "alerts_added (\<lambda>r. \<exists>e\<in>set (e # es). al_recordedAt r = te_recordedAt e) db db1"
      by (rule weaken) simp
  next
    fix y db1 assume "alert_events_loop cd rules ids es db1 = (x, db')"
    from Cons.IH [OF this] show "alerts_added (\<lambda>r. \<exists>e\<in>set (e # es). al_recordedAt r = te_recordedAt e) db1 db'"
      by (rule weaken) auto
  qed
qed

section \<open>Properties\<close>

text \<open>
  C23: the database code of \<open>shouldFire\<close> implements the abstract trigger. On the state its row stands
  for it answers and moves as \<open>edge_step\<close> does, touches no other vehicle's or condition's state and
  no other table, and it succeeds for every registered vehicle.
\<close>

theorem shouldFire_refines_edge:
  assumes "vehicle_exists db v"
  shows "\<exists>b db'. shouldFire cd v t h a db = (Inr b, db') \<and>
    (b, alert_state db' v t) = edge_step cd h a (alert_state db v t) \<and>
    (\<forall>u s. (u, s) \<noteq> (v, t) \<longrightarrow> alert_state db' u s = alert_state db u s) \<and>
    db' = db\<lparr>tb_alertStates := tb_alertStates db'\<rparr>"
proof -
  obtain b db' where f: "shouldFire cd v t h a db = (Inr b, db')" using shouldFire_total [OF assms] by blast
  have "states_only db db'" using shouldFire_edge [OF f] by simp
  then have "db' = db\<lparr>tb_alertStates := tb_alertStates db'\<rparr>" by (auto simp: states_only_def)
  then show ?thesis using shouldFire_edge [OF f] f by blast
qed

text \<open>
  C24: an alert is one per episode. If a condition fires at \<open>a\<close> and fires again at \<open>b\<close> while every
  observation of it in between said it still held, then the cooldown lies between \<open>a\<close> and \<open>b\<close> -
  whatever is observed of other vehicles and conditions meanwhile.
\<close>

theorem alerts_respect_cooldown:
  assumes "0 \<le> cd" "shouldFire cd v t True a db = (Inr True, db1)"
    "observe_all cd obs db1 = (Inr bs, db2)" "\<forall>(u, s, h, x)\<in>set obs. (u, s) = (v, t) \<longrightarrow> h"
    "shouldFire cd v t True b db2 = (Inr True, db3)"
  shows "b - a \<ge> cd"
proof -
  have s1: "alert_state db1 v t = (True, Some a)"
    using shouldFire_edge [OF assms(2)] by (auto simp: edge_step_def split: prod.splits if_splits)
  obtain l where l: "alert_state db2 v t = (True, Some l)" "l = a \<or> l - a \<ge> cd"
    using observe_holding [OF assms(3,4) s1 _ assms(1)] by blast
  have "b - l \<ge> cd" using shouldFire_edge [OF assms(5)] l(1) by (auto simp: edge_step_def split: if_splits)
  then show ?thesis using l(2) assms(1) by auto
qed

text \<open>
  a reading moves each of its vehicle's three triggers exactly once, and an alert is written
  exactly for the conditions that fire, with the rule's own details; no other vehicle is affected.
\<close>

theorem reading_steps_every_trigger:
  assumes "vehicle_exists db v"
  shows "\<exists>db'. alert_types_loop cd v (byType (evaluateRules e rules)) a ALERT_TYPES db = (Inr (), db') \<and>
    (\<forall>u t. alert_state db' u t = (if u = v
       then snd (edge_step cd (t \<in> ca_alertType ` set (evaluateRules e rules)) a (alert_state db v t))
       else alert_state db u t)) \<and>
    (\<exists>cs. tb_alerts db' = tb_alerts db @ map (alert_for v a) cs \<and> set cs \<subseteq> set (evaluateRules e rules) \<and>
       map ca_alertType cs = filter (\<lambda>t. fst (edge_step cd (t \<in> ca_alertType ` set (evaluateRules e rules)) a
         (alert_state db v t))) ALERT_TYPES)"
proof -
  let ?rs = "evaluateRules e rules"
  let ?m = "byType ?rs"
  have "distinct ALERT_TYPES" by (simp add: ALERT_TYPES_def)
  from types_loop [OF assms this, of cd ?m a] obtain db' where
    r: "alert_types_loop cd v ?m a ALERT_TYPES db = (Inr (), db')"
    and st: "\<forall>u t. alert_state db' u t = (if u = v \<and> t \<in> set ALERT_TYPES
       then snd (edge_step cd (map_of ?m t \<noteq> None) a (alert_state db v t)) else alert_state db u t)"
    and al: "tb_alerts db' = tb_alerts db @ map (\<lambda>t. alert_for v a (the (map_of ?m t)))
      (filter (\<lambda>t. fst (edge_step cd (map_of ?m t \<noteq> None) a (alert_state db v t))) ALERT_TYPES)" by blast
  have all: "t \<in> set ALERT_TYPES" for t by (cases t) (simp_all add: ALERT_TYPES_def)
  have m: "map_of ?m t = find (\<lambda>c. ca_alertType c = t) ?rs" for t
    by (rule byType_get) (rule evaluateRules_distinct)
  have holds: "(map_of ?m t \<noteq> None) = (t \<in> ca_alertType ` set ?rs)" for t
    unfolding m by (auto simp: find_None_iff)
  define ts where "ts = filter (\<lambda>t. fst (edge_step cd (t \<in> ca_alertType ` set ?rs) a (alert_state db v t))) ALERT_TYPES"
  have get: "the (map_of ?m t) \<in> set ?rs \<and> ca_alertType (the (map_of ?m t)) = t" if "t \<in> set ts" for t
  proof -
    have "t \<in> ca_alertType ` set ?rs" using that edge_fires_holding unfolding ts_def by fastforce
    then obtain c where "map_of ?m t = Some c" using holds by blast
    then show ?thesis unfolding m by (auto dest: find_eq_Some_set)
  qed
  have "map ca_alertType (map (\<lambda>t. the (map_of ?m t)) ts) = ts" using get by (simp add: map_idI)
  moreover have "set (map (\<lambda>t. the (map_of ?m t)) ts) \<subseteq> set ?rs" using get by auto
  moreover have "tb_alerts db' = tb_alerts db @ map (alert_for v a) (map (\<lambda>t. the (map_of ?m t)) ts)"
    using al unfolding holds ts_def map_map comp_def .
  moreover have "alert_state db' u t = (if u = v
       then snd (edge_step cd (t \<in> ca_alertType ` set ?rs) a (alert_state db v t)) else alert_state db u t)" for u t
    using st all [of t] holds [of t] by simp
  ultimately show ?thesis using r unfolding ts_def by blast
qed

text \<open>
  nothing stale is ever announced. Whether the batch succeeds or fails midway, every alert it
  adds is for one of its readings not older than \<open>maxAgeMs\<close>, and no stored alert is changed.
\<close>

theorem only_fresh_readings_alert:
  "\<exists>added. tb_alerts (wk_db (snd (createAlertingHandler config now newId events fr w))) = tb_alerts (wk_db w) @ added \<and>
     list_all (\<lambda>r. now - ag_maxAgeMs config \<le> al_recordedAt r \<and>
       (\<exists>e\<in>set events. te_recordedAt e = al_recordedAt r)) added"
proof -
  let ?fresh = "filter (\<lambda>e. te_recordedAt e \<ge> now - ag_maxAgeMs config) events"
  obtain x w' where h: "createAlertingHandler config now newId events fr w = (x, w')" by fastforce
  obtain fences w1 where g: "activeGeofences config now w = (fences, w1)" by fastforce
  have d1: "wk_db w1 = wk_db w" using g by (auto simp: activeGeofences_def Let_def split: option.splits prod.splits if_splits)
  obtain y w2 where r: "resolveAll newId (map te_imei ?fresh) w1 = (y, w2)" by fastforce
  have d2: "tb_alerts (wk_db w2) = tb_alerts (wk_db w)" using fleet_grows_tables [OF resolveAll_grows [OF r]] d1 by simp
  have "alerts_added (\<lambda>r. \<exists>e\<in>set ?fresh. al_recordedAt r = te_recordedAt e) (wk_db w) (wk_db w')"
  proof (cases "?fresh = []")
    case True
    then show ?thesis using h by (simp add: createAlertingHandler_def alerts_added_refl)
  next
    case False
    then show ?thesis
    proof (cases y)
      case (Inl e)
      then have "w' = w2" using h g r False by (simp add: createAlertingHandler_def Let_def)
      then show ?thesis using d2 by (simp add: alerts_added_refl)
    next
      case (Inr ids)
      then obtain db' where "alert_events_loop (ag_cooldownMs config)
           \<lparr>rc_lowFuelPct = ag_lowFuelPct config, rc_speedLimitKph = ag_speedLimitKph config, rc_geofences = fences\<rparr>
           ids ?fresh (wk_db w2) = (x, db')" "wk_db w' = db'"
        using h g r False by (auto simp: createAlertingHandler_def Let_def on_db_def split: prod.splits)
      from events_loop_alerts [OF this(1)] this(2) d2 show ?thesis by (simp add: alerts_added_def)
    qed
  qed
  then show ?thesis by (auto simp: h alerts_added_def list_all_iff) metis+
qed

text \<open>
  an alert can be lost. Once \<open>shouldFire\<close> has recorded a fire, a batch that fails before the
  alert row is written and is delivered again never writes it: the retried reading finds the
  condition already active.
\<close>

theorem retry_after_fire_loses_alert:
  assumes "vehicle_exists db v" "0 < cd" "shouldFire cd v t True a db = (Inr True, db1)"
  shows "\<exists>db2. alert_types_loop cd v (byType (evaluateRules e rules)) a ALERT_TYPES db1 = (Inr (), db2) \<and>
    filter (\<lambda>r. al_alertType r = t) (tb_alerts db2) = filter (\<lambda>r. al_alertType r = t) (tb_alerts db1)"
proof -
  have s1: "alert_state db1 v t = (True, Some a)"
    using shouldFire_edge [OF assms(3)] by (auto simp: edge_step_def split: prod.splits if_splits)
  have "vehicle_exists db1 v" using shouldFire_edge [OF assms(3)] states_only_frame assms(1) by metis
  moreover have "distinct ALERT_TYPES" by (simp add: ALERT_TYPES_def)
  ultimately obtain db2 where r: "alert_types_loop cd v (byType (evaluateRules e rules)) a ALERT_TYPES db1 = (Inr (), db2)"
    and al: "tb_alerts db2 = tb_alerts db1 @ map (\<lambda>t. alert_for v a (the (map_of (byType (evaluateRules e rules)) t)))
      (filter (\<lambda>t. fst (edge_step cd (map_of (byType (evaluateRules e rules)) t \<noteq> None) a (alert_state db1 v t))) ALERT_TYPES)"
    using types_loop by blast
  have "al_alertType (alert_for v a (the (map_of (byType (evaluateRules e rules)) s))) \<noteq> t"
    if "fst (edge_step cd (map_of (byType (evaluateRules e rules)) s \<noteq> None) a (alert_state db1 v s))" for s
  proof -
    have "s \<noteq> t" using that s1 assms(2) by (auto simp: edge_step_def split: if_splits)
    moreover have "map_of (byType (evaluateRules e rules)) s \<noteq> None" using that by (rule edge_fires_holding)
    then obtain c where c: "map_of (byType (evaluateRules e rules)) s = Some c" by blast
    have "ca_alertType c = s"
      using c byType_get [OF evaluateRules_distinct, of e rules s] by (auto dest: find_eq_Some_set)
    ultimately show ?thesis by (simp add: c alert_for_def)
  qed
  then show ?thesis using r al by (auto simp: filter_empty_conv)
qed

section \<open>Witnesses\<close>

definition alert_db :: telemetry_db where
  "alert_db = empty_telemetry_db\<lparr>tb_vehicles := [\<lparr>ve_id = ''v'', ve_seq = 1, ve_imei = ''356307042441013'', ve_label = None\<rparr>]\<rparr>"

lemma alert_db_vehicle: "vehicle_exists alert_db ''v''"
  by (simp add: alert_db_def vehicle_exists_def)

lemma alert_db_state: "alert_state alert_db v t = (False, None)"
  by (simp add: alert_db_def alert_state_def find_state_def empty_telemetry_db_def)

theorem shouldFire_refines_edge_witness:
  "\<exists>db'. shouldFire 900000 ''v'' Speeding True 5 alert_db = (Inr True, db') \<and> alert_state db' ''v'' Speeding = (True, Some 5)"
  using shouldFire_refines_edge [OF alert_db_vehicle, of 900000 Speeding True 5]
  by (auto simp: alert_db_state edge_step_def)

definition fired_db :: "int \<Rightarrow> int \<Rightarrow> telemetry_db" where
  "fired_db fired updated = alert_db\<lparr>tb_alertStates := [\<lparr>as_vehicleId = ''v'', as_alertType = Speeding, as_active = True,
     as_lastFiredAt = Some fired, as_updatedAt = updated\<rparr>]\<rparr>"

lemma fires_now: "shouldFire 900000 ''v'' Speeding True 5 alert_db = (Inr True, fired_db 5 5)"
  by (simp add: shouldFire_def find_state_def alert_db_def fired_db_def empty_telemetry_db_def upsert_state_def
      vehicle_exists_def op_bind_def Let_def)

theorem alerts_respect_cooldown_witness:
  "fst (shouldFire 900000 ''v'' Speeding True 900005 (fired_db 5 7)) = Inr True \<and> (900005::int) - 5 \<ge> 900000"
proof (rule conjI)
  show fires: "fst (shouldFire 900000 ''v'' Speeding True 900005 (fired_db 5 7)) = Inr True"
    by (simp add: shouldFire_def find_state_def alert_db_def fired_db_def upsert_state_def is_state_def update_where_def
        op_bind_def Let_def)
  show "(900005::int) - 5 \<ge> 900000"
proof (rule alerts_respect_cooldown)
  show "(0::int) \<le> 900000" by simp
  show "shouldFire 900000 ''v'' Speeding True 5 alert_db = (Inr True, fired_db 5 5)" by (rule fires_now)
  show "observe_all 900000 [(''v'', Speeding, True, 7)] (fired_db 5 5) = (Inr [False], fired_db 5 7)"
    by (simp add: shouldFire_def find_state_def alert_db_def fired_db_def upsert_state_def is_state_def update_where_def
        op_bind_def Let_def)
  show "\<forall>(u, s, h, x)\<in>set [(''v'', Speeding, True, 7)]. (u, s) = (''v'', Speeding) \<longrightarrow> h" by simp
  show "shouldFire 900000 ''v'' Speeding True 900005 (fired_db 5 7) = (Inr True, fired_db 900005 900005)"
    by (simp add: shouldFire_def find_state_def alert_db_def fired_db_def upsert_state_def is_state_def update_where_def
        op_bind_def Let_def)
qed
qed

theorem reading_steps_every_trigger_witness:
  "\<exists>db'. alert_types_loop 900000 ''v'' (byType (evaluateRules sample_lls_event
       \<lparr>rc_lowFuelPct = 15, rc_speedLimitKph = 90, rc_geofences = []\<rparr>)) 5 ALERT_TYPES alert_db = (Inr (), db')"
  using reading_steps_every_trigger [OF alert_db_vehicle, of 900000 sample_lls_event
      "\<lparr>rc_lowFuelPct = 15, rc_speedLimitKph = 90, rc_geofences = []\<rparr>" 5] by blast

theorem retry_after_fire_loses_alert_witness:
  "\<exists>db2. alert_types_loop 900000 ''v'' (byType (evaluateRules (sample_lls_event\<lparr>te_gps := Some \<lparr>ng_latitude = 54,
       ng_longitude = 25, ng_altitudeM = 0, ng_angleDeg = 0, ng_satellites = 9, ng_speedKph = 200\<rparr>\<rparr>)
       \<lparr>rc_lowFuelPct = 15, rc_speedLimitKph = 90, rc_geofences = []\<rparr>)) 5 ALERT_TYPES (fired_db 5 5) = (Inr (), db2) \<and>
     filter (\<lambda>r. al_alertType r = Speeding) (tb_alerts db2) = []"
proof -
  have "tb_alerts (fired_db 5 5) = []" by (simp add: fired_db_def alert_db_def empty_telemetry_db_def)
  then show ?thesis
    using retry_after_fire_loses_alert [OF alert_db_vehicle _ fires_now] by fastforce
qed

end
