(* ===== verification/Consumers.thy ===== *)
theory Consumers
  imports Engine Alerting Js_Text "HOL-Library.Sublist"
begin

text \<open>
  \<open>consumers/index.ts\<close> and the list settings of \<open>env.ts\<close> in \<open>apps/telemetry-consumers\<close>: which
  consumers a process runs, what each subscribes to, and how a partition is worked through batch by
  batch. The broker side is kafkajs' documented behaviour with \<open>eachBatchAutoResolve: true\<close>: a batch
  whose callback returns is committed as a whole, one whose callback throws is delivered again.
\<close>

section \<open>Which consumers\<close>

definition comma_list :: "string \<Rightarrow> string list" where
  "comma_list value = filter (\<lambda>s. length s > 0) (map js_trim (split_comma value))"

definition parseBrokers :: "string \<Rightarrow> string list" where
  "parseBrokers = comma_list"

definition consumerNames :: "(string \<times> consumer_name) list" where
  "consumerNames = [(''locations'', Locations), (''fuel'', Fuel), (''engine'', Engine), (''alerting'', Alerting)]"

text \<open>
  The names every object inherits: \<open>name in consumerGroups\<close> is true of them too. The result is the
  accepted names or the unknown ones.
\<close>

definition in_consumerGroups :: "string \<Rightarrow> bool" where
  "in_consumerGroups name \<longleftrightarrow> name \<in> fst ` set consumerNames \<or> name \<in> set object_prototype"

definition parse_CONSUMERS :: "string \<Rightarrow> string list + string list" where
  "parse_CONSUMERS value =
     (if js_trim value = ''all'' then Inr (map fst consumerNames)
      else let names = comma_list value; unknown = filter (\<lambda>n. \<not> in_consumerGroups n) names
        in if length unknown > 0 then Inl unknown else Inr names)"

section \<open>How each is set up\<close>

record topic_override =
  to_live :: string
  to_backfill :: string
  to_dlq :: "string option"

record consumer_config =
  cc_groupId :: string
  cc_topics :: "string list"
  cc_backfillTopic :: string
  cc_dlqTopic :: string

definition consumer_topics :: "topic_override option \<Rightarrow> consumer_name \<Rightarrow> string list" where
  "consumer_topics topics name =
     (let writerTopics = (case topics of None \<Rightarrow> telemetryTopics | Some t \<Rightarrow> [to_live t, to_backfill t]);
          liveOnly = (case topics of None \<Rightarrow> [telemetryLiveTopic] | Some t \<Rightarrow> [to_live t])
      in if name = Alerting then liveOnly else writerTopics)"

definition consumer_of :: "topic_override option \<Rightarrow> string option \<Rightarrow> consumer_name \<Rightarrow> consumer_config" where
  "consumer_of topics groupIdSuffix name =
     \<lparr>cc_groupId = consumerGroups name @ (case groupIdSuffix of None \<Rightarrow> [] | Some s \<Rightarrow> s),
      cc_topics = consumer_topics topics name,
      cc_backfillTopic = (case topics of None \<Rightarrow> telemetryBackfillTopic | Some t \<Rightarrow> to_backfill t),
      cc_dlqTopic = (case topics of None \<Rightarrow> telemetryDlqTopic
        | Some t \<Rightarrow> (case to_dlq t of None \<Rightarrow> telemetryDlqTopic | Some d \<Rightarrow> d))\<rparr>"

text \<open>\<open>Object.fromEntries\<close>: a repeated name keeps its first place.\<close>

definition buildConsumers :: "topic_override option \<Rightarrow> string option \<Rightarrow> consumer_name list
    \<Rightarrow> (consumer_name, consumer_config) jsmap" where
  "buildConsumers topics groupIdSuffix names =
     js_set_all (map (\<lambda>n. (n, consumer_of topics groupIdSuffix n)) names) []"

fun consumer_handler :: "alerting_config \<Rightarrow> int \<Rightarrow> (string \<Rightarrow> uuid) \<Rightarrow> consumer_name \<Rightarrow> telemetry_event list \<Rightarrow> freshness
    \<Rightarrow> unit worker_op" where
  "consumer_handler config now newId Locations = createLocationsHandler newId"
| "consumer_handler config now newId Fuel = createFuelHandler newId"
| "consumer_handler config now newId Engine = createEngineHandler newId"
| "consumer_handler config now newId Alerting = createAlertingHandler config now newId"

section \<open>Working through a partition\<close>

text \<open>
  A partition as the group sees it: the committed position, the handler's state, and three ghosts that only the
  statements read: the events of the handler calls that were committed, what was sent to the dead-letter topic, and
  the batches that were committed although the loop had returned early.
\<close>

record 's partition =
  pt_position :: nat
  pt_state :: 's
  pt_handled :: "telemetry_event list"
  pt_dead :: "dead_letter list"
  pt_lost :: "kafka_message list list"

text \<open>
  One call of \<open>eachBatch\<close> on the next \<open>n\<close> messages of the log, and what the broker does after it. A commit that
  does not reach the broker (\<open>commits\<close>) leaves the position where it was.
\<close>

definition succeeds :: "(telemetry_event list \<Rightarrow> freshness \<Rightarrow> 's \<Rightarrow> ('e + unit) \<times> 's) \<Rightarrow> telemetry_event list \<Rightarrow> freshness \<Rightarrow> 's \<Rightarrow> bool" where
  "succeeds handler events fr s \<longleftrightarrow> fst (handler events fr s) = Inr ()"

definition consume :: "(telemetry_event list \<Rightarrow> freshness \<Rightarrow> 's \<Rightarrow> ('e + unit) \<times> 's) \<Rightarrow> consumer_config \<Rightarrow> string
    \<Rightarrow> kafka_message list \<Rightarrow> (kafka_message \<Rightarrow> bool) \<Rightarrow> (kafka_message \<Rightarrow> bool) \<Rightarrow> bool \<Rightarrow> nat \<Rightarrow> 's partition \<Rightarrow> 's partition" where
  "consume handler cfg topic msgs alive dlq_up commits n p =
     (let batch = take n (drop (pt_position p) msgs);
          outcome = eachBatch handler (cc_backfillTopic cfg) (cc_groupId cfg) topic alive dlq_up True batch (pt_state p)
      in case outcome of (result, dead, s) \<Rightarrow>
           let q = p\<lparr>pt_state := s, pt_dead := pt_dead p @ dead\<rparr> in
           if result = Inr () \<and> commits
           then (case collect_batch alive dlq_up True (cc_groupId cfg) topic batch [] [] of
               Collected events _ \<Rightarrow> q\<lparr>pt_position := pt_position p + length batch, pt_handled := pt_handled p @
                 (if succeeds handler events (if topic = cc_backfillTopic cfg then Backfill else Live) (pt_state p) then events else [])\<rparr>
             | _ \<Rightarrow> q\<lparr>pt_position := pt_position p + length batch, pt_lost := pt_lost p @ [batch]\<rparr>)
           else q)"

text \<open>
  What can happen to a partition: a batch, whatever the handler and the dead-letter producer do and wherever the
  group membership is lost; and another member, with a state of its own, takes over at the committed position.
\<close>

inductive partition_step :: "(telemetry_event list \<Rightarrow> freshness \<Rightarrow> 's \<Rightarrow> ('e + unit) \<times> 's) \<Rightarrow> consumer_config
    \<Rightarrow> string \<Rightarrow> kafka_message list \<Rightarrow> 's partition \<Rightarrow> 's partition \<Rightarrow> bool"
  for handler cfg topic msgs where
  batch: "partition_step handler cfg topic msgs p (consume handler cfg topic msgs alive dlq_up commits n p)"
| taken_over: "partition_step handler cfg topic msgs p (p\<lparr>pt_state := s\<rparr>)"

inductive_cases partition_stepE: "partition_step handler cfg topic msgs p q"

definition new_partition :: "'s \<Rightarrow> 's partition" where
  "new_partition s = \<lparr>pt_position = 0, pt_state = s, pt_handled = [], pt_dead = [], pt_lost = []\<rparr>"

text \<open>
  The log up to the position is a sequence of batches, each run to its end (\<open>True\<close>) or lost (\<open>False\<close>).
\<close>

definition partition_inv :: "consumer_config \<Rightarrow> string \<Rightarrow> kafka_message list \<Rightarrow> 's partition \<Rightarrow> bool" where
  "partition_inv cfg topic msgs p \<longleftrightarrow> pt_position p \<le> length msgs \<and>
     (\<exists>batches. concat (map snd batches) = take (pt_position p) msgs \<and>
        map snd (filter (\<lambda>b. \<not> fst b) batches) = pt_lost p \<and>
        pt_handled p = decoded_of (concat (map snd (filter fst batches))) \<and>
        set (rejected_of (cc_groupId cfg) topic (concat (map snd (filter fst batches)))) \<subseteq> set (pt_dead p))"

text \<open>Progress is never undone.\<close>

definition partition_keeps :: "'s partition \<Rightarrow> 's partition \<Rightarrow> bool" where
  "partition_keeps p q \<longleftrightarrow> pt_position p \<le> pt_position q \<and> prefix (pt_handled p) (pt_handled q) \<and> prefix (pt_lost p) (pt_lost q)"

lemma decoded_append: "decoded_of (xs @ ys) = decoded_of xs @ decoded_of ys"
  by (simp add: decoded_of_def List.map_filter_def)

lemma rejected_append: "rejected_of g t (xs @ ys) = rejected_of g t xs @ rejected_of g t ys"
  by (simp add: rejected_of_def List.map_filter_def)

text \<open>A batch is collected whole exactly if the loop gets through all of it; it is abandoned only if the membership is lost.\<close>

lemma collect_batch_cases:
  obtains (whole) "collect_batch alive dlq_up True g t ms [] [] = Collected (decoded_of ms) (rejected_of g t ms)"
  | (failed) d where "collect_batch alive dlq_up True g t ms [] [] = DlqFailed d"
  | (abandoned) d where "collect_batch alive dlq_up True g t ms [] [] = Abandoned d" "\<not> list_all alive ms"
proof (cases "dropWhile (gets_through alive dlq_up True) ms")
  case Nil
  then have "takeWhile (gets_through alive dlq_up True) ms = ms" by (simp add: takeWhile_eq_all_conv)
  from collect_batch_outcome [of alive dlq_up True g t ms "[]" "[]", unfolded this Nil Let_def] show ?thesis by (intro whole) simp
next
  case (Cons m rest)
  then have "m \<in> set ms" by (metis list.set_intros(1) set_dropWhileD)
  show ?thesis
  proof (cases "alive m")
    case True
    then show ?thesis using Cons by (intro failed) (simp add: collect_batch_outcome)
  next
    case False
    then show ?thesis using Cons \<open>m \<in> set ms\<close> by (intro abandoned) (simp add: collect_batch_outcome, auto simp: list_all_iff)
  qed
qed

lemma consume_cases:
  fixes p :: "'s partition" and msgs n
  defines "b \<equiv> take n (drop (pt_position p) msgs)"
  obtains (committed) s where "consume handler cfg topic msgs alive dlq_up commits n p =
      p\<lparr>pt_position := pt_position p + length b, pt_state := s, pt_handled := pt_handled p @ decoded_of b,
        pt_dead := pt_dead p @ rejected_of (cc_groupId cfg) topic b\<rparr>"
  | (lost) d where "consume handler cfg topic msgs alive dlq_up commits n p =
      p\<lparr>pt_position := pt_position p + length b, pt_dead := pt_dead p @ d, pt_lost := pt_lost p @ [b]\<rparr>" "\<not> list_all alive b"
  | (retried) s d where "consume handler cfg topic msgs alive dlq_up commits n p = p\<lparr>pt_state := s, pt_dead := pt_dead p @ d\<rparr>"
proof -
  let ?e = "eachBatch handler (cc_backfillTopic cfg) (cc_groupId cfg) topic alive dlq_up True b (pt_state p)"
  obtain r d s where e: "?e = (r, d, s)" by (metis prod_cases3)
  note c = consume_def [of handler cfg topic msgs alive dlq_up commits n p, folded b_def, unfolded Let_def e prod.case]
  show ?thesis
  proof (cases "r = Inr () \<and> commits")
    case False
    have "consume handler cfg topic msgs alive dlq_up commits n p = p\<lparr>pt_state := s, pt_dead := pt_dead p @ d\<rparr>"
      unfolding c if_not_P [OF False] ..
    then show ?thesis by (rule retried)
  next
    case True
    then have "r = Inr ()" by simp
    show ?thesis
    proof (rule collect_batch_cases [of alive dlq_up "cc_groupId cfg" topic b])
      assume w: "collect_batch alive dlq_up True (cc_groupId cfg) topic b [] [] =
        Collected (decoded_of b) (rejected_of (cc_groupId cfg) topic b)"
      then have "d = rejected_of (cc_groupId cfg) topic b"
        using e by (auto simp: eachBatch_def split: if_splits prod.splits sum.splits)
      moreover have "(if succeeds handler (decoded_of b) (if topic = cc_backfillTopic cfg then Backfill else Live) (pt_state p)
          then decoded_of b else []) = decoded_of b"
        using e w \<open>r = Inr ()\<close> by (auto simp: eachBatch_def succeeds_def split: if_splits prod.splits sum.splits)
      ultimately have "consume handler cfg topic msgs alive dlq_up commits n p = p\<lparr>pt_position := pt_position p + length b, pt_state := s,
          pt_handled := pt_handled p @ decoded_of b, pt_dead := pt_dead p @ rejected_of (cc_groupId cfg) topic b\<rparr>"
        unfolding c if_P [OF True] w batch_result.case by simp
      then show ?thesis by (rule committed)
    next
      fix d' assume "collect_batch alive dlq_up True (cc_groupId cfg) topic b [] [] = DlqFailed d'"
      then show ?thesis using e \<open>r = Inr ()\<close> by (simp add: eachBatch_def)
    next
      fix d' assume a: "collect_batch alive dlq_up True (cc_groupId cfg) topic b [] [] = Abandoned d'" "\<not> list_all alive b"
      then have "s = pt_state p" using e by (simp add: eachBatch_def)
      then have "consume handler cfg topic msgs alive dlq_up commits n p =
          p\<lparr>pt_position := pt_position p + length b, pt_dead := pt_dead p @ d, pt_lost := pt_lost p @ [b]\<rparr>"
        unfolding c if_P [OF True] a(1) by simp
      then show ?thesis using a(2) by (rule lost)
    qed
  qed
qed

lemma take_drop_append: "take p xs @ take n (drop p xs) = take (p + length (take n (drop p xs))) xs"
proof (cases "p \<le> length xs")
  case True
  have "take (p + length (take n (drop p xs))) xs = take p xs @ take (length (take n (drop p xs))) (drop p xs)"
    by (rule take_add)
  moreover have "take (length (take n (drop p xs))) (drop p xs) = take n (drop p xs)"
    by (simp add: min_def)
  ultimately show ?thesis by simp
next
  case False
  then show ?thesis by simp
qed

lemma partition_inv_step:
  fixes p :: "'s partition" and n msgs
  defines "b \<equiv> take n (drop (pt_position p) msgs)"
  assumes inv: "partition_inv cfg topic msgs p" and q: "pt_position q = pt_position p + length b"
    and ran: "pt_lost q = pt_lost p @ (if whole then [] else [b])" "pt_handled q = pt_handled p @ (if whole then decoded_of b else [])"
    and dead: "set (pt_dead p) \<subseteq> set (pt_dead q)" "whole \<longrightarrow> set (rejected_of (cc_groupId cfg) topic b) \<subseteq> set (pt_dead q)"
  shows "partition_inv cfg topic msgs q"
proof -
  obtain bs where bs: "pt_position p \<le> length msgs" "concat (map snd bs) = take (pt_position p) msgs"
    "map snd (filter (\<lambda>b. \<not> fst b) bs) = pt_lost p" "pt_handled p = decoded_of (concat (map snd (filter fst bs)))"
    "set (rejected_of (cc_groupId cfg) topic (concat (map snd (filter fst bs)))) \<subseteq> set (pt_dead p)"
    using inv by (auto simp: partition_inv_def)
  have len: "pt_position q \<le> length msgs" using bs(1) by (simp add: q b_def)
  have tk: "take (pt_position q) msgs = take (pt_position p) msgs @ b"
    unfolding q b_def by (rule take_drop_append [symmetric])
  have none: "decoded_of [] = []" "rejected_of g t [] = []" for g t by (simp_all add: decoded_of_def rejected_of_def map_filter_simps)
  show ?thesis unfolding partition_inv_def
    by (rule conjI [OF len], rule exI [of _ "bs @ [(whole, b)]"])
      (use bs dead in \<open>auto simp: tk ran decoded_append rejected_append none\<close>)
qed

interpretation partition: step_system "\<lambda>p. \<exists>s. p = new_partition s" "partition_step handler cfg topic msgs"
  "partition_inv cfg topic msgs" partition_keeps
  for handler :: "telemetry_event list \<Rightarrow> freshness \<Rightarrow> 's \<Rightarrow> ('e + unit) \<times> 's" and cfg topic msgs
proof
  fix p q r :: "'s partition"
  show "\<exists>s. p = new_partition s \<Longrightarrow> partition_inv cfg topic msgs p"
    by (auto simp: new_partition_def partition_inv_def decoded_of_def rejected_of_def map_filter_simps intro!: exI [of _ "[]"])
  show "partition_keeps p p" by (simp add: partition_keeps_def)
  show "partition_keeps p q \<Longrightarrow> partition_keeps q r \<Longrightarrow> partition_keeps p r"
    by (auto simp: partition_keeps_def intro: prefix_order.trans)
  assume inv: "partition_inv cfg topic msgs p" and st: "partition_step handler cfg topic msgs p q"
  show "partition_inv cfg topic msgs q"
    using st
  proof (cases rule: partition_step.cases)
    case (batch alive dlq_up commits n)
    show ?thesis unfolding batch
    proof (rule consume_cases [of handler cfg topic msgs alive dlq_up commits n p])
      fix s d assume c: "consume handler cfg topic msgs alive dlq_up commits n p = p\<lparr>pt_state := s, pt_dead := pt_dead p @ d\<rparr>"
      show "partition_inv cfg topic msgs (consume handler cfg topic msgs alive dlq_up commits n p)"
        unfolding c using inv by (auto simp: partition_inv_def)
    qed (rule partition_inv_step [OF inv, of _ n True], simp_all, rule partition_inv_step [OF inv, of _ n False], simp_all)
  next
    case (taken_over s)
    then show ?thesis using inv by (simp add: partition_inv_def)
  qed
  show "partition_keeps p q"
    using st
  proof (cases rule: partition_step.cases)
    case (batch alive dlq_up commits n)
    show ?thesis unfolding batch
      by (rule consume_cases [of handler cfg topic msgs alive dlq_up commits n p]) (simp_all add: partition_keeps_def)
  qed (simp add: partition_keeps_def)
qed

section \<open>Properties\<close>

text \<open>
  C25: what becomes of every message before the committed position, whatever fails or interrupts, any number of times
  and with any number of members taking over. The log up to that position splits into batches. Of the batches that were
  run to the end, the valid events are exactly those of the committed handler calls, in order and once each, and every
  bad message is on the dead-letter topic with where it came from and why it was rejected. The other batches were
  committed although the loop had returned early, none of their events handled by that call; such a batch comes only
  from a call in which the group membership was lost before one of its messages.
\<close>

theorem partition_accounts_for_every_message:
  assumes "(partition_step handler cfg topic msgs)\<^sup>*\<^sup>* (new_partition s) p"
  shows "(\<exists>batches. concat (map snd batches) = take (pt_position p) msgs \<and>
      map snd (filter (\<lambda>b. \<not> fst b) batches) = pt_lost p \<and>
      map EventJson (pt_handled p) = map km_value (filter carries_event (concat (map snd (filter fst batches)))) \<and>
      (\<forall>m\<in>set (concat (map snd (filter fst batches))). \<not> carries_event m \<longrightarrow>
        \<lparr>dl_key = km_key m, dl_value = km_value m, dl_reason = reason_of (km_value m), dl_source = topic,
         dl_offset = km_offset m, dl_group = cc_groupId cfg\<rparr> \<in> set (pt_dead p))) \<and>
    (\<forall>alive dlq_up commits n. list_all alive (take n (drop (pt_position p) msgs)) \<longrightarrow>
      pt_lost (consume handler cfg topic msgs alive dlq_up commits n p) = pt_lost p)"
proof (intro conjI allI impI)
  have "partition_inv cfg topic msgs p" by (rule partition.reachable_inv [OF _ assms]) blast
  then obtain bs where bs: "concat (map snd bs) = take (pt_position p) msgs"
    "map snd (filter (\<lambda>b. \<not> fst b) bs) = pt_lost p" "pt_handled p = decoded_of (concat (map snd (filter fst bs)))"
    "set (rejected_of (cc_groupId cfg) topic (concat (map snd (filter fst bs)))) \<subseteq> set (pt_dead p)"
    by (auto simp: partition_inv_def)
  show "\<exists>batches. concat (map snd batches) = take (pt_position p) msgs \<and>
      map snd (filter (\<lambda>b. \<not> fst b) batches) = pt_lost p \<and>
      map EventJson (pt_handled p) = map km_value (filter carries_event (concat (map snd (filter fst batches)))) \<and>
      (\<forall>m\<in>set (concat (map snd (filter fst batches))). \<not> carries_event m \<longrightarrow>
        \<lparr>dl_key = km_key m, dl_value = km_value m, dl_reason = reason_of (km_value m), dl_source = topic,
         dl_offset = km_offset m, dl_group = cc_groupId cfg\<rparr> \<in> set (pt_dead p))"
    by (rule exI [of _ bs], intro conjI bs(1,2))
      (simp add: bs(3) decoded_values, use bs(4) in \<open>auto simp: rejected_values\<close>)
next
  fix alive dlq_up commits n assume a: "list_all alive (take n (drop (pt_position p) msgs))"
  show "pt_lost (consume handler cfg topic msgs alive dlq_up commits n p) = pt_lost p"
    by (rule consume_cases [of handler cfg topic msgs alive dlq_up commits n p]) (use a in auto)
qed

text \<open>
  A shutdown or rebalance in the middle of a batch loses it. When \<open>isRunning()\<close> turns false or
  \<open>isStale()\<close> true before some message, \<open>eachBatch\<close> returns without a throw and without calling the
  handler, so the whole batch counts as resolved: the position passes its events, none was handled.
\<close>

theorem interrupted_batch_is_committed_unhandled:
  assumes "take n (drop (pt_position p) msgs) = ms @ m # rest" "list_all alive ms" "list_all dlq_up ms" "\<not> alive m"
  shows "\<exists>dead. consume handler cfg topic msgs alive dlq_up True n p =
    p\<lparr>pt_position := pt_position p + length (ms @ m # rest), pt_dead := pt_dead p @ dead, pt_lost := pt_lost p @ [ms @ m # rest]\<rparr>"
proof -
  have "\<exists>dead. collect_batch alive dlq_up True g t (ms @ m # rest) es ds = Abandoned dead" for g t es ds
    using assms(2-4) by (induction ms arbitrary: es ds) (auto split: sum.splits)
  then obtain dead where "collect_batch alive dlq_up True (cc_groupId cfg) topic (ms @ m # rest) [] [] = Abandoned dead"
    by blast
  then show ?thesis unfolding consume_def assms(1) Let_def
    by (intro exI [of _ dead]) (simp add: eachBatch_def)
qed

text \<open>
  backlog can never raise an alarm, and consumers never share progress. Whatever is configured,
  the alerting consumer subscribes to the live topic only and every writer to both, and all
  consumers of a process have different group ids.
\<close>

theorem alerting_reads_live_only:
  assumes "topics = None \<or> (\<exists>t. topics = Some t \<and> to_live t \<noteq> to_backfill t)"
  shows "(\<forall>cfg. (Alerting, cfg) \<in> set (buildConsumers topics sfx names) \<longrightarrow> cc_backfillTopic cfg \<notin> set (cc_topics cfg)) \<and>
    (\<forall>name cfg. (name, cfg) \<in> set (buildConsumers topics sfx names) \<longrightarrow> name \<noteq> Alerting \<longrightarrow>
       cc_backfillTopic cfg \<in> set (cc_topics cfg) \<and> set (consumer_topics topics Alerting) \<subseteq> set (cc_topics cfg)) \<and>
    inj_on (\<lambda>(name, cfg). cc_groupId cfg) (set (buildConsumers topics sfx names))"
proof -
  have mem: "(name, cfg) \<in> set (js_set_all (map (\<lambda>n. (n, consumer_of topics sfx n)) names) m) \<Longrightarrow>
      \<forall>(n, c)\<in>set m. c = consumer_of topics sfx n \<Longrightarrow> cfg = consumer_of topics sfx name" for name cfg m
  proof (induction names arbitrary: m)
    case Nil
    then show ?case by auto
  next
    case (Cons n names)
    show ?case
      by (rule Cons.IH [of "js_set n (consumer_of topics sfx n) m"])
        (use Cons.prems js_set_entries [of n "consumer_of topics sfx n" m] in auto)
  qed
  have cfg: "(name, cfg) \<in> set (buildConsumers topics sfx names) \<Longrightarrow> cfg = consumer_of topics sfx name" for name cfg
    unfolding buildConsumers_def by (drule mem) auto
  have "a = b" if "consumerGroups a = consumerGroups b" for a b using that by (cases a; cases b) simp_all
  then have "inj_on (\<lambda>(name, cfg). cc_groupId cfg) (set (buildConsumers topics sfx names))"
    by (auto simp: inj_on_def consumer_of_def dest!: cfg) blast
  moreover have ne: "telemetryLiveTopic \<noteq> telemetryBackfillTopic"
    by (simp add: telemetryLiveTopic_def telemetryBackfillTopic_def)
  have "cc_backfillTopic (consumer_of topics sfx Alerting) \<notin> set (cc_topics (consumer_of topics sfx Alerting))"
    using assms ne by (auto simp: consumer_of_def consumer_topics_def)
  moreover have "cc_backfillTopic (consumer_of topics sfx name) \<in> set (cc_topics (consumer_of topics sfx name)) \<and>
      set (consumer_topics topics Alerting) \<subseteq> set (cc_topics (consumer_of topics sfx name))" if "name \<noteq> Alerting" for name
    using that assms by (auto simp: consumer_of_def consumer_topics_def telemetryTopics_def)
  ultimately show ?thesis using cfg by metis
qed

section \<open>Witnesses\<close>

definition sample_message :: "nat \<Rightarrow> kafka_message" where
  "sample_message i = \<lparr>km_key = ''k'', km_value = EventJson (sample_event 1600000000000), km_offset = i\<rparr>"

definition writer_config :: consumer_config where
  "writer_config = consumer_of None None Locations"

definition accept_all :: "telemetry_event list \<Rightarrow> freshness \<Rightarrow> nat \<Rightarrow> (thrown + unit) \<times> nat" where
  "accept_all events fr n = (Inr (), n + length events)"

text \<open>Three events: one handled, then a batch of one lost to a rebalance, then one that waits.\<close>

theorem partition_accounts_for_every_message_witness:
  "\<exists>p batches. (partition_step accept_all writer_config telemetryLiveTopic (map sample_message [0, 1, 2]))\<^sup>*\<^sup>* (new_partition 0) p \<and>
     pt_position p = 2 \<and> pt_lost p = [[sample_message 1]] \<and> concat (map snd batches) = [sample_message 0, sample_message 1] \<and>
     map EventJson (pt_handled p) = map km_value (filter carries_event (concat (map snd (filter fst batches)))) \<and>
     pt_handled p = [sample_event 1600000000000]"
proof -
  let ?consume = "\<lambda>alive. consume accept_all writer_config telemetryLiveTopic (map sample_message [0, 1, 2]) alive (\<lambda>_. True) True 1"
  let ?p = "?consume (\<lambda>_. False) (?consume (\<lambda>_. True) (new_partition 0))"
  have p: "pt_position ?p = 2" "pt_lost ?p = [[sample_message 1]]" "pt_handled ?p = [sample_event 1600000000000]"
    by (simp_all add: consume_def new_partition_def eachBatch_def sample_message_def sample_event_valid accept_all_def succeeds_def Let_def)
  have run: "(partition_step accept_all writer_config telemetryLiveTopic (map sample_message [0, 1, 2]))\<^sup>*\<^sup>* (new_partition 0) ?p"
    by (rule rtranclp.rtrancl_into_rtrancl, rule r_into_rtranclp) (rule partition_step.batch)+
  obtain batches where "concat (map snd batches) = take (pt_position ?p) (map sample_message [0, 1, 2])"
    "map EventJson (pt_handled ?p) = map km_value (filter carries_event (concat (map snd (filter fst batches))))"
    using partition_accounts_for_every_message [OF run] by blast
  then show ?thesis using p run by (intro exI [of _ ?p] exI [of _ batches]) (simp add: numeral_2_eq_2)
qed

theorem interrupted_batch_is_committed_unhandled_witness:
  "pt_position (consume accept_all writer_config telemetryLiveTopic [sample_message 0, sample_message 1]
       (\<lambda>m. km_offset m = 0) (\<lambda>_. True) True 2 (new_partition 0)) = 2 \<and>
   pt_handled (consume accept_all writer_config telemetryLiveTopic [sample_message 0, sample_message 1]
       (\<lambda>m. km_offset m = 0) (\<lambda>_. True) True 2 (new_partition 0)) = []"
proof -
  have "take 2 (drop (pt_position (new_partition (0::nat))) [sample_message 0, sample_message 1])
      = [sample_message 0] @ sample_message 1 # []" by (simp add: new_partition_def)
  from interrupted_batch_is_committed_unhandled [OF this, of "\<lambda>m. km_offset m = 0" "\<lambda>_. True" accept_all writer_config telemetryLiveTopic]
  show ?thesis by (auto simp: sample_message_def new_partition_def)
qed

theorem alerting_reads_live_only_witness:
  "cc_backfillTopic (consumer_of None None Alerting) \<notin> set (cc_topics (consumer_of None None Alerting))"
proof -
  have "(Alerting, consumer_of None None Alerting) \<in> set (buildConsumers None None [Alerting])"
    by (simp add: buildConsumers_def js_set_def)
  then show ?thesis using alerting_reads_live_only [of None None "[Alerting]"] by blast
qed

end
