(* ===== verification/Auth_Api.thy ===== *)
theory Auth_Api
  imports Http Tokens
begin

text \<open>
  The authentication service as it answers raw requests: \<open>apps/auth-api/src/app.ts\<close> with
  \<open>modules/auth/router.ts\<close> and \<open>schemas.ts\<close>, and how its tokens open the banking API.
\<close>

section \<open>Request schemas\<close>

definition registerBody :: "zod \<Rightarrow> json option \<Rightarrow> issues + register_input" where
  "registerBody zd v = z_object zd v (\<lambda>f.
     bindE (both (z_email 320 zd ''email'' (f ''email''))
       (both (z_string 8 200 zd ''password'' (f ''password'')) (z_trimmed 1 200 zd ''name'' (f ''name''))))
       (\<lambda>(email, password, name). Inr \<lparr>ri_email = email, ri_password = password, ri_name = name\<rparr>))"

definition loginBody :: "zod \<Rightarrow> json option \<Rightarrow> issues + string \<times> string" where
  "loginBody zd v = z_object zd v (\<lambda>f.
     both (z_email 320 zd ''email'' (f ''email'')) (z_string 1 200 zd ''password'' (f ''password'')))"

text \<open>\<open>/^Bearer .+$/\<close>, where the dot excludes line breaks.\<close>

definition bearer_syntax :: "string \<Rightarrow> bool" where
  "bearer_syntax s \<longleftrightarrow> startsWith s BEARER \<and> length s > length BEARER \<and>
     CHR 0x0A \<notin> set s \<and> CHR 0x0D \<notin> set s"

definition authHeaders :: "zod \<Rightarrow> (string \<Rightarrow> json option) \<Rightarrow> issues + string" where
  "authHeaders zd hs = accept (\<lambda>v. case v of Some (JStr s) \<Rightarrow> if bearer_syntax s then Some s else None | _ \<Rightarrow> None)
     zd ''authorization'' (hs ''authorization'')"

section \<open>Routes and handlers\<close>

datatype auth_endpoint = AuthHealth | Register | Login | Me | Jwks

definition authRoutes :: "(auth_endpoint \<times> route) list" where
  "authRoutes =
     [(Register, \<lparr>rt_method = Post, rt_path = ''/auth/register'', rt_responses = [201, 400, 409]\<rparr>),
      (Login, \<lparr>rt_method = Post, rt_path = ''/auth/login'', rt_responses = [200, 400, 401]\<rparr>),
      (Me, \<lparr>rt_method = Get, rt_path = ''/auth/me'', rt_responses = [200, 400, 401]\<rparr>),
      (Jwks, \<lparr>rt_method = Get, rt_path = ''/.well-known/jwks.json'', rt_responses = [200]\<rparr>)]"

definition auth_app_routes :: "(auth_endpoint \<times> route) list" where
  "auth_app_routes = (AuthHealth, \<lparr>rt_method = Get, rt_path = ''/health'', rt_responses = [200]\<rparr>) # authRoutes"

datatype auth_payload =
    AuthHealthBody
  | UserBody uuid string string int \<comment> \<open>id, email, name, createdAt\<close>
  | TokenBody string int \<comment> \<open>token, expiresIn\<close>
  | MeBody uuid string string
  | JwksBody "jwk list"
  | AuthErrorBody error_body

record auth_app =
  aa_zod :: zod
  aa_bcrypt :: bcrypt
  aa_jose :: jose
  aa_keys :: signing_keys
  aa_config :: token_config
  aa_match :: "string \<Rightarrow> string \<Rightarrow> (string \<times> string) list option"

text \<open>The salt and the id drawn for this request, the instant in milliseconds and in seconds.\<close>

record auth_surroundings =
  as_salt :: string
  as_id :: uuid
  as_nowMs :: int
  as_now :: int

definition reply_ok :: "nat \<Rightarrow> 'b \<Rightarrow> 'b reply" where
  "reply_ok status b = \<lparr>rp_status = status, rp_body = b, rp_location = None\<rparr>"

definition handle_register :: "auth_app \<Rightarrow> auth_surroundings \<Rightarrow> register_input \<Rightarrow> auth_payload reply users_op" where
  "handle_register au su input =
     op_bind (register (aa_bcrypt au) (as_salt su) (as_id su) (as_nowMs su) input) (\<lambda>user.
       op_return (reply_ok 201 (UserBody (us_id user) (us_email user) (us_name user) (us_createdAt user))))"

definition token_user_of :: "user_row \<Rightarrow> token_user" where
  "token_user_of u = \<lparr>tu_id = us_id u, tu_email = us_email u, tu_name = us_name u\<rparr>"

definition handle_login :: "auth_app \<Rightarrow> auth_surroundings \<Rightarrow> string \<times> string \<Rightarrow> auth_payload reply users_op" where
  "handle_login au su credentials =
     op_bind (verifyCredentials (aa_bcrypt au) (fst credentials) (snd credentials)) (\<lambda>user.
       op_return (reply_ok 200
         (TokenBody (signToken (aa_jose au) (aa_keys au) (aa_config au) (token_user_of user) (as_now su))
                    (tc_ttlSeconds (aa_config au)))))"

definition handle_me :: "auth_app \<Rightarrow> auth_surroundings \<Rightarrow> string \<Rightarrow> auth_payload reply users_op" where
  "handle_me au su authorization =
     (case verifyToken (aa_jose au) (aa_keys au) (aa_config au) (as_now su) (drop (length BEARER) authorization) of
        Inl err \<Rightarrow> op_throw err
      | Inr claims \<Rightarrow> op_bind (user_getById (tu_id claims)) (\<lambda>user.
          op_return (reply_ok 200 (MeBody (us_id user) (us_email user) (us_name user)))))"

definition answer_auth :: "auth_app \<Rightarrow> auth_surroundings \<Rightarrow> auth_endpoint \<Rightarrow> http_request \<Rightarrow> users_table
    \<Rightarrow> auth_payload reply \<times> users_table" where
  "answer_auth au su e req = (case e of
       AuthHealth \<Rightarrow> mount AuthErrorBody (Inr ()) (\<lambda>_. op_return (reply_ok 200 AuthHealthBody))
     | Register \<Rightarrow> mount AuthErrorBody (registerBody (aa_zod au) (body_json req)) (handle_register au su)
     | Login \<Rightarrow> mount AuthErrorBody (loginBody (aa_zod au) (body_json req)) (handle_login au su)
     | Me \<Rightarrow> mount AuthErrorBody (authHeaders (aa_zod au) (headers_json req)) (handle_me au su)
     | Jwks \<Rightarrow> mount AuthErrorBody (Inr ()) (\<lambda>_. op_return (reply_ok 200 (JwksBody (jwks_of (aa_keys au))))))"

definition serve_auth :: "auth_app \<Rightarrow> auth_surroundings \<Rightarrow> http_request \<Rightarrow> users_table \<Rightarrow> auth_payload reply \<times> users_table" where
  "serve_auth au su req users = (case rq_body req of
       BrokenBody m \<Rightarrow> (error_reply AuthErrorBody (PlainErr m), users)
     | _ \<Rightarrow> (case find_route (aa_match au) req auth_app_routes of
         None \<Rightarrow> (error_reply AuthErrorBody (notFoundHandler (method_name (rq_method req)) (rq_path req)), users)
       | Some (e, r, params) \<Rightarrow> answer_auth au su e req users))"

section \<open>What requests do to the table\<close>

lemma snd_mount_auth: "snd (mount mk p run s) = (case p of Inl _ \<Rightarrow> s | Inr i \<Rightarrow> snd (run i s))"
  by (auto simp: mount_def split: sum.splits prod.splits)

lemma verifyCredentials_same: "snd (verifyCredentials bc e p users) = users"
  by (simp add: verifyCredentials_cases split: option.splits)

lemma user_getById_same: "snd (user_getById i users) = users"
  by (simp add: user_getById_def split: option.splits)

lemma snd_op_bind_return: "snd (op_bind f (\<lambda>x. op_return (g x)) s) = snd (f s)"
  by (simp add: op_bind_def split: prod.splits sum.splits)

lemma answer_auth_register:
  "\<exists>rs. snd (answer_auth au su e req users) = fold (register_step (aa_bcrypt au)) rs users"
proof (cases "\<exists>input. e = Register \<and> registerBody (aa_zod au) (body_json req) = Inr input")
  case True
  then obtain input where "e = Register" "registerBody (aa_zod au) (body_json req) = Inr input" by blast
  then have "snd (answer_auth au su e req users) = fold (register_step (aa_bcrypt au))
      [\<lparr>rg_salt = as_salt su, rg_newId = as_id su, rg_now = as_nowMs su, rg_input = input\<rparr>] users"
    by (simp add: answer_auth_def snd_mount_auth handle_register_def snd_op_bind_return register_step_def)
  then show ?thesis by blast
next
  case False
  have "snd (handle_me au su h users) = users" for h
    by (simp add: handle_me_def snd_op_bind_return user_getById_same split: sum.splits)
  then have "snd (answer_auth au su e req users) = users"
    using False
    by (cases e) (auto simp: answer_auth_def snd_mount_auth handle_login_def snd_op_bind_return verifyCredentials_same
        split: sum.splits)
  then show ?thesis by (metis fold_simps(1))
qed

lemma serve_auth_register: "\<exists>rs. snd (serve_auth au su req users) = fold (register_step (aa_bcrypt au)) rs users"
proof -
  have "\<exists>rs. users = fold (register_step (aa_bcrypt au)) rs users" by (metis fold_simps(1))
  then show ?thesis using answer_auth_register
    by (auto simp: serve_auth_def split: request_body.split option.split)
qed

text \<open>Any number of requests.\<close>

definition serve_all :: "auth_app \<Rightarrow> (auth_surroundings \<times> http_request) list \<Rightarrow> users_table \<Rightarrow> users_table" where
  "serve_all au xs users = fold (\<lambda>(su, req) users. snd (serve_auth au su req users)) xs users"

lemma serve_all_register: "\<exists>rs. serve_all au xs users = fold (register_step (aa_bcrypt au)) rs users"
proof (induction xs arbitrary: users)
  case Nil
  show ?case by (simp add: serve_all_def) (metis fold_simps(1))
next
  case (Cons x xs)
  obtain r1 where 1: "snd (serve_auth au (fst x) (snd x) users) = fold (register_step (aa_bcrypt au)) r1 users"
    using serve_auth_register by blast
  obtain r2 where "serve_all au xs (fold (register_step (aa_bcrypt au)) r1 users) =
      fold (register_step (aa_bcrypt au)) r2 (fold (register_step (aa_bcrypt au)) r1 users)"
    using Cons.IH by blast
  then have "serve_all au (x # xs) users = fold (register_step (aa_bcrypt au)) (r1 @ r2) users"
    using 1 by (simp add: serve_all_def split_beta)
  then show ?case by blast
qed

lemma serve_all_ok: "users_ok (serve_all au xs [])"
  using serve_all_register [of au xs "[]"] registers_ok [OF users_start] by metis

section \<open>Properties\<close>

lemma serve_auth_token:
  assumes "serve_auth au su req users = (reply, users')" "rp_body reply = TokenBody token ttl"
  obtains email password u where "loginBody (aa_zod au) (body_json req) = Inr (email, password)" "users' = users"
    "verifyCredentials (aa_bcrypt au) email password users = (Inr u, users)"
    "token = signToken (aa_jose au) (aa_keys au) (aa_config au) (token_user_of u) (as_now su)"
    "ttl = tc_ttlSeconds (aa_config au)"
proof -
  obtain e r params where "answer_auth au su e req users = (reply, users')"
    using assms by (auto simp: serve_auth_def error_reply_def split: request_body.splits option.splits prod.splits)
  then have m: "e = Login" "mount AuthErrorBody (loginBody (aa_zod au) (body_json req)) (handle_login au su) users = (reply, users')"
    using assms(2)
    by (cases e; auto simp: answer_auth_def mount_def error_reply_def reply_ok_def handle_register_def handle_me_def op_bind_def
        split: sum.splits prod.splits)+
  obtain email password where b: "loginBody (aa_zod au) (body_json req) = Inr (email, password)"
    using m(2) assms(2) by (auto simp: mount_def error_reply_def split: sum.splits prod.splits)
  have h: "handle_login au su (email, password) users = (Inr reply, users')"
    using m(2) assms(2) b by (auto simp: mount_def error_reply_def split: sum.splits prod.splits)
  obtain u t where v: "verifyCredentials (aa_bcrypt au) email password users = (Inr u, t)"
    "reply = reply_ok 200 (TokenBody (signToken (aa_jose au) (aa_keys au) (aa_config au) (token_user_of u) (as_now su))
       (tc_ttlSeconds (aa_config au)))" "t = users'"
    using h by (auto simp: handle_login_def op_bind_Inr)
  have "t = users" using verifyCredentials_same [of "aa_bcrypt au" email password users] v(1) by simp
  then show ?thesis using that [OF b] v assms(2) by (simp add: reply_ok_def)
qed

text \<open>
  C34: a login works end to end. When the service, after any requests whatsoever, answers a login with a
  token, there is a registered employee with the address of the login whose password hash the given
  password matches; up to \<open>issued + expiresIn\<close> (and not an instant longer) the banking API admits the
  token to every guarded path as that employee, and \<open>/auth/me\<close> answers that employee's record,
  whatever requests the service has handled since.
\<close>

theorem login_opens_both_services:
  assumes law: "jose_law (aa_jose au)" and keys: "loadSigningKeys (aa_jose au) readFile entropy env = Inr (aa_keys au)"
    and login: "serve_auth au su req (serve_all au earlier []) = (reply, users)" "rp_body reply = TokenBody token ttl"
  shows "\<exists>u\<in>set users. (\<exists>email password. loginBody (aa_zod au) (body_json req) = Inr (email, password) \<and>
       us_email u = toLowerCase email \<and> bc_compare (aa_bcrypt au) password (us_passwordHash u)) \<and>
     (\<forall>now prefixes path. requireAuth (remote_verify (aa_jose au) (jwks_of (aa_keys au)) (tc_issuer (aa_config au))
         (tc_audience (aa_config au)) now) prefixes path (Some (BEARER @ token)) =
       (if public_path prefixes path then Inr None
        else if now < as_now su + ttl then Inr (Some (token_user_of u)) else Inl bad_token)) \<and>
     (\<forall>su' later. fst (handle_me au su' (BEARER @ token) (serve_all au later users)) =
       (if as_now su' < as_now su + ttl then Inr (reply_ok 200 (MeBody (us_id u) (us_email u) (us_name u)))
        else Inl bad_token))"
proof -
  let ?before = "serve_all au earlier []"
  obtain email password u where l: "loginBody (aa_zod au) (body_json req) = Inr (email, password)" "users = ?before"
    "verifyCredentials (aa_bcrypt au) email password ?before = (Inr u, ?before)"
    "token = signToken (aa_jose au) (aa_keys au) (aa_config au) (token_user_of u) (as_now su)"
    "ttl = tc_ttlSeconds (aa_config au)"
    by (rule serve_auth_token [OF login])
  have ok: "users_ok users" using serve_all_ok l(2) by simp
  have u: "find_email (toLowerCase email) users = Some u" "bc_compare (aa_bcrypt au) password (us_passwordHash u)"
    using l(2,3) by (auto simp: verifyCredentials_cases split: option.splits if_splits)
  then have mem: "u \<in> set users" "us_email u = toLowerCase email"
    using ok find_eq_Some_set [of "\<lambda>x. toLowerCase (us_email x) = toLowerCase email" users u]
    by (auto simp: find_email_def users_ok_def)
  note v = verify_issued [OF law loaded_keys [OF law keys], of "aa_config au" _ "aa_config au" "token_user_of u" "as_now su"]
  have guard: "requireAuth (remote_verify (aa_jose au) (jwks_of (aa_keys au)) (tc_issuer (aa_config au))
         (tc_audience (aa_config au)) now) prefixes path (Some (BEARER @ token)) =
       (if public_path prefixes path then Inr None
        else if now < as_now su + ttl then Inr (Some (token_user_of u)) else Inl bad_token)" for now prefixes path
    unfolding l(4,5) requireAuth_def by (simp add: v)
  have found: "user_getById (us_id u) (serve_all au later users) = (Inr u, serve_all au later users)" for later
  proof -
    obtain rs where rs: "serve_all au later users = fold (register_step (aa_bcrypt au)) rs users"
      using serve_all_register by blast
    have "users_ok (serve_all au later users)" using registers_ok [OF ok] rs by metis
    moreover have "u \<in> set (serve_all au later users)"
      using registers_append [of "aa_bcrypt au" rs users] rs mem(1) by auto
    ultimately have "find (\<lambda>x. us_id x = us_id u) (serve_all au later users) = Some u"
      using find_distinct [of us_id _ u] by (simp add: users_ok_def)
    then show ?thesis by (simp add: user_getById_def)
  qed
  have me: "fst (handle_me au su' (BEARER @ token) (serve_all au later users)) =
       (if as_now su' < as_now su + ttl then Inr (reply_ok 200 (MeBody (us_id u) (us_email u) (us_name u)))
        else Inl bad_token)" for su' later
  proof -
    have "verifyToken (aa_jose au) (aa_keys au) (aa_config au) (as_now su') (drop (length BEARER) (BEARER @ token)) =
      (if as_now su' < as_now su + ttl then Inr (token_user_of u) else Inl bad_token)"
      by (simp add: l(4,5) v)
    moreover have "tu_id (token_user_of u) = us_id u" by (simp add: token_user_of_def)
    ultimately show ?thesis
      unfolding handle_me_def by (simp only:) (simp add: found [of later] op_bind_def)
  qed
  show ?thesis using mem u(2) l(1) guard me by blast
qed

definition auth_error :: "auth_payload \<Rightarrow> bool" where
  "auth_error b \<longleftrightarrow> (\<exists>x. b = AuthErrorBody x)"

lemma auth_throws:
  "throws {409} (register bc salt i n input)" "throws {401} (verifyCredentials bc e p)" "throws {401} (user_getById i)"
  by (auto simp: throws_def register_cases Let_def ConflictError_def verifyCredentials_cases bad_credentials_def
      UnauthorizedError_def user_getById_def split: if_splits option.splits)

lemma handlers_reply:
  "replies auth_error {201, 400, 409} (handle_register au su input)"
  "replies auth_error {200, 400, 401} (handle_login au su c)"
  "replies auth_error {200, 400, 401} (handle_me au su h)"
  "replies auth_error {200} (op_return (reply_ok 200 AuthHealthBody))"
  "replies auth_error {200} (op_return (reply_ok 200 (JwksBody ks)))"
proof -
  show "replies auth_error {201, 400, 409} (handle_register au su input)"
    unfolding replies_def handle_register_def
    by (auto simp: op_bind_Inr reply_ok_def auth_error_def
        intro!: throws_bind throws_return throws_mono [OF auth_throws(1)])
  show "replies auth_error {200, 400, 401} (handle_login au su c)"
    unfolding replies_def handle_login_def
    by (auto simp: op_bind_Inr reply_ok_def auth_error_def
        intro!: throws_bind throws_return throws_mono [OF auth_throws(2)])
  show "replies auth_error {200, 400, 401} (handle_me au su h)"
  proof (cases "verifyToken (aa_jose au) (aa_keys au) (aa_config au) (as_now su) (drop (length BEARER) h)")
    case (Inl err)
    then have "err = bad_token" by (auto simp: verifyToken_def split: option.splits)
    then show ?thesis
      using Inl by (auto simp: replies_def handle_me_def throws_def bad_token_def UnauthorizedError_def)
  next
    case (Inr claims)
    then show ?thesis
      unfolding replies_def
      by (auto simp: handle_me_def op_bind_Inr reply_ok_def auth_error_def
          intro!: throws_bind throws_return throws_mono [OF auth_throws(3)])
  qed
qed (simp_all add: replies_def throws_def reply_ok_def auth_error_def)

text \<open>
  every route of the authentication service answers one of its documented statuses, 400 or 500, with
  the error envelope exactly from 400 up.
\<close>

theorem auth_replies_as_documented:
  assumes "find_route (aa_match au) req auth_app_routes = Some (e, rt, params)"
    and "rq_body req \<in> {NoBody, JsonBody v}"
  shows "rp_status (fst (serve_auth au su req users)) \<in> set (rt_responses rt) \<union> {400, 500} \<and>
    (auth_error (rp_body (fst (serve_auth au su req users))) \<longleftrightarrow> 400 \<le> rp_status (fst (serve_auth au su req users)))"
proof -
  obtain r t where r: "serve_auth au su req users = (r, t)" by fastforce
  then have a: "answer_auth au su e req users = (r, t)" using assms by (auto simp: serve_auth_def)
  have mem: "(e, rt) \<in> set auth_app_routes" using find_route_mem [OF assms(1)] by simp
  have mk: "auth_error (AuthErrorBody x)" for x by (simp add: auth_error_def)
  note m = mount_reply [of auth_error AuthErrorBody, OF mk]
  have "rp_status r \<in> set (rt_responses rt) \<union> {400, 500} \<and> (auth_error (rp_body r) \<longleftrightarrow> 400 \<le> rp_status r)"
  proof (cases e)
    case AuthHealth
    then show ?thesis using mem a
      by (auto simp: auth_app_routes_def authRoutes_def answer_auth_def dest!: m [OF handlers_reply(4)])
  next
    case Register
    then show ?thesis using mem a
      by (auto simp: auth_app_routes_def authRoutes_def answer_auth_def dest!: m [OF handlers_reply(1)])
  next
    case Login
    then show ?thesis using mem a
      by (auto simp: auth_app_routes_def authRoutes_def answer_auth_def dest!: m [OF handlers_reply(2)])
  next
    case Me
    then show ?thesis using mem a
      by (auto simp: auth_app_routes_def authRoutes_def answer_auth_def dest!: m [OF handlers_reply(3)])
  next
    case Jwks
    then show ?thesis using mem a
      by (auto simp: auth_app_routes_def authRoutes_def answer_auth_def dest!: m [OF handlers_reply(5)])
  qed
  then show ?thesis by (simp add: r)
qed

section \<open>Witnesses\<close>

definition sample_auth_app :: auth_app where
  "sample_auth_app = \<lparr>aa_zod = \<lparr>zd_uuid = (\<lambda>s. length s = 36), zd_email = (\<lambda>s. CHR ''@'' \<in> set s),
       zd_url = (\<lambda>s. True), zd_coerceNumber = (\<lambda>v. None), zd_message = (\<lambda>path v. ''Invalid input'')\<rparr>,
     aa_bcrypt = sample_bcrypt, aa_jose = toy_jose, aa_keys = sample_keys, aa_config = sample_config,
     aa_match = (\<lambda>pattern path. if path = pattern then Some [] else None)\<rparr>"

definition auth_moment :: auth_surroundings where
  "auth_moment = \<lparr>as_salt = [], as_id = ''u1'', as_nowMs = 1000000, as_now = 1000\<rparr>"

definition auth_request :: "string \<Rightarrow> (string \<times> json) list \<Rightarrow> http_request" where
  "auth_request path kvs = \<lparr>rq_method = Post, rq_path = path, rq_query = [], rq_headers = [], rq_body = JsonBody (JObj kvs)\<rparr>"

definition register_request :: http_request where
  "register_request = auth_request ''/auth/register''
     [(''email'', JStr ''Jane@bank.local''), (''password'', JStr ''super-secret-1''), (''name'', JStr ''Jane'')]"

definition login_request :: http_request where
  "login_request = auth_request ''/auth/login''
     [(''email'', JStr ''JANE@bank.local''), (''password'', JStr ''super-secret-1'')]"

definition jane_row :: user_row where
  "jane_row = \<lparr>us_id = ''u1'', us_email = ''jane@bank.local'', us_passwordHash = ''super-secret-1'', us_name = ''Jane'',
     us_createdAt = 1000000\<rparr>"

lemma auth_routes_found:
  "find_route (aa_match sample_auth_app) register_request auth_app_routes =
     Some (Register, \<lparr>rt_method = Post, rt_path = ''/auth/register'', rt_responses = [201, 400, 409]\<rparr>, [])"
  "find_route (aa_match sample_auth_app) login_request auth_app_routes =
     Some (Login, \<lparr>rt_method = Post, rt_path = ''/auth/login'', rt_responses = [200, 400, 401]\<rparr>, [])"
  by (simp_all add: auth_app_routes_def authRoutes_def register_request_def login_request_def auth_request_def
      sample_auth_app_def method_matches_def)

lemma jane_trimmed: "js_trim ''Jane'' = ''Jane''"
  by code_simp

lemma jane_registers: "serve_all sample_auth_app [(auth_moment, register_request)] [] = [jane_row]"
proof -
  have b: "registerBody (aa_zod sample_auth_app) (body_json register_request) =
      Inr \<lparr>ri_email = ''Jane@bank.local'', ri_password = ''super-secret-1'', ri_name = ''Jane''\<rparr>"
    by (simp add: registerBody_def z_object_def body_json_def register_request_def auth_request_def z_email_def z_string_def
        z_trimmed_def accept_def both_def sample_auth_app_def jane_trimmed Let_def)
  have q: "rq_body register_request = JsonBody (JObj
      [(''email'', JStr ''Jane@bank.local''), (''password'', JStr ''super-secret-1''), (''name'', JStr ''Jane'')])"
    by (simp add: register_request_def auth_request_def)
  show ?thesis
    by (simp add: serve_all_def serve_auth_def q auth_routes_found answer_auth_def snd_mount_auth b handle_register_def
        snd_op_bind_return)
      (simp add: register_cases sample_auth_app_def sample_bcrypt_def sample_bytes storable_def auth_moment_def sample_lower jane_row_def Let_def)
qed

lemma jane_logs_in:
  "\<exists>reply. serve_auth sample_auth_app auth_moment login_request (serve_all sample_auth_app [(auth_moment, register_request)] []) =
     (reply, [jane_row]) \<and>
     rp_body reply = TokenBody (signToken toy_jose sample_keys sample_config jane 1000) 3600"
proof -
  have b: "loginBody (aa_zod sample_auth_app) (body_json login_request) = Inr (''JANE@bank.local'', ''super-secret-1'')"
    by (simp add: loginBody_def z_object_def body_json_def login_request_def auth_request_def z_email_def z_string_def
        accept_def both_def sample_auth_app_def)
  have q: "rq_body login_request = JsonBody (JObj [(''email'', JStr ''JANE@bank.local''), (''password'', JStr ''super-secret-1'')])"
    by (simp add: login_request_def auth_request_def)
  have v: "verifyCredentials sample_bcrypt ''JANE@bank.local'' ''super-secret-1'' [jane_row] = (Inr jane_row, [jane_row])"
  proof -
    have low: "toLowerCase (us_email jane_row) = ''jane@bank.local''" by (simp add: jane_row_def) code_simp
    then show ?thesis
      by (simp add: verifyCredentials_cases find_email_def sample_lower sample_bcrypt_def sample_bytes storable_def) (simp add: jane_row_def)
  qed
  have t: "token_user_of jane_row = jane" by (simp add: token_user_of_def jane_row_def jane_def)
  have f: "aa_bcrypt sample_auth_app = sample_bcrypt" "aa_jose sample_auth_app = toy_jose"
    "aa_keys sample_auth_app = sample_keys" "aa_config sample_auth_app = sample_config" "as_now auth_moment = 1000"
    "tc_ttlSeconds sample_config = 3600"
    by (simp_all add: sample_auth_app_def auth_moment_def sample_config_def)
  show ?thesis
    by (simp add: jane_registers serve_auth_def q auth_routes_found answer_auth_def mount_def b handle_login_def f v t reply_ok_def)
qed

lemma sample_auth_laws:
  "jose_law (aa_jose sample_auth_app)"
  "loadSigningKeys (aa_jose sample_auth_app) (\<lambda>_. None) 0 sample_env = Inr (aa_keys sample_auth_app)"
  using toy_jose_law sample_loaded by (simp_all add: sample_auth_app_def)

theorem login_opens_both_services_witness:
  "\<exists>u\<in>set [jane_row]. fst (handle_me sample_auth_app (auth_moment\<lparr>as_now := 4599\<rparr>)
     (BEARER @ signToken toy_jose sample_keys sample_config jane 1000) [jane_row]) =
     Inr (reply_ok 200 (MeBody (us_id u) (us_email u) (us_name u)))"
proof -
  obtain reply where r: "serve_auth sample_auth_app auth_moment login_request
      (serve_all sample_auth_app [(auth_moment, register_request)] []) = (reply, [jane_row])"
      "rp_body reply = TokenBody (signToken toy_jose sample_keys sample_config jane 1000) 3600"
    using jane_logs_in by blast
  have none: "serve_all sample_auth_app [] [jane_row] = [jane_row]" by (simp add: serve_all_def)
  have "as_now (auth_moment\<lparr>as_now := 4599\<rparr>) < as_now auth_moment + 3600" by (simp add: auth_moment_def)
  then show ?thesis using login_opens_both_services [OF sample_auth_laws r] none by metis
qed

theorem auth_replies_as_documented_witness:
  "rp_status (fst (serve_auth sample_auth_app auth_moment login_request [])) \<in> {200, 400, 401, 500}"
proof -
  have "rq_body login_request \<in> {NoBody, JsonBody (JObj [(''email'', JStr ''JANE@bank.local''), (''password'', JStr ''super-secret-1'')])}"
    by (simp add: login_request_def auth_request_def)
  from auth_replies_as_documented [OF auth_routes_found(2) this, of auth_moment "[]"] show ?thesis by auto
qed

end
