(* ===== verification/Env.thy ===== *)
theory Env
  imports Consumers Auth_Api
begin

text \<open>
  The environment of the five processes: \<open>env.ts\<close> of \<open>apps/app-apis\<close>, \<open>auth-api\<close>, \<open>executor\<close>,
  \<open>telemetry-ingest\<close> and \<open>telemetry-consumers\<close>, and the parts of their \<open>main.ts\<close> that hand it to the
  components. All issues of one variable are one entry of the list of issues.
\<close>

section \<open>Variables\<close>

text \<open>\<open>z.enum(...).default(...)\<close>, \<open>z.string()\<close>, \<open>z.string().min(1)\<close>, \<open>z.url()\<close> and positive integers.\<close>

definition z_enum :: "string list \<Rightarrow> string schema" where
  "z_enum options zd = accept (\<lambda>v. case v of Some (JStr s) \<Rightarrow> if s \<in> set options then Some s else None | _ \<Rightarrow> None) zd"

definition z_text :: "string schema" where
  "z_text zd = accept (\<lambda>v. case v of Some (JStr s) \<Rightarrow> Some s | _ \<Rightarrow> None) zd"

definition z_required :: "string schema" where
  "z_required zd = accept (\<lambda>v. case v of Some (JStr s) \<Rightarrow> if length s \<ge> 1 then Some s else None | _ \<Rightarrow> None) zd"

definition z_url :: "string schema" where
  "z_url zd = accept (\<lambda>v. case v of Some (JStr s) \<Rightarrow> if zd_url zd s then Some s else None | _ \<Rightarrow> None) zd"

definition z_positive :: "int \<Rightarrow> int schema" where
  "z_positive d = z_default d (z_coerceInt 1 MAX_SAFE_INTEGER)"

definition z_NODE_ENV :: "string schema" where
  "z_NODE_ENV = z_default ''development'' (z_enum [''development'', ''test'', ''production''])"

definition z_LOG_LEVEL :: "string schema" where
  "z_LOG_LEVEL = z_default ''info'' (z_enum [''fatal'', ''error'', ''warn'', ''info'', ''debug'', ''trace'', ''silent''])"

text \<open>\<open>.default('').transform(...)\<close>: a comma-separated list.\<close>

definition z_list :: "string list schema" where
  "z_list zd path v = bindE (z_default [] z_text zd path v) (\<lambda>value. Inr (comma_list value))"

fun join_with :: "string \<Rightarrow> string list \<Rightarrow> string" where
  "join_with sep [] = []"
| "join_with sep [s] = s"
| "join_with sep (s # ss) = s @ sep @ join_with sep ss"

definition z_CONSUMERS :: "string list schema" where
  "z_CONSUMERS zd path v = bindE (z_default ''all'' z_text zd path v) (\<lambda>value.
     case parse_CONSUMERS value of
       Inl unknown \<Rightarrow> Inl [(path, ''unknown consumer(s) '' @ join_with '', '' unknown @ ''; expected any of '' @
           join_with '', '' (map fst consumerNames) @ '' or \"all\"'')]
     | Inr names \<Rightarrow> Inr names)"

text \<open>\<open>loadEnv\<close>: the parsed environment, or one message with a line for each issue.\<close>

definition issue_line :: "string \<times> string \<Rightarrow> string" where
  "issue_line i = ''  '' @ fst i @ '': '' @ snd i"

definition load_env :: "issues + 'e \<Rightarrow> string + 'e" where
  "load_env parsed = (case parsed of
       Inl issues \<Rightarrow> Inl (''Invalid environment configuration:'' @ [CHR 0x0A] @ join_with [CHR 0x0A] (map issue_line issues))
     | Inr env \<Rightarrow> Inr env)"

section \<open>The five environments\<close>

record bank_env =
  be_NODE_ENV :: string
  be_PORT :: int
  be_LOG_LEVEL :: string
  be_DATABASE_URL :: string
  be_REDIS_URL :: string
  be_AUTH_JWKS_URL :: string
  be_AUTH_ISSUER :: string
  be_AUTH_AUDIENCE :: string
  be_CORS_ALLOWED_ORIGINS :: "string list"
  be_DOCS_MERGE_SPEC_URLS :: "string list"

definition bank_envSchema :: "zod \<Rightarrow> (string \<Rightarrow> string option) \<Rightarrow> issues + bank_env" where
  "bank_envSchema zd source = (let src = (\<lambda>k. map_option JStr (source k)) in bindE
     (both (z_NODE_ENV zd ''NODE_ENV'' (src ''NODE_ENV''))
     (both (z_positive 3000 zd ''PORT'' (src ''PORT''))
     (both (z_LOG_LEVEL zd ''LOG_LEVEL'' (src ''LOG_LEVEL''))
     (both (z_required zd ''DATABASE_URL'' (src ''DATABASE_URL''))
     (both (z_required zd ''REDIS_URL'' (src ''REDIS_URL''))
     (both (z_url zd ''AUTH_JWKS_URL'' (src ''AUTH_JWKS_URL''))
     (both (z_default ''bank-auth'' z_text zd ''AUTH_ISSUER'' (src ''AUTH_ISSUER''))
     (both (z_default ''bank-internal-api'' z_text zd ''AUTH_AUDIENCE'' (src ''AUTH_AUDIENCE''))
     (both (z_list zd ''CORS_ALLOWED_ORIGINS'' (src ''CORS_ALLOWED_ORIGINS''))
      (z_list zd ''DOCS_MERGE_SPEC_URLS'' (src ''DOCS_MERGE_SPEC_URLS'')))))))))))
     (\<lambda>(node_env, port, log_level, database_url, redis_url, auth_jwks_url, auth_issuer, auth_audience, cors_allowed_origins, docs_merge_spec_urls). Inr
       \<lparr>be_NODE_ENV = node_env,
        be_PORT = port,
        be_LOG_LEVEL = log_level,
        be_DATABASE_URL = database_url,
        be_REDIS_URL = redis_url,
        be_AUTH_JWKS_URL = auth_jwks_url,
        be_AUTH_ISSUER = auth_issuer,
        be_AUTH_AUDIENCE = auth_audience,
        be_CORS_ALLOWED_ORIGINS = cors_allowed_origins,
        be_DOCS_MERGE_SPEC_URLS = docs_merge_spec_urls\<rparr>))"

definition bank_loadEnv :: "zod \<Rightarrow> (string \<Rightarrow> string option) \<Rightarrow> string + bank_env" where
  "bank_loadEnv zd source = load_env (bank_envSchema zd source)"

record auth_env =
  ae_NODE_ENV :: string
  ae_PORT :: int
  ae_LOG_LEVEL :: string
  ae_DATABASE_URL :: string
  ae_JWT_PRIVATE_KEY_FILE :: "string option"
  ae_JWT_PRIVATE_KEY :: "string option"
  ae_JWT_ISSUER :: string
  ae_JWT_AUDIENCE :: string
  ae_JWT_TTL_SECONDS :: int
  ae_CORS_ALLOWED_ORIGINS :: "string list"

definition auth_envSchema :: "zod \<Rightarrow> (string \<Rightarrow> string option) \<Rightarrow> issues + auth_env" where
  "auth_envSchema zd source = (let src = (\<lambda>k. map_option JStr (source k)) in bindE
     (both (z_NODE_ENV zd ''NODE_ENV'' (src ''NODE_ENV''))
     (both (z_positive 3001 zd ''PORT'' (src ''PORT''))
     (both (z_LOG_LEVEL zd ''LOG_LEVEL'' (src ''LOG_LEVEL''))
     (both (z_required zd ''DATABASE_URL'' (src ''DATABASE_URL''))
     (both (z_optional z_text zd ''JWT_PRIVATE_KEY_FILE'' (src ''JWT_PRIVATE_KEY_FILE''))
     (both (z_optional z_text zd ''JWT_PRIVATE_KEY'' (src ''JWT_PRIVATE_KEY''))
     (both (z_default ''bank-auth'' z_text zd ''JWT_ISSUER'' (src ''JWT_ISSUER''))
     (both (z_default ''bank-internal-api'' z_text zd ''JWT_AUDIENCE'' (src ''JWT_AUDIENCE''))
     (both (z_positive 3600 zd ''JWT_TTL_SECONDS'' (src ''JWT_TTL_SECONDS''))
      (z_list zd ''CORS_ALLOWED_ORIGINS'' (src ''CORS_ALLOWED_ORIGINS'')))))))))))
     (\<lambda>(node_env, port, log_level, database_url, jwt_private_key_file, jwt_private_key, jwt_issuer, jwt_audience, jwt_ttl_seconds, cors_allowed_origins). Inr
       \<lparr>ae_NODE_ENV = node_env,
        ae_PORT = port,
        ae_LOG_LEVEL = log_level,
        ae_DATABASE_URL = database_url,
        ae_JWT_PRIVATE_KEY_FILE = jwt_private_key_file,
        ae_JWT_PRIVATE_KEY = jwt_private_key,
        ae_JWT_ISSUER = jwt_issuer,
        ae_JWT_AUDIENCE = jwt_audience,
        ae_JWT_TTL_SECONDS = jwt_ttl_seconds,
        ae_CORS_ALLOWED_ORIGINS = cors_allowed_origins\<rparr>))"

definition auth_loadEnv :: "zod \<Rightarrow> (string \<Rightarrow> string option) \<Rightarrow> string + auth_env" where
  "auth_loadEnv zd source = load_env (auth_envSchema zd source)"

record executor_env =
  xe_NODE_ENV :: string
  xe_PORT :: int
  xe_LOG_LEVEL :: string
  xe_DATABASE_URL :: string
  xe_REDIS_URL :: string

definition executor_envSchema :: "zod \<Rightarrow> (string \<Rightarrow> string option) \<Rightarrow> issues + executor_env" where
  "executor_envSchema zd source = (let src = (\<lambda>k. map_option JStr (source k)) in bindE
     (both (z_NODE_ENV zd ''NODE_ENV'' (src ''NODE_ENV''))
     (both (z_positive 3002 zd ''PORT'' (src ''PORT''))
     (both (z_LOG_LEVEL zd ''LOG_LEVEL'' (src ''LOG_LEVEL''))
     (both (z_required zd ''DATABASE_URL'' (src ''DATABASE_URL''))
      (z_required zd ''REDIS_URL'' (src ''REDIS_URL''))))))
     (\<lambda>(node_env, port, log_level, database_url, redis_url). Inr
       \<lparr>xe_NODE_ENV = node_env,
        xe_PORT = port,
        xe_LOG_LEVEL = log_level,
        xe_DATABASE_URL = database_url,
        xe_REDIS_URL = redis_url\<rparr>))"

definition executor_loadEnv :: "zod \<Rightarrow> (string \<Rightarrow> string option) \<Rightarrow> string + executor_env" where
  "executor_loadEnv zd source = load_env (executor_envSchema zd source)"

record ingest_env =
  ie_NODE_ENV :: string
  ie_PORT :: int
  ie_TCP_PORT :: int
  ie_LOG_LEVEL :: string
  ie_KAFKA_BROKERS :: string
  ie_KAFKA_CLIENT_ID :: string
  ie_IDLE_TIMEOUT_MS :: int
  ie_BACKFILL_THRESHOLD_MS :: int

definition ingest_envSchema :: "zod \<Rightarrow> (string \<Rightarrow> string option) \<Rightarrow> issues + ingest_env" where
  "ingest_envSchema zd source = (let src = (\<lambda>k. map_option JStr (source k)) in bindE
     (both (z_NODE_ENV zd ''NODE_ENV'' (src ''NODE_ENV''))
     (both (z_positive 3003 zd ''PORT'' (src ''PORT''))
     (both (z_positive 5027 zd ''TCP_PORT'' (src ''TCP_PORT''))
     (both (z_LOG_LEVEL zd ''LOG_LEVEL'' (src ''LOG_LEVEL''))
     (both (z_required zd ''KAFKA_BROKERS'' (src ''KAFKA_BROKERS''))
     (both (z_default ''telemetry-ingest'' z_required zd ''KAFKA_CLIENT_ID'' (src ''KAFKA_CLIENT_ID''))
     (both (z_positive 300000 zd ''IDLE_TIMEOUT_MS'' (src ''IDLE_TIMEOUT_MS''))
      (z_positive 300000 zd ''BACKFILL_THRESHOLD_MS'' (src ''BACKFILL_THRESHOLD_MS'')))))))))
     (\<lambda>(node_env, port, tcp_port, log_level, kafka_brokers, kafka_client_id, idle_timeout_ms, backfill_threshold_ms). Inr
       \<lparr>ie_NODE_ENV = node_env,
        ie_PORT = port,
        ie_TCP_PORT = tcp_port,
        ie_LOG_LEVEL = log_level,
        ie_KAFKA_BROKERS = kafka_brokers,
        ie_KAFKA_CLIENT_ID = kafka_client_id,
        ie_IDLE_TIMEOUT_MS = idle_timeout_ms,
        ie_BACKFILL_THRESHOLD_MS = backfill_threshold_ms\<rparr>))"

definition ingest_loadEnv :: "zod \<Rightarrow> (string \<Rightarrow> string option) \<Rightarrow> string + ingest_env" where
  "ingest_loadEnv zd source = load_env (ingest_envSchema zd source)"

record consumers_env =
  ce_NODE_ENV :: string
  ce_PORT :: int
  ce_LOG_LEVEL :: string
  ce_TELEMETRY_DATABASE_URL :: string
  ce_KAFKA_BROKERS :: string
  ce_KAFKA_CLIENT_ID :: string
  ce_CONSUMERS :: "string list"
  ce_LOW_FUEL_PCT :: int
  ce_SPEED_LIMIT_KPH :: int
  ce_ALERT_COOLDOWN_MS :: int
  ce_ALERT_MAX_AGE_MS :: int
  ce_GEOFENCE_REFRESH_MS :: int

definition consumers_envSchema :: "zod \<Rightarrow> (string \<Rightarrow> string option) \<Rightarrow> issues + consumers_env" where
  "consumers_envSchema zd source = (let src = (\<lambda>k. map_option JStr (source k)) in bindE
     (both (z_NODE_ENV zd ''NODE_ENV'' (src ''NODE_ENV''))
     (both (z_positive 3004 zd ''PORT'' (src ''PORT''))
     (both (z_LOG_LEVEL zd ''LOG_LEVEL'' (src ''LOG_LEVEL''))
     (both (z_required zd ''TELEMETRY_DATABASE_URL'' (src ''TELEMETRY_DATABASE_URL''))
     (both (z_required zd ''KAFKA_BROKERS'' (src ''KAFKA_BROKERS''))
     (both (z_default ''telemetry-consumers'' z_required zd ''KAFKA_CLIENT_ID'' (src ''KAFKA_CLIENT_ID''))
     (both (z_CONSUMERS zd ''CONSUMERS'' (src ''CONSUMERS''))
     (both (z_default 15 (z_coerceInt 0 100) zd ''LOW_FUEL_PCT'' (src ''LOW_FUEL_PCT''))
     (both (z_positive 90 zd ''SPEED_LIMIT_KPH'' (src ''SPEED_LIMIT_KPH''))
     (both (z_positive 900000 zd ''ALERT_COOLDOWN_MS'' (src ''ALERT_COOLDOWN_MS''))
     (both (z_positive 600000 zd ''ALERT_MAX_AGE_MS'' (src ''ALERT_MAX_AGE_MS''))
      (z_positive 60000 zd ''GEOFENCE_REFRESH_MS'' (src ''GEOFENCE_REFRESH_MS'')))))))))))))
     (\<lambda>(node_env, port, log_level, telemetry_database_url, kafka_brokers, kafka_client_id, consumers, low_fuel_pct, speed_limit_kph, alert_cooldown_ms, alert_max_age_ms, geofence_refresh_ms). Inr
       \<lparr>ce_NODE_ENV = node_env,
        ce_PORT = port,
        ce_LOG_LEVEL = log_level,
        ce_TELEMETRY_DATABASE_URL = telemetry_database_url,
        ce_KAFKA_BROKERS = kafka_brokers,
        ce_KAFKA_CLIENT_ID = kafka_client_id,
        ce_CONSUMERS = consumers,
        ce_LOW_FUEL_PCT = low_fuel_pct,
        ce_SPEED_LIMIT_KPH = speed_limit_kph,
        ce_ALERT_COOLDOWN_MS = alert_cooldown_ms,
        ce_ALERT_MAX_AGE_MS = alert_max_age_ms,
        ce_GEOFENCE_REFRESH_MS = geofence_refresh_ms\<rparr>))"

definition consumers_loadEnv :: "zod \<Rightarrow> (string \<Rightarrow> string option) \<Rightarrow> string + consumers_env" where
  "consumers_loadEnv zd source = load_env (consumers_envSchema zd source)"

section \<open>What the processes make of them\<close>

text \<open>\<open>apps/auth-api/src/main.ts\<close>: the key material and the token settings.\<close>

definition auth_key_env :: "auth_env \<Rightarrow> key_env" where
  "auth_key_env env = \<lparr>ke_NODE_ENV = ae_NODE_ENV env, ke_JWT_PRIVATE_KEY_FILE = ae_JWT_PRIVATE_KEY_FILE env,
     ke_JWT_PRIVATE_KEY = ae_JWT_PRIVATE_KEY env\<rparr>"

definition auth_token_config :: "auth_env \<Rightarrow> token_config" where
  "auth_token_config env = \<lparr>tc_issuer = ae_JWT_ISSUER env, tc_audience = ae_JWT_AUDIENCE env,
     tc_ttlSeconds = ae_JWT_TTL_SECONDS env\<rparr>"

text \<open>\<open>apps/app-apis/src/main.ts\<close>: the verifier, with the key set it has fetched.\<close>

definition bank_verifier :: "jose \<Rightarrow> jwk list \<Rightarrow> bank_env \<Rightarrow> int \<Rightarrow> string \<Rightarrow> thrown + token_user" where
  "bank_verifier jo jwks env = remote_verify jo jwks (be_AUTH_ISSUER env) (be_AUTH_AUDIENCE env)"

text \<open>\<open>apps/telemetry-consumers/src/main.ts\<close>: the alerting settings.\<close>

definition alerting_settings :: "consumers_env \<Rightarrow> alerting_config" where
  "alerting_settings env = \<lparr>ag_lowFuelPct = ce_LOW_FUEL_PCT env, ag_speedLimitKph = ce_SPEED_LIMIT_KPH env,
     ag_cooldownMs = ce_ALERT_COOLDOWN_MS env, ag_maxAgeMs = ce_ALERT_MAX_AGE_MS env,
     ag_geofenceRefreshMs = ce_GEOFENCE_REFRESH_MS env\<rparr>"


section \<open>What an accepted environment is\<close>

lemma z_positive_Inr: "z_positive d zd path v = Inr n \<Longrightarrow> 1 \<le> d \<Longrightarrow> 1 \<le> n"
  by (auto simp: z_positive_def z_default_def split: if_splits dest: z_coerceInt_Inr)

lemma loaded: "load_env r = Inr e \<longleftrightarrow> r = Inr e"
  by (simp add: load_env_def split: sum.splits)

lemma auth_loaded:
  assumes "auth_loadEnv zd source = Inr e"
  shows "z_default ''bank-auth'' z_text zd ''JWT_ISSUER'' (map_option JStr (source ''JWT_ISSUER'')) = Inr (ae_JWT_ISSUER e)"
    and "z_default ''bank-internal-api'' z_text zd ''JWT_AUDIENCE'' (map_option JStr (source ''JWT_AUDIENCE'')) = Inr (ae_JWT_AUDIENCE e)"
    and "1 \<le> ae_JWT_TTL_SECONDS e"
  using assms unfolding auth_loadEnv_def loaded auth_envSchema_def
  by (auto simp: bindE_eq_Inr both_Inr split_beta dest: z_positive_Inr)

lemma bank_loaded:
  assumes "bank_loadEnv zd source = Inr e"
  shows "z_default ''bank-auth'' z_text zd ''AUTH_ISSUER'' (map_option JStr (source ''AUTH_ISSUER'')) = Inr (be_AUTH_ISSUER e)"
    and "z_default ''bank-internal-api'' z_text zd ''AUTH_AUDIENCE'' (map_option JStr (source ''AUTH_AUDIENCE'')) = Inr (be_AUTH_AUDIENCE e)"
  using assms unfolding bank_loadEnv_def loaded bank_envSchema_def
  by (auto simp: bindE_eq_Inr both_Inr split_beta)

lemma text_path: "z_default d z_text zd p v = Inr s \<Longrightarrow> z_default d z_text zd q v = Inr t \<Longrightarrow> s = t"
  by (auto simp: z_default_def z_text_def accept_Inr split: if_splits)

text \<open>The bounds the other components' parameters have.\<close>

lemma consumers_loaded_bounds:
  assumes "consumers_loadEnv zd source = Inr e"
  shows "0 \<le> ag_lowFuelPct (alerting_settings e) \<and> ag_lowFuelPct (alerting_settings e) \<le> 100 \<and>
    1 \<le> ag_speedLimitKph (alerting_settings e) \<and> 1 \<le> ag_cooldownMs (alerting_settings e) \<and>
    1 \<le> ag_maxAgeMs (alerting_settings e) \<and> 1 \<le> ag_geofenceRefreshMs (alerting_settings e)"
  using assms unfolding consumers_loadEnv_def loaded consumers_envSchema_def
  by (auto simp: bindE_eq_Inr both_Inr split_beta alerting_settings_def z_default_def
      dest: z_positive_Inr z_coerceInt_Inr split: if_splits)

section \<open>Properties\<close>

text \<open>
  C36: the two APIs fit together as configured. When the issuer and audience variables of both environments
  agree (both unset counts: the defaults are the same), every environment they accept makes the banking
  API admit exactly the unexpired tokens the authentication API signs, as the user they were issued to,
  and tokens live for at least a second.
\<close>

theorem services_agree_on_tokens:
  assumes "auth_loadEnv zd auth_source = Inr ae" "bank_loadEnv zd bank_source = Inr be"
    and "auth_source ''JWT_ISSUER'' = bank_source ''AUTH_ISSUER''" "auth_source ''JWT_AUDIENCE'' = bank_source ''AUTH_AUDIENCE''"
    and "jose_law jo" "loadSigningKeys jo readFile entropy (auth_key_env ae) = Inr keys"
  shows "bank_verifier jo (jwks_of keys) be now (signToken jo keys (auth_token_config ae) user issued) =
      (if now < issued + ae_JWT_TTL_SECONDS ae then Inr user else Inl bad_token) \<and>
    1 \<le> ae_JWT_TTL_SECONDS ae"
proof -
  have i: "be_AUTH_ISSUER be = ae_JWT_ISSUER ae"
    by (rule text_path [OF bank_loaded(1) [OF assms(2)]]) (use auth_loaded(1) [OF assms(1)] assms(3) in simp)
  have a: "be_AUTH_AUDIENCE be = ae_JWT_AUDIENCE ae"
    by (rule text_path [OF bank_loaded(2) [OF assms(2)]]) (use auth_loaded(2) [OF assms(1)] assms(4) in simp)
  note v = verify_issued [OF assms(5) loaded_keys [OF assms(5,6)], of "auth_token_config ae" now "auth_token_config ae" user issued]
  have "remote_verify jo (jwks_of keys) (tc_issuer (auth_token_config ae)) (tc_audience (auth_token_config ae)) now
      (signToken jo keys (auth_token_config ae) user issued) =
      (if now < issued + tc_ttlSeconds (auth_token_config ae) then Inr user else Inl bad_token)"
    using v by simp
  then show ?thesis using auth_loaded(3) [OF assms(1)] by (simp add: bank_verifier_def auth_token_config_def i a)
qed

section \<open>Witnesses\<close>

definition plain_zod :: zod where
  "plain_zod = \<lparr>zd_uuid = (\<lambda>s. True), zd_email = (\<lambda>s. True), zd_url = (\<lambda>s. s \<noteq> []), zd_coerceNumber = (\<lambda>v. None),
     zd_message = (\<lambda>path v. ''Invalid input'')\<rparr>"

definition minimal_auth :: "string \<Rightarrow> string option" where
  "minimal_auth = [''DATABASE_URL'' \<mapsto> ''postgres://bank'', ''JWT_PRIVATE_KEY'' \<mapsto> ''pem'']"

definition minimal_bank :: "string \<Rightarrow> string option" where
  "minimal_bank = [''DATABASE_URL'' \<mapsto> ''postgres://bank'', ''REDIS_URL'' \<mapsto> ''redis://queue'',
     ''AUTH_JWKS_URL'' \<mapsto> ''http://auth/.well-known/jwks.json'']"

lemma minimal_auth_loads:
  "\<exists>ae. auth_loadEnv plain_zod minimal_auth = Inr ae \<and> loadSigningKeys toy_jose (\<lambda>_. None) 0 (auth_key_env ae) = Inr sample_keys \<and>
     ae_JWT_TTL_SECONDS ae = 3600"
  by (simp add: auth_loadEnv_def loaded auth_envSchema_def minimal_auth_def plain_zod_def z_NODE_ENV_def z_LOG_LEVEL_def
      z_positive_def z_default_def z_required_def z_optional_def z_text_def z_list_def accept_def both_def auth_key_env_def
      loadSigningKeys_def read_pem_def given_def sample_keys_def toy_jose_def Let_def)

lemma minimal_bank_loads: "\<exists>be. bank_loadEnv plain_zod minimal_bank = Inr be"
  by (simp add: bank_loadEnv_def loaded bank_envSchema_def minimal_bank_def plain_zod_def z_NODE_ENV_def z_LOG_LEVEL_def
      z_positive_def z_default_def z_required_def z_url_def z_text_def z_list_def accept_def both_def Let_def)

theorem services_agree_on_tokens_witness:
  "\<exists>ae be. auth_loadEnv plain_zod minimal_auth = Inr ae \<and> bank_loadEnv plain_zod minimal_bank = Inr be \<and>
     bank_verifier toy_jose (jwks_of sample_keys) be 4599 (signToken toy_jose sample_keys (auth_token_config ae) jane 1000) = Inr jane \<and>
     bank_verifier toy_jose (jwks_of sample_keys) be 4600 (signToken toy_jose sample_keys (auth_token_config ae) jane 1000) = Inl bad_token"
proof -
  obtain ae where ae: "auth_loadEnv plain_zod minimal_auth = Inr ae"
    "loadSigningKeys toy_jose (\<lambda>_. None) 0 (auth_key_env ae) = Inr sample_keys" "ae_JWT_TTL_SECONDS ae = 3600"
    using minimal_auth_loads by blast
  obtain be where be: "bank_loadEnv plain_zod minimal_bank = Inr be" using minimal_bank_loads by blast
  have unset: "minimal_auth ''JWT_ISSUER'' = minimal_bank ''AUTH_ISSUER''" "minimal_auth ''JWT_AUDIENCE'' = minimal_bank ''AUTH_AUDIENCE''"
    by (simp_all add: minimal_auth_def minimal_bank_def)
  have "bank_verifier toy_jose (jwks_of sample_keys) be now (signToken toy_jose sample_keys (auth_token_config ae) jane 1000) =
      (if now < 4600 then Inr jane else Inl bad_token)" for now
    using services_agree_on_tokens [OF ae(1) be unset toy_jose_law ae(2), of now jane 1000] ae(3) by simp
  then show ?thesis using ae(1) be by auto
qed

end
