(* ===== verification/Ingest.thy ===== *)
theory Ingest
  imports Events Wire_Roundtrip
begin

text \<open>
  \<open>apps/telemetry-ingest/src/server.ts\<close>: one device connection. The socket's \<open>'data'\<close> events are
  handled one at a time (the socket is paused meanwhile); each produces effects in order: writes
  to the device, publish attempts with their outcome, destroying the socket. A throw outside the
  \<open>try\<close> rejects \<open>handleChunk\<close>'s promise, which nobody handles: Node ends the process.
\<close>

section \<open>The connection handler\<close>

datatype effect =
    WriteBytes bytes
  | PublishOk "telemetry_event list"
  | PublishFailed "telemetry_event list"
  | Destroyed string
  | ProcessCrash js_error

text \<open>\<open>publishes\<close> counts publish attempts; \<open>ok n\<close> says whether the n-th one resolves.\<close>

record connection =
  cn_framer :: framer
  cn_imei :: "string option"
  cn_destroyed :: bool
  cn_crashed :: bool
  cn_publishes :: nat

definition new_connection :: connection where
  "new_connection = \<lparr>cn_framer = new_framer None, cn_imei = None, cn_destroyed = False,
     cn_crashed = False, cn_publishes = 0\<rparr>"

definition drop_connection :: "string \<Rightarrow> connection \<Rightarrow> effect list \<times> connection" where
  "drop_connection reason c = ([Destroyed reason], c\<lparr>cn_destroyed := True\<rparr>)"

definition handlePacket :: "(nat \<Rightarrow> bool) \<Rightarrow> int \<Rightarrow> avl_packet \<Rightarrow> connection \<Rightarrow> effect list \<times> connection" where
  "handlePacket ok now packet c = (case cn_imei c of
       None \<Rightarrow> drop_connection ''packet-before-handshake'' c
     | Some imei \<Rightarrow> (case packet of
         CrcBad declared computed \<Rightarrow> ([WriteBytes (buildRecordAck 0)], c)
       | CrcOk codec records \<Rightarrow> (case buildTelemetryEvents imei codec records now of
           Inl e \<Rightarrow> ([ProcessCrash e], c\<lparr>cn_crashed := True\<rparr>)
         | Inr events \<Rightarrow> (let c' = c\<lparr>cn_publishes := cn_publishes c + 1\<rparr> in
             if \<not> ok (cn_publishes c)
             then ([PublishFailed events, Destroyed ''publish failed''], c'\<lparr>cn_destroyed := True\<rparr>)
             else ([PublishOk events, WriteBytes (buildRecordAck (length records))], c')))))"

fun reason_string :: "framer_error_reason \<Rightarrow> string" where
  "reason_string InvalidImei = ''invalid-imei''"
| "reason_string BadPreamble = ''bad-preamble''"
| "reason_string FrameTooLarge = ''frame-too-large''"
| "reason_string ParseError = ''parse-error''"

definition handleEvent :: "(nat \<Rightarrow> bool) \<Rightarrow> int \<Rightarrow> framer_event \<Rightarrow> connection \<Rightarrow> effect list \<times> connection" where
  "handleEvent ok now e c = (case e of
       EvImei imei \<Rightarrow> ([WriteBytes (buildImeiAck True)], c\<lparr>cn_imei := Some imei\<rparr>)
     | EvPacket packet \<Rightarrow> handlePacket ok now packet c
     | EvError reason _ \<Rightarrow>
         (case drop_connection (reason_string reason) c of (es, c') \<Rightarrow>
           ((if reason = InvalidImei then [WriteBytes (buildImeiAck False)] else []) @ es, c')))"

text \<open>The \<open>for ... of\<close> loop: a destroyed socket or a throw ends it.\<close>

fun handle_events :: "(nat \<Rightarrow> bool) \<Rightarrow> int \<Rightarrow> framer_event list \<Rightarrow> connection \<Rightarrow> effect list \<times> connection" where
  "handle_events ok now [] c = ([], c)"
| "handle_events ok now (e # es) c =
     (if cn_destroyed c \<or> cn_crashed c then ([], c)
      else case handleEvent ok now e c of (xs, c') \<Rightarrow>
        (case handle_events ok now es c' of (ys, c'') \<Rightarrow> (xs @ ys, c'')))"

definition handleChunk :: "(nat \<Rightarrow> bool) \<Rightarrow> int \<Rightarrow> bytes \<Rightarrow> connection \<Rightarrow> effect list \<times> connection" where
  "handleChunk ok now chunk c = (case framer_push (cn_framer c) chunk of (es, f) \<Rightarrow>
     handle_events ok now es (c\<lparr>cn_framer := f\<rparr>))"

text \<open>The life of a connection: chunks with the arrival clock, until the socket or the process is gone.\<close>

fun serve :: "(nat \<Rightarrow> bool) \<Rightarrow> (int \<times> bytes) list \<Rightarrow> connection \<Rightarrow> effect list \<times> connection" where
  "serve ok [] c = ([], c)"
| "serve ok ((now, chunk) # rest) c =
     (if cn_destroyed c \<or> cn_crashed c then ([], c)
      else case handleChunk ok now chunk c of (xs, c') \<Rightarrow>
        (case serve ok rest c' of (ys, c'') \<Rightarrow> (xs @ ys, c'')))"

section \<open>Acknowledgements\<close>

text \<open>
  The contract with the device: a four-byte acknowledgement of \<open>n > 0\<close> records directly follows a
  publish that resolved and carried exactly \<open>n\<close> events.
\<close>

fun acks_published :: "effect option \<Rightarrow> effect list \<Rightarrow> bool" where
  "acks_published prev [] = True"
| "acks_published prev (x # xs) =
     ((case x of
         WriteBytes bs \<Rightarrow> length bs = 4 \<and> 0 < be_nat bs \<longrightarrow>
           (case prev of Some (PublishOk evs) \<Rightarrow> length evs = be_nat bs | _ \<Rightarrow> False)
       | _ \<Rightarrow> True) \<and> acks_published (Some x) xs)"

definition last_effect :: "effect option \<Rightarrow> effect list \<Rightarrow> effect option" where
  "last_effect prev xs = (if xs = [] then prev else Some (last xs))"

lemma acks_published_append:
  "acks_published prev (xs @ ys) \<longleftrightarrow> acks_published prev xs \<and> acks_published (last_effect prev xs) ys"
  by (induction xs arbitrary: prev) (auto simp: last_effect_def)

text \<open>Every decoded packet has at most 255 records, so the count fits the acknowledgement.\<close>

lemma read_n_length: "read_n n r c = Inr (xs, c') \<Longrightarrow> length xs = n"
  by (induction n arbitrary: c xs c') (auto simp: rreturn_def rbind_def bindE_eq_Inr)

lemma cur_uint_bound: "cur_uint n f c = Inr (x, c') \<Longrightarrow> x < 256 ^ n"
proof -
  assume "cur_uint n f c = Inr (x, c')"
  then obtain a where x: "x = be_nat (subarray (cur_buf c') a (a + n))"
    by (auto simp: cur_uint_def bindE_eq_Inr)
  define bs where "bs = subarray (cur_buf c') a (a + n)"
  have bs: "x = be_nat bs" "length bs \<le> n" by (simp_all add: x bs_def subarray_def)
  have "be_nat bs < 256 ^ length bs" by (rule be_nat_bound)
  also have "(256::nat) ^ length bs \<le> 256 ^ n" using bs(2) by (rule power_increasing) simp
  finally show ?thesis by (simp only: bs(1))
qed

lemma rbind_eq_Inr: "rbind r k c = Inr (y, c') \<longleftrightarrow> (\<exists>x d. r c = Inr (x, d) \<and> k x d = Inr (y, c'))"
  by (auto simp: rbind_def bindE_eq_Inr)

lemma readDataField_bound:
  assumes "readDataField c = Inr ((codec, rs), c')"
  shows "length rs < 256"
proof -
  obtain n d c1 c2 c3 codec' where n: "cur_u8 ''record count'' d = Inr (n, c1)"
      and r: "read_n n (readRecord (codec' = Codec8e)) c1 = Inr (rs, c2)"
    using assms unfolding readDataField_def rbind_eq_Inr
    by (auto simp: rfail_def rreturn_def rbind_eq_Inr split: if_splits)
  show ?thesis using n read_n_length [OF r] cur_uint_bound [of 1] by (auto simp: cur_u8_def)
qed

lemma parse_records_bound: "parseAvlPacket frame = Inr (CrcOk c rs) \<Longrightarrow> length rs < 256"
  using readDataField_bound
  by (auto simp: parseAvlPacket_def bindE_eq_Inr Let_def split: if_splits)

definition packet_small :: "framer_event \<Rightarrow> bool" where
  "packet_small e = (case e of EvPacket (CrcOk _ rs) \<Rightarrow> length rs < 256 | _ \<Rightarrow> True)"

lemma framer_next_small: "framer_next f = (Some e, g) \<Longrightarrow> packet_small e"
  by (auto simp: framer_next_def nextHandshake_def nextPacket_def packet_small_def Let_def
      dest: parse_records_bound split: if_splits imei_frame_result.splits sum.splits avl_packet.splits)

lemma framer_drain_small: "list_all packet_small (fst (framer_drain f))"
proof (induction f rule: framer_drain.induct)
  case (1 f)
  then show ?case
    by (subst framer_drain.simps)
      (auto simp: framer_next_small split: prod.splits option.splits)
qed

lemma framer_push_small: "list_all packet_small (fst (framer_push f c))"
  by (simp add: framer_push_def framer_drain_small)

lemma handleEvent_acks:
  assumes "packet_small e" "handleEvent ok now e c = (xs, c')"
  shows "acks_published prev xs"
proof (cases e)
  case (EvPacket p)
  show ?thesis
  proof (cases p)
    case (CrcOk codec rs)
    have "length rs < 2 ^ 32" using assms(1) EvPacket CrcOk by (simp add: packet_small_def)
    then have n: "be_nat (buildRecordAck (length rs)) = length rs" by (rule be_nat_buildRecordAck)
    have "buildTelemetryEvents i codec rs now = Inr evs \<Longrightarrow> length evs = length rs" for i evs
      by (auto simp: buildTelemetryEvents_def dest: mapE_length)
    then show ?thesis
      using assms(2) EvPacket CrcOk n
      by (auto simp: handleEvent_def handlePacket_def drop_connection_def Let_def
          split: option.splits sum.splits if_splits)
  next
    case (CrcBad d k)
    then show ?thesis
      using assms(2) EvPacket be_nat_buildRecordAck [of 0]
      by (auto simp: handleEvent_def handlePacket_def drop_connection_def split: option.splits)
  qed
next
  case (EvImei imei)
  then show ?thesis using assms(2) by (auto simp: handleEvent_def buildImeiAck_def)
next
  case (EvError r d)
  then show ?thesis using assms(2) by (auto simp: handleEvent_def drop_connection_def buildImeiAck_def)
qed

lemma handle_events_acks:
  "list_all packet_small es \<Longrightarrow> acks_published prev (fst (handle_events ok now es c))"
proof (induction es arbitrary: c prev)
  case Nil
  then show ?case by simp
next
  case (Cons e es)
  obtain xs c' where h: "handleEvent ok now e c = (xs, c')" by fastforce
  have "acks_published prev xs" using handleEvent_acks [OF _ h] Cons.prems by simp
  moreover have "acks_published p (fst (handle_events ok now es c'))" for p using Cons by simp
  ultimately show ?case by (auto simp: h acks_published_append split: prod.splits)
qed

lemma serve_acks: "acks_published prev (fst (serve ok chunks c))"
proof (induction chunks arbitrary: c prev)
  case Nil
  then show ?case by simp
next
  case (Cons x rest)
  obtain now chunk where x: "x = (now, chunk)" by fastforce
  obtain es f where p: "framer_push (cn_framer c) chunk = (es, f)" by fastforce
  obtain xs c' where h: "handleChunk ok now chunk c = (xs, c')" by fastforce
  have "list_all packet_small es" using framer_push_small [of "cn_framer c" chunk] p by simp
  then have "acks_published prev xs" using handle_events_acks [of es prev ok now] h p by (auto simp: handleChunk_def) (metis fst_conv)
  moreover have "acks_published q (fst (serve ok rest c'))" for q by (rule Cons)
  ultimately show ?case by (auto simp: x h acks_published_append split: prod.splits)
qed

section \<open>Handshake first\<close>

definition early_packet :: effect where
  "early_packet = Destroyed ''packet-before-handshake''"

lemma framer_drain_handshake:
  "fr_state f \<noteq> Failed \<Longrightarrow> fr_state (snd (framer_drain f)) = Streaming \<Longrightarrow>
     fr_state f = Streaming \<or> (\<exists>i. EvImei i \<in> set (fst (framer_drain f)))"
proof (induction f rule: framer_drain.induct)
  case (1 f)
  obtain eo g where n: "framer_next f = (eo, g)" by fastforce
  show ?case
  proof (cases eo)
    case None
    then show ?thesis using n 1 by (simp add: fr.run_stop)
  next
    case (Some e)
    show ?thesis
    proof (cases "fr_state f = AwaitingImei \<and> \<not> is_error_event e")
      case True
      then obtain i where "e = EvImei i"
        using n Some by (auto simp: framer_next_def nextHandshake_def split: imei_frame_result.splits)
      then show ?thesis using n Some True fr.run_more [of f e g] by (cases "framer_drain g") auto
    next
      case False
      then show ?thesis
        using n Some 1(2,3) fr.run_fatal [of f e g] by (cases "fr_state f") (auto simp: fr_fail_def)
    qed
  qed
qed

lemma handleEvent_early:
  assumes "handleEvent ok now e c = (xs, c')" "\<And>p. e = EvPacket p \<Longrightarrow> cn_imei c \<noteq> None"
  shows "early_packet \<notin> set xs \<and> (cn_imei c \<noteq> None \<longrightarrow> cn_imei c' \<noteq> None) \<and>
    (\<forall>i. e = EvImei i \<longrightarrow> cn_imei c' \<noteq> None) \<and> cn_framer c' = cn_framer c"
proof -
  have "reason_string r \<noteq> ''packet-before-handshake''" "''packet-before-handshake'' \<noteq> reason_string r" for r
    by (cases r; simp)+
  then show ?thesis
    using assms
    by (cases e) (auto simp: handleEvent_def handlePacket_def drop_connection_def early_packet_def Let_def
        split: option.splits avl_packet.splits sum.splits if_splits)
qed

lemma handle_events_early:
  assumes "event_order st es" "st = Streaming \<longrightarrow> cn_imei c \<noteq> None" "handle_events ok now es c = (xs, c')"
  shows "early_packet \<notin> set xs \<and> cn_framer c' = cn_framer c \<and> (cn_imei c \<noteq> None \<longrightarrow> cn_imei c' \<noteq> None) \<and>
    ((\<exists>i. EvImei i \<in> set es) \<longrightarrow> cn_imei c' \<noteq> None \<or> cn_destroyed c' \<or> cn_crashed c')"
  using assms
proof (induction es arbitrary: st c xs c')
  case Nil
  then show ?case by simp
next
  case (Cons e es)
  show ?case
  proof (cases "cn_destroyed c \<or> cn_crashed c")
    case True
    then show ?thesis using Cons.prems by auto
  next
    case False
    obtain ys d where h: "handleEvent ok now e c = (ys, d)" by fastforce
    obtain zs d' where r: "handle_events ok now es d = (zs, d')" by fastforce
    have eq: "xs = ys @ zs" "c' = d'" using Cons.prems(3) False h r by auto
    have pk: "\<And>p. e = EvPacket p \<Longrightarrow> cn_imei c \<noteq> None"
      using Cons.prems(1,2) by (cases st) auto
    note one = handleEvent_early [OF h pk]
    have "\<exists>st'. event_order st' es \<and> (st' = Streaming \<longrightarrow> cn_imei d \<noteq> None)"
    proof (cases e)
      case (EvImei i)
      then show ?thesis using Cons.prems(1) one by (cases st) auto
    next
      case (EvPacket p)
      then show ?thesis using Cons.prems(1) one pk by (cases st) auto
    next
      case (EvError q d)
      then have "es = []" using Cons.prems(1) by (cases st) auto
      then show ?thesis by (intro exI [of _ AwaitingImei]) simp
    qed
    then obtain st' where st': "event_order st' es" "st' = Streaming \<longrightarrow> cn_imei d \<noteq> None" by blast
    from Cons.IH [OF st' r] one show ?thesis by (auto simp: eq)
  qed
qed

text \<open>Between chunks: a streaming framer means the IMEI is known (unless the connection is over).\<close>

definition connection_ok :: "connection \<Rightarrow> bool" where
  "connection_ok c \<longleftrightarrow> cn_destroyed c \<or> cn_crashed c \<or> (fr_state (cn_framer c) = Streaming \<longrightarrow> cn_imei c \<noteq> None)"

lemma handleChunk_early:
  assumes "connection_ok c" "\<not> cn_destroyed c" "\<not> cn_crashed c" "handleChunk ok now chunk c = (xs, c')"
  shows "early_packet \<notin> set xs \<and> connection_ok c'"
proof (cases "fr_state (cn_framer c) = Failed")
  case True
  then show ?thesis
    using assms by (auto simp: handleChunk_def framer_push_def connection_ok_def)
next
  case False
  let ?s = "fr_feed (cn_framer c) chunk"
  obtain es f where p: "framer_drain ?s = (es, f)" by fastforce
  have ns: "fr_state ?s \<noteq> Failed" using False by simp
  have o1: "event_order (fr_state (cn_framer c)) es" using framer_drain_order [OF ns] p by simp
  have h: "handle_events ok now es (c\<lparr>cn_framer := f\<rparr>) = (xs, c')"
    using assms(4) False p by (simp add: handleChunk_def framer_push_def)
  have i: "fr_state (cn_framer c) = Streaming \<longrightarrow> cn_imei (c\<lparr>cn_framer := f\<rparr>) \<noteq> None"
    using assms(1-3) by (simp add: connection_ok_def)
  from handle_events_early [OF o1 i h] framer_drain_handshake [OF ns] p i
  show ?thesis by (auto simp: connection_ok_def)
qed

lemma serve_early: "connection_ok c \<Longrightarrow> early_packet \<notin> set (fst (serve ok chunks c))"
proof (induction chunks arbitrary: c)
  case Nil
  then show ?case by simp
next
  case (Cons x rest)
  obtain now chunk where x: "x = (now, chunk)" by fastforce
  show ?case
  proof (cases "cn_destroyed c \<or> cn_crashed c")
    case True
    then show ?thesis by (simp add: x)
  next
    case False
    obtain xs c' where h: "handleChunk ok now chunk c = (xs, c')" by fastforce
    from handleChunk_early [OF Cons.prems _ _ h] False have "early_packet \<notin> set xs" "connection_ok c'" by auto
    then show ?thesis using Cons.IH [of c'] False by (auto simp: x h split: prod.splits)
  qed
qed

section \<open>Properties\<close>

text \<open>
  an acknowledgement is a durability promise that is never given early. Whatever bytes a device
  sends, however they are chunked and whichever publish attempts fail, every acknowledgement of
  \<open>n > 0\<close> records is written directly after a publish that resolved with exactly \<open>n\<close> events; and the
  "packet before handshake" branch, which the code calls unreachable, is.
\<close>

theorem ack_only_after_publish:
  "acks_published None (fst (serve ok chunks new_connection)) \<and>
   Destroyed ''packet-before-handshake'' \<notin> set (fst (serve ok chunks new_connection))"
proof -
  have "connection_ok new_connection" by (simp add: connection_ok_def new_connection_def new_framer_def)
  from serve_early [OF this] serve_acks show ?thesis by (simp add: early_packet_def)
qed

end
