(* ===== verification/Ingest_Server.thy ===== *)
theory Ingest_Server
  imports Ingest
begin

text \<open>
  The whole server of \<open>apps/telemetry-ingest/src/server.ts\<close>, interleaved: any number of device sockets,
  each suspended at its \<open>await\<close>s while the others run, idle timeouts, hang-ups and shutdown at any
  moment. A step is one turn of Node's event loop: a socket event, one round of the \<open>for ... of\<close> loop of
  \<open>handleChunk\<close>, or a publish that settles. \<open>Ingest\<close> has the same handler run to completion.
\<close>

section \<open>Sockets\<close>

text \<open>
  Where \<open>handleChunk\<close> of a socket is: not running (the socket delivers data), in the loop with these
  events to go, or awaiting \<open>options.publish\<close>; \<open>Stopped\<close>: it returned without resuming the socket.
\<close>

datatype phase =
    Reading
  | Handling "framer_event list"
  | Publishing codec_id "avl_record list" "telemetry_event list" "framer_event list"
  | Stopped

text \<open>\<open>so_received\<close> and \<open>so_written\<close> are what has crossed the wire in either direction.\<close>

record device_socket =
  so_framer :: framer
  so_imei :: "string option"
  so_phase :: phase
  so_destroyed :: bool
  so_ended :: bool
  so_received :: "bytes list"
  so_written :: bytes

definition new_socket :: device_socket where
  "new_socket = \<lparr>so_framer = new_framer None, so_imei = None, so_phase = Reading, so_destroyed = False,
     so_ended = False, so_received = [], so_written = []\<rparr>"

text \<open>
  \<open>socket.write\<close>: nothing on a destroyed socket; after \<open>socket.end()\<close> the stream raises an error,
  which destroys it.
\<close>

definition socket_write :: "bytes \<Rightarrow> device_socket \<Rightarrow> device_socket" where
  "socket_write bs so = (if so_destroyed so then so
     else if so_ended so then so\<lparr>so_destroyed := True\<rparr>
     else so\<lparr>so_written := so_written so @ bs\<rparr>)"

definition socket_drop :: "device_socket \<Rightarrow> device_socket" where
  "socket_drop so = so\<lparr>so_destroyed := True\<rparr>"

definition socket_data :: "bytes \<Rightarrow> device_socket \<Rightarrow> device_socket" where
  "socket_data chunk so = (case framer_push (so_framer so) chunk of (es, f) \<Rightarrow>
     so\<lparr>so_framer := f, so_phase := Handling es, so_received := so_received so @ [chunk]\<rparr>)"

text \<open>\<open>handlePacket\<close> up to its \<open>await\<close>; \<open>es\<close> are the events that follow the packet.\<close>

definition start_packet :: "int \<Rightarrow> avl_packet \<Rightarrow> framer_event list \<Rightarrow> device_socket \<Rightarrow> js_error + device_socket" where
  "start_packet now packet es so = (case so_imei so of
       None \<Rightarrow> Inr (socket_drop (so\<lparr>so_phase := Handling es\<rparr>))
     | Some imei \<Rightarrow> (case packet of
         CrcBad declared computed \<Rightarrow> Inr (socket_write (buildRecordAck 0) (so\<lparr>so_phase := Handling es\<rparr>))
       | CrcOk codec records \<Rightarrow> bindE (buildTelemetryEvents imei codec records now) (\<lambda>events.
           Inr (so\<lparr>so_phase := Publishing codec records events es\<rparr>))))"

text \<open>One round of the loop, and \<open>finally\<close> after the last. A throw is left to the process.\<close>

definition loop_round :: "int \<Rightarrow> framer_event list \<Rightarrow> device_socket \<Rightarrow> js_error + device_socket" where
  "loop_round now es so = (case es of
       [] \<Rightarrow> Inr (so\<lparr>so_phase := if so_destroyed so then Stopped else Reading\<rparr>)
     | e # rest \<Rightarrow>
         if so_destroyed so then Inr (so\<lparr>so_phase := Stopped\<rparr>)
         else (case e of
             EvImei imei \<Rightarrow> Inr ((socket_write (buildImeiAck True) so)\<lparr>so_imei := Some imei, so_phase := Handling rest\<rparr>)
           | EvPacket packet \<Rightarrow> start_packet now packet rest so
           | EvError reason detail \<Rightarrow>
               Inr ((socket_drop (if reason = InvalidImei then socket_write (buildImeiAck False) so else so))
                 \<lparr>so_phase := Handling rest\<rparr>)))"

text \<open>\<open>handlePacket\<close> after its \<open>await\<close>.\<close>

definition publish_settled :: "bool \<Rightarrow> avl_record list \<Rightarrow> framer_event list \<Rightarrow> device_socket \<Rightarrow> device_socket" where
  "publish_settled resolved records es so =
     (if resolved then (socket_write (buildRecordAck (length records)) so)\<lparr>so_phase := Handling es\<rparr>
      else (socket_drop so)\<lparr>so_phase := Handling es\<rparr>)"

section \<open>The server\<close>

text \<open>\<open>ig_stored\<close>: what the brokers hold, each batch with the socket it was published for.\<close>

record ingest_server =
  ig_sockets :: "nat \<Rightarrow> device_socket option"
  ig_connections :: "nat list"
  ig_listening :: bool
  ig_stored :: "(nat \<times> telemetry_event list) list"
  ig_crash :: "js_error option"

definition new_server :: ingest_server where
  "new_server = \<lparr>ig_sockets = (\<lambda>_. None), ig_connections = [], ig_listening = False, ig_stored = [], ig_crash = None\<rparr>"

text \<open>
  What the event loop delivers. A publish may reject although the brokers stored the batch; it never
  resolves otherwise.
\<close>

datatype happening =
    Listen
  | Accept nat
  | Data nat bytes
  | Round nat int
  | Settled nat bool bool \<comment> \<open>stored, resolved\<close>
  | IdleTimeout nat
  | SocketError nat
  | SocketClosed nat
  | CloseServer

definition put_socket :: "nat \<Rightarrow> device_socket \<Rightarrow> ingest_server \<Rightarrow> ingest_server" where
  "put_socket i so s = s\<lparr>ig_sockets := (ig_sockets s)(i \<mapsto> so)\<rparr>"

definition end_socket :: "device_socket \<Rightarrow> device_socket" where
  "end_socket so = so\<lparr>so_ended := True\<rparr>"

text \<open>\<open>None\<close> where the event cannot happen: an unknown socket, data on a paused or destroyed one, ...\<close>

fun happen :: "happening \<Rightarrow> ingest_server \<Rightarrow> ingest_server option" where
  "happen Listen s = (if ig_listening s then None else Some (s\<lparr>ig_listening := True\<rparr>))"
| "happen (Accept i) s =
     (if ig_listening s \<and> ig_sockets s i = None
      then Some ((put_socket i new_socket s)\<lparr>ig_connections := ig_connections s @ [i]\<rparr>) else None)"
| "happen (Data i chunk) s = (case ig_sockets s i of
       None \<Rightarrow> None
     | Some so \<Rightarrow> if so_phase so = Reading \<and> \<not> so_destroyed so then Some (put_socket i (socket_data chunk so) s) else None)"
| "happen (Round i now) s = (case ig_sockets s i of
       None \<Rightarrow> None
     | Some so \<Rightarrow> (case so_phase so of
         Handling es \<Rightarrow> (case loop_round now es so of
             Inl err \<Rightarrow> Some (s\<lparr>ig_crash := Some err\<rparr>)
           | Inr so' \<Rightarrow> Some (put_socket i so' s))
       | _ \<Rightarrow> None))"
| "happen (Settled i stored resolved) s = (case ig_sockets s i of
       None \<Rightarrow> None
     | Some so \<Rightarrow> (case so_phase so of
         Publishing codec records events es \<Rightarrow>
           if resolved \<and> \<not> stored then None
           else Some ((put_socket i (publish_settled resolved records es so) s)
             \<lparr>ig_stored := ig_stored s @ (if stored then [(i, events)] else [])\<rparr>)
       | _ \<Rightarrow> None))"
| "happen (IdleTimeout i) s = (case ig_sockets s i of
       None \<Rightarrow> None
     | Some so \<Rightarrow> if so_destroyed so then None else Some (put_socket i (socket_drop so) s))"
| "happen (SocketError i) s = (case ig_sockets s i of
       None \<Rightarrow> None
     | Some so \<Rightarrow> Some (put_socket i (socket_drop so) s))"
| "happen (SocketClosed i) s = (case ig_sockets s i of
       None \<Rightarrow> None
     | Some so \<Rightarrow> if i \<in> set (ig_connections s)
         then Some ((put_socket i (socket_drop so) s)\<lparr>ig_connections := filter (\<lambda>j. j \<noteq> i) (ig_connections s)\<rparr>) else None)"
| "happen CloseServer s = Some (s\<lparr>ig_listening := False,
       ig_sockets := (\<lambda>i. if i \<in> set (ig_connections s) then map_option end_socket (ig_sockets s i) else ig_sockets s i)\<rparr>)"

definition ingest_step :: "ingest_server \<Rightarrow> ingest_server \<Rightarrow> bool" where
  "ingest_step s t \<longleftrightarrow> ig_crash s = None \<and> (\<exists>h. happen h s = Some t)"

definition isListening :: "ingest_server \<Rightarrow> bool" where
  "isListening s = ig_listening s"

definition connectionCount :: "ingest_server \<Rightarrow> nat" where
  "connectionCount s = length (ig_connections s)"


section \<open>What has crossed the wire\<close>

text \<open>The bytes each event of the framer is answered with.\<close>

definition reply_to :: "framer_event \<Rightarrow> bytes" where
  "reply_to e = (case e of
       EvImei _ \<Rightarrow> buildImeiAck True
     | EvPacket (CrcOk _ records) \<Rightarrow> buildRecordAck (length records)
     | EvPacket (CrcBad _ _) \<Rightarrow> buildRecordAck 0
     | EvError reason _ \<Rightarrow> if reason = InvalidImei then buildImeiAck False else [])"

definition device_imei :: "framer_event list \<Rightarrow> string option" where
  "device_imei evs = (case evs of EvImei i # _ \<Rightarrow> Some i | _ \<Rightarrow> None)"

definition intact :: "framer_event \<Rightarrow> bool" where
  "intact e = (case e of EvPacket (CrcOk _ _) \<Rightarrow> True | _ \<Rightarrow> False)"

definition batch_of :: "string option \<Rightarrow> framer_event \<Rightarrow> telemetry_event list \<Rightarrow> bool" where
  "batch_of imei e batch \<longleftrightarrow> (\<exists>i codec records now. imei = Some i \<and> e = EvPacket (CrcOk codec records) \<and>
     buildTelemetryEvents i codec records now = Inr batch)"

definition stored_by :: "nat \<Rightarrow> ingest_server \<Rightarrow> telemetry_event list list" where
  "stored_by i s = map snd (filter (\<lambda>(j, _). j = i) (ig_stored s))"

lemma device_imei_snoc [simp]: "done \<noteq> [] \<Longrightarrow> device_imei (done @ es) = device_imei done"
  by (cases "done") (simp_all add: device_imei_def)

lemma batch_of_append: "batch_of (device_imei xs) e b \<Longrightarrow> batch_of (device_imei (xs @ ys)) e b"
proof (cases "xs = []")
  case True
  moreover assume "batch_of (device_imei xs) e b"
  ultimately show ?thesis by (simp add: batch_of_def device_imei_def)
qed simp

lemma streaming_no_imei: "event_order Streaming (xs @ EvImei i # es) \<Longrightarrow> False"
  by (induction xs) (auto elim: event_order.elims)

lemma imei_first: "event_order AwaitingImei (xs @ EvImei i # es) \<Longrightarrow> xs = []"
  by (cases xs rule: list.exhaust; cases "hd xs") (auto dest: streaming_no_imei)

lemma packet_later: "event_order AwaitingImei (xs @ EvPacket p # es) \<Longrightarrow> \<exists>i. device_imei xs = Some i"
  by (cases xs rule: list.exhaust; cases "hd xs") (auto simp: device_imei_def)

lemma push_all_order: "event_order AwaitingImei (fst (framer_push_all (new_framer m) cs))"
  using framer_drain_order [of "fr_feed (new_framer m) (concat cs)"]
  by (simp add: push_all_new) (simp add: new_framer_def)

lemma push_all_snoc:
  "framer_push_all f cs = (es, g) \<Longrightarrow> framer_push g c = (es', h) \<Longrightarrow> framer_push_all f (cs @ [c]) = (es @ es', h)"
  by (induction cs arbitrary: f es) (auto split: prod.splits)

section \<open>The invariant of a socket\<close>

text \<open>
  \<open>done\<close>: the events whose rounds are over; \<open>pend\<close>: the rest of what the framer has produced; the first
  \<open>k\<close> of \<open>done\<close> have been answered.
\<close>

definition progress :: "framer_event list \<Rightarrow> framer_event list \<Rightarrow> nat \<Rightarrow> telemetry_event list list \<Rightarrow> device_socket \<Rightarrow> bool" where
  "progress done pend k st so \<longleftrightarrow>
     framer_push_all (new_framer None) (so_received so) = (done @ pend, so_framer so) \<and>
     so_imei so = device_imei done \<and> k \<le> length done \<and> length done \<le> Suc k \<and>
     so_written so = concat (map reply_to (take k done)) \<and>
     list_all2 (batch_of (device_imei done)) (filter intact done) st \<and>
     (\<not> so_destroyed so \<longrightarrow> k = length done)"

definition in_phase :: "framer_event list \<Rightarrow> framer_event list \<Rightarrow> nat \<Rightarrow> device_socket \<Rightarrow> bool" where
  "in_phase done pend k so = (case so_phase so of
       Reading \<Rightarrow> \<not> so_destroyed so \<longrightarrow> pend = []
     | Handling es \<Rightarrow> \<not> so_destroyed so \<longrightarrow> pend = es
     | Publishing codec records events es \<Rightarrow> k = length done \<and> pend = EvPacket (CrcOk codec records) # es \<and>
         batch_of (device_imei done) (EvPacket (CrcOk codec records)) events
     | Stopped \<Rightarrow> so_destroyed so)"

definition socket_inv :: "telemetry_event list list \<Rightarrow> device_socket \<Rightarrow> bool" where
  "socket_inv st so \<longleftrightarrow> (\<exists>done pend k. progress done pend k st so \<and> in_phase done pend k so)"

lemma socket_invI: "progress done pend k st so \<Longrightarrow> in_phase done pend k so \<Longrightarrow> socket_inv st so"
  by (auto simp: socket_inv_def)

lemma socket_inv_new: "socket_inv [] new_socket"
  by (rule socket_invI [of "[]" "[]" 0]) (simp_all add: progress_def in_phase_def new_socket_def device_imei_def)

lemma progress_drop:
  "progress done pend k st so \<Longrightarrow> progress done pend k st (socket_drop so)"
  "in_phase done pend k so \<Longrightarrow> in_phase done pend k (socket_drop so)"
  by (simp add: progress_def socket_drop_def) (simp add: in_phase_def socket_drop_def split: phase.splits)

lemma progress_end:
  "progress done pend k st so \<Longrightarrow> progress done pend k st (end_socket so)"
  "in_phase done pend k so \<Longrightarrow> in_phase done pend k (end_socket so)"
  by (simp add: progress_def end_socket_def) (simp add: in_phase_def end_socket_def split: phase.splits)

lemma socket_inv_drop: "socket_inv st so \<Longrightarrow> socket_inv st (socket_drop so)"
  unfolding socket_inv_def by (blast intro: progress_drop)

lemma socket_inv_end: "socket_inv st so \<Longrightarrow> socket_inv st (end_socket so)"
  unfolding socket_inv_def by (blast intro: progress_end)

lemma socket_inv_data:
  assumes "socket_inv st so" "so_phase so = Reading" "\<not> so_destroyed so"
  shows "socket_inv st (socket_data chunk so)"
proof -
  obtain "done" k where p: "progress done [] k st so"
    using assms unfolding socket_inv_def in_phase_def by auto
  obtain es f where f: "framer_push (so_framer so) chunk = (es, f)" by fastforce
  have "framer_push_all (new_framer None) (so_received so @ [chunk]) = (done @ es, f)"
    using p f push_all_snoc [of "new_framer None" "so_received so" "done" "so_framer so" chunk es f]
    by (simp add: progress_def)
  then have "progress done es k st (socket_data chunk so)"
    using p by (simp add: progress_def socket_data_def f)
  moreover have "in_phase done es k (socket_data chunk so)" by (simp add: in_phase_def socket_data_def f)
  ultimately show ?thesis by (rule socket_invI)
qed

text \<open>An event whose answer has been written, or whose socket is gone.\<close>

lemma progress_answer:
  assumes p: "progress done (e # es) (length done) st so" and st: "intact e \<Longrightarrow> \<exists>b. st' = st @ [b] \<and> batch_of (device_imei done) e b"
    "\<not> intact e \<Longrightarrow> st' = st"
    and e: "so_imei t = (case e of EvImei i \<Rightarrow> Some i | _ \<Rightarrow> so_imei so)"
    and t: "so_received t = so_received so" "so_framer t = so_framer so"
      "so_written t = so_written so @ reply_to e \<or> so_written t = so_written so \<and> so_destroyed t"
  shows "\<exists>k. progress (done @ [e]) es k st' t"
proof -
  have o1: "event_order AwaitingImei (done @ e # es)"
    using push_all_order [of None "so_received so"] p by (simp add: progress_def)
  have im: "so_imei t = device_imei (done @ [e])"
  proof (cases "\<exists>i. e = EvImei i")
    case True
    then obtain i where i: "e = EvImei i" ..
    then have "done = []" using imei_first o1 by simp
    then show ?thesis using e i by (simp add: device_imei_def)
  next
    case False
    then have "so_imei t = device_imei done" using e p by (simp add: progress_def split: framer_event.splits)
    moreover have "device_imei (done @ [e]) = device_imei done"
    proof (cases "done = []")
      case True
      then show ?thesis using False by (simp add: device_imei_def split: framer_event.splits)
    qed simp
    ultimately show ?thesis by simp
  qed
  have l: "list_all2 (batch_of (device_imei (done @ [e]))) (filter intact (done @ [e])) st'"
  proof -
    have "list_all2 (batch_of (device_imei (done @ [e]))) (filter intact done) st"
      using p unfolding progress_def by (elim conjE) (erule list_all2_mono, rule batch_of_append)
    then show ?thesis
      using st batch_of_append by (cases "intact e") (auto intro!: list_all2_appendI)
  qed
  from t(3) show ?thesis
  proof
    assume "so_written t = so_written so @ reply_to e"
    then show ?thesis
      using p im l t(1,2) by (intro exI [of _ "Suc (length done)"]) (simp add: progress_def)
  next
    assume "so_written t = so_written so \<and> so_destroyed t"
    then show ?thesis
      using p im l t(1,2) by (intro exI [of _ "length done"]) (simp add: progress_def)
  qed
qed


lemma socket_write_fields [simp]:
  "so_received (socket_write bs so) = so_received so" "so_framer (socket_write bs so) = so_framer so"
  "so_imei (socket_write bs so) = so_imei so" "so_phase (socket_write bs so) = so_phase so"
  by (simp_all add: socket_write_def)

lemma socket_write_outcome:
  "\<not> so_destroyed so \<Longrightarrow> so_written (socket_write bs so) = so_written so @ bs \<or>
     so_written (socket_write bs so) = so_written so \<and> so_destroyed (socket_write bs so)"
  by (simp add: socket_write_def)

lemma socket_drop_fields [simp]:
  "so_received (socket_drop so) = so_received so" "so_framer (socket_drop so) = so_framer so"
  "so_imei (socket_drop so) = so_imei so" "so_phase (socket_drop so) = so_phase so"
  "so_written (socket_drop so) = so_written so" "so_destroyed (socket_drop so)"
  by (simp_all add: socket_drop_def)

lemma handling_inv:
  "progress done pend k st so \<Longrightarrow> so_phase so = Handling es \<Longrightarrow> \<not> so_destroyed so \<longrightarrow> pend = es \<Longrightarrow> socket_inv st so"
  by (rule socket_invI) (simp_all add: in_phase_def)

lemma answered_inv:
  assumes "progress done (e # es) (length done) st so" "\<not> intact e" "so_phase t = Handling es"
    and "so_imei t = (case e of EvImei i \<Rightarrow> Some i | _ \<Rightarrow> so_imei so)"
    and "so_received t = so_received so" "so_framer t = so_framer so"
      "so_written t = so_written so @ reply_to e \<or> so_written t = so_written so \<and> so_destroyed t"
  shows "socket_inv st t"
proof -
  have "intact e \<Longrightarrow> \<exists>b. st = st @ [b] \<and> batch_of (device_imei done) e b" using assms(2) by simp
  from progress_answer [OF assms(1) this _ assms(4-7)] obtain k where "progress (done @ [e]) es k st t" by auto
  then show ?thesis by (rule handling_inv [OF _ assms(3)]) simp
qed

text \<open>One round of the loop keeps the invariant; only publishing an intact packet is left open.\<close>

lemma socket_inv_round:
  assumes inv: "socket_inv st so" and ph: "so_phase so = Handling es" and r: "loop_round now es so = Inr t"
  shows "socket_inv st t"
proof -
  obtain "done" pend k where p: "progress done pend k st so" and pend: "\<not> so_destroyed so \<longrightarrow> pend = es"
    using inv ph unfolding socket_inv_def in_phase_def by auto
  show ?thesis
  proof (cases "so_destroyed so")
    case True
    then have "t = so\<lparr>so_phase := Stopped\<rparr>" using r by (simp add: loop_round_def split: list.splits)
    then have "progress done pend k st t" "in_phase done pend k t"
      using p True by (simp_all add: progress_def in_phase_def)
    then show ?thesis by (rule socket_invI)
  next
    case False
    have k: "k = length done" using p False by (simp add: progress_def)
    show ?thesis
    proof (cases es)
      case Nil
      then have "t = so\<lparr>so_phase := Reading\<rparr>" using r False by (simp add: loop_round_def)
      then have "progress done pend k st t" "in_phase done pend k t"
        using p pend False Nil by (simp_all add: progress_def in_phase_def)
      then show ?thesis by (rule socket_invI)
    next
      case (Cons e rest)
      have q: "progress done (e # rest) (length done) st so" using p pend False Cons k by simp
      show ?thesis
      proof (cases e)
        case (EvImei i)
        then have t: "t = (socket_write (buildImeiAck True) so)\<lparr>so_imei := Some i, so_phase := Handling rest\<rparr>"
          using r Cons False by (simp add: loop_round_def)
        show ?thesis
          by (rule answered_inv [OF q])
            (use socket_write_outcome [OF False] in \<open>simp_all add: t EvImei intact_def reply_to_def\<close>)
      next
        case (EvError reason d)
        then have t: "t = (socket_drop (if reason = InvalidImei then socket_write (buildImeiAck False) so else so))\<lparr>so_phase := Handling rest\<rparr>"
          using r Cons False by (simp add: loop_round_def)
        show ?thesis
          by (rule answered_inv [OF q])
            (use socket_write_outcome [OF False, of "buildImeiAck False"] in \<open>auto simp: t EvError intact_def reply_to_def\<close>)
      next
        case (EvPacket packet)
        have o1: "event_order AwaitingImei (done @ EvPacket packet # rest)"
          using push_all_order [of None "so_received so"] q EvPacket by (simp add: progress_def)
        obtain i where i: "device_imei done = Some i" using packet_later [OF o1] by blast
        then have im: "so_imei so = Some i" using q by (simp add: progress_def)
        have sp: "start_packet now packet rest so = Inr t" using r Cons False EvPacket by (simp add: loop_round_def)
        show ?thesis
        proof (cases packet)
          case (CrcBad a b)
          then have t: "t = socket_write (buildRecordAck 0) (so\<lparr>so_phase := Handling rest\<rparr>)"
            using sp im by (simp add: start_packet_def)
          show ?thesis
            by (rule answered_inv [OF q])
              (use socket_write_outcome [of "so\<lparr>so_phase := Handling rest\<rparr>" "buildRecordAck 0"] False
                in \<open>auto simp: t EvPacket CrcBad intact_def reply_to_def\<close>)
        next
          case (CrcOk codec records)
          then obtain events where ev: "buildTelemetryEvents i codec records now = Inr events"
            and t: "t = so\<lparr>so_phase := Publishing codec records events rest\<rparr>"
            using sp im by (auto simp: start_packet_def bindE_eq_Inr)
          have "progress done (e # rest) (length done) st t" using q by (simp add: progress_def t)
          moreover have "in_phase done (e # rest) (length done) t"
            using ev i by (auto simp: in_phase_def t EvPacket CrcOk batch_of_def)
          ultimately show ?thesis by (rule socket_invI)
        qed
      qed
    qed
  qed
qed

lemma socket_inv_settled:
  assumes inv: "socket_inv st so" and ph: "so_phase so = Publishing codec records events es"
    and sr: "resolved \<longrightarrow> stored"
  shows "socket_inv (st @ (if stored then [events] else [])) (publish_settled resolved records es so)"
proof -
  let ?e = "EvPacket (CrcOk codec records)"
  obtain "done" where p: "progress done (?e # es) (length done) st so" and b: "batch_of (device_imei done) ?e events"
    using inv ph unfolding socket_inv_def in_phase_def by auto
  show ?thesis
  proof (cases stored)
    case False
    then have t: "publish_settled resolved records es so = (socket_drop so)\<lparr>so_phase := Handling es\<rparr>"
      using sr by (simp add: publish_settled_def)
    have "progress done (?e # es) (length done) st (publish_settled resolved records es so)"
      using progress_drop(1) [OF p] unfolding t by (simp add: progress_def)
    then have "socket_inv st (publish_settled resolved records es so)"
      by (rule handling_inv) (simp_all add: t socket_drop_def)
    then show ?thesis using False by simp
  next
    case True
    let ?t = "publish_settled resolved records es so"
    have w: "so_written ?t = so_written so @ reply_to ?e \<or> so_written ?t = so_written so \<and> so_destroyed ?t"
      using socket_write_outcome [of so "buildRecordAck (length records)"]
      by (cases "so_destroyed so") (auto simp: publish_settled_def reply_to_def socket_write_def)
    have fields: "so_imei ?t = so_imei so" "so_received ?t = so_received so" "so_framer ?t = so_framer so"
      "so_phase ?t = Handling es"
      by (simp_all add: publish_settled_def)
    have "\<exists>k. progress (done @ [?e]) es k (st @ [events]) ?t"
      by (rule progress_answer [OF p _ _ _ fields(2,3) w]) (use b fields(1) in \<open>simp_all add: intact_def\<close>)
    then obtain k where "progress (done @ [?e]) es k (st @ [events]) ?t" ..
    then have "socket_inv (st @ [events]) ?t" by (rule handling_inv [OF _ fields(4)]) simp
    then show ?thesis using True by simp
  qed
qed


section \<open>The invariant of the server\<close>

definition entry_ok :: "ingest_server \<Rightarrow> nat \<Rightarrow> bool" where
  "entry_ok s i \<longleftrightarrow> (case ig_sockets s i of
       None \<Rightarrow> stored_by i s = [] \<and> i \<notin> set (ig_connections s)
     | Some so \<Rightarrow> socket_inv (stored_by i s) so \<and>
         (if i \<in> set (ig_connections s) then ig_listening s \<or> so_ended so else so_destroyed so))"

definition server_inv :: "ingest_server \<Rightarrow> bool" where
  "server_inv s \<longleftrightarrow> (\<forall>i. entry_ok s i) \<and> distinct (ig_connections s)"

definition server_keeps :: "ingest_server \<Rightarrow> ingest_server \<Rightarrow> bool" where
  "server_keeps s t \<longleftrightarrow> (\<exists>added. ig_stored t = ig_stored s @ added)"

lemma server_entry: "server_inv s \<Longrightarrow> entry_ok s i"
  by (simp add: server_inv_def)

lemma entry_some: "ig_sockets s i = Some so \<Longrightarrow> entry_ok s i \<longleftrightarrow> socket_inv (stored_by i s) so \<and>
    (if i \<in> set (ig_connections s) then ig_listening s \<or> so_ended so else so_destroyed so)"
  by (simp add: entry_ok_def)

lemma entry_none: "ig_sockets s i = None \<Longrightarrow> entry_ok s i \<longleftrightarrow> stored_by i s = [] \<and> i \<notin> set (ig_connections s)"
  by (simp add: entry_ok_def)

lemma entry_cong:
  "ig_sockets t i = ig_sockets s i \<Longrightarrow> stored_by i t = stored_by i s \<Longrightarrow>
   (i \<in> set (ig_connections t) \<longleftrightarrow> i \<in> set (ig_connections s)) \<Longrightarrow> ig_listening t = ig_listening s \<Longrightarrow>
     entry_ok t i = entry_ok s i"
  by (cases "ig_sockets s i") (simp_all add: entry_ok_def)

lemma server_socket: "server_inv s \<Longrightarrow> ig_sockets s i = Some so \<Longrightarrow> socket_inv (stored_by i s) so"
  using server_entry entry_some by blast

lemma put_socket_fields [simp]:
  "ig_sockets (put_socket i so s) = (ig_sockets s)(i \<mapsto> so)" "ig_connections (put_socket i so s) = ig_connections s"
  "ig_listening (put_socket i so s) = ig_listening s" "ig_stored (put_socket i so s) = ig_stored s"
  "ig_crash (put_socket i so s) = ig_crash s"
  by (simp_all add: put_socket_def)

text \<open>A step that only replaces the socket \<open>i\<close> by \<open>t\<close>, and perhaps stores a batch of it.\<close>

lemma server_put:
  assumes inv: "server_inv s" and so: "ig_sockets s i = Some so"
    and t: "socket_inv (stored_by i s @ added) t" "so_destroyed so \<longrightarrow> so_destroyed t" "so_ended so \<longrightarrow> so_ended t"
    and u: "ig_sockets u = (ig_sockets s)(i \<mapsto> t)" "ig_connections u = ig_connections s" "ig_listening u = ig_listening s"
      "ig_stored u = ig_stored s @ map (Pair i) added"
  shows "server_inv u"
proof -
  have st: "stored_by j u = (if j = i then stored_by j s @ added else stored_by j s)" for j
    by (auto simp: stored_by_def u(4) o_def filter_map split_beta)
  have "entry_ok u j" for j
  proof (cases "j = i")
    case True
    then show ?thesis using server_entry [OF inv, of i] t u(1-3)
      by (auto simp: entry_some [OF so] entry_some [of u i t] st)
  next
    case False
    then have "entry_ok u j = entry_ok s j" by (intro entry_cong) (simp_all add: u(1-3) st)
    then show ?thesis using server_entry [OF inv] by simp
  qed
  moreover have "distinct (ig_connections u)" using inv u(2) by (simp add: server_inv_def)
  ultimately show ?thesis by (simp add: server_inv_def)
qed

lemma server_init: "s = new_server \<Longrightarrow> server_inv s"
  by (simp add: server_inv_def entry_ok_def new_server_def stored_by_def)

lemma loop_round_destroyed:
  "loop_round now es so = Inr t \<Longrightarrow> (so_destroyed so \<longrightarrow> so_destroyed t) \<and> (so_ended so \<longrightarrow> so_ended t)"
  by (auto simp: loop_round_def start_packet_def socket_write_def socket_drop_def bindE_eq_Inr
      split: list.splits if_splits framer_event.splits option.splits avl_packet.splits)

lemma server_step: "server_inv s \<Longrightarrow> ingest_step s t \<Longrightarrow> server_inv t"
  unfolding ingest_step_def
proof (elim conjE exE)
  fix h assume inv: "server_inv s" and h: "happen h s = Some t"
  show "server_inv t"
  proof (cases h)
    case Listen
    then have t: "t = s\<lparr>ig_listening := True\<rparr>" using h by (simp split: if_splits)
    have st: "stored_by j t = stored_by j s" for j by (simp add: t stored_by_def)
    have "entry_ok t j" for j
      using server_entry [OF inv, of j] unfolding entry_ok_def st by (auto simp: t split: option.splits if_splits)
    then show ?thesis using inv by (simp add: server_inv_def t)
  next
    case (Accept i)
    then have a: "ig_listening s" "ig_sockets s i = None"
      and t: "t = (put_socket i new_socket s)\<lparr>ig_connections := ig_connections s @ [i]\<rparr>"
      using h by (auto split: if_splits)
    have st: "stored_by j t = stored_by j s" for j by (simp add: t stored_by_def)
    have i: "stored_by i s = []" "i \<notin> set (ig_connections s)"
      using server_entry [OF inv, of i] by (simp_all add: entry_none [OF a(2)])
    have "entry_ok t j" for j
    proof (cases "j = i")
      case True
      then show ?thesis using a socket_inv_new i unfolding entry_ok_def st by (simp add: t)
    next
      case False
      then have "entry_ok t j = entry_ok s j" by (intro entry_cong) (simp_all only: st, auto simp: t)
      then show ?thesis using server_entry [OF inv] by simp
    qed
    then show ?thesis using inv i by (simp add: server_inv_def t)
  next
    case (Data i chunk)
    then obtain so where so: "ig_sockets s i = Some so" "so_phase so = Reading" "\<not> so_destroyed so"
      and t: "t = put_socket i (socket_data chunk so) s"
      using h by (auto split: option.splits if_splits)
    have "socket_inv (stored_by i s) (socket_data chunk so)"
      by (rule socket_inv_data [OF server_socket [OF inv so(1)] so(2,3)])
    then show ?thesis
      by (intro server_put [OF inv so(1), of "[]"]) (simp_all add: t so socket_data_def split: prod.splits)
  next
    case (Round i now)
    then obtain so es where so: "ig_sockets s i = Some so" "so_phase so = Handling es"
      using h by (auto split: option.splits phase.splits)
    show ?thesis
    proof (cases "loop_round now es so")
      case (Inl err)
      then have t: "t = s\<lparr>ig_crash := Some err\<rparr>" using h Round so by simp
      have "entry_ok t j = entry_ok s j" for j by (rule entry_cong) (simp_all add: t stored_by_def)
      then show ?thesis using inv by (simp add: server_inv_def t)
    next
      case (Inr so')
      then have t: "t = put_socket i so' s" using h Round so by simp
      have "socket_inv (stored_by i s) so'"
        by (rule socket_inv_round [OF server_socket [OF inv so(1)] so(2) Inr])
      then show ?thesis using loop_round_destroyed [OF Inr]
        by (intro server_put [OF inv so(1), of "[]"]) (simp_all add: t)
    qed
  next
    case (Settled i stored resolved)
    then obtain so codec records events es where so: "ig_sockets s i = Some so" "so_phase so = Publishing codec records events es"
      and r: "resolved \<longrightarrow> stored"
      and t: "t = (put_socket i (publish_settled resolved records es so) s)
             \<lparr>ig_stored := ig_stored s @ (if stored then [(i, events)] else [])\<rparr>"
      using h by (auto split: option.splits phase.splits if_splits)
    have "socket_inv (stored_by i s @ (if stored then [events] else [])) (publish_settled resolved records es so)"
      by (rule socket_inv_settled [OF server_socket [OF inv so(1)] so(2) r])
    then show ?thesis
      by (intro server_put [OF inv so(1)]) (auto simp: t publish_settled_def socket_write_def socket_drop_def)
  next
    case (IdleTimeout i)
    then obtain so where so: "ig_sockets s i = Some so" and t: "t = put_socket i (socket_drop so) s"
      using h by (auto split: option.splits if_splits)
    show ?thesis using server_socket [OF inv so]
      by (intro server_put [OF inv so, of "[]" "socket_drop so"]) (simp_all add: t socket_inv_drop, simp_all add: socket_drop_def)
  next
    case (SocketError i)
    then obtain so where so: "ig_sockets s i = Some so" and t: "t = put_socket i (socket_drop so) s"
      using h by (auto split: option.splits if_splits)
    show ?thesis using server_socket [OF inv so]
      by (intro server_put [OF inv so, of "[]" "socket_drop so"]) (simp_all add: t socket_inv_drop, simp_all add: socket_drop_def)
  next
    case (SocketClosed i)
    then obtain so where so: "ig_sockets s i = Some so"
      and t: "t = (put_socket i (socket_drop so) s)\<lparr>ig_connections := filter (\<lambda>j. j \<noteq> i) (ig_connections s)\<rparr>"
      using h by (auto split: option.splits if_splits)
    have st: "stored_by j t = stored_by j s" for j by (simp add: t stored_by_def)
    have "entry_ok t j" for j
    proof (cases "j = i")
      case True
      then show ?thesis using server_socket [OF inv so] unfolding entry_ok_def st by (simp add: t socket_inv_drop)
    next
      case False
      then have "entry_ok t j = entry_ok s j" by (intro entry_cong) (simp_all only: st, auto simp: t)
      then show ?thesis using server_entry [OF inv] by simp
    qed
    then show ?thesis using inv by (simp add: server_inv_def t)
  next
    case CloseServer
    then have t: "t = s\<lparr>ig_listening := False,
       ig_sockets := (\<lambda>i. if i \<in> set (ig_connections s) then map_option end_socket (ig_sockets s i) else ig_sockets s i)\<rparr>"
      using h by simp
    have st: "stored_by j t = stored_by j s" for j by (simp add: t stored_by_def)
    have "entry_ok t j" for j
      using server_entry [OF inv, of j]
      unfolding entry_ok_def st by (cases "ig_sockets s j") (auto simp: t socket_inv_end, simp_all add: end_socket_def)
    then show ?thesis using inv by (simp add: server_inv_def t)
  qed
qed

lemma server_step_keeps: "ingest_step s t \<Longrightarrow> server_keeps s t"
  unfolding ingest_step_def server_keeps_def
proof (elim conjE exE)
  fix h assume "happen h s = Some t"
  then show "\<exists>added. ig_stored t = ig_stored s @ added"
    by (cases h) (auto split: option.splits phase.splits if_splits sum.splits)
qed

interpretation ingest: step_system "\<lambda>s. s = new_server" ingest_step server_inv server_keeps
proof unfold_locales
  show "server_keeps s u" if "server_keeps s t" "server_keeps t u" for s t u
    using that unfolding server_keeps_def by force
  show "server_keeps s s" for s by (simp add: server_keeps_def)
qed (use server_init server_step server_step_keeps in blast)+


section \<open>What stops the process\<close>

lemma build_fails:
  assumes "\<bar>now\<bar> \<le> 8640000000000000"
  shows "(\<exists>err. buildTelemetryEvents imei codec records now = Inl err) \<longleftrightarrow>
    (\<exists>r\<in>set records. 8640000000000000 < \<bar>avl_timestampMs r\<bar>)"
proof
  assume "\<exists>err. buildTelemetryEvents imei codec records now = Inl err"
  then obtain err where err: "mapE (build_event imei codec now) (List.enumerate 0 records) = Inl err"
    by (auto simp: buildTelemetryEvents_def)
  show "\<exists>r\<in>set records. 8640000000000000 < \<bar>avl_timestampMs r\<bar>"
  proof (rule ccontr)
    assume none: "\<not> ?thesis"
    have "\<exists>e. build_event imei codec now x = Inr e" if "x \<in> set (List.enumerate 0 records)" for x
    proof -
      have "snd x \<in> set records" using that nth_mem by (fastforce simp: in_set_enumerate_eq)
      then show ?thesis using none assms build_event_Inr [of imei codec now "fst x" "snd x"] by (auto simp: not_less)
    qed
    then have "mapE (build_event imei codec now) (List.enumerate 0 records) =
        Inr (map (\<lambda>x. projr (build_event imei codec now x)) (List.enumerate 0 records))"
      by (intro mapE_all_Inr) (metis sum.sel(2))
    then show False using err by simp
  qed
next
  assume "\<exists>r\<in>set records. 8640000000000000 < \<bar>avl_timestampMs r\<bar>"
  then obtain n where n: "n < length records" "8640000000000000 < \<bar>avl_timestampMs (records ! n)\<bar>"
    by (metis in_set_conv_nth)
  have "(n, records ! n) \<in> set (List.enumerate 0 records)" using n(1) by (simp add: in_set_enumerate_eq)
  moreover have "\<exists>err. build_event imei codec now (n, records ! n) = Inl err"
    using n(2) build_event_Inr [of imei codec now n "records ! n"]
    by (cases "build_event imei codec now (n, records ! n)") auto
  ultimately show "\<exists>err. buildTelemetryEvents imei codec records now = Inl err"
    unfolding buildTelemetryEvents_def by (auto intro: mapE_some_Inl)
qed

lemma round_crashes:
  assumes so: "socket_inv st so" "so_phase so = Handling es" and now: "\<bar>now\<bar> \<le> 8640000000000000"
  shows "(\<exists>err. loop_round now es so = Inl err) \<longleftrightarrow> \<not> so_destroyed so \<and>
    (\<exists>codec records rest. es = EvPacket (CrcOk codec records) # rest \<and>
       (\<exists>r\<in>set records. 8640000000000000 < \<bar>avl_timestampMs r\<bar>))"
proof (cases "so_destroyed so")
  case True
  then show ?thesis by (simp add: loop_round_def split: list.splits)
next
  case False
  obtain "done" k where p: "progress done es k st so"
    using so False unfolding socket_inv_def in_phase_def by auto
  show ?thesis
  proof (cases "\<exists>packet rest. es = EvPacket packet # rest")
    case True
    then obtain packet rest where es: "es = EvPacket packet # rest" by blast
    have "event_order AwaitingImei (done @ EvPacket packet # rest)"
      using push_all_order [of None "so_received so"] p es by (simp add: progress_def)
    then obtain i where "device_imei done = Some i" using packet_later by blast
    then have "so_imei so = Some i" using p by (simp add: progress_def)
    show ?thesis
    proof (cases packet)
      case (CrcBad a b)
      then show ?thesis using \<open>so_imei so = Some i\<close> False by (simp add: loop_round_def start_packet_def es)
    next
      case (CrcOk codec records)
      have "loop_round now es so = bindE (buildTelemetryEvents i codec records now) (\<lambda>events.
          Inr (so\<lparr>so_phase := Publishing codec records events rest\<rparr>))"
        using \<open>so_imei so = Some i\<close> False by (simp add: loop_round_def start_packet_def es CrcOk)
      then have "(\<exists>err. loop_round now es so = Inl err) \<longleftrightarrow> (\<exists>err. buildTelemetryEvents i codec records now = Inl err)"
        by (simp add: bindE_def split: sum.splits)
      then show ?thesis using False build_fails [OF now, of i codec records] by (simp add: es CrcOk)
    qed
  next
    case no: False
    then show ?thesis using False
      by (cases es; cases "hd es") (auto simp: loop_round_def)
  qed
qed

lemma socket_history:
  assumes "ingest_step\<^sup>*\<^sup>* new_server s" "ig_sockets s i = Some so"
  shows "\<exists>k m. k \<le> m \<and> m \<le> k + 1 \<and>
    (let evs = fst (framer_push_all (new_framer None) (so_received so)) in
       so_written so = concat (map reply_to (take k evs)) \<and>
       list_all2 (batch_of (device_imei evs)) (filter intact (take m evs)) (stored_by i s))"
proof -
  obtain "done" pend k where p: "progress done pend k (stored_by i s) so"
    using server_socket [OF ingest.reachable_inv [OF refl assms(1)] assms(2)] unfolding socket_inv_def by blast
  have evs: "fst (framer_push_all (new_framer None) (so_received so)) = done @ pend"
    using p by (simp add: progress_def)
  have "list_all2 (batch_of (device_imei (done @ pend))) (filter intact done) (stored_by i s)"
    using p unfolding progress_def by (elim conjE) (erule list_all2_mono, rule batch_of_append)
  then show ?thesis
    using p unfolding evs Let_def progress_def by (intro exI [of _ k] exI [of _ "length done"]) simp
qed

section \<open>Properties\<close>

text \<open>
  C14: the acknowledgement promise under full concurrency. With any number of devices, publishes that settle
  in any order (also rejecting after the brokers stored the batch), idle timeouts, hang-ups and shutdown
  at any moment: what each socket has been answered is exactly the replies to the first \<open>k\<close> events of its
  own byte stream, and what the brokers hold of it is exactly the intact packets among the first \<open>k\<close> or
  \<open>k + 1\<close> events, in order, each complete and under the device's own IMEI. So every acknowledged packet
  is stored, and at most one stored packet per connection is unacknowledged.
\<close>

theorem acknowledged_is_stored:
  assumes "ingest_step\<^sup>*\<^sup>* new_server s" "ig_sockets s i = Some so"
  shows "\<exists>k m. k \<le> m \<and> m \<le> k + 1 \<and>
    (let evs = fst (framer_push_all (new_framer None) (so_received so)) in
       so_written so = concat (map reply_to (take k evs)) \<and>
       list_all2 (batch_of (device_imei evs)) (filter intact (take m evs)) (stored_by i s))"
  by (rule socket_history [OF assms])

text \<open>
  C15: one thing, and only one, brings the whole server down: a well-formed packet on a live connection with
  a record stamped beyond 8.64e15 ms, whose event cannot be built. The throw is outside the \<open>try\<close>, the
  process ends, and with it every other device's connection.
\<close>

theorem one_timestamp_stops_the_server:
  assumes "ingest_step\<^sup>*\<^sup>* new_server s" "ig_crash s = None" "happen h s = Some t"
    and "\<forall>i now. h = Round i now \<longrightarrow> \<bar>now\<bar> \<le> 8640000000000000"
  shows "(ig_crash t \<noteq> None \<longleftrightarrow> (\<exists>i now so codec records es. h = Round i now \<and> ig_sockets s i = Some so \<and>
      so_phase so = Handling (EvPacket (CrcOk codec records) # es) \<and> \<not> so_destroyed so \<and>
      (\<exists>r\<in>set records. 8640000000000000 < \<bar>avl_timestampMs r\<bar>))) \<and>
    (ig_crash t \<noteq> None \<longrightarrow> (\<forall>u. \<not> ingest_step t u))"
proof -
  have inv: "server_inv s" by (rule ingest.reachable_inv [OF refl assms(1)])
  have "ig_crash t \<noteq> None \<longleftrightarrow> (\<exists>i now so codec records es. h = Round i now \<and> ig_sockets s i = Some so \<and>
      so_phase so = Handling (EvPacket (CrcOk codec records) # es) \<and> \<not> so_destroyed so \<and>
      (\<exists>r\<in>set records. 8640000000000000 < \<bar>avl_timestampMs r\<bar>))"
  proof (cases "\<exists>i now. h = Round i now")
    case False
    then have "ig_crash t = None" using assms(2,3)
      by (cases h) (auto split: option.splits phase.splits if_splits)
    then show ?thesis using False by simp
  next
    case True
    then obtain i now where r: "h = Round i now" by blast
    then obtain so es where so: "ig_sockets s i = Some so" "so_phase so = Handling es"
      using assms(3) by (auto split: option.splits phase.splits)
    have now: "\<bar>now\<bar> \<le> 8640000000000000" using assms(4) r by blast
    have "ig_crash t \<noteq> None \<longleftrightarrow> (\<exists>err. loop_round now es so = Inl err)"
      using assms(2,3) r so by (cases "loop_round now es so") auto
    then show ?thesis
      unfolding round_crashes [OF server_socket [OF inv so(1)] so(2) now] using r so by auto
  qed
  then show ?thesis by (simp add: ingest_step_def)
qed


section \<open>Witnesses\<close>

text \<open>A device that greets and sends one record; the second one's clock is broken.\<close>

definition sample_imei :: string where "sample_imei = ''356307042441013''"

definition broken_record :: encodable_record where
  "broken_record = sample_record\<lparr>er_timestampMs := 9000000000000000\<rparr>"

definition placed_record :: encodable_record where
  "placed_record = sample_record\<lparr>er_gps := Some \<lparr>egps_latitude = coordinate 546870000, egps_longitude = coordinate 252790000,
     egps_altitudeM = 112, egps_angleDeg = 90, egps_satellites = 7, egps_speedKph = 50\<rparr>\<rparr>"

lemma encodeCoordinate_placed:
  "encodeCoordinate (coordinate 546870000) = 546870000" "encodeCoordinate (coordinate 252790000) = 252790000"
  by (simp_all add: coordinate_roundtrip)

definition greeting :: bytes where "greeting = projr (encodeImeiFrame sample_imei)"

definition message :: "encodable_record \<Rightarrow> bytes" where "message r = frame_of ([r], default_options)"

lemma sample_imei_valid: "isValidImei sample_imei"
  by (simp add: sample_imei_def isValidImei_def IMEI_DIGITS_def is_digit_def)

lemma message_sendable: "r \<in> {sample_record, broken_record, placed_record} \<Longrightarrow> sendable DEFAULT_MAX_FRAME_BYTES ([r], default_options)"
  by (elim insertE emptyE; simp add: sendable_def no_overrides_def encodeAvlFrame_def broken_record_def placed_record_def
      sample_record_def default_options_def or_else_def encodeRecord_def encodeGroup_def encodeElement_def encodeId_def
      encodeGps_def encodeCoordinate_placed write_0 writeInt_def byteFrom_def writeUInt_def
      to_number_exact Let_def crc16ibm_bound [THEN less_trans] DEFAULT_MAX_FRAME_BYTES_def del: be_bytes.simps)

definition ready :: framer where
  "ready = \<lparr>fr_buffer = [], fr_state = Streaming, fr_maxFrameBytes = DEFAULT_MAX_FRAME_BYTES\<rparr>"

lemma greeting_pushed: "framer_push (new_framer None) greeting = ([EvImei sample_imei], ready)"
proof -
  obtain h where h: "encodeImeiFrame sample_imei = Inr h" using encodeImeiFrame_bytes [OF sample_imei_valid] by blast
  have "framer_next (fr_feed (new_framer None) h) = (Some (EvImei sample_imei), ready)"
    using tryParse_encoded(1) [OF sample_imei_valid h, of "[]"] tryParse_encoded(2) [OF sample_imei_valid h]
    by (simp add: framer_next_def nextHandshake_def fr_consume_def fr_feed_def new_framer_def ready_def)
  moreover have "framer_drain ready = ([], ready)"
    using framer_drain_frames [of DEFAULT_MAX_FRAME_BYTES "[]"] by (simp add: ready_def)
  ultimately have "framer_drain (fr_feed (new_framer None) h) = ([EvImei sample_imei], ready)"
    using fr.run_more by fastforce
  then show ?thesis by (simp add: framer_push_def greeting_def h) (simp add: new_framer_def)
qed

lemma message_pushed:
  "r \<in> {sample_record, broken_record, placed_record} \<Longrightarrow>
     framer_push ready (message r) = ([EvPacket (CrcOk Codec8 [decoded_record False r])], ready)"
  using framer_drain_frames [of DEFAULT_MAX_FRAME_BYTES "[([r], default_options)]"] message_sendable [of r]
  by (simp add: framer_push_def ready_def fr_feed_def message_def packet_of_def or_else_def default_options_def)

text \<open>A run of the event loop.\<close>

fun happens :: "happening list \<Rightarrow> ingest_server \<Rightarrow> ingest_server option" where
  "happens [] s = Some s"
| "happens (h # hs) s = (if ig_crash s \<noteq> None then None else Option.bind (happen h s) (happens hs))"

lemma happens_reach: "happens hs s = Some t \<Longrightarrow> ingest_step\<^sup>*\<^sup>* s t"
proof (induction hs arbitrary: s)
  case (Cons h hs)
  then obtain u where u: "ig_crash s = None" "happen h s = Some u" "happens hs u = Some t"
    by (auto split: if_splits bind_splits)
  then have "ingest_step s u" unfolding ingest_step_def by blast
  then show ?case using Cons.IH [OF u(3)] by (rule converse_rtranclp_into_rtranclp)
qed simp

definition greeted :: "encodable_record \<Rightarrow> happening list" where
  "greeted r = [Listen, Accept 0, Data 0 greeting, Round 0 0, Round 0 0, Data 0 (message r)]"

text \<open>The socket once the record has arrived.\<close>

definition talking :: "encodable_record \<Rightarrow> device_socket" where
  "talking r = \<lparr>so_framer = ready, so_imei = Some sample_imei,
     so_phase = Handling [EvPacket (CrcOk Codec8 [decoded_record False r])], so_destroyed = False, so_ended = False,
     so_received = [greeting, message r], so_written = [0x01]\<rparr>"

lemma greeted_run:
  assumes "r \<in> {sample_record, broken_record, placed_record}"
  shows "happens (greeted r) new_server =
    Some \<lparr>ig_sockets = [0 \<mapsto> talking r], ig_connections = [0], ig_listening = True, ig_stored = [], ig_crash = None\<rparr>"
  by (simp add: greeted_def new_server_def new_socket_def put_socket_def socket_data_def greeting_pushed loop_round_def
      socket_write_def buildImeiAck_def message_pushed [OF assms] talking_def)

lemma happens_append: "happens (xs @ ys) s = Option.bind (happens xs s) (happens ys)"
  by (induction xs arbitrary: s) (simp_all split: bind_splits)

lemma be_one: "be_bytes 4 (Suc 0) = [0, 0, 0, 1]"
  by code_simp

text \<open>The record is published, acknowledged and the socket reads on.\<close>

lemma acknowledged_run:
  assumes "r \<in> {sample_record, broken_record, placed_record}"
    and ev: "buildTelemetryEvents sample_imei Codec8 [decoded_record False r] 1700000001000 = Inr events"
  shows "happens (greeted r @ [Round 0 1700000001000, Settled 0 True True, Round 0 0]) new_server =
    Some \<lparr>ig_sockets = [0 \<mapsto> (talking r)\<lparr>so_phase := Reading, so_written := [0x01, 0, 0, 0, 1]\<rparr>],
      ig_connections = [0], ig_listening = True, ig_stored = [(0, events)], ig_crash = None\<rparr>"
  by (simp add: happens_append greeted_run [OF assms(1)] talking_def loop_round_def start_packet_def ev put_socket_def
      publish_settled_def socket_write_def buildRecordAck_def be_one)

lemma sample_stream:
  "r \<in> {sample_record, broken_record, placed_record} \<Longrightarrow> fst (framer_push_all (new_framer None) [greeting, message r]) =
     [EvImei sample_imei, EvPacket (CrcOk Codec8 [decoded_record False r])]"
  by (simp add: greeting_pushed message_pushed)

theorem acknowledged_is_stored_witness:
  "\<exists>s so events. ig_sockets s 0 = Some so \<and> so_written so = [0x01, 0, 0, 0, 1] \<and> stored_by 0 s = [events] \<and>
     list_all2 (batch_of (Some sample_imei)) [EvPacket (CrcOk Codec8 [decoded_record False sample_record])] [events]"
proof -
  let ?rs = "[decoded_record False sample_record]"
  have "\<not> (\<exists>err. buildTelemetryEvents sample_imei Codec8 ?rs 1700000001000 = Inl err)"
    by (subst build_fails) (simp_all add: decoded_record_def sample_record_def to_number_exact)
  then obtain events where ev: "buildTelemetryEvents sample_imei Codec8 ?rs 1700000001000 = Inr events"
    by (metis sum.exhaust)
  have r: "sample_record \<in> {sample_record, broken_record, placed_record}" by simp
  let ?so = "(talking sample_record)\<lparr>so_phase := Reading, so_written := [0x01, 0, 0, 0, 1]\<rparr>"
  let ?s = "\<lparr>ig_sockets = [0 \<mapsto> ?so], ig_connections = [0], ig_listening = True, ig_stored = [(0, events)], ig_crash = None\<rparr>"
  have st: "stored_by 0 ?s = [events]" by (simp add: stored_by_def)
  obtain m where "list_all2 (batch_of (Some sample_imei))
      (filter intact (take m [EvImei sample_imei, EvPacket (CrcOk Codec8 ?rs)])) [events]"
    using acknowledged_is_stored [OF happens_reach [OF acknowledged_run [OF r ev]], of 0 ?so] sample_stream [OF r] st
    by (auto simp: Let_def talking_def device_imei_def)
  then have "list_all2 (batch_of (Some sample_imei)) [EvPacket (CrcOk Codec8 ?rs)] [events]"
    by (cases m; cases "m - 1") (auto simp: intact_def split: if_splits)
  then show ?thesis using st by (intro exI [of _ ?s] exI [of _ ?so] exI [of _ events]) simp
qed

theorem one_timestamp_stops_the_server_witness:
  "\<exists>s t. ingest_step\<^sup>*\<^sup>* new_server s \<and> happen (Round 0 1700000001000) s = Some t \<and> ig_crash t \<noteq> None \<and> (\<forall>u. \<not> ingest_step t u)"
proof -
  let ?rs = "[decoded_record False broken_record]"
  let ?s = "\<lparr>ig_sockets = [0 \<mapsto> talking broken_record], ig_connections = [0], ig_listening = True, ig_stored = [], ig_crash = None\<rparr>"
  have run: "happens (greeted broken_record) new_server = Some ?s" by (rule greeted_run) simp
  have big: "8640000000000000 < \<bar>avl_timestampMs (decoded_record False broken_record)\<bar>"
    by (simp add: decoded_record_def broken_record_def to_number_exact)
  have "\<exists>err. buildTelemetryEvents sample_imei Codec8 ?rs 1700000001000 = Inl err"
    by (subst build_fails) (use big in simp_all)
  then obtain err where err: "buildTelemetryEvents sample_imei Codec8 ?rs 1700000001000 = Inl err" ..
  have h: "happen (Round 0 1700000001000) ?s = Some (?s\<lparr>ig_crash := Some err\<rparr>)"
    by (simp add: talking_def loop_round_def start_packet_def err)
  have "ig_crash (?s\<lparr>ig_crash := Some err\<rparr>) \<noteq> None" by simp
  moreover have "\<forall>u. \<not> ingest_step (?s\<lparr>ig_crash := Some err\<rparr>) u"
    using one_timestamp_stops_the_server [OF happens_reach [OF run] _ h] by simp
  ultimately show ?thesis using happens_reach [OF run] h by blast
qed

end
