(* ===== verification/Pipeline.thy ===== *)
theory Pipeline
  imports Ingest_Server Consumers
begin

text \<open>
  The telemetry pipeline end to end: a device's bytes (\<open>Ingest_Server\<close>), the Kafka messages a publish
  produces (\<open>Events\<close>), and the locations writer (\<open>Writers\<close>). Kafka is external: what it holds is what was
  published, and delivery is at least once, in any batches and order.
\<close>

section \<open>What a published batch becomes\<close>

definition kafka_messages :: "publish_options \<Rightarrow> telemetry_event list \<Rightarrow> kafka_value list" where
  "kafka_messages options events = (case publishTelemetry options events of
       None \<Rightarrow> []
     | Some batches \<Rightarrow> map og_value (concat (map snd batches)))"

lemma batch_by_topic_member:
  "e \<in> set es \<Longrightarrow> \<exists>b. (topic e, b) \<in> set (batch_by_topic topic es m) \<and> outgoing_of e \<in> set b"
proof -
  assume e: "e \<in> set es"
  then have ne: "filter (\<lambda>x. topic x = topic e) es \<noteq> []" by (auto simp: filter_empty_conv)
  then have "map_of (batch_by_topic topic es m) (topic e) = Some ((case map_of m (topic e) of None \<Rightarrow> [] | Some b \<Rightarrow> b) @
      map outgoing_of (filter (\<lambda>x. topic x = topic e) es))" (is "_ = Some ?b")
    unfolding batch_by_topic_get by (cases "filter (\<lambda>x. topic x = topic e) es") simp_all
  then obtain b where b: "map_of (batch_by_topic topic es m) (topic e) = Some b"
    "set (map outgoing_of (filter (\<lambda>x. topic x = topic e) es)) \<subseteq> set b" by auto
  have "outgoing_of e \<in> set (map outgoing_of (filter (\<lambda>x. topic x = topic e) es))" using e by simp
  then show ?thesis using b by (meson map_of_SomeD subsetD)
qed

lemma kafka_messages_complete: "e \<in> set events \<Longrightarrow> EventJson e \<in> set (kafka_messages options events)"
proof -
  assume e: "e \<in> set events"
  then have ne: "events \<noteq> []" by auto
  obtain topic where p: "publishTelemetry options events = Some (batch_by_topic topic events [])"
    using ne by (auto simp: publishTelemetry_def Let_def)
  obtain b where b: "(topic e, b) \<in> set (batch_by_topic topic events [])" "outgoing_of e \<in> set b"
    using batch_by_topic_member [OF e] by blast
  have "og_value (outgoing_of e) \<in> set (kafka_messages options events)"
    unfolding kafka_messages_def p using b by (auto simp: image_iff) (metis snd_conv)
  then show ?thesis by (simp add: outgoing_of_def)
qed

lemma batch_by_topic_sound:
  assumes "(t, b) \<in> set (batch_by_topic topic es [])" "g \<in> set b"
  shows "g \<in> outgoing_of ` set es"
proof -
  have "map_of (batch_by_topic topic es []) t = Some b"
    using assms(1) batch_by_topic_distinct [of "[]" topic es] by simp
  then have "b = map outgoing_of (filter (\<lambda>e. topic e = t) es)"
    unfolding batch_by_topic_get by (cases "filter (\<lambda>e. topic e = t) es") simp_all
  then show ?thesis using assms(2) by auto
qed

lemma kafka_messages_sound: "m \<in> set (kafka_messages options events) \<Longrightarrow> \<exists>e\<in>set events. m = EventJson e"
proof -
  assume m: "m \<in> set (kafka_messages options events)"
  then obtain topic where "publishTelemetry options events = Some (batch_by_topic topic events [])"
    by (cases "events = []") (auto simp: kafka_messages_def publishTelemetry_def Let_def)
  then obtain t b g where "(t, b) \<in> set (batch_by_topic topic events [])" "g \<in> set b" "m = og_value g"
    using m by (auto simp: kafka_messages_def)
  then show ?thesis using batch_by_topic_sound by (fastforce simp: outgoing_of_def)
qed

section \<open>From an event of the stream to its batch\<close>

text \<open>The bytes of the answers up to and including event \<open>n\<close> have been written.\<close>

definition answered_event :: "device_socket \<Rightarrow> nat \<Rightarrow> bool" where
  "answered_event so n \<longleftrightarrow> n < length (fst (framer_push_all (new_framer None) (so_received so))) \<and>
     length (concat (map reply_to (take (Suc n) (fst (framer_push_all (new_framer None) (so_received so)))))) \<le> length (so_written so)"

lemma reply_to_packet: "reply_to (EvPacket p) \<noteq> []"
  by (cases p) (simp_all add: reply_to_def flip: length_0_conv)

lemma concat_take_length: "m \<le> n \<Longrightarrow> length (concat (map f (take m xs))) \<le> length (concat (map f (take n xs)))"
proof -
  assume "m \<le> n"
  then have "take n xs = take m xs @ take (n - m) (drop m xs)" by (metis le_add_diff_inverse take_add)
  then show ?thesis by simp
qed

lemma answered_before:
  assumes "so_written so = concat (map reply_to (take k evs))" "evs = fst (framer_push_all (new_framer None) (so_received so))"
    and "answered_event so n" "evs ! n = EvPacket p"
  shows "n < k"
proof (rule ccontr)
  assume "\<not> n < k"
  then have "length (so_written so) \<le> length (concat (map reply_to (take n evs)))"
    using concat_take_length [of k n reply_to evs] by (simp add: assms(1))
  moreover have "take (Suc n) evs = take n evs @ [evs ! n]"
    using assms(2,3) by (simp add: answered_event_def take_Suc_conv_app_nth)
  then have "length (concat (map reply_to (take (Suc n) evs))) =
      length (concat (map reply_to (take n evs))) + length (reply_to (evs ! n))" by simp
  moreover have "0 < length (reply_to (evs ! n))" using assms(4) reply_to_packet [of p] by simp
  moreover have "length (concat (map reply_to (take (Suc n) evs))) \<le> length (so_written so)"
    using assms(2,3) by (simp add: answered_event_def)
  ultimately show False by linarith
qed

lemma list_all2_member:
  "list_all2 P xs ys \<Longrightarrow> x \<in> set xs \<Longrightarrow> \<exists>y\<in>set ys. P x y"
  by (induction rule: list_all2_induct) auto

lemma answered_packet_stored:
  assumes run: "ingest_step\<^sup>*\<^sup>* new_server s" "ig_sockets s i = Some so"
    and evs: "evs = fst (framer_push_all (new_framer None) (so_received so))"
    and n: "answered_event so n" "evs ! n = EvPacket (CrcOk codec records)"
  shows "\<exists>batch\<in>set (stored_by i s). \<exists>imei now. device_imei evs = Some imei \<and>
    buildTelemetryEvents imei codec records now = Inr batch"
proof -
  obtain k m where km: "k \<le> m" "so_written so = concat (map reply_to (take k evs))"
    "list_all2 (batch_of (device_imei evs)) (filter intact (take m evs)) (stored_by i s)"
    using socket_history [OF run] evs by (auto simp: Let_def)
  have "n < k" by (rule answered_before [OF km(2) evs n])
  then have "evs ! n \<in> set (take m evs)"
    using km(1) n(1) evs by (auto simp: answered_event_def in_set_conv_nth intro!: exI [of _ n])
  then have "evs ! n \<in> set (filter intact (take m evs))" using n(2) by (simp add: intact_def)
  from list_all2_member [OF km(3) this] show ?thesis unfolding n(2) by (auto simp: batch_of_def)
qed

lemma built_member:
  assumes "buildTelemetryEvents imei codec records now = Inr batch" "j < length records"
  shows "\<exists>e\<in>set batch. build_event imei codec now (j, records ! j) = Inr e"
proof -
  have "mapE (build_event imei codec now) (List.enumerate 0 records) = Inr batch"
    using assms(1) by (simp add: buildTelemetryEvents_def)
  from mapE_Inr_nth [OF this] show ?thesis using assms(2)
    by (intro bexI [of _ "batch ! j"]) (auto simp: nth_enumerate_eq)
qed

lemma device_imei_valid:
  "device_imei (fst (framer_push_all (new_framer m) cs)) = Some imei \<Longrightarrow> isValidImei imei"
  using push_all_order [of m cs]
  by (cases "fst (framer_push_all (new_framer m) cs)"; cases "hd (fst (framer_push_all (new_framer m) cs))")
    (auto simp: device_imei_def)

section \<open>Properties\<close>

text \<open>A position the consumers accept: see \<open>built_event_valid_iff\<close>.\<close>

definition acceptable_position :: "avl_record \<Rightarrow> bool" where
  "acceptable_position r \<longleftrightarrow> gps_valid (avl_gps r) \<and> iso_datetime_ok (avl_timestampMs r) \<and>
     \<bar>gps_latitude (avl_gps r)\<bar> \<le> 90 \<and> \<bar>gps_longitude (avl_gps r)\<bar> \<le> 180 \<and> safe_int (gps_altitudeM (avl_gps r)) \<and>
     optional safe_int (readNumber (avl_io r) ID_externalVoltage) \<and>
     optional safe_int (readNumber (avl_io r) ID_batteryVoltage) \<and>
     optional safe_int (readNumber (avl_io r) ID_totalOdometer)"

text \<open>A position: latitude, longitude, altitude, heading, satellites and speed, as decoded, as published and as stored.\<close>

definition fix_position :: "gps_element \<Rightarrow> rat \<times> rat \<times> int \<times> int \<times> int \<times> int" where
  "fix_position g = (gps_latitude g, gps_longitude g, gps_altitudeM g, int (gps_angleDeg g), int (gps_satellites g), int (gps_speedKph g))"

definition event_position :: "telemetry_event \<Rightarrow> (rat \<times> rat \<times> int \<times> int \<times> int \<times> int) option" where
  "event_position e = map_option (\<lambda>g. (ng_latitude g, ng_longitude g, ng_altitudeM g, int (ng_angleDeg g),
     int (ng_satellites g), int (ng_speedKph g))) (te_gps e)"

definition row_position :: "location_row \<Rightarrow> rat \<times> rat \<times> int \<times> int \<times> int \<times> int" where
  "row_position r = (lo_latitude r, lo_longitude r, lo_altitudeM r, lo_angleDeg r, lo_satellites r, lo_speedKph r)"

lemma vehicle_id_inject:
  assumes "registry_ok w" "vehicle_id (wk_db w) a = Some i" "vehicle_id (wk_db w) b = Some i"
  shows "a = b"
proof -
  obtain u v where "u \<in> set (tb_vehicles (wk_db w))" "v \<in> set (tb_vehicles (wk_db w))" "ve_imei u = a" "ve_imei v = b"
    "ve_id u = i" "ve_id v = i"
    using assms(2,3) by (auto simp: vehicle_id_def find_vehicle_def find_Some_iff) (metis nth_mem)
  moreover have "distinct (map ve_id (tb_vehicles (wk_db w)))" using assms(1) by (simp add: registry_ok_def fleet_ok_def)
  ultimately show ?thesis by (metis inj_onD distinct_map)
qed

lemma location_of_values:
  "row \<in> set (location_of v e) \<Longrightarrow> te_recordedAt e = lo_recordedAt row \<and> event_position e = Some (row_position row)"
  by (cases "te_gps e") (auto simp: location_of_def event_position_def row_position_def)

lemma location_row_event:
  assumes "deliver_all createLocationsHandler batches w = Some w'" "registry_ok w"
    and "row \<in> set (tb_locations (wk_db w'))" "row \<notin> set (tb_locations (wk_db w))"
    and "vehicle_id (wk_db w') imei = Some (lo_vehicleId row)"
  shows "\<exists>e\<in>set (delivered batches). te_imei e = imei \<and> te_recordedAt e = lo_recordedAt row \<and> event_position e = Some (row_position row)"
proof -
  have "registry_ok w'" using location_writer.deliver_all_absorbs [OF assms(1,2)] by blast
  moreover obtain e where e: "e \<in> set (delivered batches)" "vehicle_id (wk_db w') (te_imei e) = Some (lo_vehicleId row)"
      "row \<in> set (location_of (lo_vehicleId row) e)"
    using location_writer.deliver_all_rows [OF assms(1,2)] assms(3,4) location_writer.rows_D by blast
  ultimately have "te_imei e = imei" using vehicle_id_inject assms(5) by blast
  moreover have "te_recordedAt e = lo_recordedAt row \<and> event_position e = Some (row_position row)"
    by (rule location_of_values [OF e(3)])
  ultimately show ?thesis using e(1) by blast
qed

text \<open>
  C10: an acknowledged position reaches the history, and as itself. Take any moment of the ingest server's life under
  full concurrency, a device's connection, and a packet of its byte stream whose acknowledgement has been written. Once
  the locations writer has consumed what Kafka holds of that connection (each accepted message at least once, in any
  batches, order and repetition), every acceptable position of the packet has a row under the device's vehicle and the
  instant the device recorded it. A row under that vehicle and instant that was not there before carries, in each of its
  six values, a position delivered for this device and instant; it is the acknowledged one unless the device reported
  different positions for the same instant, of which the table keeps only the first that was delivered.
\<close>

theorem acknowledged_position_reaches_history:
  assumes "ingest_step\<^sup>*\<^sup>* new_server s" "ig_sockets s i = Some so"
    and "evs = fst (framer_push_all (new_framer None) (so_received so))"
    and "answered_event so n" "evs ! n = EvPacket (CrcOk codec records)" "r \<in> set records" "acceptable_position r"
    and "\<forall>batch\<in>set (stored_by i s). \<forall>e\<in>set batch. iso_datetime_ok (te_receivedAt e)"
    and "\<forall>batch\<in>set (stored_by i s). \<forall>m\<in>set (kafka_messages options batch). \<forall>e.
      decodeTelemetryEvent m = Inr e \<longrightarrow> e \<in> set (delivered batches)"
    and "deliver_all createLocationsHandler batches w = Some w'" "registry_ok w"
  shows "\<exists>imei vehicle. device_imei evs = Some imei \<and> vehicle_id (wk_db w') imei = Some vehicle \<and>
    (\<exists>row\<in>set (tb_locations (wk_db w')). lo_vehicleId row = vehicle \<and> lo_recordedAt row = avl_timestampMs r) \<and>
    (\<exists>e\<in>set (delivered batches). te_imei e = imei \<and> te_recordedAt e = avl_timestampMs r \<and>
      event_position e = Some (fix_position (avl_gps r))) \<and>
    (\<forall>row\<in>set (tb_locations (wk_db w')) - set (tb_locations (wk_db w)).
      lo_vehicleId row = vehicle \<and> lo_recordedAt row = avl_timestampMs r \<longrightarrow>
      (\<exists>e\<in>set (delivered batches). te_imei e = imei \<and> te_recordedAt e = avl_timestampMs r \<and>
        event_position e = Some (row_position row)) \<and>
      ((\<forall>e\<in>set (delivered batches). te_imei e = imei \<and> te_recordedAt e = avl_timestampMs r \<and> event_position e \<noteq> None \<longrightarrow>
          event_position e = Some (fix_position (avl_gps r))) \<longrightarrow> row_position row = fix_position (avl_gps r)))"
proof -
  obtain batch imei now where b: "batch \<in> set (stored_by i s)" "device_imei evs = Some imei"
    "buildTelemetryEvents imei codec records now = Inr batch"
    using answered_packet_stored [OF assms(1-5)] by blast
  obtain j where j: "j < length records" "records ! j = r" using assms(6) by (auto simp: in_set_conv_nth)
  obtain e where e: "e \<in> set batch" "build_event imei codec now (j, r) = Inr e"
    using built_member [OF b(3) j(1)] j(2) by blast
  have imei: "isValidImei imei" using device_imei_valid b(2) unfolding assms(3) by blast
  have f: "te_imei e = imei" "te_recordedAt e = avl_timestampMs r" "te_receivedAt e = now"
    "event_position e = Some (fix_position (avl_gps r))"
    using e(2) assms(7)
    by (auto simp: build_event_Inr Let_def normalizeRecord_def acceptable_position_def event_position_def fix_position_def)
  have "iso_datetime_ok now" using assms(8) b(1) e(1) f(3) by blast
  then have valid: "telemetryEventSchema e"
    using built_event_valid [OF e(2) imei] assms(7) by (simp add: acceptable_position_def)
  have "EventJson e \<in> set (kafka_messages options batch)" by (rule kafka_messages_complete [OF e(1)])
  moreover have "decodeTelemetryEvent (EventJson e) = Inr e" using valid by simp
  ultimately have d: "e \<in> set (delivered batches)" using assms(9) b(1) by blast
  have has_fix: "te_gps e \<noteq> None" using f(4) by (auto simp: event_position_def)
  have "registry_ok w'" "location_writer.absorbed w' (delivered batches)"
    using location_writer.deliver_all_absorbs [OF assms(10,11)] by auto
  from location_writer.absorbed_row [OF this(2,1) d has_fix] obtain v where v: "vehicle_id (wk_db w') imei = Some v"
    "location_key ` set (location_of v e) \<subseteq> location_key ` set (tb_locations (wk_db w'))" unfolding f(1) by blast
  have "(v, avl_timestampMs r) \<in> location_key ` set (location_of v e)"
    using has_fix f(2) by (auto simp: location_of_def location_key_def)
  then have row: "\<exists>row\<in>set (tb_locations (wk_db w')). lo_vehicleId row = v \<and> lo_recordedAt row = avl_timestampMs r"
    using v(2) by (auto simp: location_key_def dest!: subsetD)
  have made: "\<exists>e\<in>set (delivered batches). te_imei e = imei \<and> te_recordedAt e = avl_timestampMs r \<and>
      event_position e = Some (row_position row)"
    if "row \<in> set (tb_locations (wk_db w')) - set (tb_locations (wk_db w))" "lo_vehicleId row = v \<and> lo_recordedAt row = avl_timestampMs r"
    for row
    using location_row_event [OF assms(10,11), of row imei] that v(1) by auto
  have event: "\<exists>e\<in>set (delivered batches). te_imei e = imei \<and> te_recordedAt e = avl_timestampMs r \<and>
      event_position e = Some (fix_position (avl_gps r))"
    using d f(1,2,4) by (intro bexI [of _ e]) simp_all
  have same: "row_position row = fix_position (avl_gps r)"
    if "row \<in> set (tb_locations (wk_db w')) - set (tb_locations (wk_db w))" "lo_vehicleId row = v \<and> lo_recordedAt row = avl_timestampMs r"
      "\<forall>e\<in>set (delivered batches). te_imei e = imei \<and> te_recordedAt e = avl_timestampMs r \<and> event_position e \<noteq> None \<longrightarrow>
        event_position e = Some (fix_position (avl_gps r))"
    for row
    using made [OF that(1,2)] that(3) by fastforce
  show ?thesis
  proof (rule exI [of _ imei], rule exI [of _ v], intro conjI ballI impI)
    show "device_imei evs = Some imei" "vehicle_id (wk_db w') imei = Some v" by (rule b(2), rule v(1))
  qed (rule row event made same; assumption)+
qed

section \<open>Witness\<close>

lemma placed_bounds: "\<bar>coordinate 546870000\<bar> \<le> 90" "\<bar>coordinate 252790000\<bar> \<le> 180"
  by code_simp+

lemma placed_acceptable: "acceptable_position (decoded_record False placed_record)"
  by (simp add: acceptable_position_def decoded_record_def placed_record_def sample_record_def decoded_gps_def
      encodeCoordinate_placed placed_bounds to_number_exact iso_datetime_ok_def safe_int_def MAX_SAFE_INTEGER_def optional_def
      readNumber_def decoded_io_def or_else_def kv_of_def js_get_set ID_externalVoltage_def ID_batteryVoltage_def
      ID_totalOdometer_def)

lemma placed_position: "fix_position (avl_gps (decoded_record False placed_record)) =
    (coordinate 546870000, coordinate 252790000, 112, 90, 7, 50)"
  by (simp add: fix_position_def decoded_record_def placed_record_def decoded_gps_def encodeCoordinate_placed)

text \<open>The events of the one placed record, once the server has built them.\<close>

lemma placed_events:
  assumes "buildTelemetryEvents sample_imei Codec8 [decoded_record False placed_record] 1700000001000 = Inr events" "e \<in> set events"
  shows "te_receivedAt e = 1700000001000" "telemetryEventSchema e" "int_gps_ok e" "isValidImei (te_imei e)"
    "event_position e = Some (fix_position (avl_gps (decoded_record False placed_record)))"
proof -
  have b: "build_event sample_imei Codec8 1700000001000 (0, decoded_record False placed_record) = Inr e"
    using assms by (auto simp: buildTelemetryEvents_def bindE_eq_Inr)
  show "te_receivedAt e = 1700000001000" "isValidImei (te_imei e)"
    using b sample_imei_valid by (simp_all add: build_event_Inr Let_def)
  show "telemetryEventSchema e"
    using built_event_valid [OF b sample_imei_valid] placed_acceptable by (simp add: acceptable_position_def iso_datetime_ok_def)
  show "int_gps_ok e"
    using b by (auto simp: build_event_Inr Let_def normalizeRecord_def int_gps_ok_def optional_def decoded_record_def
        placed_record_def decoded_gps_def int4_def int2_def)
  show "event_position e = Some (fix_position (avl_gps (decoded_record False placed_record)))"
    using b placed_acceptable
    by (auto simp: build_event_Inr Let_def normalizeRecord_def acceptable_position_def event_position_def fix_position_def)
qed

theorem acknowledged_position_reaches_history_witness:
  "\<exists>events w' vehicle row. createLocationsHandler (\<lambda>imei. imei) events Live sample_worker = (Inr (), w') \<and>
     vehicle_id (wk_db w') sample_imei = Some vehicle \<and> row \<in> set (tb_locations (wk_db w')) \<and>
     lo_vehicleId row = vehicle \<and> lo_recordedAt row = 1700000000000 \<and>
     row_position row = (coordinate 546870000, coordinate 252790000, 112, 90, 7, 50)"
proof -
  let ?r = "decoded_record False placed_record"
  have r: "placed_record \<in> {sample_record, broken_record, placed_record}" by simp
  have ts: "avl_timestampMs ?r = 1700000000000" by (simp add: decoded_record_def placed_record_def sample_record_def to_number_exact)
  have "\<not> (\<exists>err. buildTelemetryEvents sample_imei Codec8 [?r] 1700000001000 = Inl err)"
    by (subst build_fails) (simp_all add: ts)
  then obtain events where ev: "buildTelemetryEvents sample_imei Codec8 [?r] 1700000001000 = Inr events"
    by (metis sum.exhaust)
  note e = placed_events [OF ev]
  have "\<exists>w'. createLocationsHandler (\<lambda>imei. imei) events Live sample_worker = (Inr (), w')"
    by (rule location_writer.handler_total [OF sample_worker_ok])
      (use e in blast, rule location_check_ok, use e in blast, use e in blast)
  then obtain w' where h: "createLocationsHandler (\<lambda>imei. imei) events Live sample_worker = (Inr (), w')" ..
  let ?batches = "[(\<lambda>imei. imei, events, Live)]"
  have d: "deliver_all createLocationsHandler ?batches sample_worker = Some w'" "set (delivered ?batches) = set events"
    using h by (simp_all add: deliver_all_def delivered_def)
  let ?so = "(talking placed_record)\<lparr>so_phase := Reading, so_written := [0x01, 0, 0, 0, 1]\<rparr>"
  let ?s = "\<lparr>ig_sockets = [0 \<mapsto> ?so], ig_connections = [0], ig_listening = True, ig_stored = [(0, events)], ig_crash = None\<rparr>"
  let ?evs = "[EvImei sample_imei, EvPacket (CrcOk Codec8 [?r])]"
  have st: "stored_by 0 ?s = [events]" by (simp add: stored_by_def)
  have evs: "?evs = fst (framer_push_all (new_framer None) (so_received ?so))"
    using sample_stream [OF r] by (simp add: talking_def)
  have a: "answered_event ?so 1"
    unfolding answered_event_def evs [symmetric] by (simp add: reply_to_def buildImeiAck_def)
  have received: "\<forall>batch\<in>set (stored_by 0 ?s). \<forall>e\<in>set batch. iso_datetime_ok (te_receivedAt e)"
    using e(1) by (auto simp: st iso_datetime_ok_def)
  have kafka: "\<forall>batch\<in>set (stored_by 0 ?s). \<forall>m\<in>set (kafka_messages \<lparr>po_liveTopic = None, po_backfillTopic = None,
      po_backfillThresholdMs = None\<rparr> batch). \<forall>e. decodeTelemetryEvent m = Inr e \<longrightarrow> e \<in> set (delivered ?batches)"
    unfolding st d(2) using kafka_messages_sound by (fastforce split: if_splits)
  have none: "tb_locations (wk_db sample_worker) = []" by (simp add: sample_worker_def new_worker_def empty_telemetry_db_def)
  have "?evs ! 1 = EvPacket (CrcOk Codec8 [?r])" "ig_sockets ?s 0 = Some ?so" by simp_all
  from acknowledged_position_reaches_history [OF happens_reach [OF acknowledged_run [OF r ev]] this(2) evs a this(1)
      list.set_intros(1) placed_acceptable received kafka d(1) sample_worker_ok(1)]
  obtain vehicle row where v: "vehicle_id (wk_db w') sample_imei = Some vehicle" "row \<in> set (tb_locations (wk_db w'))"
      "lo_vehicleId row = vehicle" "lo_recordedAt row = 1700000000000"
    "(\<forall>e\<in>set (delivered ?batches). te_imei e = sample_imei \<and> te_recordedAt e = 1700000000000 \<and> event_position e \<noteq> None \<longrightarrow>
        event_position e = Some (fix_position (avl_gps ?r))) \<longrightarrow> row_position row = fix_position (avl_gps ?r)"
    unfolding ts none by (auto simp: device_imei_def)
  have "row_position row = fix_position (avl_gps ?r)" using v(5) e(5) unfolding d(2) by blast
  then show ?thesis using h v(1-4) unfolding placed_position by blast
qed

end
