(* ===== verification/Registry_Race.thy ===== *)
theory Registry_Race
  imports Vehicles
begin

text \<open>
  \<open>createVehicleRegistry\<close> of \<open>apps/telemetry-consumers/src/vehicles.ts\<close> under concurrency: any number of
  consumer processes, each with its own cache, and any number of \<open>resolve\<close> calls in flight (the four
  consumers of a process share a registry), interleaved at their two awaited statements.
  \<open>Vehicles\<close> has the same call run to completion.
\<close>

section \<open>Calls in flight\<close>

datatype call_stage = Called | Inserted | Found uuid | Failed thrown

record resolve_call =
  rc_process :: nat
  rc_imei :: string
  rc_stage :: call_stage

record fleet =
  fl_db :: telemetry_db
  fl_caches :: "nat \<Rightarrow> (string, uuid) jsmap"
  fl_calls :: "resolve_call list"

text \<open>A call of process \<open>p\<close>: the cached id, or on to the database.\<close>

definition resolve_begin :: "nat \<Rightarrow> string \<Rightarrow> fleet \<Rightarrow> fleet" where
  "resolve_begin p imei s = s\<lparr>fl_calls := fl_calls s @ [\<lparr>rc_process = p, rc_imei = imei,
     rc_stage = (case map_of (fl_caches s p) imei of Some hit \<Rightarrow> Found hit | None \<Rightarrow> Called)\<rparr>]\<rparr>"

text \<open>\<open>INSERT ... ON CONFLICT DO NOTHING\<close>, with the id the database draws.\<close>

definition resolve_insert :: "nat \<Rightarrow> uuid \<Rightarrow> fleet \<Rightarrow> fleet" where
  "resolve_insert k newId s = (case insert_vehicle newId (rc_imei (fl_calls s ! k)) (fl_db s) of
       (r, db) \<Rightarrow> s\<lparr>fl_db := db, fl_calls := (fl_calls s)[k := (fl_calls s ! k)
         \<lparr>rc_stage := (case r of Inl err \<Rightarrow> Failed err | Inr _ \<Rightarrow> Inserted)\<rparr>]\<rparr>)"

definition resolve_select :: "nat \<Rightarrow> fleet \<Rightarrow> fleet" where
  "resolve_select k s = (let c = fl_calls s ! k in case find_vehicle (rc_imei c) (fl_db s) of
       None \<Rightarrow> s\<lparr>fl_calls := (fl_calls s)[k := c\<lparr>rc_stage := Failed (vanished (rc_imei c))\<rparr>]\<rparr>
     | Some row \<Rightarrow> s\<lparr>fl_calls := (fl_calls s)[k := c\<lparr>rc_stage := Found (ve_id row)\<rparr>],
         fl_caches := (fl_caches s)(rc_process c := js_set (rc_imei c) (ve_id row) (fl_caches s (rc_process c)))\<rparr>)"

text \<open>Other statements of the platform leave \<open>vehicles\<close> alone; an id drawn at random is new.\<close>

inductive fleet_step :: "fleet \<Rightarrow> fleet \<Rightarrow> bool" where
  begins: "fleet_step s (resolve_begin p imei s)"
| inserts: "k < length (fl_calls s) \<Longrightarrow> rc_stage (fl_calls s ! k) = Called \<Longrightarrow> \<not> vehicle_exists (fl_db s) newId \<Longrightarrow>
    fleet_step s (resolve_insert k newId s)"
| selects: "k < length (fl_calls s) \<Longrightarrow> rc_stage (fl_calls s ! k) = Inserted \<Longrightarrow> fleet_step s (resolve_select k s)"
| elsewhere: "tb_vehicles db = tb_vehicles (fl_db s) \<Longrightarrow> fleet_step s (s\<lparr>fl_db := db\<rparr>)"
| restarts: "fleet_step s (s\<lparr>fl_caches := (fl_caches s)(p := []),
    fl_calls := filter (\<lambda>c. rc_process c \<noteq> p) (fl_calls s)\<rparr>)"

inductive_cases fleet_stepE: "fleet_step s t"

definition fleet_init :: "fleet \<Rightarrow> bool" where
  "fleet_init s \<longleftrightarrow> fleet_ok (fl_db s) \<and> (\<forall>p. fl_caches s p = []) \<and> fl_calls s = []"

section \<open>The invariant\<close>

text \<open>What the database must hold for a call to be where it is.\<close>

definition call_ok :: "telemetry_db \<Rightarrow> resolve_call \<Rightarrow> bool" where
  "call_ok db c \<longleftrightarrow> (case rc_stage c of
       Called \<Rightarrow> True
     | Inserted \<Rightarrow> vehicle_id db (rc_imei c) \<noteq> None
     | Found i \<Rightarrow> vehicle_id db (rc_imei c) = Some i
     | Failed err \<Rightarrow> err = DbErr (CheckViolation ''vehicles_imei_digits'') \<and> \<not> vehicles_imei_digits (rc_imei c))"

definition fleet_inv :: "fleet \<Rightarrow> bool" where
  "fleet_inv s \<longleftrightarrow> fleet_ok (fl_db s) \<and> (\<forall>p. cache_ok (fl_db s) (fl_caches s p)) \<and>
     (\<forall>c\<in>set (fl_calls s). call_ok (fl_db s) c)"

definition ids_kept :: "fleet \<Rightarrow> fleet \<Rightarrow> bool" where
  "ids_kept s t \<longleftrightarrow> (\<forall>imei i. vehicle_id (fl_db s) imei = Some i \<longrightarrow> vehicle_id (fl_db t) imei = Some i)"

lemma call_ok_grows: "fleet_grows db db' \<Longrightarrow> call_ok db c \<Longrightarrow> call_ok db' c"
  by (auto simp: call_ok_def dest: fleet_grows_id split: call_stage.splits)

lemma fleet_invI:
  assumes "fleet_inv s" "fleet_grows (fl_db s) db" "fleet_ok db"
    and "\<And>p. caches p = fl_caches s p \<or> cache_ok db (caches p)"
    and "\<And>c. c \<in> set calls \<Longrightarrow> c \<in> set (fl_calls s) \<or> call_ok db c"
  shows "fleet_inv \<lparr>fl_db = db, fl_caches = caches, fl_calls = calls\<rparr>"
  using assms fleet_grows_cache [OF assms(2)] call_ok_grows [OF assms(2)]
  unfolding fleet_inv_def by (simp, metis)

lemma fleet_inv_init: "fleet_init s \<Longrightarrow> fleet_inv s"
  by (simp add: fleet_init_def fleet_inv_def cache_ok_def)

lemma set_update_cases: "c \<in> set (xs[k := x]) \<Longrightarrow> c \<in> set xs \<or> c = x"
  using set_update_subset_insert by fastforce

lemma insert_inv:
  assumes "fleet_inv s" "\<not> vehicle_exists (fl_db s) newId"
  shows "fleet_inv (resolve_insert k newId s) \<and> fleet_grows (fl_db s) (fl_db (resolve_insert k newId s))"
proof -
  let ?c = "fl_calls s ! k"
  obtain r db where i: "insert_vehicle newId (rc_imei ?c) (fl_db s) = (r, db)" by fastforce
  have ok: "fleet_ok (fl_db s)" using assms(1) by (simp add: fleet_inv_def)
  have g: "fleet_grows (fl_db s) db" using insert_vehicle_grows [of "fl_db s" newId "rc_imei ?c"] i by simp
  have new: "fleet_ok db \<and> call_ok db (?c\<lparr>rc_stage := (case r of Inl err \<Rightarrow> Failed err | Inr _ \<Rightarrow> Inserted)\<rparr>)"
  proof (cases r)
    case (Inl err)
    then show ?thesis using i ok by (auto simp: insert_vehicle_def Let_def call_ok_def fleet_ok_def split: if_splits)
  next
    case (Inr u)
    then show ?thesis using insert_vehicle_spec [of newId "rc_imei ?c" "fl_db s" u db] i ok assms(2) by (simp add: call_ok_def)
  qed
  have "resolve_insert k newId s = \<lparr>fl_db = db, fl_caches = fl_caches s, fl_calls = (fl_calls s)
      [k := ?c\<lparr>rc_stage := (case r of Inl err \<Rightarrow> Failed err | Inr _ \<Rightarrow> Inserted)\<rparr>]\<rparr>"
    by (simp add: resolve_insert_def i)
  moreover have "fleet_inv \<dots>"
  proof (rule fleet_invI [OF assms(1) g])
    show "c \<in> set (fl_calls s) \<or> call_ok db c"
      if "c \<in> set ((fl_calls s)[k := ?c\<lparr>rc_stage := (case r of Inl err \<Rightarrow> Failed err | Inr _ \<Rightarrow> Inserted)\<rparr>])" for c
      using set_update_cases [OF that] new by blast
  qed (use new in simp_all)
  ultimately show ?thesis using g by simp
qed

lemma select_inv:
  assumes "fleet_inv s" "k < length (fl_calls s)" "rc_stage (fl_calls s ! k) = Inserted"
  shows "fleet_inv (resolve_select k s) \<and> fl_db (resolve_select k s) = fl_db s"
proof -
  let ?c = "fl_calls s ! k"
  have "call_ok (fl_db s) ?c" using assms(1,2) by (simp add: fleet_inv_def)
  then obtain row where row: "find_vehicle (rc_imei ?c) (fl_db s) = Some row"
    using assms(3) by (auto simp: call_ok_def vehicle_id_def)
  have ok: "fleet_ok (fl_db s)" using assms(1) by (simp add: fleet_inv_def)
  have "resolve_select k s = \<lparr>fl_db = fl_db s, fl_caches = (fl_caches s)(rc_process ?c :=
      js_set (rc_imei ?c) (ve_id row) (fl_caches s (rc_process ?c))), fl_calls = (fl_calls s)[k := ?c\<lparr>rc_stage := Found (ve_id row)\<rparr>]\<rparr>"
    by (simp add: resolve_select_def row Let_def)
  moreover have "fleet_inv \<dots>"
  proof (rule fleet_invI [OF assms(1) fleet_grows_refl ok])
    have "cache_ok (fl_db s) (js_set (rc_imei ?c) (ve_id row) (fl_caches s (rc_process ?c)))"
      using assms(1) row js_set_entries [of "rc_imei ?c" "ve_id row" "fl_caches s (rc_process ?c)"]
      by (fastforce simp: fleet_inv_def cache_ok_def vehicle_id_def)
    then show "((fl_caches s)(rc_process ?c := js_set (rc_imei ?c) (ve_id row) (fl_caches s (rc_process ?c)))) p = fl_caches s p \<or>
        cache_ok (fl_db s) (((fl_caches s)(rc_process ?c := js_set (rc_imei ?c) (ve_id row) (fl_caches s (rc_process ?c)))) p)" for p
      by simp
    show "c \<in> set (fl_calls s) \<or> call_ok (fl_db s) c" if "c \<in> set ((fl_calls s)[k := ?c\<lparr>rc_stage := Found (ve_id row)\<rparr>])" for c
      using set_update_cases [OF that] row by (auto simp: call_ok_def vehicle_id_def)
  qed
  ultimately show ?thesis by simp
qed

lemma fleet_step_inv:
  assumes "fleet_inv s" "fleet_step s t"
  shows "fleet_inv t \<and> ids_kept s t"
  using assms(2)
proof (cases rule: fleet_step.cases)
  case (begins p imei)
  have "call_ok (fl_db s) \<lparr>rc_process = p, rc_imei = imei,
      rc_stage = (case map_of (fl_caches s p) imei of Some hit \<Rightarrow> Found hit | None \<Rightarrow> Called)\<rparr>"
    using assms(1) by (auto simp: call_ok_def fleet_inv_def cache_ok_def dest!: map_of_SomeD split: option.splits)
  then show ?thesis using assms(1) by (auto simp: begins resolve_begin_def fleet_inv_def ids_kept_def)
next
  case (inserts k newId)
  note g = insert_inv [OF assms(1) inserts(4), of k]
  show ?thesis unfolding inserts(1) ids_kept_def using g fleet_grows_id [OF conjunct2 [OF g]] by blast
next
  case (selects k)
  then show ?thesis using select_inv [OF assms(1)] by (simp add: ids_kept_def)
next
  case (elsewhere db)
  have v: "vehicle_id db = vehicle_id (fl_db s)" "fleet_ok db = fleet_ok (fl_db s)"
    by (simp_all add: vehicle_id_def find_vehicle_def fleet_ok_def elsewhere fun_eq_iff)
  moreover have "call_ok db = call_ok (fl_db s)"
    by (simp add: call_ok_def fun_eq_iff v split: call_stage.split)
  ultimately show ?thesis using assms(1) unfolding elsewhere(1) by (simp add: fleet_inv_def cache_ok_def ids_kept_def)
next
  case (restarts p)
  then show ?thesis using assms(1) by (simp add: fleet_inv_def cache_ok_def ids_kept_def)
qed

interpretation registries: step_system fleet_init fleet_step fleet_inv ids_kept
proof unfold_locales
  show "ids_kept s u" if "ids_kept s t" "ids_kept t u" for s t u using that by (simp add: ids_kept_def)
qed (use fleet_inv_init fleet_step_inv in \<open>auto simp: ids_kept_def\<close>)

section \<open>Property\<close>

text \<open>
  C26: however the processes race on a new device, they agree. At any moment every call that has returned for
  an IMEI, in any process, returned the one id its only row has, and it stays the id for ever. A call whose
  insert went through finds the row when it looks: none ends in the \<open>vanished\<close> error, and none fails unless the IMEI is
  not 15 digits.
\<close>

theorem registries_agree:
  assumes "fleet_init s0" "fleet_step\<^sup>*\<^sup>* s0 s" "fleet_step\<^sup>*\<^sup>* s t"
    and "c \<in> set (fl_calls s)" "d \<in> set (fl_calls t)" "rc_imei d = rc_imei c"
  shows "(\<forall>i j. rc_stage c = Found i \<and> rc_stage d = Found j \<longrightarrow> i = j) \<and>
    (\<forall>i. rc_stage c = Found i \<longrightarrow> vehicle_id (fl_db t) (rc_imei c) = Some i \<and>
      length (filter (\<lambda>v. ve_imei v = rc_imei c) (tb_vehicles (fl_db t))) = 1) \<and>
    (\<forall>k. k < length (fl_calls s) \<and> rc_stage (fl_calls s ! k) = Inserted \<longrightarrow>
      (\<exists>i. rc_stage (fl_calls (resolve_select k s) ! k) = Found i)) \<and>
    (\<forall>err. rc_stage c = Failed err \<longrightarrow> \<not> vehicles_imei_digits (rc_imei c))"
proof -
  have inv: "fleet_inv s" by (rule registries.reachable_inv [OF assms(1,2)])
  have inv': "fleet_inv t" by (rule registries.runs_inv [OF assms(3) inv])
  have kept: "ids_kept s t" by (rule registries.runs_keeps [OF assms(3) inv])
  have c: "call_ok (fl_db s) c" and d: "call_ok (fl_db t) d" using inv inv' assms(4,5) by (simp_all add: fleet_inv_def)
  have found: "vehicle_id (fl_db t) (rc_imei c) = Some i" if "rc_stage c = Found i" for i
    using c kept that by (simp add: call_ok_def ids_kept_def)
  have one: "length (filter (\<lambda>v. ve_imei v = rc_imei c) (tb_vehicles (fl_db t))) = 1" if f: "rc_stage c = Found i" for i
  proof -
    have "\<exists>v\<in>set (tb_vehicles (fl_db t)). ve_imei v = rc_imei c"
      using found [OF f] by (auto simp: vehicle_id_def find_vehicle_def dest!: find_eq_Some_set)
    moreover have "distinct (map ve_imei (tb_vehicles (fl_db t)))" using inv' by (simp add: fleet_inv_def fleet_ok_def)
    moreover have "distinct (map ve_imei vs) \<Longrightarrow> \<exists>v\<in>set vs. ve_imei v = x \<Longrightarrow> length (filter (\<lambda>v. ve_imei v = x) vs) = 1" for vs x
      by (induction vs) (auto simp: filter_empty_conv image_iff)
    ultimately show ?thesis by blast
  qed
  have sel: "\<exists>i. rc_stage (fl_calls (resolve_select k s) ! k) = Found i"
    if "k < length (fl_calls s)" "rc_stage (fl_calls s ! k) = Inserted" for k
  proof -
    have "call_ok (fl_db s) (fl_calls s ! k)" using inv that(1) by (simp add: fleet_inv_def)
    then show ?thesis using that by (auto simp: call_ok_def vehicle_id_def resolve_select_def Let_def)
  qed
  have "i = j" if "rc_stage c = Found i" "rc_stage d = Found j" for i j
    using found [OF that(1)] d that(2) assms(6) by (simp add: call_ok_def)
  then show ?thesis using found one sel c by (auto simp: call_ok_def)
qed

section \<open>Witness\<close>

definition race_imei :: string where
  "race_imei = ''356307042441013''"

text \<open>Two processes miss their caches, both insert, the second reads first.\<close>

definition race_start :: fleet where
  "race_start = \<lparr>fl_db = empty_telemetry_db, fl_caches = (\<lambda>_. []), fl_calls = []\<rparr>"

definition race_called :: fleet where
  "race_called = resolve_begin 1 race_imei (resolve_begin 0 race_imei race_start)"

definition race_inserted :: fleet where
  "race_inserted = resolve_insert 1 ''v2'' (resolve_insert 0 ''v1'' race_called)"

definition race_over :: fleet where
  "race_over = resolve_select 0 (resolve_select 1 race_inserted)"

lemma race_init: "fleet_init race_start"
  by (simp add: fleet_init_def race_start_def fleet_ok_def empty_telemetry_db_def)

lemma race_guards:
  "length (fl_calls race_called) = 2 \<and> map rc_stage (fl_calls race_called) = [Called, Called] \<and> \<not> vehicle_exists (fl_db race_called) ''v1''"
  "map rc_stage (fl_calls (resolve_insert 0 ''v1'' race_called)) = [Inserted, Called] \<and> \<not> vehicle_exists (fl_db (resolve_insert 0 ''v1'' race_called)) ''v2''"
  "map rc_stage (fl_calls race_inserted) = [Inserted, Inserted]"
  "map rc_stage (fl_calls (resolve_select 1 race_inserted)) = [Inserted, Found ''v1'']"
  "map rc_stage (fl_calls race_over) = [Found ''v1'', Found ''v1''] \<and> map rc_imei (fl_calls race_over) = [race_imei, race_imei]"
  by code_simp+

lemma stage_at: "map rc_stage cs = ss \<Longrightarrow> k < length ss \<Longrightarrow> k < length cs \<and> rc_stage (cs ! k) = ss ! k"
  by auto

lemma race_run: "fleet_step\<^sup>*\<^sup>* race_start race_over"
proof -
  have "fleet_step (resolve_begin 0 race_imei race_start) race_called" "fleet_step race_start (resolve_begin 0 race_imei race_start)"
    unfolding race_called_def by (rule begins)+
  moreover have "fleet_step race_called (resolve_insert 0 ''v1'' race_called)"
    by (rule inserts) (use race_guards(1) stage_at [of "fl_calls race_called" _ 0] in auto)
  moreover have "fleet_step (resolve_insert 0 ''v1'' race_called) race_inserted"
    unfolding race_inserted_def
    by (rule inserts) (use race_guards(2) stage_at [of "fl_calls (resolve_insert 0 ''v1'' race_called)" _ 1] in auto)
  moreover have "fleet_step race_inserted (resolve_select 1 race_inserted)"
    by (rule selects) (use stage_at [OF race_guards(3), of 1] in auto)
  moreover have "fleet_step (resolve_select 1 race_inserted) race_over"
    unfolding race_over_def by (rule selects) (use stage_at [OF race_guards(4), of 0] in auto)
  ultimately show ?thesis by (meson converse_rtranclp_into_rtranclp rtranclp.rtrancl_refl)
qed

theorem registries_agree_witness:
  "map rc_stage (fl_calls race_over) = [Found ''v1'', Found ''v1''] \<and> vehicle_id (fl_db race_over) race_imei = Some ''v1''"
proof -
  obtain c where c: "c \<in> set (fl_calls race_over)" "rc_stage c = Found ''v1''" "rc_imei c = race_imei"
    using race_guards(5) by (cases "fl_calls race_over") auto
  from registries_agree [OF race_init race_run rtranclp.rtrancl_refl c(1) c(1) refl] c(2,3) race_guards(5) show ?thesis by simp
qed

end
