(* ===== verification/Submission_Race.thy ===== *)
theory Submission_Race
  imports Job_Queue
begin

text \<open>
  \<open>TransferService.create\<close> of \<open>apps/app-apis/src/modules/transfers/service.ts\<close> under concurrency: it is not a
  transaction, so any number of submissions, of any number of API processes, interleave at their awaited
  statements with each other and with everything else the platform does. \<open>Transfers\<close> has the same call run to
  completion.
\<close>

section \<open>Submissions in flight\<close>

text \<open>Where a call is: before \<open>assertAccountsExist\<close>, the insert, the select of \<open>replay\<close>, or the enqueue.\<close>

datatype submit_stage =
    Submitted
  | Checked
  | Replaying
  | Enqueuing transfer_row bool \<comment> \<open>the row to answer with, and \<open>created\<close>\<close>
  | Answered create_transfer_result
  | Refused thrown
  | Gone \<comment> \<open>the process died\<close>

record submission =
  sb_input :: create_transfer_input
  sb_stage :: submit_stage

definition submit_begin :: "create_transfer_input \<Rightarrow> submission" where
  "submit_begin input = \<lparr>sb_input = input, sb_stage =
     (if ci_fromAccountId input = ci_toAccountId input
      then Refused (AppErr (UnprocessableError SAME_ACCOUNT ''Cannot transfer an amount to the same account'' None))
      else Submitted)\<rparr>"

definition submit_check :: "submission \<Rightarrow> bank_state \<Rightarrow> submission" where
  "submit_check c b = c\<lparr>sb_stage := (case assertAccountsExist (sb_input c) (bs_db b) of (Inl err, _) \<Rightarrow> Refused err | _ \<Rightarrow> Checked)\<rparr>"

definition submit_insert :: "(string \<Rightarrow> string) \<Rightarrow> uuid \<Rightarrow> int \<Rightarrow> submission \<Rightarrow> bank_state \<Rightarrow> submission \<times> bank_state" where
  "submit_insert sha newId now c b = (let input = sb_input c in
     case on_db (insert_transfer newId now
         \<lparr>tv_idempotencyKey = Some (ci_idempotencyKey input), tv_requestHash = Some (hashRequest sha input),
          tv_fromAccountId = Some (ci_fromAccountId input), tv_toAccountId = ci_toAccountId input,
          tv_amountCents = ci_amountCents input, tv_status = Pending, tv_completedAt = None\<rparr>) b of
       (Inl err, b') \<Rightarrow> (c\<lparr>sb_stage := if isUniqueViolation err then Replaying else Refused err\<rparr>, b')
     | (Inr pending, b') \<Rightarrow> (c\<lparr>sb_stage := Enqueuing pending True\<rparr>, b'))"

definition submit_replay :: "(string \<Rightarrow> string) \<Rightarrow> submission \<Rightarrow> bank_state \<Rightarrow> submission" where
  "submit_replay sha c b = (let key = ci_idempotencyKey (sb_input c) in
     c\<lparr>sb_stage := (case find_key key (bs_db b) of
         None \<Rightarrow> Refused (PlainErr (''Transfer with idempotency key '' @ key @ '' not found''))
       | Some r \<Rightarrow> let row = read_transfer r in
           if tr_requestHash row \<noteq> Some (hashRequest sha (sb_input c))
           then Refused (AppErr (ConflictError IDEMPOTENCY_KEY_REUSED
             ''This Idempotency-Key was already used with a different payload'' None))
           else if tr_status row = Pending then Enqueuing row False
           else Answered \<lparr>cr_transfer = row, cr_created = False\<rparr>)\<rparr>)"

definition submit_enqueue :: "bool \<Rightarrow> submission \<Rightarrow> bank_state \<Rightarrow> submission \<times> bank_state" where
  "submit_enqueue up c b = (case sb_stage c of
       Enqueuing row created \<Rightarrow> (case enqueueTransfer up (tr_id row) (ci_idempotencyKey (sb_input c)) b of
           (Inl err, b') \<Rightarrow> (c\<lparr>sb_stage := Refused err\<rparr>, b')
         | (Inr _, b') \<Rightarrow> (c\<lparr>sb_stage := Answered \<lparr>cr_transfer = row, cr_created = created\<rparr>\<rparr>, b'))
     | _ \<Rightarrow> (c, b))"

text \<open>One call alone, stage by stage, is the service's \<open>create\<close>.\<close>

definition submit_alone :: "(string \<Rightarrow> string) \<Rightarrow> bool \<Rightarrow> uuid \<Rightarrow> int \<Rightarrow> create_transfer_input \<Rightarrow> bank_state \<Rightarrow> submission \<times> bank_state" where
  "submit_alone sha up newId now input b =
     (let c = submit_begin input;
          c = (if sb_stage c = Submitted then submit_check c b else c);
          (c, b) = (if sb_stage c = Checked then submit_insert sha newId now c b else (c, b));
          c = (if sb_stage c = Replaying then submit_replay sha c b else c)
      in submit_enqueue up c b)"

definition outcome :: "submission \<Rightarrow> thrown + create_transfer_result" where
  "outcome c = (case sb_stage c of Answered r \<Rightarrow> Inr r | Refused err \<Rightarrow> Inl err | _ \<Rightarrow> Inl (PlainErr []))"

lemma submit_alone_is_create:
  "transfer_create sha up newId now input b = (case submit_alone sha up newId now input b of (c, b') \<Rightarrow> (outcome c, b'))"
proof (cases "ci_fromAccountId input = ci_toAccountId input")
  case True
  then show ?thesis
    by (simp add: submit_alone_def submit_begin_def submit_enqueue_def transfer_create_def outcome_def Let_def)
next
  case False
  obtain q db where a: "assertAccountsExist input (bs_db b) = (q, db)" by fastforce
  then have db: "db = bs_db b" by (rule assertAccountsExist_snd)
  show ?thesis
  proof (cases q)
    case (Inl err)
    then show ?thesis using False a db
      by (simp add: submit_alone_def submit_begin_def submit_check_def submit_enqueue_def transfer_create_def outcome_def
          on_db_def op_bind_def Let_def)
  next
    case (Inr u)
    let ?v = "\<lparr>tv_idempotencyKey = Some (ci_idempotencyKey input), tv_requestHash = Some (hashRequest sha input),
       tv_fromAccountId = Some (ci_fromAccountId input), tv_toAccountId = ci_toAccountId input,
       tv_amountCents = ci_amountCents input, tv_status = Pending, tv_completedAt = None\<rparr>"
    obtain r db' where i: "insert_transfer newId now ?v (bs_db b) = (r, db')" by fastforce
    have alone: "submit_alone sha up newId now input b = (let (c, b1) = submit_insert sha newId now \<lparr>sb_input = input, sb_stage = Checked\<rparr> b
        in submit_enqueue up (if sb_stage c = Replaying then submit_replay sha c b1 else c) b1)"
      using False a Inr by (simp add: submit_alone_def submit_begin_def submit_check_def Let_def split_beta)
    show ?thesis
      unfolding alone using False a db Inr i
      by (cases r)
        (auto simp: submit_insert_def submit_replay_def submit_enqueue_def transfer_create_def transfer_replay_def outcome_def
          on_db_def op_bind_def enqueueTransfer_def Let_def split: option.splits)
  qed
qed

section \<open>The race\<close>

record submissions =
  sr_bank :: bank_state
  sr_calls :: "submission list"

definition advance :: "nat \<Rightarrow> submission \<times> bank_state \<Rightarrow> submissions \<Rightarrow> submissions" where
  "advance k cb s = s\<lparr>sr_bank := snd cb, sr_calls := (sr_calls s)[k := fst cb]\<rparr>"

text \<open>
  Requests arrive validated; an id drawn at random is new; \<open>elsewhere\<close> is any other command of the platform, whole
  submissions and job deliveries included.
\<close>

inductive race_step :: "(string \<Rightarrow> string) \<Rightarrow> submissions \<Rightarrow> submissions \<Rightarrow> bool" for sha where
  begins: "positiveCents (ci_amountCents input) \<Longrightarrow> race_step sha s (s\<lparr>sr_calls := sr_calls s @ [submit_begin input]\<rparr>)"
| checks: "k < length (sr_calls s) \<Longrightarrow> sb_stage (sr_calls s ! k) = Submitted \<Longrightarrow>
    race_step sha s (advance k (submit_check (sr_calls s ! k) (sr_bank s), sr_bank s) s)"
| inserts: "k < length (sr_calls s) \<Longrightarrow> sb_stage (sr_calls s ! k) = Checked \<Longrightarrow> find_transfer newId (bs_db (sr_bank s)) = None \<Longrightarrow>
    race_step sha s (advance k (submit_insert sha newId now (sr_calls s ! k) (sr_bank s)) s)"
| replays: "k < length (sr_calls s) \<Longrightarrow> sb_stage (sr_calls s ! k) = Replaying \<Longrightarrow>
    race_step sha s (advance k (submit_replay sha (sr_calls s ! k) (sr_bank s), sr_bank s) s)"
| enqueues: "k < length (sr_calls s) \<Longrightarrow> sb_stage (sr_calls s ! k) = Enqueuing row created \<Longrightarrow>
    race_step sha s (advance k (submit_enqueue up (sr_calls s ! k) (sr_bank s)) s)"
| elsewhere: "bank_step sha (sr_bank s) b \<Longrightarrow> race_step sha s (s\<lparr>sr_bank := b\<rparr>)"
| dies: "k < length (sr_calls s) \<Longrightarrow> \<forall>r. sb_stage (sr_calls s ! k) \<noteq> Answered r \<Longrightarrow>
    race_step sha s (advance k ((sr_calls s ! k)\<lparr>sb_stage := Gone\<rparr>, sr_bank s) s)"

definition race_begins :: "submissions \<Rightarrow> bool" where
  "race_begins s \<longleftrightarrow> initial_state (sr_bank s) \<and> sr_calls s = []"

section \<open>The invariant\<close>

definition sb_key :: "submission \<Rightarrow> string" where
  "sb_key c = ci_idempotencyKey (sb_input c)"

text \<open>A row is stored under the key, with the payload's digest and the id \<open>i\<close>.\<close>

definition stored_under :: "string \<Rightarrow> string \<Rightarrow> bank_db \<Rightarrow> uuid \<Rightarrow> bool" where
  "stored_under k h db i \<longleftrightarrow> (\<exists>t\<in>set (transfers db). tr_id t = i \<and> tr_idempotencyKey t = Some k \<and> tr_requestHash t = Some h)"

definition key_taken :: "string \<Rightarrow> bank_db \<Rightarrow> bool" where
  "key_taken k db \<longleftrightarrow> (\<exists>t\<in>set (transfers db). tr_idempotencyKey t = Some k)"

definition call_fine :: "(string \<Rightarrow> string) \<Rightarrow> bank_state \<Rightarrow> submission \<Rightarrow> bool" where
  "call_fine sha b c \<longleftrightarrow> positiveCents (ci_amountCents (sb_input c)) \<and>
     (case sb_stage c of
        Replaying \<Rightarrow> key_taken (sb_key c) (bs_db b)
      | Enqueuing row created \<Rightarrow> stored_under (sb_key c) (hashRequest sha (sb_input c)) (bs_db b) (tr_id row)
      | Answered r \<Rightarrow> stored_under (sb_key c) (hashRequest sha (sb_input c)) (bs_db b) (tr_id (cr_transfer r)) \<and>
          (\<lparr>job_id = sb_key c, job_transferId = tr_id (cr_transfer r)\<rparr> \<in> set (bs_added b) \<or> tr_status (cr_transfer r) \<noteq> Pending)
      | Refused err \<Rightarrow> err \<noteq> PlainErr (''Transfer with idempotency key '' @ sb_key c @ '' not found'')
      | _ \<Rightarrow> True)"

text \<open>The id of the row a call inserted itself, as long as the call has it.\<close>

definition created_id :: "submission \<Rightarrow> uuid option" where
  "created_id c = (case sb_stage c of
       Enqueuing row created \<Rightarrow> if created then Some (tr_id row) else None
     | Answered r \<Rightarrow> if cr_created r then Some (tr_id (cr_transfer r)) else None
     | _ \<Rightarrow> None)"

definition creators_differ :: "submission list \<Rightarrow> bool" where
  "creators_differ cs \<longleftrightarrow> (\<forall>k l. k < length cs \<and> l < length cs \<and> k \<noteq> l \<and> created_id (cs ! k) \<noteq> None \<longrightarrow>
     created_id (cs ! k) \<noteq> created_id (cs ! l))"

definition race_inv :: "(string \<Rightarrow> string) \<Rightarrow> submissions \<Rightarrow> bool" where
  "race_inv sha s \<longleftrightarrow> state_ok (sr_bank s) \<and> list_all (call_fine sha (sr_bank s)) (sr_calls s) \<and> creators_differ (sr_calls s)"

lemma stored_kept: "history_kept db db' \<Longrightarrow> stored_under k h db i \<Longrightarrow> stored_under k h db' i"
  unfolding stored_under_def history_kept_def by (metis decided_from_def)

lemma taken_kept: "history_kept db db' \<Longrightarrow> key_taken k db \<Longrightarrow> key_taken k db'"
  unfolding key_taken_def history_kept_def by (metis decided_from_def)

lemma stored_unique:
  "bank_inv db \<Longrightarrow> stored_under k h db i \<Longrightarrow> stored_under k h' db j \<Longrightarrow> i = j \<and> h = h'"
  unfolding stored_under_def using key_unique by (metis option.inject)

lemma call_fine_kept: "state_kept b b' \<Longrightarrow> call_fine sha b c \<Longrightarrow> call_fine sha b' c"
  by (cases "sb_stage c") (auto simp: call_fine_def state_kept_def intro: stored_kept taken_kept)

lemma created_stored: "call_fine sha b c \<Longrightarrow> created_id c = Some i \<Longrightarrow> stored_under (sb_key c) (hashRequest sha (sb_input c)) (bs_db b) i"
  by (auto simp: created_id_def call_fine_def split: submit_stage.splits if_splits)

text \<open>A call that moves on keeps the invariant if it does not claim another call's row.\<close>

lemma advance_inv:
  assumes inv: "race_inv sha s" and k: "k < length (sr_calls s)"
    and b: "state_ok b" "state_kept (sr_bank s) b" and c: "call_fine sha b c"
    and new: "created_id c = None \<or> created_id c = created_id (sr_calls s ! k) \<or>
      (\<exists>i. created_id c = Some i \<and> find_transfer i (bs_db (sr_bank s)) = None)"
  shows "race_inv sha (advance k (c, b) s)"
proof -
  have fine: "call_fine sha (sr_bank s) (sr_calls s ! l)" if "l < length (sr_calls s)" for l
    using inv that by (simp add: race_inv_def list_all_length)
  have other: "created_id c \<noteq> created_id (sr_calls s ! l)" if "l < length (sr_calls s)" "l \<noteq> k" "created_id c \<noteq> None" for l
    using new
  proof (elim disjE exE conjE)
    assume "created_id c = created_id (sr_calls s ! k)"
    then show ?thesis using inv k that unfolding race_inv_def creators_differ_def by metis
  next
    fix i assume i: "created_id c = Some i" "find_transfer i (bs_db (sr_bank s)) = None"
    show ?thesis
    proof
      assume "created_id c = created_id (sr_calls s ! l)"
      then have "stored_under (sb_key (sr_calls s ! l)) (hashRequest sha (sb_input (sr_calls s ! l))) (bs_db (sr_bank s)) i"
        using created_stored [OF fine [OF that(1)]] i(1) by simp
      then obtain t where "t \<in> set (transfers (bs_db (sr_bank s)))" "tr_id t = i" by (auto simp: stored_under_def)
      then show False using i(2) by (auto simp: find_transfer_def find_None_iff)
    qed
  qed (use that in simp)
  have "creators_differ ((sr_calls s)[k := c])"
    unfolding creators_differ_def
  proof (intro allI impI)
    fix m l assume h: "m < length ((sr_calls s)[k := c]) \<and> l < length ((sr_calls s)[k := c]) \<and> m \<noteq> l \<and>
      created_id ((sr_calls s)[k := c] ! m) \<noteq> None"
    consider "m = k" | "l = k" | "m \<noteq> k" "l \<noteq> k" by blast
    then show "created_id ((sr_calls s)[k := c] ! m) \<noteq> created_id ((sr_calls s)[k := c] ! l)"
    proof cases
      case 1
      then show ?thesis using h k other [of l] by simp
    next
      case 2
      then show ?thesis using h k other [of m] by (cases "created_id c") (auto dest: sym)
    next
      case 3
      then show ?thesis using h inv by (simp add: race_inv_def creators_differ_def)
    qed
  qed
  moreover have "list_all (call_fine sha b) ((sr_calls s)[k := c])"
    using fine call_fine_kept [OF b(2)] c k by (simp add: list_all_length nth_list_update)
  ultimately show ?thesis using b(1) by (simp add: race_inv_def advance_def)
qed

lemma state_kept_same: "bs_added b' = bs_added b \<Longrightarrow> transfers (bs_db b') = transfers (bs_db b) \<Longrightarrow> state_kept b b'"
  by (simp add: state_kept_def history_kept_same)

lemma insert_stage:
  assumes ok: "state_ok b" and c: "call_fine sha b c" and new: "find_transfer newId (bs_db b) = None"
    and run: "submit_insert sha newId now c b = (c', b')"
  shows "state_ok b' \<and> state_kept b b' \<and> call_fine sha b' c' \<and> (created_id c' = None \<or> created_id c' = Some newId)"
proof -
  let ?input = "sb_input c"
  let ?v = "\<lparr>tv_idempotencyKey = Some (ci_idempotencyKey ?input), tv_requestHash = Some (hashRequest sha ?input),
    tv_fromAccountId = Some (ci_fromAccountId ?input), tv_toAccountId = ci_toAccountId ?input,
    tv_amountCents = ci_amountCents ?input, tv_status = Pending, tv_completedAt = None\<rparr>"
  obtain q db where ins: "insert_transfer newId now ?v (bs_db b) = (q, db)" by fastforce
  have b': "b' = b\<lparr>bs_db := db\<rparr>"
    using run ins by (cases q) (auto simp: submit_insert_def on_db_def Let_def)
  show ?thesis
  proof (cases q)
    case (Inl err)
    have c': "c' = c\<lparr>sb_stage := if isUniqueViolation err then Replaying else Refused err\<rparr>"
      using run ins Inl by (simp add: submit_insert_def on_db_def Let_def)
    have db: "transfers db = transfers (bs_db b)" "accounts db = accounts (bs_db b)" "seq_transfers (bs_db b) \<le> seq_transfers db"
      using ins Inl by (auto simp: insert_transfer_def Let_def split: if_splits)
    have "state_ok b'"
      using ok db bank_inv_frame [of "bs_db b" db] jobs_ok_kept [of b db] history_kept_same by (auto simp: state_ok_def b')
    moreover have "isUniqueViolation err \<Longrightarrow> key_taken (sb_key c) db"
      using ins Inl new find_key_in [of "ci_idempotencyKey ?input" "bs_db b"]
      by (auto simp: insert_transfer_def Let_def key_taken_def sb_key_def split: if_splits)
    moreover have "err \<noteq> PlainErr x" for x
      using ins Inl by (auto simp: insert_transfer_def Let_def split: if_splits)
    ultimately show ?thesis
      using c db(1) by (simp add: c' b' call_fine_def state_kept_same created_id_def sb_key_def)
  next
    case (Inr pending)
    let ?row = "pending_row sha newId now ?input (seq_transfers (bs_db b))"
    have c': "c' = c\<lparr>sb_stage := Enqueuing pending True\<rparr>"
      using run ins Inr by (simp add: submit_insert_def on_db_def Let_def)
    have row: "pending = read_transfer ?row"
        "db = (bs_db b)\<lparr>seq_transfers := seq_transfers (bs_db b) + 1, transfers := transfers (bs_db b) @ [?row]\<rparr>"
      and g: "find_key (ci_idempotencyKey ?input) (bs_db b) = None" "find_account (ci_fromAccountId ?input) (bs_db b) \<noteq> None"
        "find_account (ci_toAccountId ?input) (bs_db b) \<noteq> None" "ci_fromAccountId ?input \<noteq> ci_toAccountId ?input"
      using ins Inr by (auto simp: insert_transfer_def Let_def pending_row_def split: if_splits)
    have "transfer_ok (account_ids (bs_db b)) ?row"
      using c g find_account_in
      by (auto simp: transfer_ok_def pending_row_def account_ids_def call_fine_def positiveCents_def)
    then have "bank_inv db"
      unfolding row(2) using ok new g(1) by (intro bank_inv_insert_transfer) (simp_all add: pending_row_def state_ok_def)
    moreover have h: "history_kept (bs_db b) db" by (rule history_kept_append) (simp add: row(2))
    moreover have "jobs_ok (b\<lparr>bs_db := db\<rparr>)" using jobs_ok_kept [OF _ h] ok by (simp add: state_ok_def)
    ultimately show ?thesis
      using c by (auto simp: c' b' state_ok_def state_kept_def call_fine_def stored_under_def created_id_def row sb_key_def
          read_transfer_def pending_row_def)
  qed
qed

lemma replay_stage:
  assumes "call_fine sha b c" "sb_stage c = Replaying"
  shows "call_fine sha b (submit_replay sha c b) \<and> created_id (submit_replay sha c b) = None \<and>
    sb_stage (submit_replay sha c b) \<noteq> Refused (PlainErr (''Transfer with idempotency key '' @ sb_key c @ '' not found''))"
proof -
  have "key_taken (sb_key c) (bs_db b)" using assms by (simp add: call_fine_def)
  then obtain r where r: "find_key (sb_key c) (bs_db b) = Some r"
    by (cases "find_key (sb_key c) (bs_db b)") (auto simp: key_taken_def find_key_def find_None_iff)
  then show ?thesis
    using assms find_key_in [OF r]
    by (auto simp: submit_replay_def call_fine_def created_id_def stored_under_def sb_key_def Let_def read_transfer_def)
qed

lemma enqueue_stage:
  assumes ok: "state_ok b" and c: "call_fine sha b c" "sb_stage c = Enqueuing row created"
    and run: "submit_enqueue up c b = (c', b')"
  shows "state_ok b' \<and> state_kept b b' \<and> call_fine sha b' c' \<and> (created_id c' = None \<or> created_id c' = created_id c)"
proof (cases up)
  case False
  then have "c' = c\<lparr>sb_stage := Refused (PlainErr ''redis connection'')\<rparr>" "b' = b"
    using run c(2) by (simp_all add: submit_enqueue_def enqueueTransfer_def)
  then show ?thesis using c ok by (simp add: call_fine_def created_id_def state_kept_refl)
next
  case True
  let ?job = "\<lparr>job_id = sb_key c, job_transferId = tr_id row\<rparr>"
  have c': "c' = c\<lparr>sb_stage := Answered \<lparr>cr_transfer = row, cr_created = created\<rparr>\<rparr>" "b' = b\<lparr>bs_added := bs_added b @ [?job]\<rparr>"
    using run c(2) True by (simp_all add: submit_enqueue_def enqueueTransfer_def sb_key_def)
  have st: "stored_under (sb_key c) (hashRequest sha (sb_input c)) (bs_db b) (tr_id row)" using c by (simp add: call_fine_def)
  then have "jobs_ok b'" using ok unfolding c' by (auto simp: state_ok_def jobs_ok_def stored_under_def)
  then show ?thesis
    using c ok st by (auto simp: c' state_ok_def state_kept_def history_kept_same call_fine_def created_id_def sb_key_def)
qed

lemma check_stage:
  "call_fine sha b c \<Longrightarrow> call_fine sha b (submit_check c b) \<and> created_id (submit_check c b) = None"
  by (auto simp: submit_check_def assertAccountsExist_eq call_fine_def created_id_def NotFoundError_def split: sum.split)

lemma race_step_inv:
  assumes inv: "race_inv sha s" and step: "race_step sha s t"
  shows "race_inv sha t \<and> state_kept (sr_bank s) (sr_bank t)"
proof -
  have ok: "state_ok (sr_bank s)" using inv by (simp add: race_inv_def)
  have fine: "call_fine sha (sr_bank s) (sr_calls s ! k)" if "k < length (sr_calls s)" for k
    using inv that by (simp add: race_inv_def list_all_length)
  note same = state_kept_refl [of "sr_bank s"]
  show ?thesis
    using step
  proof (cases rule: race_step.cases)
    case (begins input)
    have n: "call_fine sha (sr_bank s) (submit_begin input)" "created_id (submit_begin input) = None"
      using begins(2) by (auto simp: submit_begin_def call_fine_def created_id_def UnprocessableError_def)
    have "creators_differ (sr_calls s @ [submit_begin input])"
      using inv n(2) by (auto simp: race_inv_def creators_differ_def nth_append less_Suc_eq)
    then show ?thesis using inv n(1) same by (simp add: begins(1) race_inv_def)
  next
    case (checks k)
    show ?thesis unfolding checks(1)
      using advance_inv [OF inv checks(2) ok same] check_stage [OF fine [OF checks(2)]] same by (simp add: advance_def)
  next
    case (inserts k newId now)
    obtain c b where run: "submit_insert sha newId now (sr_calls s ! k) (sr_bank s) = (c, b)" by fastforce
    note st = insert_stage [OF ok fine [OF inserts(2)] inserts(4) run]
    then have "race_inv sha (advance k (c, b) s)" using inserts(4) by (intro advance_inv [OF inv inserts(2)]) auto
    then show ?thesis unfolding inserts(1) run using st by (simp add: advance_def)
  next
    case (replays k)
    show ?thesis unfolding replays(1)
      using advance_inv [OF inv replays(2) ok same] replay_stage [OF fine [OF replays(2)] replays(3)] same by (simp add: advance_def)
  next
    case (enqueues k row created up)
    obtain c b where run: "submit_enqueue up (sr_calls s ! k) (sr_bank s) = (c, b)" by fastforce
    note st = enqueue_stage [OF ok fine [OF enqueues(2)] enqueues(3) run]
    then have "race_inv sha (advance k (c, b) s)" by (intro advance_inv [OF inv enqueues(2)]) auto
    then show ?thesis unfolding enqueues(1) run using st by (simp add: advance_def)
  next
    case (elsewhere b)
    have kept: "state_kept (sr_bank s) b" by (rule bank.step_keeps [OF ok elsewhere(2)])
    have "list_all (call_fine sha b) (sr_calls s)" using fine call_fine_kept [OF kept] by (simp add: list_all_length)
    then show ?thesis using kept bank.step_inv [OF ok elsewhere(2)] inv by (simp add: elsewhere(1) race_inv_def)
  next
    case (dies k)
    have "call_fine sha (sr_bank s) ((sr_calls s ! k)\<lparr>sb_stage := Gone\<rparr>)" using fine [OF dies(2)] by (simp add: call_fine_def)
    then have "race_inv sha (advance k ((sr_calls s ! k)\<lparr>sb_stage := Gone\<rparr>, sr_bank s) s)"
      using advance_inv [OF inv dies(2) ok same] by (simp add: created_id_def)
    then show ?thesis unfolding dies(1) using same by (simp add: advance_def)
  qed
qed

interpretation races: step_system race_begins "race_step sha" "race_inv sha" "\<lambda>s t. state_kept (sr_bank s) (sr_bank t)" for sha
proof unfold_locales
  show "race_inv sha s" if "race_begins s" for s
    using that bank.init_inv by (simp add: race_begins_def race_inv_def creators_differ_def)
qed (use race_step_inv state_kept_refl state_kept_trans in blast)+

section \<open>Property\<close>

text \<open>
  C7: Idempotency holds under concurrency. Whatever submissions and everything else on the platform interleave, all
  calls that were answered under one idempotency key were answered with the same transfer and had the same payload
  digest; one of them at most created it; it is the only row under the key; and a job for it was queued before
  the answer, unless it was already decided. A call that lost the race for the key finds the winner's row.
\<close>

theorem concurrent_submissions_agree:
  assumes "race_begins s0" "(race_step sha)\<^sup>*\<^sup>* s0 s" "k < length (sr_calls s)" "l < length (sr_calls s)"
    and "sr_calls s ! k = c" "sr_calls s ! l = d" "sb_key c = sb_key d" "sb_stage c = Answered rc"
  shows "(\<forall>rd. sb_stage d = Answered rd \<longrightarrow> tr_id (cr_transfer rd) = tr_id (cr_transfer rc) \<and>
       hashRequest sha (sb_input d) = hashRequest sha (sb_input c) \<and> (cr_created rc \<and> cr_created rd \<longrightarrow> k = l)) \<and>
    length (filter (\<lambda>t. tr_idempotencyKey t = Some (sb_key c)) (transfers (bs_db (sr_bank s)))) = 1 \<and>
    (\<lparr>job_id = sb_key c, job_transferId = tr_id (cr_transfer rc)\<rparr> \<in> set (bs_added (sr_bank s)) \<or> tr_status (cr_transfer rc) \<noteq> Pending) \<and>
    (sb_stage d = Replaying \<longrightarrow> sb_stage (submit_replay sha d (sr_bank s)) \<noteq>
       Refused (PlainErr (''Transfer with idempotency key '' @ sb_key d @ '' not found'')))"
proof -
  have inv: "race_inv sha s" by (rule races.reachable_inv [OF assms(1,2)])
  have fine: "call_fine sha (sr_bank s) c" "call_fine sha (sr_bank s) d"
    using inv assms(3-6) by (auto simp: race_inv_def list_all_length)
  have bank: "bank_inv (bs_db (sr_bank s))" using inv by (simp add: race_inv_def state_ok_def)
  have own: "stored_under (sb_key c) (hashRequest sha (sb_input c)) (bs_db (sr_bank s)) (tr_id (cr_transfer rc))"
    using fine(1) assms(8) by (simp add: call_fine_def)
  have agree: "tr_id (cr_transfer rd) = tr_id (cr_transfer rc) \<and> hashRequest sha (sb_input d) = hashRequest sha (sb_input c) \<and>
      (cr_created rc \<and> cr_created rd \<longrightarrow> k = l)" if d: "sb_stage d = Answered rd" for rd
  proof -
    have "stored_under (sb_key c) (hashRequest sha (sb_input d)) (bs_db (sr_bank s)) (tr_id (cr_transfer rd))"
      using fine(2) d assms(7) by (simp add: call_fine_def)
    from stored_unique [OF bank own this]
    have eq: "tr_id (cr_transfer rc) = tr_id (cr_transfer rd)" "hashRequest sha (sb_input c) = hashRequest sha (sb_input d)" by auto
    have "k = l" if "cr_created rc" "cr_created rd"
    proof (rule ccontr)
      assume "k \<noteq> l"
      moreover have "created_id c = created_id d" "created_id c \<noteq> None" using that assms(8) d eq(1) by (simp_all add: created_id_def)
      ultimately show False using inv assms(3-6) unfolding race_inv_def creators_differ_def by metis
    qed
    then show ?thesis using eq by simp
  qed
  obtain t where t: "t \<in> set (transfers (bs_db (sr_bank s)))" "tr_idempotencyKey t = Some (sb_key c)"
    using own by (auto simp: stored_under_def)
  have "distinct (transfers (bs_db (sr_bank s)))" using bank by (simp add: bank_inv_def distinct_map)
  moreover have "{u \<in> set (transfers (bs_db (sr_bank s))). tr_idempotencyKey u = Some (sb_key c)} = {t}"
    using t key_unique [OF bank] by blast
  ultimately have one: "length (filter (\<lambda>t. tr_idempotencyKey t = Some (sb_key c)) (transfers (bs_db (sr_bank s)))) = 1"
    using distinct_card [of "filter (\<lambda>t. tr_idempotencyKey t = Some (sb_key c)) (transfers (bs_db (sr_bank s)))"] by simp
  have job: "\<lparr>job_id = sb_key c, job_transferId = tr_id (cr_transfer rc)\<rparr> \<in> set (bs_added (sr_bank s)) \<or> tr_status (cr_transfer rc) \<noteq> Pending"
    using fine(1) assms(8) by (simp add: call_fine_def)
  have found: "sb_stage d = Replaying \<longrightarrow> sb_stage (submit_replay sha d (sr_bank s)) \<noteq>
      Refused (PlainErr (''Transfer with idempotency key '' @ sb_key d @ '' not found''))"
    using replay_stage [OF fine(2)] by blast
  from agree have "\<forall>rd. sb_stage d = Answered rd \<longrightarrow> tr_id (cr_transfer rd) = tr_id (cr_transfer rc) \<and>
      hashRequest sha (sb_input d) = hashRequest sha (sb_input c) \<and> (cr_created rc \<and> cr_created rd \<longrightarrow> k = l)" by simp
  then show ?thesis by (rule conjI [OF _ conjI [OF one conjI [OF job found]]])
qed

section \<open>Witness\<close>

text \<open>The calls' own steps, executable.\<close>

datatype race_event = Begins create_transfer_input | Checks nat | Inserts nat uuid int | Replays nat | Enqueues nat bool

fun race_happens :: "(string \<Rightarrow> string) \<Rightarrow> race_event \<Rightarrow> submissions \<Rightarrow> submissions option" where
  "race_happens sha (Begins input) s =
     (if positiveCents (ci_amountCents input) then Some (s\<lparr>sr_calls := sr_calls s @ [submit_begin input]\<rparr>) else None)"
| "race_happens sha (Checks k) s = (if k < length (sr_calls s) \<and> sb_stage (sr_calls s ! k) = Submitted
     then Some (advance k (submit_check (sr_calls s ! k) (sr_bank s), sr_bank s) s) else None)"
| "race_happens sha (Inserts k i now) s = (if k < length (sr_calls s) \<and> sb_stage (sr_calls s ! k) = Checked \<and>
     find_transfer i (bs_db (sr_bank s)) = None then Some (advance k (submit_insert sha i now (sr_calls s ! k) (sr_bank s)) s) else None)"
| "race_happens sha (Replays k) s = (if k < length (sr_calls s) \<and> sb_stage (sr_calls s ! k) = Replaying
     then Some (advance k (submit_replay sha (sr_calls s ! k) (sr_bank s), sr_bank s) s) else None)"
| "race_happens sha (Enqueues k up) s = (if k < length (sr_calls s) then case sb_stage (sr_calls s ! k) of
       Enqueuing row created \<Rightarrow> Some (advance k (submit_enqueue up (sr_calls s ! k) (sr_bank s)) s) | _ \<Rightarrow> None else None)"

fun race_all :: "(string \<Rightarrow> string) \<Rightarrow> race_event list \<Rightarrow> submissions \<Rightarrow> submissions option" where
  "race_all sha [] s = Some s"
| "race_all sha (e # es) s = (case race_happens sha e s of None \<Rightarrow> None | Some t \<Rightarrow> race_all sha es t)"

lemma race_happens_step: "race_happens sha e s = Some t \<Longrightarrow> race_step sha s t"
  by (cases e) (auto split: if_splits submit_stage.splits intro: race_step.intros)

lemma race_all_steps: "race_all sha es s = Some t \<Longrightarrow> (race_step sha)\<^sup>*\<^sup>* s t"
  by (induction es arbitrary: s) (auto split: option.splits dest: race_happens_step intro: converse_rtranclp_into_rtranclp)

lemma bank_run_race: "(bank_step sha)\<^sup>*\<^sup>* b b' \<Longrightarrow> (race_step sha)\<^sup>*\<^sup>* \<lparr>sr_bank = b, sr_calls = []\<rparr> \<lparr>sr_bank = b', sr_calls = []\<rparr>"
proof (induction rule: rtranclp_induct)
  case (step c d)
  from race_step.elsewhere [of sha "\<lparr>sr_bank = c, sr_calls = []\<rparr>" d] step show ?case by (simp add: rtranclp.rtrancl_into_rtrancl)
qed simp

text \<open>Two requests with the same key pass the account check together; the second insert loses.\<close>

definition same_key_twice :: "race_event list" where
  "same_key_twice = [Begins (demo_input ''k9'' 100), Begins (demo_input ''k9'' 100), Checks 0, Checks 1, Inserts 0 ''t9'' 50,
     Inserts 1 ''t10'' 51, Replays 1, Enqueues 1 True, Enqueues 0 True]"

definition answers_of :: "submissions \<Rightarrow> (uuid \<times> bool) option list" where
  "answers_of s = map (\<lambda>c. case sb_stage c of Answered r \<Rightarrow> Some (tr_id (cr_transfer r), cr_created r) | _ \<Rightarrow> None) (sr_calls s)"

lemma same_key_run:
  "map_option answers_of (race_all (\<lambda>x. x) same_key_twice \<lparr>sr_bank = demo_state, sr_calls = []\<rparr>) =
     Some [Some (''t9'', True), Some (''t9'', False)]"
  "map_option (map sb_key \<circ> sr_calls) (race_all (\<lambda>x. x) same_key_twice \<lparr>sr_bank = demo_state, sr_calls = []\<rparr>) = Some [''k9'', ''k9'']"
  by code_simp+

theorem concurrent_submissions_agree_witness:
  "\<exists>s. race_all (\<lambda>x. x) same_key_twice \<lparr>sr_bank = demo_state, sr_calls = []\<rparr> = Some s \<and>
     length (filter (\<lambda>t. tr_idempotencyKey t = Some ''k9'') (transfers (bs_db (sr_bank s)))) = 1"
proof -
  obtain s where s: "race_all (\<lambda>x. x) same_key_twice \<lparr>sr_bank = demo_state, sr_calls = []\<rparr> = Some s"
    using same_key_run(1) by blast
  have beginning: "race_begins \<lparr>sr_bank = start, sr_calls = []\<rparr>" using start_initial by (simp add: race_begins_def)
  have run: "(race_step (\<lambda>x. x))\<^sup>*\<^sup>* \<lparr>sr_bank = start, sr_calls = []\<rparr> s"
    using bank_run_race [OF demo_reachable] race_all_steps [OF s] by (rule rtranclp_trans)
  have a: "answers_of s = [Some (''t9'', True), Some (''t9'', False)]" "map sb_key (sr_calls s) = [''k9'', ''k9'']"
    using same_key_run s by simp_all
  then obtain c d where cd: "sr_calls s = [c, d]" by (auto simp: map_eq_Cons_conv)
  then obtain r where "sb_stage c = Answered r" "sb_key c = ''k9''" "sb_key d = ''k9''"
    using a by (auto simp: answers_of_def split: submit_stage.splits)
  then show ?thesis
    using concurrent_submissions_agree [OF beginning run, of 0 1 c d r] cd s by auto
qed

end
