(* ===== verification/Health.thy ===== *)
theory Health
  imports Ingest_Server Consumers
begin

text \<open>
  What the processes tell their orchestrator: the health endpoints of \<open>apps/executor\<close>, \<open>apps/telemetry-ingest\<close>
  and \<open>apps/telemetry-consumers\<close> (\<open>src/health.ts\<close>), the life of a Kafka consumer (\<open>createTelemetryConsumer\<close> in
  \<open>packages/events/src/client.ts\<close>), and start, signals and shutdown of the telemetry consumers (\<open>src/main.ts\<close>).
  kafkajs is external: it crashes a consumer, and restarts it when the crash event says so.
\<close>

section \<open>Health endpoints\<close>

text \<open>A reply is its status and, but for 404, a JSON body.\<close>

type_synonym health_reply = "nat \<times> json option"

definition health_status :: "nat \<Rightarrow> string \<Rightarrow> (string \<times> json) list \<Rightarrow> health_reply" where
  "health_status code status details = (code, Some (JObj ((''status'', JStr status) # details)))"

definition executor_health :: "string \<Rightarrow> bool \<Rightarrow> bool \<Rightarrow> health_reply" where
  "executor_health url ping isRunning =
     (if url \<noteq> ''/health'' then (404, None)
      else if ping then (if isRunning then health_status 200 ''ok'' [] else health_status 503 ''stopping'' [])
      else health_status 503 ''redis-unreachable'' [])"

definition every :: "(string \<times> bool) list \<Rightarrow> bool" where
  "every results = list_all snd results"

definition bools_json :: "(string \<times> bool) list \<Rightarrow> json" where
  "bools_json results = JObj (map (\<lambda>(name, b). (name, JBool b)) results)"

definition ingest_health :: "string \<Rightarrow> (string \<times> bool) list \<Rightarrow> health_reply" where
  "ingest_health url results =
     (if url \<noteq> ''/health'' then (404, None)
      else let healthy = every results in
        health_status (if healthy then 200 else 503) (if healthy then ''ok'' else ''degraded'') [(''checks'', bools_json results)])"

text \<open>\<open>checks\<close> of the ingest process; \<open>kafka\<close> follows the producer's CONNECT and DISCONNECT events.\<close>

definition ingest_checks :: "bool \<Rightarrow> ingest_server \<Rightarrow> bool \<Rightarrow> (string \<times> bool) list" where
  "ingest_checks running ingest producerConnected =
     [(''running'', running), (''listening'', isListening ingest), (''kafka'', producerConnected)]"

definition consumers_health :: "string \<Rightarrow> bool \<Rightarrow> bool \<Rightarrow> (string \<times> bool) list \<Rightarrow> health_reply" where
  "consumers_health url db_up isRunning consumers =
     (if url \<noteq> ''/health'' then (404, None)
      else if db_up then let healthy = isRunning \<and> every consumers in
        health_status (if healthy then 200 else 503) (if healthy then ''ok'' else ''degraded'') [(''consumers'', bools_json consumers)]
      else health_status 503 ''database-unreachable'' [])"

section \<open>A consumer\<close>

text \<open>
  \<open>cl_running\<close> is the variable of \<open>createTelemetryConsumer\<close>; the rest is kafkajs': whether it fetches, whether
  it will restart after a crash, whether \<open>disconnect\<close> has resolved.
\<close>

record consumer_life =
  cl_running :: bool
  cl_fetching :: bool
  cl_restarting :: bool
  cl_disconnected :: bool

definition new_consumer :: consumer_life where
  "new_consumer = \<lparr>cl_running = False, cl_fetching = False, cl_restarting = False, cl_disconnected = False\<rparr>"

definition consumer_start :: "consumer_life \<Rightarrow> consumer_life" where
  "consumer_start c = c\<lparr>cl_fetching := True, cl_running := True\<rparr>"

definition consumer_crash :: "bool \<Rightarrow> consumer_life \<Rightarrow> consumer_life" where
  "consumer_crash restart c = c\<lparr>cl_fetching := False, cl_restarting := restart, cl_running := False\<rparr>"

definition consumer_restart :: "consumer_life \<Rightarrow> consumer_life" where
  "consumer_restart c = c\<lparr>cl_fetching := True, cl_restarting := False\<rparr>"

text \<open>\<open>stop\<close> up to its \<open>await\<close>, and \<open>consumer.disconnect()\<close> resolving.\<close>

definition consumer_stop :: "consumer_life \<Rightarrow> consumer_life" where
  "consumer_stop c = c\<lparr>cl_running := False\<rparr>"

definition consumer_disconnected :: "consumer_life \<Rightarrow> consumer_life" where
  "consumer_disconnected c = c\<lparr>cl_fetching := False, cl_restarting := False, cl_disconnected := True\<rparr>"

section \<open>The telemetry consumers' process\<close>

datatype resource = HealthServer | DlqProducer | DbPool

record consumers_process =
  cs_consumers :: "(string \<times> consumer_life) list"
  cs_running :: bool
  cs_shuttingDown :: bool
  cs_released :: "resource list"
  cs_exit :: "nat option"

text \<open>Once every consumer has started, the health server is up.\<close>

definition started_process :: "string list \<Rightarrow> consumers_process" where
  "started_process names = \<lparr>cs_consumers = map (\<lambda>n. (n, consumer_start new_consumer)) names, cs_running = True,
     cs_shuttingDown = False, cs_released = [], cs_exit = None\<rparr>"

definition consumersRunning :: "consumers_process \<Rightarrow> (string \<times> bool) list" where
  "consumersRunning s = map (\<lambda>(name, c). (name, cl_running c)) (cs_consumers s)"

definition on_consumer :: "string \<Rightarrow> (consumer_life \<Rightarrow> consumer_life) \<Rightarrow> (string \<times> consumer_life) list \<Rightarrow> (string \<times> consumer_life) list" where
  "on_consumer name f cs = map (\<lambda>(n, c). (n, if n = name then f c else c)) cs"

datatype process_event =
    Crash string bool
  | Restart string
  | Signal
  | Disconnected string
  | ProducerClosed
  | PoolClosed
  | ShutdownRejected
  | HardExit

definition all_disconnected :: "consumers_process \<Rightarrow> bool" where
  "all_disconnected s \<longleftrightarrow> list_all (\<lambda>(name, c). cl_disconnected c) (cs_consumers s)"

text \<open>\<open>None\<close> where the event cannot happen. \<open>shutdown\<close> awaits all \<open>stop\<close>s, then the producer, then the pool.\<close>

fun process_happen :: "process_event \<Rightarrow> consumers_process \<Rightarrow> consumers_process option" where
  "process_happen (Crash name restart) s = (case map_of (cs_consumers s) name of
       Some c \<Rightarrow> if cl_fetching c then Some (s\<lparr>cs_consumers := on_consumer name (consumer_crash restart) (cs_consumers s)\<rparr>) else None
     | None \<Rightarrow> None)"
| "process_happen (Restart name) s = (case map_of (cs_consumers s) name of
       Some c \<Rightarrow> if cl_restarting c then Some (s\<lparr>cs_consumers := on_consumer name consumer_restart (cs_consumers s)\<rparr>) else None
     | None \<Rightarrow> None)"
| "process_happen Signal s = Some (if cs_shuttingDown s then s
     else s\<lparr>cs_shuttingDown := True, cs_running := False,
       cs_consumers := map (\<lambda>(n, c). (n, consumer_stop c)) (cs_consumers s),
       cs_released := (if cs_consumers s = [] then [HealthServer] else [])\<rparr>)"
| "process_happen (Disconnected name) s = (case map_of (cs_consumers s) name of
       Some c \<Rightarrow> if cs_shuttingDown s \<and> \<not> cl_disconnected c
         then let s' = s\<lparr>cs_consumers := on_consumer name consumer_disconnected (cs_consumers s)\<rparr>
           in Some (if all_disconnected s' then s'\<lparr>cs_released := [HealthServer]\<rparr> else s')
         else None
     | None \<Rightarrow> None)"
| "process_happen ProducerClosed s =
     (if cs_released s = [HealthServer] then Some (s\<lparr>cs_released := [HealthServer, DlqProducer]\<rparr>) else None)"
| "process_happen PoolClosed s =
     (if cs_released s = [HealthServer, DlqProducer]
      then Some (s\<lparr>cs_released := [HealthServer, DlqProducer, DbPool], cs_exit := Some 0\<rparr>) else None)"
| "process_happen ShutdownRejected s = (if cs_shuttingDown s then Some (s\<lparr>cs_exit := Some 1\<rparr>) else None)"
| "process_happen HardExit s = (if cs_shuttingDown s then Some (s\<lparr>cs_exit := Some 1\<rparr>) else None)"

fun process_run :: "process_event list \<Rightarrow> consumers_process \<Rightarrow> consumers_process option" where
  "process_run [] s = Some s"
| "process_run (e # es) s = (if cs_exit s \<noteq> None then None
     else case process_happen e s of None \<Rightarrow> None | Some s' \<Rightarrow> process_run es s')"

section \<open>The invariant\<close>

text \<open>\<open>crashed\<close>: the consumers that have crashed so far; \<open>signalled\<close>: whether a signal has arrived.\<close>

definition life_ok :: "string list \<Rightarrow> bool \<Rightarrow> string \<Rightarrow> consumer_life \<Rightarrow> bool" where
  "life_ok crashed signalled n c \<longleftrightarrow> (cl_running c \<longleftrightarrow> \<not> signalled \<and> n \<notin> set crashed) \<and>
     (\<not> signalled \<and> n \<notin> set crashed \<longrightarrow> cl_fetching c) \<and>
     (cl_disconnected c \<longrightarrow> signalled \<and> \<not> cl_fetching c \<and> \<not> cl_restarting c)"

definition lives_ok :: "string list \<Rightarrow> bool \<Rightarrow> consumers_process \<Rightarrow> bool" where
  "lives_ok crashed signalled s \<longleftrightarrow> cs_running s = (\<not> signalled) \<and> cs_shuttingDown s = signalled \<and>
     distinct (map fst (cs_consumers s)) \<and> set crashed \<subseteq> fst ` set (cs_consumers s) \<and>
     (\<forall>x\<in>set (cs_consumers s). life_ok crashed signalled (fst x) (snd x))"

definition release_ok :: "consumers_process \<Rightarrow> bool" where
  "release_ok s \<longleftrightarrow> (cs_released s \<noteq> [] \<longrightarrow> all_disconnected s \<and> hd (cs_released s) = HealthServer) \<and>
     (cs_exit s = Some 0 \<longrightarrow> cs_released s = [HealthServer, DlqProducer, DbPool])"

fun crashes :: "process_event list \<Rightarrow> string list" where
  "crashes [] = []"
| "crashes (Crash n r # es) = n # crashes es"
| "crashes (_ # es) = crashes es"

lemma on_consumer_fst [simp]: "map fst (on_consumer n f cs) = map fst cs"
  by (induction cs) (auto simp: on_consumer_def)

lemma on_consumer_fst_set [simp]: "fst ` set (on_consumer n f cs) = fst ` set cs"
  by (metis on_consumer_fst list.set_map)

lemma on_consumer_all:
  "\<forall>x\<in>set cs. P (fst x) (snd x) \<Longrightarrow> (\<And>m c. P m c \<Longrightarrow> m \<noteq> n \<Longrightarrow> Q m c) \<Longrightarrow>
     (\<And>c. (n, c) \<in> set cs \<Longrightarrow> P n c \<Longrightarrow> Q n (f c)) \<Longrightarrow> \<forall>x\<in>set (on_consumer n f cs). Q (fst x) (snd x)"
  by (fastforce simp: on_consumer_def)

lemma named_life:
  assumes "lives_ok crashed signalled s" "map_of (cs_consumers s) n = Some c" "(n, d) \<in> set (cs_consumers s)"
  shows "d = c"
  using assms by (simp add: lives_ok_def)

lemma lives_on_consumer:
  assumes ok: "lives_ok crashed signalled s" and c: "map_of (cs_consumers s) n = Some c"
    and f: "life_ok crashed' signalled n (f c)" and crashed': "set crashed \<subseteq> set crashed'" "set crashed' \<subseteq> insert n (set crashed)"
  shows "lives_ok crashed' signalled (s\<lparr>cs_consumers := on_consumer n f (cs_consumers s)\<rparr>)"
proof -
  have "n \<in> fst ` set (cs_consumers s)" using c by (force dest: map_of_SomeD)
  moreover have "\<forall>x\<in>set (on_consumer n f (cs_consumers s)). life_ok crashed' signalled (fst x) (snd x)"
  proof (rule on_consumer_all [of _ "life_ok crashed signalled"])
    show "\<forall>x\<in>set (cs_consumers s). life_ok crashed signalled (fst x) (snd x)" using ok by (simp add: lives_ok_def)
    show "life_ok crashed' signalled m c" if "life_ok crashed signalled m c" "m \<noteq> n" for m c
    proof -
      have "m \<in> set crashed' \<longleftrightarrow> m \<in> set crashed" using that(2) crashed' by blast
      then show ?thesis using that(1) by (simp add: life_ok_def)
    qed
    show "life_ok crashed' signalled n (f d)" if "(n, d) \<in> set (cs_consumers s)" for d
      using named_life [OF ok c that] f by simp
  qed
  ultimately show ?thesis using ok crashed'(2) by (auto simp: lives_ok_def)
qed

lemma process_happen_lives:
  assumes ok: "lives_ok crashed signalled s" and h: "process_happen e s = Some s'"
  shows "lives_ok (crashed @ crashes [e]) (signalled \<or> e = Signal) s'"
proof -
  have life: "life_ok crashed signalled n c" if "map_of (cs_consumers s) n = Some c" for n c
    using ok map_of_SomeD [OF that] by (force simp: lives_ok_def)
  show ?thesis
  proof (cases e)
    case (Crash n r)
    then obtain c where c: "map_of (cs_consumers s) n = Some c" "cl_fetching c"
        "s' = s\<lparr>cs_consumers := on_consumer n (consumer_crash r) (cs_consumers s)\<rparr>"
      using h by (auto split: option.splits if_splits)
    show ?thesis unfolding c(3)
      using lives_on_consumer [OF ok c(1), of "crashed @ [n]" "consumer_crash r"] life [OF c(1)] c(2) Crash
      by (auto simp: life_ok_def consumer_crash_def)
  next
    case (Restart n)
    then obtain c where c: "map_of (cs_consumers s) n = Some c" "cl_restarting c"
        "s' = s\<lparr>cs_consumers := on_consumer n consumer_restart (cs_consumers s)\<rparr>"
      using h by (auto split: option.splits if_splits)
    show ?thesis unfolding c(3)
      using lives_on_consumer [OF ok c(1), of crashed consumer_restart] life [OF c(1)] c(2) Restart
      by (auto simp: life_ok_def consumer_restart_def)
  next
    case Signal
    then show ?thesis
      using ok h by (fastforce simp: lives_ok_def life_ok_def consumer_stop_def comp_def case_prod_beta' image_image)
  next
    case (Disconnected n)
    then obtain c where c: "map_of (cs_consumers s) n = Some c" "cs_shuttingDown s"
        "s' = s\<lparr>cs_consumers := on_consumer n consumer_disconnected (cs_consumers s)\<rparr> \<or>
         s' = s\<lparr>cs_consumers := on_consumer n consumer_disconnected (cs_consumers s), cs_released := [HealthServer]\<rparr>"
      using h by (auto simp: Let_def split: option.splits if_splits)
    have "signalled" using ok c(2) by (simp add: lives_ok_def)
    then have "lives_ok crashed signalled (s\<lparr>cs_consumers := on_consumer n consumer_disconnected (cs_consumers s)\<rparr>)"
      using lives_on_consumer [OF ok c(1), of crashed consumer_disconnected] life [OF c(1)]
      by (auto simp: life_ok_def consumer_disconnected_def)
    then show ?thesis using c(3) Disconnected by (auto simp: lives_ok_def)
  qed (use ok h in \<open>auto simp: lives_ok_def split: if_splits\<close>)
qed


lemma all_disconnectedD: "all_disconnected s \<Longrightarrow> map_of (cs_consumers s) n = Some c \<Longrightarrow> cl_disconnected c"
  by (auto simp: all_disconnected_def list_all_iff dest!: map_of_SomeD)

lemma process_happen_release:
  assumes "lives_ok crashed signalled s" "release_ok s" "cs_exit s = None" "process_happen e s = Some s'"
  shows "release_ok s'"
proof -
  have quiet: "\<not> cl_fetching c \<and> \<not> cl_restarting c" if "all_disconnected s" "map_of (cs_consumers s) n = Some c" for n c
    using all_disconnectedD [OF that] map_of_SomeD [OF that(2)] assms(1) by (force simp: lives_ok_def life_ok_def)
  have none: "cs_released s = []" if "map_of (cs_consumers s) n = Some c" "cl_fetching c \<or> cl_restarting c \<or> \<not> cl_disconnected c" for n c
    using that quiet all_disconnectedD assms(2) by (auto simp: release_ok_def)
  show ?thesis
  proof (cases e)
    case Signal
    then show ?thesis using assms(2-4) by (auto simp: release_ok_def all_disconnected_def split: if_splits)
  next
    case (Crash n r)
    then show ?thesis using assms(3,4) none [of n] by (auto simp: release_ok_def split: option.splits if_splits)
  next
    case (Restart n)
    then show ?thesis using assms(3,4) none [of n] by (auto simp: release_ok_def split: option.splits if_splits)
  next
    case (Disconnected n)
    then show ?thesis using assms(3,4) none [of n]
      by (auto simp: release_ok_def Let_def all_disconnected_def split: option.splits if_splits)
  qed (use assms(2-4) in \<open>auto simp: release_ok_def all_disconnected_def split: if_splits\<close>)
qed

lemma crashes_append: "crashes (xs @ ys) = crashes xs @ crashes ys"
  by (induction xs rule: crashes.induct) simp_all

lemma process_run_inv:
  assumes "process_run es s = Some s'" "lives_ok crashed signalled s" "release_ok s"
  shows "lives_ok (crashed @ crashes es) (signalled \<or> Signal \<in> set es) s' \<and> release_ok s'"
  using assms
proof (induction es arbitrary: s crashed signalled)
  case (Cons e es)
  then obtain s1 where s1: "cs_exit s = None" "process_happen e s = Some s1" "process_run es s1 = Some s'"
    by (auto split: if_splits option.splits)
  from Cons.IH [OF s1(3) process_happen_lives [OF Cons.prems(2) s1(2)] process_happen_release [OF Cons.prems(2,3) s1(1,2)]]
  show ?case using crashes_append [of "[e]" es] by (auto simp: disj_assoc eq_commute [of Signal e])
qed simp

lemma started_ok: "distinct names \<Longrightarrow> lives_ok [] False (started_process names) \<and> release_ok (started_process names)"
  by (auto simp: lives_ok_def release_ok_def started_process_def life_ok_def consumer_start_def new_consumer_def comp_def)


section \<open>Property\<close>

text \<open>
  C27: what the health of the telemetry consumers says. Whatever crashes, restarts and signals have happened
  since they started, the answer is 200 exactly when the database answers, no signal has arrived and
  no consumer has ever crashed; then every consumer is fetching, so a 200 is never wrong. A consumer that kafkajs
  has restarted fetches again but never counts as running again: the process stays unhealthy for good.
  And the producer and the pool are released only after every consumer has stopped fetching; exit code 0
  means all of it was done in order.
\<close>

theorem health_tells_the_truth:
  assumes "distinct names" "process_run es (started_process names) = Some s"
  shows "(fst (consumers_health ''/health'' db_up (cs_running s) (consumersRunning s)) = 200 \<longleftrightarrow>
      db_up \<and> Signal \<notin> set es \<and> crashes es = []) \<and>
    (fst (consumers_health ''/health'' db_up (cs_running s) (consumersRunning s)) = 200 \<longrightarrow>
      list_all (\<lambda>(n, c). cl_fetching c) (cs_consumers s)) \<and>
    (cs_released s \<noteq> [] \<longrightarrow> list_all (\<lambda>(n, c). \<not> cl_fetching c) (cs_consumers s) \<and> hd (cs_released s) = HealthServer) \<and>
    (cs_exit s = Some 0 \<longrightarrow> cs_released s = [HealthServer, DlqProducer, DbPool])"
proof -
  have inv: "lives_ok (crashes es) (Signal \<in> set es) s" "release_ok s"
    using process_run_inv [OF assms(2)] started_ok [OF assms(1)] by force+
  have status: "fst (consumers_health ''/health'' db_up (cs_running s) (consumersRunning s)) = 200 \<longleftrightarrow>
      db_up \<and> cs_running s \<and> (\<forall>x\<in>set (cs_consumers s). cl_running (snd x))"
    by (simp add: consumers_health_def health_status_def every_def consumersRunning_def Let_def list_all_iff split_beta)
  have "db_up \<and> cs_running s \<and> (\<forall>x\<in>set (cs_consumers s). cl_running (snd x)) \<longleftrightarrow> db_up \<and> Signal \<notin> set es \<and> crashes es = []"
  proof (cases "Signal \<in> set es")
    case False
    have "(\<forall>x\<in>set (cs_consumers s). cl_running (snd x)) \<longleftrightarrow> set (crashes es) \<inter> fst ` set (cs_consumers s) = {}"
      using inv(1) False by (auto simp: lives_ok_def life_ok_def)
    moreover have "set (crashes es) \<subseteq> fst ` set (cs_consumers s)" using inv(1) by (simp add: lives_ok_def)
    ultimately have "(\<forall>x\<in>set (cs_consumers s). cl_running (snd x)) \<longleftrightarrow> crashes es = []"
      by (metis Int_absorb2 set_empty)
    then show ?thesis using False inv(1) by (simp add: lives_ok_def)
  qed (use inv(1) in \<open>simp add: lives_ok_def\<close>)
  moreover have "list_all (\<lambda>(n, c). cl_fetching c) (cs_consumers s)" if "Signal \<notin> set es" "crashes es = []"
    using inv(1) that by (auto simp: lives_ok_def life_ok_def list_all_iff)
  moreover have "list_all (\<lambda>(n, c). \<not> cl_fetching c) (cs_consumers s) \<and> hd (cs_released s) = HealthServer" if "cs_released s \<noteq> []"
  proof -
    have "all_disconnected s" "hd (cs_released s) = HealthServer" using inv(2) that by (simp_all add: release_ok_def)
    moreover have "\<forall>x\<in>set (cs_consumers s). cl_disconnected (snd x) \<longrightarrow> \<not> cl_fetching (snd x)"
      using inv(1) by (simp add: lives_ok_def life_ok_def)
    ultimately show ?thesis by (fastforce simp: all_disconnected_def list_all_iff)
  qed
  ultimately show ?thesis using status inv(2) by (simp add: release_ok_def)
qed

section \<open>Witness\<close>

text \<open>The alerting consumer crashes, kafkajs restarts it; then the orchestrator gives up and stops the process.\<close>

definition crash_and_stop :: "process_event list" where
  "crash_and_stop = [Crash ''alerting'' True, Restart ''alerting'', Signal, Disconnected ''fuel'', Disconnected ''alerting'',
     ProducerClosed, PoolClosed]"

lemma crash_and_stop_runs:
  "process_run crash_and_stop (started_process [''fuel'', ''alerting'']) \<noteq> None"
  "process_run (take 2 crash_and_stop) (started_process [''fuel'', ''alerting'']) \<noteq> None"
  "map (\<lambda>(n, c). cl_fetching c) (cs_consumers (the (process_run (take 2 crash_and_stop) (started_process [''fuel'', ''alerting''])))) = [True, True]"
  "cs_exit (the (process_run crash_and_stop (started_process [''fuel'', ''alerting'']))) = Some 0"
  by code_simp+

theorem health_tells_the_truth_witness:
  "\<exists>s t. process_run (take 2 crash_and_stop) (started_process [''fuel'', ''alerting'']) = Some s \<and>
     list_all (\<lambda>(n, c). cl_fetching c) (cs_consumers s) \<and>
     fst (consumers_health ''/health'' True (cs_running s) (consumersRunning s)) \<noteq> 200 \<and>
     process_run crash_and_stop (started_process [''fuel'', ''alerting'']) = Some t \<and>
     cs_released t = [HealthServer, DlqProducer, DbPool]"
proof -
  obtain s t where s: "process_run (take 2 crash_and_stop) (started_process [''fuel'', ''alerting'']) = Some s"
    and t: "process_run crash_and_stop (started_process [''fuel'', ''alerting'']) = Some t"
    using crash_and_stop_runs(1,2) by blast
  have d: "distinct [''fuel'', ''alerting'']" by simp
  have "list_all (\<lambda>(n, c). cl_fetching c) (cs_consumers s)"
    using crash_and_stop_runs(3) s by (cases "cs_consumers s") (auto simp: Cons_eq_map_conv)
  moreover have "fst (consumers_health ''/health'' True (cs_running s) (consumersRunning s)) \<noteq> 200"
    using health_tells_the_truth [OF d s, of True] by (simp add: crash_and_stop_def)
  moreover have "cs_released t = [HealthServer, DlqProducer, DbPool]"
    using health_tells_the_truth [OF d t, of True] crash_and_stop_runs(4) t by simp
  ultimately show ?thesis using s t by blast
qed

end
