(* ===== verification/Processes.thy ===== *)
theory Processes
  imports Health
begin

text \<open>
  Start-up, signals and shutdown of the other four processes: \<open>src/main.ts\<close> of \<open>apps/app-apis\<close>, \<open>apps/auth-api\<close>,
  \<open>apps/executor\<close> and \<open>apps/telemetry-ingest\<close>. What they acquire is external; its documented behaviour is the
  guard of an event: \<open>server.close\<close> calls back once no connection is left, \<open>worker.close\<close> resolves once no job is
  running, and Express 5 passes a failed \<open>listen\<close> to the callback of \<open>app.listen\<close>.
\<close>

section \<open>Programs\<close>

datatype asset = PgPool | RedisClient | TransfersQueue | ApiServer | SigningKeySet | TransfersWorker | HealthListener
  | KafkaProducer | DeviceServer

text \<open>A stage either suspends the program at an \<open>await\<close> (or in a callback) until it settles, or is done at once.\<close>

datatype stage = Await asset | Do asset

text \<open>
  \<open>mp_work\<close> lets work in (connections or jobs), at most \<open>mp_limit\<close> at a time; the work uses \<open>mp_uses\<close>.
  \<open>mp_calls_back\<close>: listening is not awaited, its callback runs later. \<open>mp_flag\<close>: the program has a variable
  \<open>running\<close> that its health endpoint reads; the two APIs have none, their \<open>/health\<close> asks Redis or just answers.
\<close>

record main_program =
  mp_start :: "stage list"
  mp_stop :: "stage list"
  mp_work :: asset
  mp_calls_back :: bool
  mp_flag :: bool
  mp_limit :: "nat option"
  mp_uses :: "asset list"





section \<open>Processes\<close>













section \<open>The invariant\<close>

fun asset_of :: "stage \<Rightarrow> asset" where
  "asset_of (Await a) = a"
| "asset_of (Do a) = a"

definition assets :: "stage list \<Rightarrow> asset list" where
  "assets ss = map asset_of ss"



text \<open>The variable \<open>running\<close>, and what it is once a signal has been handled.\<close>

definition has_flag :: "main_program \<Rightarrow> bool option \<Rightarrow> bool" where
  "has_flag p up \<longleftrightarrow> (up \<noteq> None \<longleftrightarrow> mp_flag p)"



lemma has_flag_set: "has_flag p (if mp_flag p then Some b else None)"
  by (simp add: has_flag_def)


lemma assets_append [simp]: "assets (xs @ ys) = assets xs @ assets ys" "assets (map Do as) = as" "assets (x # xs) = asset_of x # assets xs"
  "assets [] = []"
  by (simp_all add: assets_def comp_def)







section \<open>Draining ends\<close>



section \<open>Properties\<close>









section \<open>Witnesses\<close>




end
