(* ===== verification/Response_Types.thy ===== *)
theory Response_Types
  imports Bank_Api
begin

text \<open>
  What the banking API promises about its bodies: the response schemas of \<open>modules/*/schemas.ts\<close> and
  \<open>packages/shared/src/schemas.ts\<close>, the values the handlers hand to \<open>res.json\<close>, and which schema each route
  documents for each status.
\<close>

section \<open>Values and schemas\<close>

text \<open>A value as \<open>JSON.stringify\<close> is given it; a \<open>Date\<close> becomes the ISO text of its instant.\<close>

datatype js_value =
    VNull | VBool bool | VNumber int | VText string | VDate int
  | VList "js_value list" | VRecord "(string \<times> js_value) list"

text \<open>The zod types the schemas use; \<open>Members\<close> is \<open>z.object\<close> with its required and its optional members.\<close>

datatype shape =
    Uuid | Text | Number | Flag | Literals "string list" | Instant
  | Nullable shape | Items shape | Members "(string \<times> shape) list" "(string \<times> shape) list" | AnyRecord | NumberRecord

lemma member_size: "(k, sh) \<in> set ms \<Longrightarrow> size (sh :: shape) \<le> size_list (size_prod (\<lambda>x. 0) size) ms"
  by (induction ms) auto

function (sequential) conforms :: "(string \<Rightarrow> bool) \<Rightarrow> shape \<Rightarrow> js_value \<Rightarrow> bool" where
  "conforms uuid Uuid (VText s) = uuid s"
| "conforms uuid Text (VText s) = True"
| "conforms uuid Number (VNumber n) = True"
| "conforms uuid Flag (VBool b) = True"
| "conforms uuid (Literals ss) (VText s) = (s \<in> set ss)"
| "conforms uuid Instant (VDate ms) = iso_datetime_ok ms"
| "conforms uuid (Nullable sh) v = (v = VNull \<or> conforms uuid sh v)"
| "conforms uuid (Items sh) (VList vs) = list_all (conforms uuid sh) vs"
| "conforms uuid (Members required optional) (VRecord kvs) =
     (list_all (\<lambda>(k, sh). case map_of kvs k of None \<Rightarrow> False | Some v \<Rightarrow> conforms uuid sh v) required \<and>
      list_all (\<lambda>(k, sh). case map_of kvs k of None \<Rightarrow> True | Some v \<Rightarrow> conforms uuid sh v) optional)"
| "conforms uuid AnyRecord (VRecord kvs) = True"
| "conforms uuid NumberRecord (VRecord kvs) = list_all (\<lambda>(k, v). case v of VNumber _ \<Rightarrow> True | _ \<Rightarrow> False) kvs"
| "conforms uuid _ _ = False"
  by pat_completeness auto
termination
  by (relation "measure (\<lambda>(u, sh, v). size sh)") (auto simp: less_Suc_eq_le intro: trans_le_add1 trans_le_add2 member_size)

text \<open>The members a body has beyond those its schema lists.\<close>

function (sequential) undocumented :: "shape \<Rightarrow> js_value \<Rightarrow> string list" where
  "undocumented (Members required optional) (VRecord kvs) =
     filter (\<lambda>k. k \<notin> fst ` set (required @ optional)) (map fst kvs) @
     concat (map (\<lambda>(k, sh). case map_of kvs k of None \<Rightarrow> [] | Some v \<Rightarrow> undocumented sh v) (required @ optional))"
| "undocumented (Items sh) (VList vs) = concat (map (undocumented sh) vs)"
| "undocumented (Nullable sh) v = undocumented sh v"
| "undocumented _ _ = []"
  by pat_completeness auto
termination
  by (relation "measure (\<lambda>(sh, v). size sh)") (auto simp: less_Suc_eq_le intro: trans_le_add1 trans_le_add2 member_size)

section \<open>The response schemas\<close>

definition errorEnvelope :: shape where
  "errorEnvelope = Members [(''error'', Members [(''code'', Text), (''message'', Text)] [(''details'', AnyRecord)])] []"

definition healthResponse :: shape where
  "healthResponse = Members [(''status'', Literals [''ok'']), (''queue'', NumberRecord)] []"

definition customerResponse :: shape where
  "customerResponse = Members [(''id'', Uuid), (''name'', Text), (''createdAt'', Instant)] []"

definition customerListResponse :: shape where
  "customerListResponse = Items customerResponse"

definition account_members :: "(string \<times> shape) list" where
  "account_members = [(''id'', Uuid), (''customerId'', Uuid), (''balanceCents'', Number), (''createdAt'', Instant)]"

definition accountResponse :: shape where
  "accountResponse = Members account_members []"

definition accountDetailResponse :: shape where
  "accountDetailResponse = Members (account_members @ [(''locked'', Flag)]) []"

definition accountListResponse :: shape where
  "accountListResponse = Items accountResponse"

definition balanceResponse :: shape where
  "balanceResponse = Members [(''accountId'', Uuid), (''balanceCents'', Number)] []"

definition transferResponse :: shape where
  "transferResponse = Members
     [(''id'', Uuid), (''type'', Literals [''transfer'', ''deposit'']), (''fromAccountId'', Nullable Uuid), (''toAccountId'', Uuid),
      (''amountCents'', Number), (''status'', Literals [''pending'', ''completed'', ''failed'']), (''failureReason'', Nullable Text),
      (''idempotencyKey'', Nullable Text), (''createdAt'', Instant), (''completedAt'', Nullable Instant)] []"

definition transferHistoryResponse :: shape where
  "transferHistoryResponse = Members [(''items'', Items transferResponse), (''nextCursor'', Nullable Number)] []"

definition lockResponse :: shape where
  "lockResponse = Members [(''id'', Uuid), (''accountId'', Uuid), (''reason'', Text), (''createdAt'', Instant),
     (''releasedAt'', Nullable Instant)] []"

definition lockListResponse :: shape where
  "lockListResponse = Items lockResponse"

definition commentResponse :: shape where
  "commentResponse = Members [(''id'', Uuid), (''accountId'', Uuid), (''body'', Text), (''createdAt'', Instant)] []"

definition commentListResponse :: shape where
  "commentListResponse = Items commentResponse"

text \<open>The success schema of each route, module by module.\<close>

definition customerSchemas :: "(endpoint \<times> shape) list" where
  "customerSchemas = [(ListCustomers, customerListResponse), (PostCustomer, customerResponse), (GetCustomer, customerResponse),
     (GetCustomerAccounts, accountListResponse)]"

definition accountSchemas :: "(endpoint \<times> shape) list" where
  "accountSchemas = [(PostAccount, accountResponse), (GetAccount, accountDetailResponse), (GetBalance, balanceResponse),
     (GetAccountTransfers, transferHistoryResponse)]"

definition transferSchemas :: "(endpoint \<times> shape) list" where
  "transferSchemas = [(PostTransfer, transferResponse), (GetTransfer, transferResponse)]"

definition lockSchemas :: "(endpoint \<times> shape) list" where
  "lockSchemas = [(PostLock, lockResponse), (ListLocks, lockListResponse), (DeleteLock, lockResponse)]"

definition commentSchemas :: "(endpoint \<times> shape) list" where
  "commentSchemas = [(PostComment, commentResponse), (ListComments, commentListResponse)]"

definition success_schema :: "endpoint \<Rightarrow> shape" where
  "success_schema e = (case map_of (customerSchemas @ accountSchemas @ transferSchemas @ lockSchemas @ commentSchemas) e of
       None \<Rightarrow> healthResponse | Some sh \<Rightarrow> sh)"

lemma success_schemas:
  "success_schema Health = healthResponse"
  "success_schema ListCustomers = customerListResponse" "success_schema PostCustomer = customerResponse"
  "success_schema GetCustomer = customerResponse" "success_schema GetCustomerAccounts = accountListResponse"
  "success_schema PostAccount = accountResponse" "success_schema GetAccount = accountDetailResponse"
  "success_schema GetBalance = balanceResponse" "success_schema GetAccountTransfers = transferHistoryResponse"
  "success_schema PostTransfer = transferResponse" "success_schema GetTransfer = transferResponse"
  "success_schema PostLock = lockResponse" "success_schema ListLocks = lockListResponse" "success_schema DeleteLock = lockResponse"
  "success_schema PostComment = commentResponse" "success_schema ListComments = commentListResponse"
  by (simp_all add: success_schema_def customerSchemas_def accountSchemas_def transferSchemas_def lockSchemas_def commentSchemas_def)

text \<open>
  What a route documents for a status: its success schema below 400, the envelope from 400 up. Every error status that
  a route lists has the envelope; a status it does not list (the 400 of a malformed parameter, 401, 500) is held
  against the envelope too, since the same middleware answers it.
\<close>

definition documented_schema :: "endpoint \<Rightarrow> nat \<Rightarrow> shape" where
  "documented_schema e status = (if status < 400 then success_schema e else errorEnvelope)"

section \<open>The bodies\<close>

text \<open>Rows are sent as the driver returns them, member by member in column order.\<close>

definition or_null :: "('a \<Rightarrow> js_value) \<Rightarrow> 'a option \<Rightarrow> js_value" where
  "or_null mk x = (case x of None \<Rightarrow> VNull | Some y \<Rightarrow> mk y)"

definition customer_value :: "customer_row \<Rightarrow> js_value" where
  "customer_value r = VRecord [(''id'', VText (cu_id r)), (''seq'', VNumber (cu_seq r)), (''name'', VText (cu_name r)),
     (''createdAt'', VDate (cu_createdAt r))]"

definition account_fields :: "account_row \<Rightarrow> (string \<times> js_value) list" where
  "account_fields r = [(''id'', VText (ac_id r)), (''seq'', VNumber (ac_seq r)), (''customerId'', VText (ac_customerId r)),
     (''balanceCents'', VNumber (ac_balanceCents r)), (''createdAt'', VDate (ac_createdAt r))]"

definition account_value :: "account_row \<Rightarrow> js_value" where
  "account_value r = VRecord (account_fields r)"

definition detail_value :: "account_detail \<Rightarrow> js_value" where
  "detail_value d = VRecord (account_fields (ad_account d) @ [(''locked'', VBool (ad_locked d))])"

fun status_text :: "transfer_status \<Rightarrow> string" where
  "status_text Pending = ''pending''"
| "status_text Completed = ''completed''"
| "status_text FailedStatus = ''failed''"

definition transfer_value :: "transfer_dto \<Rightarrow> js_value" where
  "transfer_value d = VRecord [(''id'', VText (td_id d)),
     (''type'', VText (if td_type d = DepositType then ''deposit'' else ''transfer'')),
     (''fromAccountId'', or_null VText (td_fromAccountId d)), (''toAccountId'', VText (td_toAccountId d)),
     (''amountCents'', VNumber (td_amountCents d)), (''status'', VText (status_text (td_status d))),
     (''failureReason'', or_null VText (td_failureReason d)), (''idempotencyKey'', or_null VText (td_idempotencyKey d)),
     (''createdAt'', VDate (td_createdAt d)), (''completedAt'', or_null VDate (td_completedAt d))]"

definition lock_value :: "lock_row \<Rightarrow> js_value" where
  "lock_value l = VRecord [(''id'', VText (lk_id l)), (''seq'', VNumber (lk_seq l)), (''accountId'', VText (lk_accountId l)),
     (''reason'', VText (lk_reason l)), (''createdAt'', VDate (lk_createdAt l)), (''releasedAt'', or_null VDate (lk_releasedAt l))]"

definition comment_value :: "comment_row \<Rightarrow> js_value" where
  "comment_value c = VRecord [(''id'', VText (co_id c)), (''seq'', VNumber (co_seq c)), (''accountId'', VText (co_accountId c)),
     (''body'', VText (co_body c)), (''createdAt'', VDate (co_createdAt c))]"

definition details_value :: "error_detail \<Rightarrow> (string \<times> js_value) list" where
  "details_value d = (case d of
       NoDetails \<Rightarrow> []
     | Details kvs \<Rightarrow> [(''details'', VRecord (map (\<lambda>(k, v). (k, VText v)) kvs))]
     | Issues issues \<Rightarrow> [(''details'', VRecord [(''issues'', VList (map (\<lambda>(path, message).
          VRecord [(''path'', VText path), (''message'', VText message)]) issues))])])"

definition error_value :: "error_body \<Rightarrow> js_value" where
  "error_value b = VRecord [(''error'', VRecord ([(''code'', VText (code_string (eb_code b))), (''message'', VText (eb_message b))] @
     details_value (eb_details b)))]"

text \<open>\<open>counts\<close>: what \<open>getJobCounts\<close> answers.\<close>

definition body_value :: "(string \<times> int) list \<Rightarrow> payload \<Rightarrow> js_value" where
  "body_value counts b = (case b of
       HealthBody \<Rightarrow> VRecord [(''status'', VText ''ok''), (''queue'', VRecord (map (\<lambda>(k, n). (k, VNumber n)) counts))]
     | CustomerBody r \<Rightarrow> customer_value r | CustomersBody rs \<Rightarrow> VList (map customer_value rs)
     | AccountBody r \<Rightarrow> account_value r | AccountsBody rs \<Rightarrow> VList (map account_value rs)
     | DetailBody d \<Rightarrow> detail_value d
     | BalanceBody i cents \<Rightarrow> VRecord [(''accountId'', VText i), (''balanceCents'', VNumber cents)]
     | HistoryBody p \<Rightarrow> VRecord [(''items'', VList (map transfer_value (hp_items p))), (''nextCursor'', or_null VNumber (hp_nextCursor p))]
     | TransferBody d \<Rightarrow> transfer_value d
     | LockBody l \<Rightarrow> lock_value l | LocksBody ls \<Rightarrow> VList (map lock_value ls)
     | CommentBody c \<Rightarrow> comment_value c | CommentsBody cs \<Rightarrow> VList (map comment_value cs)
     | ErrorBody e \<Rightarrow> error_value e)"


section \<open>Rows that may be sent\<close>

text \<open>Ids are UUIDs and instants have four-digit years.\<close>

definition customer_fine :: "(string \<Rightarrow> bool) \<Rightarrow> customer_row \<Rightarrow> bool" where
  "customer_fine uuid r \<longleftrightarrow> uuid (cu_id r) \<and> iso_datetime_ok (cu_createdAt r)"

definition account_fine :: "(string \<Rightarrow> bool) \<Rightarrow> account_row \<Rightarrow> bool" where
  "account_fine uuid r \<longleftrightarrow> uuid (ac_id r) \<and> uuid (ac_customerId r) \<and> iso_datetime_ok (ac_createdAt r)"

definition transfer_fine :: "(string \<Rightarrow> bool) \<Rightarrow> transfer_row \<Rightarrow> bool" where
  "transfer_fine uuid r \<longleftrightarrow> uuid (tr_id r) \<and> pred_option uuid (tr_fromAccountId r) \<and> uuid (tr_toAccountId r) \<and>
     iso_datetime_ok (tr_createdAt r) \<and> pred_option iso_datetime_ok (tr_completedAt r)"

definition comment_fine :: "(string \<Rightarrow> bool) \<Rightarrow> comment_row \<Rightarrow> bool" where
  "comment_fine uuid r \<longleftrightarrow> uuid (co_id r) \<and> uuid (co_accountId r) \<and> iso_datetime_ok (co_createdAt r)"

definition lock_fine :: "(string \<Rightarrow> bool) \<Rightarrow> lock_row \<Rightarrow> bool" where
  "lock_fine uuid r \<longleftrightarrow> uuid (lk_id r) \<and> uuid (lk_accountId r) \<and> iso_datetime_ok (lk_createdAt r) \<and>
     pred_option iso_datetime_ok (lk_releasedAt r)"

definition db_fine :: "(string \<Rightarrow> bool) \<Rightarrow> bank_db \<Rightarrow> bool" where
  "db_fine uuid db \<longleftrightarrow> list_all (customer_fine uuid) (customers db) \<and> list_all (account_fine uuid) (accounts db) \<and>
     list_all (transfer_fine uuid) (transfers db) \<and> list_all (comment_fine uuid) (accountComments db) \<and>
     list_all (lock_fine uuid) (accountLocks db)"

lemmas fine_defs = customer_fine_def account_fine_def transfer_fine_def comment_fine_def lock_fine_def

lemma empty_fine: "db_fine uuid empty_db"
  by (simp add: db_fine_def empty_db_def)

lemma fine_same_tables: "db_fine uuid db \<Longrightarrow> same_tables db db' \<Longrightarrow> db_fine uuid db'"
  by (simp add: db_fine_def same_tables_def)

lemma read_fine:
  "customer_fine uuid (read_customer c) = customer_fine uuid c" "account_fine uuid (read_account a) = account_fine uuid a"
  "transfer_fine uuid (read_transfer t) = transfer_fine uuid t" "comment_fine uuid (read_comment m) = comment_fine uuid m"
  "lock_fine uuid (read_lock l) = lock_fine uuid l"
  by (simp_all add: fine_defs read_customer_def read_account_def read_transfer_def read_comment_def read_lock_def)

section \<open>Bodies conform\<close>

lemma value_conforms:
  "customer_fine uuid c \<Longrightarrow> conforms uuid customerResponse (customer_value c)"
  "account_fine uuid a \<Longrightarrow> conforms uuid accountResponse (account_value a)"
  "account_fine uuid (ad_account d) \<Longrightarrow> conforms uuid accountDetailResponse (detail_value d)"
  "lock_fine uuid l \<Longrightarrow> conforms uuid lockResponse (lock_value l)"
  "comment_fine uuid m \<Longrightarrow> conforms uuid commentResponse (comment_value m)"
  by (auto simp: fine_defs customerResponse_def customer_value_def accountResponse_def account_members_def account_value_def
      account_fields_def accountDetailResponse_def detail_value_def lockResponse_def lock_value_def commentResponse_def
      comment_value_def or_null_def pred_option_def split: option.splits)

lemma transfer_conforms: "transfer_fine uuid t \<Longrightarrow> conforms uuid transferResponse (transfer_value (toTransferDto t))"
  by (cases "tr_status t")
    (auto simp: fine_defs transferResponse_def transfer_value_def toTransferDto_def or_null_def pred_option_def split: option.splits)

lemma error_conforms: "conforms uuid errorEnvelope (error_value b)"
  by (cases "eb_details b") (simp_all add: errorEnvelope_def error_value_def details_value_def)

lemma value_undocumented:
  "undocumented customerResponse (customer_value c) = [''seq'']" "undocumented accountResponse (account_value a) = [''seq'']"
  "undocumented accountDetailResponse (detail_value d) = [''seq'']" "undocumented lockResponse (lock_value l) = [''seq'']"
  "undocumented commentResponse (comment_value m) = [''seq'']" "undocumented transferResponse (transfer_value t) = []"
  "undocumented errorEnvelope (error_value b) = []"
  by (simp_all add: customerResponse_def customer_value_def accountResponse_def account_members_def account_value_def
      account_fields_def accountDetailResponse_def detail_value_def lockResponse_def lock_value_def commentResponse_def
      comment_value_def transferResponse_def transfer_value_def errorEnvelope_def error_value_def details_value_def or_null_def
      split: error_detail.split option.split)


section \<open>What operations keep and return\<close>

text \<open>\<open>I\<close> holds after the operation whenever it held before, and what it returns satisfies \<open>Q\<close>.\<close>

definition safe :: "('s \<Rightarrow> bool) \<Rightarrow> ('a \<Rightarrow> bool) \<Rightarrow> ('s, 'e, 'a) op \<Rightarrow> bool" where
  "safe I Q f \<longleftrightarrow> (\<forall>s r t. I s \<longrightarrow> f s = (r, t) \<longrightarrow> I t \<and> (\<forall>x. r = Inr x \<longrightarrow> Q x))"

named_theorems safe_rules

lemma safeI: "(\<And>s r t. I s \<Longrightarrow> f s = (r, t) \<Longrightarrow> I t \<and> (\<forall>x. r = Inr x \<longrightarrow> Q x)) \<Longrightarrow> safe I Q f"
  by (auto simp: safe_def)

lemma safeD: "safe I Q f \<Longrightarrow> I s \<Longrightarrow> f s = (r, t) \<Longrightarrow> I t \<and> (\<forall>x. r = Inr x \<longrightarrow> Q x)"
  by (auto simp: safe_def)

lemma safe_bind:
  assumes "safe I P m" "\<And>x. P x \<Longrightarrow> safe I Q (f x)"
  shows "safe I Q (op_bind m f)"
proof (rule safeI)
  fix s r t assume s: "I s" "op_bind m f s = (r, t)"
  obtain q u where m: "m s = (q, u)" by fastforce
  show "I t \<and> (\<forall>x. r = Inr x \<longrightarrow> Q x)"
  proof (cases q)
    case (Inl e)
    then show ?thesis using s m safeD [OF assms(1) s(1) m] by (auto simp: op_bind_def)
  next
    case (Inr x)
    then have "f x u = (r, t)" "I u" "P x" using s m safeD [OF assms(1) s(1) m] by (simp_all add: op_bind_def)
    then show ?thesis using safeD [OF assms(2)] by blast
  qed
qed

lemma safe_return [safe_rules]: "Q x \<Longrightarrow> safe I Q (op_return x)"
  by (simp add: safe_def)

lemma safe_throw [safe_rules]: "safe I Q (op_throw e)"
  by (simp add: safe_def)

lemma safe_gets [safe_rules]: "(\<And>s. I s \<Longrightarrow> Q (g s)) \<Longrightarrow> safe I Q (op_gets g)"
  by (simp add: safe_def)

lemma safe_weaken: "safe I P f \<Longrightarrow> (\<And>x. P x \<Longrightarrow> Q x) \<Longrightarrow> safe I Q f"
  unfolding safe_def by blast

lemma safe_transaction: "safe (db_fine uuid) Q f \<Longrightarrow> safe (db_fine uuid) Q (transaction f)"
  by (rule safeI, unfold transaction_def)
    (auto dest: safeD intro: fine_same_tables [OF _ same_tables_rollback] split: prod.splits sum.splits)

lemma safe_on_db: "safe I Q f \<Longrightarrow> safe (\<lambda>s. I (bs_db s)) Q (on_db f)"
  by (rule safeI, unfold on_db_def) (auto dest: safeD split: prod.splits)

lemma fine_find:
  "db_fine uuid db \<Longrightarrow> find_customer i db = Some c \<Longrightarrow> customer_fine uuid c"
  "db_fine uuid db \<Longrightarrow> find_account i db = Some a \<Longrightarrow> account_fine uuid a"
  "db_fine uuid db \<Longrightarrow> find_transfer i db = Some t \<Longrightarrow> transfer_fine uuid t"
  "db_fine uuid db \<Longrightarrow> find_key k db = Some t \<Longrightarrow> transfer_fine uuid t"
  by (auto simp: db_fine_def find_customer_def find_account_def find_transfer_def find_key_def list_all_iff
      dest!: find_eq_Some_set)

lemma found_uuid:
  "db_fine uuid db \<Longrightarrow> find_customer i db \<noteq> None \<Longrightarrow> uuid i"
  "db_fine uuid db \<Longrightarrow> find_account i db \<noteq> None \<Longrightarrow> uuid i"
  using fine_find(1,2) by (fastforce simp: fine_defs find_customer_def find_account_def dest!: find_eq_Some_set)+

lemma safe_inserts:
  assumes "uuid i" "iso_datetime_ok now"
  shows "safe (db_fine uuid) (customer_fine uuid) (insert_customer i now name)"
    and "safe (db_fine uuid) (account_fine uuid) (insert_account i now c cents)"
    and "pred_option iso_datetime_ok (tv_completedAt v) \<Longrightarrow> safe (db_fine uuid) (transfer_fine uuid) (insert_transfer i now v)"
    and "safe (db_fine uuid) (comment_fine uuid) (insert_comment i now a body)"
    and "safe (db_fine uuid) (lock_fine uuid) (insert_lock i now a reason)"
proof -
  show "safe (db_fine uuid) (customer_fine uuid) (insert_customer i now name)"
    using assms by (intro safeI) (auto simp: insert_customer_def Let_def db_fine_def customer_fine_def read_customer_def split: if_splits)
  show "safe (db_fine uuid) (account_fine uuid) (insert_account i now c cents)"
  proof (rule safeI)
    fix s r t assume s: "db_fine uuid s" and run: "insert_account i now c cents s = (r, t)"
    have "find_customer c s \<noteq> None \<Longrightarrow> uuid c" by (rule found_uuid(1) [OF s])
    then show "db_fine uuid t \<and> (\<forall>x. r = Inr x \<longrightarrow> account_fine uuid x)"
      using s run assms by (auto simp: insert_account_def Let_def db_fine_def account_fine_def read_account_def split: if_splits)
  qed
  show "safe (db_fine uuid) (transfer_fine uuid) (insert_transfer i now v)" if v: "pred_option iso_datetime_ok (tv_completedAt v)"
  proof (rule safeI)
    fix s r t assume s: "db_fine uuid s" and run: "insert_transfer i now v s = (r, t)"
    have "find_account a s \<noteq> None \<Longrightarrow> uuid a" for a by (rule found_uuid(2) [OF s])
    then show "db_fine uuid t \<and> (\<forall>x. r = Inr x \<longrightarrow> transfer_fine uuid x)"
      using s run assms v
      by (auto simp: insert_transfer_def Let_def db_fine_def transfer_fine_def read_transfer_def split: if_splits option.splits)
  qed
  show "safe (db_fine uuid) (comment_fine uuid) (insert_comment i now a body)"
  proof (rule safeI)
    fix s r t assume s: "db_fine uuid s" and run: "insert_comment i now a body s = (r, t)"
    have "find_account a s \<noteq> None \<Longrightarrow> uuid a" by (rule found_uuid(2) [OF s])
    then show "db_fine uuid t \<and> (\<forall>x. r = Inr x \<longrightarrow> comment_fine uuid x)"
      using s run assms by (auto simp: insert_comment_def Let_def db_fine_def comment_fine_def read_comment_def split: if_splits)
  qed
  show "safe (db_fine uuid) (lock_fine uuid) (insert_lock i now a reason)"
  proof (rule safeI)
    fix s r t assume s: "db_fine uuid s" and run: "insert_lock i now a reason s = (r, t)"
    have "find_account a s \<noteq> None \<Longrightarrow> uuid a" by (rule found_uuid(2) [OF s])
    then show "db_fine uuid t \<and> (\<forall>x. r = Inr x \<longrightarrow> lock_fine uuid x)"
      using s run assms by (auto simp: insert_lock_def Let_def db_fine_def lock_fine_def read_lock_def split: if_splits)
  qed
qed

lemma safe_finds:
  "safe (db_fine uuid) (customer_fine uuid) (customer_getById i)"
  "safe (db_fine uuid) (account_fine uuid) (account_getById i)"
  "safe (db_fine uuid) (transfer_fine uuid) (transfer_getById i)"
  "safe (db_fine uuid) (\<lambda>_. True) (assertAccountExists i)"
  by (auto simp: safe_def customer_getById_def account_getById_def transfer_getById_def assertAccountExists_def read_fine
      fine_find split: option.splits)

lemma fine_lists:
  assumes "db_fine uuid db"
  shows "list_all (customer_fine uuid) (map read_customer (asc_by cu_seq (customers db)))"
    "list_all (account_fine uuid) (map read_account (asc_by ac_seq (filter P (accounts db))))"
    "list_all (lock_fine uuid) (map read_lock (desc_by lk_seq (filter Q (accountLocks db))))"
    "list_all (comment_fine uuid) (map read_comment (desc_by co_seq (filter R (accountComments db))))"
    "list_all (transfer_fine uuid) (take k (map read_transfer (take n (desc_by tr_seq (filter S (transfers db))))))"
  using assms by (auto simp: db_fine_def list_all_iff read_fine asc_by_def desc_by_def dest!: in_set_takeD)

lemma safe_reads:
  "safe (db_fine uuid) (list_all (customer_fine uuid)) customer_list"
  "safe (db_fine uuid) (list_all (account_fine uuid)) (customer_listAccounts i)"
  "safe (db_fine uuid) (\<lambda>d. account_fine uuid (ad_account d)) (account_getDetail i)"
  "safe (db_fine uuid) (\<lambda>(a, _). uuid a) (account_getBalance i)"
  "safe (db_fine uuid) (\<lambda>p. \<forall>d\<in>set (hp_items p). \<exists>t. transfer_fine uuid t \<and> d = toTransferDto t) (account_getHistory i limit cursor)"
  "safe (db_fine uuid) (list_all (lock_fine uuid)) (lock_list i active)"
  "safe (db_fine uuid) (list_all (comment_fine uuid)) (comment_list i)"
proof -
  show "safe (db_fine uuid) (list_all (customer_fine uuid)) customer_list"
    by (simp add: safe_def customer_list_def fine_lists)
  show "safe (db_fine uuid) (list_all (account_fine uuid)) (customer_listAccounts i)"
    unfolding customer_listAccounts_def by (rule safe_bind [OF safe_finds(1)], rule safe_gets, rule fine_lists)
  show "safe (db_fine uuid) (\<lambda>d. account_fine uuid (ad_account d)) (account_getDetail i)"
    unfolding account_getDetail_def by (rule safe_bind [OF safe_finds(2)], rule safe_gets) simp
  show "safe (db_fine uuid) (\<lambda>(a, _). uuid a) (account_getBalance i)"
    unfolding account_getBalance_def by (rule safe_bind [OF safe_finds(2)], rule safe_return) (simp add: account_fine_def)
  show "safe (db_fine uuid) (\<lambda>p. \<forall>d\<in>set (hp_items p). \<exists>t. transfer_fine uuid t \<and> d = toTransferDto t) (account_getHistory i limit cursor)"
    unfolding account_getHistory_def
  proof (rule safe_bind [OF safe_finds(2)], rule safe_gets)
    fix db assume "db_fine uuid db"
    from fine_lists(5) [OF this, of limit "limit + 1" "\<lambda>t. touches i t \<and> before_cursor cursor t"]
    show "\<forall>d\<in>set (hp_items (let rows = map read_transfer (take (limit + 1) (desc_by tr_seq
             (filter (\<lambda>t. touches i t \<and> before_cursor cursor t) (transfers db)))); page = take limit rows
       in \<lparr>hp_items = map toTransferDto page,
           hp_nextCursor = (if length rows > limit \<and> page \<noteq> [] then Some (tr_seq (last page)) else None)\<rparr>)).
        \<exists>t. transfer_fine uuid t \<and> d = toTransferDto t"
      by (auto simp: Let_def list_all_iff)
  qed
  show "safe (db_fine uuid) (list_all (lock_fine uuid)) (lock_list i active)"
    unfolding lock_list_def by (rule safe_bind [OF safe_finds(4)], rule safe_gets, rule fine_lists)
  show "safe (db_fine uuid) (list_all (comment_fine uuid)) (comment_list i)"
    unfolding comment_list_def by (rule safe_bind [OF safe_finds(4)], rule safe_gets, rule fine_lists)
qed


lemma safe_writes:
  assumes "uuid i" "uuid j" "iso_datetime_ok now"
  shows "safe (db_fine uuid) (customer_fine uuid) (customer_create i now name)"
    and "safe (db_fine uuid) (account_fine uuid) (account_create i j now c deposit)"
    and "safe (db_fine uuid) (lock_fine uuid) (lock_create i now a reason)"
    and "safe (db_fine uuid) (comment_fine uuid) (comment_create i now a body)"
proof -
  show "safe (db_fine uuid) (customer_fine uuid) (customer_create i now name)"
    unfolding customer_create_def by (rule safe_inserts [where uuid = uuid and now = now and i = i, OF assms(1,3)])
  let ?open = "op_bind (insert_account i now c deposit) (\<lambda>account.
      if deposit > 0 then op_bind (insert_transfer j now
          \<lparr>tv_idempotencyKey = None, tv_requestHash = None, tv_fromAccountId = None, tv_toAccountId = ac_id account,
           tv_amountCents = deposit, tv_status = Completed, tv_completedAt = Some now\<rparr>) (\<lambda>_. op_return account)
      else op_return account)"
  have "safe (db_fine uuid) (account_fine uuid) ?open"
  proof (rule safe_bind [OF safe_inserts(2) [where uuid = uuid and now = now and i = i, OF assms(1,3)]])
    fix account assume a: "account_fine uuid account"
    show "safe (db_fine uuid) (account_fine uuid) (if deposit > 0 then op_bind (insert_transfer j now
          \<lparr>tv_idempotencyKey = None, tv_requestHash = None, tv_fromAccountId = None, tv_toAccountId = ac_id account,
           tv_amountCents = deposit, tv_status = Completed, tv_completedAt = Some now\<rparr>) (\<lambda>_. op_return account)
      else op_return account)"
      using a safe_bind [OF safe_inserts(3) [where uuid = uuid and now = now and i = j, OF assms(2,3)] safe_return [of "account_fine uuid" account]] assms(3)
      by (auto intro: safe_return)
  qed
  then show "safe (db_fine uuid) (account_fine uuid) (account_create i j now c deposit)"
    unfolding account_create_def
    by (intro safe_transaction safeI) (auto dest: safeD split: option.splits)
  show "safe (db_fine uuid) (lock_fine uuid) (lock_create i now a reason)"
    unfolding lock_create_def
    by (rule safe_transaction, rule safe_bind [OF safe_finds(4)], rule safe_inserts [where uuid = uuid and now = now and i = i, OF assms(1,3)])
  show "safe (db_fine uuid) (comment_fine uuid) (comment_create i now a body)"
    unfolding comment_create_def by (rule safe_bind [OF safe_finds(4)], rule safe_inserts [where uuid = uuid and now = now and i = i, OF assms(1,3)])
qed

lemma safe_release:
  assumes "iso_datetime_ok now"
  shows "safe (db_fine uuid) (lock_fine uuid) (lock_release now a l)"
proof -
  have one: "lock_fine uuid (x\<lparr>lk_releasedAt := Some now\<rparr>)" if "lock_fine uuid x" for x
    using that assms by (simp add: lock_fine_def)
  have "safe (db_fine uuid) (list_all (lock_fine uuid)) (release_rows a l now)"
    using one by (auto simp: safe_def release_rows_def db_fine_def list_all_iff read_fine set_update_where)
  then show ?thesis
    unfolding lock_release_def
    by (intro safe_bind [OF safe_finds(4)] safe_bind [of _ "list_all (lock_fine uuid)" "release_rows a l now"]
        safe_bind [of _ "\<lambda>_. True" "op_gets g" for g] safe_gets)
      (auto split: list.splits option.splits intro!: safe_return safe_throw safe_bind [of _ "\<lambda>_. True" "op_gets g" for g] safe_gets)
qed

lemma safe_replay: "safe (\<lambda>s. db_fine uuid (bs_db s)) (\<lambda>r. transfer_fine uuid (cr_transfer r)) (transfer_replay up k h)"
  by (rule safeI)
    (auto simp: transfer_replay_def enqueueTransfer_def op_bind_def Let_def read_fine dest: fine_find split: option.splits if_splits)

lemma safe_transfer:
  assumes "uuid i" "iso_datetime_ok now"
  shows "safe (\<lambda>s. db_fine uuid (bs_db s)) (\<lambda>r. transfer_fine uuid (cr_transfer r)) (transfer_create sha up i now input)"
proof (rule safeI)
  fix s r t assume s: "db_fine uuid (bs_db s)" and run: "transfer_create sha up i now input s = (r, t)"
  let ?v = "\<lparr>tv_idempotencyKey = Some (ci_idempotencyKey input), tv_requestHash = Some (hashRequest sha input),
    tv_fromAccountId = Some (ci_fromAccountId input), tv_toAccountId = ci_toAccountId input,
    tv_amountCents = ci_amountCents input, tv_status = Pending, tv_completedAt = None\<rparr>"
  show "db_fine uuid (bs_db t) \<and> (\<forall>x. r = Inr x \<longrightarrow> transfer_fine uuid (cr_transfer x))"
  proof (cases "ci_fromAccountId input = ci_toAccountId input \<or> (\<exists>e db. assertAccountsExist input (bs_db s) = (Inl e, db))")
    case True
    then show ?thesis using s run assertAccountsExist_snd [of input "bs_db s"]
      by (auto simp: transfer_create_def op_bind_def on_db_def split: if_splits)
  next
    case False
    then have "assertAccountsExist input (bs_db s) = (Inr (), bs_db s)"
      using assertAccountsExist_snd [of input "bs_db s"] by (metis (full_types) old.unit.exhaust sumE surj_pair)
    moreover obtain q db where ins: "insert_transfer i now ?v (bs_db s) = (q, db)" by fastforce
    ultimately have run': "(r, t) = (case q of
        Inl err \<Rightarrow> if \<not> isUniqueViolation err then (Inl err, s\<lparr>bs_db := db\<rparr>)
          else transfer_replay up (ci_idempotencyKey input) (hashRequest sha input) (s\<lparr>bs_db := db\<rparr>)
      | Inr pending \<Rightarrow> op_bind (enqueueTransfer up (tr_id pending) (ci_idempotencyKey input))
               (\<lambda>_. op_return \<lparr>cr_transfer = pending, cr_created = True\<rparr>) (s\<lparr>bs_db := db\<rparr>))"
      using run False by (cases q) (simp_all add: transfer_create_def on_db_def op_bind_def Let_def)
    have db: "db_fine uuid db" "\<forall>x. q = Inr x \<longrightarrow> transfer_fine uuid x"
      using safeD [OF safe_inserts(3) [where uuid = uuid and i = i and now = now and v = ?v, OF assms] s ins] by simp_all
    show ?thesis
    proof (cases q)
      case (Inl err)
      show ?thesis
      proof (cases "isUniqueViolation err")
        case True
        then have "transfer_replay up (ci_idempotencyKey input) (hashRequest sha input) (s\<lparr>bs_db := db\<rparr>) = (r, t)"
          using run' Inl by simp
        from safeD [OF safe_replay _ this, of uuid] db(1) show ?thesis by simp
      next
        case False
        then show ?thesis using run' Inl db(1) by simp
      qed
    next
      case (Inr pending)
      then show ?thesis using run' db by (auto simp: op_bind_def enqueueTransfer_def split: if_splits)
    qed
  qed
qed

lemma fine_rows:
  assumes "db_fine uuid db" "\<And>r. transfer_fine uuid r \<Longrightarrow> transfer_fine uuid (g r)"
  shows "db_fine uuid (set_row i g db)" "db_fine uuid (add_balance i d db)"
  using assms by (auto simp: db_fine_def set_row_def add_balance_def list_all_iff set_update_where account_fine_def)

lemma safe_process:
  assumes "iso_datetime_ok now" "bank_inv db" "db_fine uuid db"
  shows "db_fine uuid (snd (process_job now i db))"
proof (cases "find_transfer i db")
  case None
  then show ?thesis using assms(3) by (simp add: process_job_missing)
next
  case (Some x)
  show ?thesis
  proof (cases "tr_status x = Pending")
    case False
    then show ?thesis using assms(3) by (simp add: process_job_done [OF Some])
  next
    case True
    obtain a b where e: "executable_transfer i db x a b" using bank_inv_executable assms(2) Some True by blast
    have "transfer_fine uuid (complete_row now r)" "transfer_fine uuid (fail_row now c r)" if "transfer_fine uuid r" for r c
      using that assms(1) by (simp_all add: transfer_fine_def complete_row_def fail_row_def)
    then show ?thesis
      unfolding process_job_settle [OF e True] settle_def using assms(3)
      by (auto intro!: fine_rows split: verdict.splits)
  qed
qed

section \<open>What a route sends\<close>

text \<open>The routes that send rows: their bodies have a \<open>seq\<close> nothing documents.\<close>

definition sends_rows :: "endpoint \<Rightarrow> bool" where
  "sends_rows e \<longleftrightarrow> e \<notin> {Health, GetBalance, GetAccountTransfers, PostTransfer, GetTransfer}"

definition fits :: "(string \<Rightarrow> bool) \<Rightarrow> (string \<times> int) list \<Rightarrow> endpoint \<Rightarrow> shape \<Rightarrow> payload \<Rightarrow> bool" where
  "fits uuid counts e sh b \<longleftrightarrow> conforms uuid sh (body_value counts b) \<and>
     set (undocumented sh (body_value counts b)) \<subseteq> (if sends_rows e then {''seq''} else {})"

lemma mount_fits:
  assumes "mount ErrorBody p (\<lambda>i. ok st mk (on_db (f i))) s = (r, t)" "db_fine uuid (bs_db s)"
    and "\<And>i. safe (db_fine uuid) Q (f i)" "\<And>x. Q x \<Longrightarrow> fits uuid counts e sh (mk x)"
  shows "db_fine uuid (bs_db t) \<and> (is_error (rp_body r) \<or> fits uuid counts e sh (rp_body r))"
proof (cases p)
  case (Inl issues)
  then show ?thesis using assms(1,2) by (auto simp: mount_def error_reply_def is_error_def split: prod.splits)
next
  case (Inr i)
  obtain x db where x: "f i (bs_db s) = (x, db)" by fastforce
  from safeD [OF assms(3) assms(2) x] have db: "db_fine uuid db" "\<And>y. x = Inr y \<Longrightarrow> Q y" by auto
  show ?thesis
    using assms(1) Inr x db assms(4)
    by (cases x) (auto simp: mount_def ok_def op_bind_def on_db_def error_reply_def is_error_def split: prod.splits)
qed

lemma fits_lists:
  assumes "sends_rows e"
  shows "list_all (customer_fine uuid) cs \<Longrightarrow> fits uuid counts e customerListResponse (CustomersBody cs)"
    "list_all (account_fine uuid) accs \<Longrightarrow> fits uuid counts e accountListResponse (AccountsBody accs)"
    "list_all (lock_fine uuid) ls \<Longrightarrow> fits uuid counts e lockListResponse (LocksBody ls)"
    "list_all (comment_fine uuid) ms \<Longrightarrow> fits uuid counts e commentListResponse (CommentsBody ms)"
  using assms
  by (auto simp: fits_def body_value_def list_all_iff customerListResponse_def accountListResponse_def lockListResponse_def
      commentListResponse_def value_conforms value_undocumented)

lemma fits_rows:
  assumes "sends_rows e"
  shows "customer_fine uuid c \<Longrightarrow> fits uuid counts e customerResponse (CustomerBody c)"
    "account_fine uuid a \<Longrightarrow> fits uuid counts e accountResponse (AccountBody a)"
    "account_fine uuid (ad_account d) \<Longrightarrow> fits uuid counts e accountDetailResponse (DetailBody d)"
    "lock_fine uuid l \<Longrightarrow> fits uuid counts e lockResponse (LockBody l)"
    "comment_fine uuid m \<Longrightarrow> fits uuid counts e commentResponse (CommentBody m)"
  by (auto simp: assms fits_def body_value_def value_conforms value_undocumented)

lemma fits_others:
  "fits uuid counts Health healthResponse HealthBody"
  "uuid a \<Longrightarrow> fits uuid counts e balanceResponse (BalanceBody a cents)"
  "transfer_fine uuid x \<Longrightarrow> fits uuid counts e transferResponse (TransferBody (toTransferDto x))"
  "\<forall>d\<in>set (hp_items p). \<exists>x. transfer_fine uuid x \<and> d = toTransferDto x \<Longrightarrow> fits uuid counts e transferHistoryResponse (HistoryBody p)"
  by (auto simp: fits_def body_value_def healthResponse_def balanceResponse_def transferHistoryResponse_def list_all_iff or_null_def
      transfer_conforms value_undocumented split: option.splits)

lemma post_transfer_fits:
  assumes "mount ErrorBody p (post_transfer sha su) s = (r, t)" "db_fine uuid (bs_db s)" "uuid (su_id su)" "iso_datetime_ok (su_now su)"
  shows "db_fine uuid (bs_db t) \<and> (is_error (rp_body r) \<or> fits uuid counts PostTransfer transferResponse (rp_body r))"
proof (cases p)
  case (Inl issues)
  then show ?thesis using assms(1,2) by (auto simp: mount_def error_reply_def is_error_def split: prod.splits)
next
  case (Inr i)
  obtain x u where x: "transfer_create sha (su_redis su) (su_id su) (su_now su) i s = (x, u)" by fastforce
  from safeD [OF safe_transfer [where uuid = uuid and i = "su_id su", OF assms(3,4)] assms(2) x]
  have "db_fine uuid (bs_db u)" "\<And>y. x = Inr y \<Longrightarrow> transfer_fine uuid (cr_transfer y)" by auto
  then show ?thesis
    using assms(1) Inr x fits_others(3)
    by (cases x) (auto simp: mount_def post_transfer_def op_bind_def error_reply_def is_error_def split: prod.splits)
qed

lemma answer_fits:
  assumes "answer zd sha su e req params s = (r, t)" "db_fine uuid (bs_db s)"
    and "uuid (su_id su)" "uuid (su_id2 su)" "iso_datetime_ok (su_now su)"
  shows "db_fine uuid (bs_db t) \<and> (is_error (rp_body r) \<or> fits uuid counts e (success_schema e) (rp_body r))"
proof (cases e)
  case Health
  then show ?thesis using assms(1,2) fits_others(1)
    by (auto simp: answer_def route_Health_def mount_def ok_def op_bind_def check_health_def error_reply_def is_error_def
        success_schemas split: if_splits prod.splits)
next
  case PostTransfer
  show ?thesis using assms(1) unfolding PostTransfer answer_def Let_def endpoint.case route_defs success_schemas
    by (rule post_transfer_fits) (rule assms)+
next
  case ListCustomers
  show ?thesis using assms(1) unfolding ListCustomers answer_def Let_def endpoint.case route_defs success_schemas split_beta
    by (rule mount_fits [OF _ assms(2) safe_reads(1)]) (rule fits_lists(1), (simp add: sends_rows_def)?)
next
  case PostCustomer
  show ?thesis using assms(1) unfolding PostCustomer answer_def Let_def endpoint.case route_defs success_schemas split_beta
    by (rule mount_fits [OF _ assms(2) safe_writes(1) [where uuid = uuid, OF assms(3,4,5)]]) (rule fits_rows(1), (simp add: sends_rows_def)?)
next
  case GetCustomer
  show ?thesis using assms(1) unfolding GetCustomer answer_def Let_def endpoint.case route_defs success_schemas split_beta
    by (rule mount_fits [OF _ assms(2) safe_finds(1)]) (rule fits_rows(1), (simp add: sends_rows_def)?)
next
  case GetCustomerAccounts
  show ?thesis using assms(1) unfolding GetCustomerAccounts answer_def Let_def endpoint.case route_defs success_schemas split_beta
    by (rule mount_fits [OF _ assms(2) safe_reads(2)]) (rule fits_lists(2), (simp add: sends_rows_def)?)
next
  case PostAccount
  show ?thesis using assms(1) unfolding PostAccount answer_def Let_def endpoint.case route_defs success_schemas split_beta
    by (rule mount_fits [OF _ assms(2) safe_writes(2) [where uuid = uuid, OF assms(3,4,5)]]) (rule fits_rows(2), (simp add: sends_rows_def)?)
next
  case GetAccount
  show ?thesis using assms(1) unfolding GetAccount answer_def Let_def endpoint.case route_defs success_schemas split_beta
    by (rule mount_fits [OF _ assms(2) safe_reads(3)]) (rule fits_rows(3), (simp add: sends_rows_def)?)
next
  case GetBalance
  show ?thesis using assms(1) unfolding GetBalance answer_def Let_def endpoint.case route_defs success_schemas split_beta
    by (rule mount_fits [OF _ assms(2) safe_reads(4)]) (auto intro: fits_others(2))
next
  case GetAccountTransfers
  show ?thesis using assms(1) unfolding GetAccountTransfers answer_def Let_def endpoint.case route_defs success_schemas split_beta
    by (rule mount_fits [OF _ assms(2) safe_reads(5)]) (rule fits_others(4))
next
  case GetTransfer
  show ?thesis using assms(1) unfolding GetTransfer answer_def Let_def endpoint.case route_defs success_schemas split_beta
    by (rule mount_fits [OF _ assms(2) safe_finds(3)]) (rule fits_others(3))
next
  case PostLock
  show ?thesis using assms(1) unfolding PostLock answer_def Let_def endpoint.case route_defs success_schemas split_beta
    by (rule mount_fits [OF _ assms(2) safe_writes(3) [where uuid = uuid, OF assms(3,4,5)]]) (rule fits_rows(4), (simp add: sends_rows_def)?)
next
  case ListLocks
  show ?thesis using assms(1) unfolding ListLocks answer_def Let_def endpoint.case route_defs success_schemas split_beta
    by (rule mount_fits [OF _ assms(2) safe_reads(6)]) (rule fits_lists(3), (simp add: sends_rows_def)?)
next
  case DeleteLock
  show ?thesis using assms(1) unfolding DeleteLock answer_def Let_def endpoint.case route_defs success_schemas split_beta
    by (rule mount_fits [OF _ assms(2) safe_release [OF assms(5)]]) (rule fits_rows(4), (simp add: sends_rows_def)?)
next
  case PostComment
  show ?thesis using assms(1) unfolding PostComment answer_def Let_def endpoint.case route_defs success_schemas split_beta
    by (rule mount_fits [OF _ assms(2) safe_writes(4) [where uuid = uuid, OF assms(3,4,5)]]) (rule fits_rows(5), (simp add: sends_rows_def)?)
next
  case ListComments
  show ?thesis using assms(1) unfolding ListComments answer_def Let_def endpoint.case route_defs success_schemas split_beta
    by (rule mount_fits [OF _ assms(2) safe_reads(7)]) (rule fits_lists(4), (simp add: sends_rows_def)?)
qed

section \<open>Properties\<close>

text \<open>Requests and deliveries around which the database draws UUIDs and the clock reads a four-digit year.\<close>

definition typed_surroundings :: "(string \<Rightarrow> bool) \<Rightarrow> surroundings \<Rightarrow> bool" where
  "typed_surroundings uuid su \<longleftrightarrow> uuid (su_id su) \<and> uuid (su_id2 su) \<and> iso_datetime_ok (su_now su)"

inductive typed_step :: "(string \<Rightarrow> bool) \<Rightarrow> app \<Rightarrow> bank_state \<Rightarrow> bank_state \<Rightarrow> bool" for uuid ap where
  request: "typed_surroundings uuid su \<Longrightarrow> typed_step uuid ap s (snd (serve_bank ap su req s))"
| delivery: "job \<in> set (bs_added s) \<Longrightarrow> iso_datetime_ok now \<Longrightarrow>
     typed_step uuid ap s (snd (on_db (process_job now (job_transferId job)) s))"

inductive_cases typed_stepE: "typed_step uuid ap s t"

lemma typed_step_platform: "typed_step uuid ap s t \<Longrightarrow> platform_step ap s t"
  by (erule typed_stepE) (simp_all only: platform_step.intros)

lemma serve_bank_fine:
  assumes "typed_surroundings uuid su" "db_fine uuid (bs_db s)"
  shows "db_fine uuid (bs_db (snd (serve_bank ap su req s)))"
proof -
  have "db_fine uuid (bs_db (snd (answer (ap_zod ap) (ap_sha ap) su e req params s)))" for e params
    using answer_fits [of "ap_zod ap" "ap_sha ap" su e req params s] assms
    by (simp add: typed_surroundings_def) (metis prod.collapse)
  then show ?thesis using assms(2) by (simp add: serve_bank_def split: request_body.split sum.split option.split)
qed

lemma typed_step_fine:
  assumes "typed_step uuid ap s t" "bank_inv (bs_db s)" "db_fine uuid (bs_db s)"
  shows "db_fine uuid (bs_db t)"
  using assms(1)
proof cases
  case (request su req)
  then show ?thesis using serve_bank_fine assms(3) by simp
next
  case (delivery job now)
  then show ?thesis using safe_process assms(2,3) by (simp add: snd_on_db)
qed

lemma typed_run_fine:
  assumes "initial_state s0" "(typed_step uuid ap)\<^sup>*\<^sup>* s0 s"
  shows "state_ok s \<and> db_fine uuid (bs_db s)"
  using assms(2)
proof (induction rule: rtranclp_induct)
  case base
  then show ?case using bank.init_inv [OF assms(1)] assms(1) empty_fine by (simp add: initial_state_def)
next
  case (step t u)
  then have "bank_inv (bs_db t)" by (simp add: state_ok_def)
  then have "db_fine uuid (bs_db u)" using typed_step_fine step by blast
  moreover have "state_ok u"
    using platform_step_bank [OF typed_step_platform [OF step(2)]] step.IH bank.step_inv by blast
  ultimately show ?case by simp
qed

text \<open>
  C33: every reply has the type its route documents: whatever requests and deliveries came before, the body
  of a routed reply conforms to the schema documented for its status (from 400 up the error envelope), and
  the only member a schema does not list is the \<open>seq\<close> of rows that are sent whole.
\<close>

theorem bodies_as_documented:
  assumes "initial_state s0" "(typed_step uuid ap)\<^sup>*\<^sup>* s0 s" "typed_surroundings uuid su"
    and "find_route (ap_match ap) req bank_routes = Some (e, rt, params)"
    and "requireAuth (ap_verify ap) PUBLIC_PATH_PREFIXES (rq_path req) (header ''authorization'' req) = Inr u"
    and "rq_body req \<in> {NoBody, JsonBody v}"
    and "serve_bank ap su req s = (r, t)"
  shows "conforms uuid (documented_schema e (rp_status r)) (body_value counts (rp_body r)) \<and>
    set (undocumented (documented_schema e (rp_status r)) (body_value counts (rp_body r))) \<subseteq>
      (if sends_rows e \<and> rp_status r < 400 then {''seq''} else {})"
proof -
  have r: "answer (ap_zod ap) (ap_sha ap) su e req params s = (r, t)"
    using assms(4-) by (auto simp: serve_bank_def)
  have "(e, rt) \<in> set bank_routes" using find_route_mem [OF assms(4)] by simp
  from answer_reply [OF this r] have err: "is_error (rp_body r) \<longleftrightarrow> 400 \<le> rp_status r" by simp
  show ?thesis
  proof (cases "is_error (rp_body r)")
    case True
    then obtain b where "rp_body r = ErrorBody b" by (auto simp: is_error_def)
    then show ?thesis using True err
      by (simp add: documented_schema_def body_value_def error_conforms value_undocumented)
  next
    case False
    have "fits uuid counts e (success_schema e) (rp_body r)"
      using answer_fits [OF r] typed_run_fine [OF assms(1,2)] assms(3) False by (simp add: typed_surroundings_def)
    then show ?thesis using False err by (simp add: documented_schema_def fits_def)
  qed
qed

section \<open>Witness\<close>

definition one_customer :: bank_state where
  "one_customer = snd (serve_bank sample_app sample_surroundings post_request no_bank)"

definition sample_uuid :: "string \<Rightarrow> bool" where
  "sample_uuid s \<longleftrightarrow> s \<in> {''c1'', ''t1''}"

lemma one_customer_list:
  "serve_bank sample_app sample_surroundings list_request one_customer = (\<lparr>rp_status = 200,
     rp_body = CustomersBody [\<lparr>cu_id = ''c1'', cu_seq = 1, cu_name = ''Ada'', cu_createdAt = 5\<rparr>], rp_location = None\<rparr>, one_customer)"
  by code_simp

theorem bodies_as_documented_witness:
  "undocumented customerListResponse (VList [customer_value \<lparr>cu_id = ''c1'', cu_seq = 1, cu_name = ''Ada'', cu_createdAt = 5\<rparr>]) = [''seq''] \<and>
   conforms sample_uuid customerListResponse (VList [customer_value \<lparr>cu_id = ''c1'', cu_seq = 1, cu_name = ''Ada'', cu_createdAt = 5\<rparr>])"
proof -
  have su: "typed_surroundings sample_uuid sample_surroundings" by code_simp
  have run: "(typed_step sample_uuid sample_app)\<^sup>*\<^sup>* no_bank one_customer"
    unfolding one_customer_def by (rule r_into_rtranclp, rule typed_step.request, rule su)
  have "initial_state no_bank" by (simp add: initial_state_def no_bank_def)
  moreover have "rq_body list_request \<in> {NoBody, JsonBody JNull}" by (simp add: list_request_def)
  ultimately show ?thesis
    using bodies_as_documented [OF _ run su list_route list_admitted _ one_customer_list, of JNull "[]"]
    by (simp add: documented_schema_def success_schemas body_value_def customerListResponse_def value_undocumented)
qed

end
