(* ===== verification/Auth_Types.thy ===== *)
theory Auth_Types
  imports Auth_Api Response_Types
begin

text \<open>
  What the authentication service promises about its bodies: the response schemas of
  \<open>apps/auth-api/src/modules/auth/schemas.ts\<close>, the routes that document them, and the values the handlers send.
\<close>

section \<open>The response schemas\<close>

definition userResponse :: shape where
  "userResponse = Members [(''id'', Uuid), (''email'', Text), (''name'', Text), (''createdAt'', Instant)] []"

definition tokenResponse :: shape where
  "tokenResponse = Members [(''token'', Text), (''tokenType'', Literals [''Bearer'']), (''expiresIn'', Number)] []"

definition meResponse :: shape where
  "meResponse = Members [(''id'', Uuid), (''email'', Text), (''name'', Text)] []"

definition jwksResponse :: shape where
  "jwksResponse = Members [(''keys'', Items AnyRecord)] []"

definition authHealthResponse :: shape where
  "authHealthResponse = Members [(''status'', Literals [''ok''])] []"

definition authSchemas :: "(auth_endpoint \<times> shape) list" where
  "authSchemas = [(Register, userResponse), (Login, tokenResponse), (Me, meResponse), (Jwks, jwksResponse)]"

definition auth_schema :: "auth_endpoint \<Rightarrow> nat \<Rightarrow> shape" where
  "auth_schema e status = (if status \<ge> 400 then errorEnvelope
     else case map_of authSchemas e of None \<Rightarrow> authHealthResponse | Some sh \<Rightarrow> sh)"

lemmas auth_schema_defs = userResponse_def tokenResponse_def meResponse_def jwksResponse_def authHealthResponse_def

section \<open>The bodies\<close>

definition auth_value :: "auth_payload \<Rightarrow> js_value" where
  "auth_value b = (case b of
       AuthHealthBody \<Rightarrow> VRecord [(''status'', VText ''ok'')]
     | UserBody i email name createdAt \<Rightarrow> VRecord [(''id'', VText i), (''email'', VText email), (''name'', VText name),
         (''createdAt'', VDate createdAt)]
     | TokenBody token ttl \<Rightarrow> VRecord [(''token'', VText token), (''tokenType'', VText ''Bearer''), (''expiresIn'', VNumber ttl)]
     | MeBody i email name \<Rightarrow> VRecord [(''id'', VText i), (''email'', VText email), (''name'', VText name)]
     | JwksBody keys \<Rightarrow> VRecord [(''keys'', VList (map (\<lambda>jwk. VRecord (map (\<lambda>(k, v). (k, VText v)) jwk)) keys))]
     | AuthErrorBody e \<Rightarrow> error_value e)"

section \<open>What the service keeps and returns\<close>

definition user_fine :: "(string \<Rightarrow> bool) \<Rightarrow> user_row \<Rightarrow> bool" where
  "user_fine uuid u \<longleftrightarrow> uuid (us_id u) \<and> iso_datetime_ok (us_createdAt u)"

definition auth_moment_fine :: "(string \<Rightarrow> bool) \<Rightarrow> auth_surroundings \<Rightarrow> bool" where
  "auth_moment_fine uuid su \<longleftrightarrow> uuid (as_id su) \<and> iso_datetime_ok (as_nowMs su)"

definition auth_fits :: "(string \<Rightarrow> bool) \<Rightarrow> shape \<Rightarrow> auth_payload \<Rightarrow> bool" where
  "auth_fits uuid sh b \<longleftrightarrow> conforms uuid sh (auth_value b) \<and> undocumented sh (auth_value b) = []"

lemma user_safe:
  "uuid i \<Longrightarrow> iso_datetime_ok n \<Longrightarrow> safe (list_all (user_fine uuid)) (user_fine uuid) (register bc salt i n input)"
  "safe (list_all (user_fine uuid)) (user_fine uuid) (verifyCredentials bc e p)"
  "safe (list_all (user_fine uuid)) (user_fine uuid) (user_getById i)"
proof -
  show "safe (list_all (user_fine uuid)) (user_fine uuid) (register bc salt i n input)" if "uuid i" "iso_datetime_ok n"
    using that by (auto simp: safe_def register_cases user_fine_def Let_def split: if_splits)
  show "safe (list_all (user_fine uuid)) (user_fine uuid) (verifyCredentials bc e p)"
    by (auto simp: safe_def verifyCredentials_cases find_email_def list_all_iff dest!: find_eq_Some_set split: option.splits if_splits)
  show "safe (list_all (user_fine uuid)) (user_fine uuid) (user_getById i)"
    by (auto simp: safe_def user_getById_def list_all_iff dest!: find_eq_Some_set split: option.splits)
qed

lemma auth_fits_bodies:
  "auth_fits uuid authHealthResponse AuthHealthBody"
  "user_fine uuid u \<Longrightarrow> auth_fits uuid userResponse (UserBody (us_id u) (us_email u) (us_name u) (us_createdAt u))"
  "auth_fits uuid tokenResponse (TokenBody token ttl)"
  "user_fine uuid u \<Longrightarrow> auth_fits uuid meResponse (MeBody (us_id u) (us_email u) (us_name u))"
  "auth_fits uuid jwksResponse (JwksBody keys)"
  by (auto simp: auth_fits_def auth_value_def auth_schema_defs user_fine_def list_all_iff)

lemma handlers_safe:
  assumes "auth_moment_fine uuid su"
  shows "safe (list_all (user_fine uuid)) (\<lambda>r. auth_fits uuid userResponse (rp_body r)) (handle_register au su input)"
    "safe (list_all (user_fine uuid)) (\<lambda>r. auth_fits uuid tokenResponse (rp_body r)) (handle_login au su credentials)"
    "safe (list_all (user_fine uuid)) (\<lambda>r. auth_fits uuid meResponse (rp_body r)) (handle_me au su authorization)"
proof -
  show "safe (list_all (user_fine uuid)) (\<lambda>r. auth_fits uuid userResponse (rp_body r)) (handle_register au su input)"
    unfolding handle_register_def using assms
    by (intro safe_bind [OF user_safe(1)] safe_return) (auto simp: auth_moment_fine_def reply_ok_def auth_fits_bodies)
  show "safe (list_all (user_fine uuid)) (\<lambda>r. auth_fits uuid tokenResponse (rp_body r)) (handle_login au su credentials)"
    unfolding handle_login_def by (intro safe_bind [OF user_safe(2)] safe_return) (simp add: reply_ok_def auth_fits_bodies)
  show "safe (list_all (user_fine uuid)) (\<lambda>r. auth_fits uuid meResponse (rp_body r)) (handle_me au su authorization)"
    unfolding handle_me_def
    by (auto split: sum.split intro!: safe_throw safe_bind [OF user_safe(3)] safe_return simp: reply_ok_def auth_fits_bodies)
qed

lemma mount_auth_fits:
  assumes "mount AuthErrorBody p run users = (r, t)" "list_all (user_fine uuid) users"
    and "\<And>i. safe (list_all (user_fine uuid)) (\<lambda>r. auth_fits uuid sh (rp_body r)) (run i)"
  shows "list_all (user_fine uuid) t \<and> (auth_error (rp_body r) \<or> auth_fits uuid sh (rp_body r))"
proof (cases p)
  case (Inl issues)
  then show ?thesis using assms(1,2) by (auto simp: mount_def error_reply_def auth_error_def split: prod.splits)
next
  case (Inr i)
  obtain x u where x: "run i users = (x, u)" by fastforce
  from safeD [OF assms(3) assms(2) x] show ?thesis
    using assms(1) Inr x by (cases x) (auto simp: mount_def error_reply_def auth_error_def split: prod.splits)
qed

lemma answer_auth_fits:
  assumes "answer_auth au su e req users = (r, t)" "list_all (user_fine uuid) users" "auth_moment_fine uuid su"
  shows "list_all (user_fine uuid) t \<and> (auth_error (rp_body r) \<or> auth_fits uuid (auth_schema e 200) (rp_body r))"
proof -
  have schema: "auth_schema AuthHealth 200 = authHealthResponse" "auth_schema Register 200 = userResponse"
    "auth_schema Login 200 = tokenResponse" "auth_schema Me 200 = meResponse" "auth_schema Jwks 200 = jwksResponse"
    by (simp_all add: auth_schema_def authSchemas_def)
  note fit = mount_auth_fits [OF _ assms(2)] and safe = handlers_safe [OF assms(3)]
  show ?thesis
  proof (cases e)
    case AuthHealth
    show ?thesis using assms(1) unfolding AuthHealth answer_auth_def auth_endpoint.case schema
      by (rule fit) (rule safe_return, simp add: reply_ok_def auth_fits_bodies)
  next
    case Register
    show ?thesis using assms(1) unfolding Register answer_auth_def auth_endpoint.case schema by (rule fit) (rule safe(1))
  next
    case Login
    show ?thesis using assms(1) unfolding Login answer_auth_def auth_endpoint.case schema by (rule fit) (rule safe(2))
  next
    case Me
    show ?thesis using assms(1) unfolding Me answer_auth_def auth_endpoint.case schema by (rule fit) (rule safe(3))
  next
    case Jwks
    show ?thesis using assms(1) unfolding Jwks answer_auth_def auth_endpoint.case schema
      by (rule fit) (rule safe_return, simp add: reply_ok_def auth_fits_bodies)
  qed
qed

lemma serve_auth_fine:
  assumes "list_all (user_fine uuid) users" "auth_moment_fine uuid su"
  shows "list_all (user_fine uuid) (snd (serve_auth au su req users))"
proof -
  have "list_all (user_fine uuid) (snd (answer_auth au su e req users))" for e
    using answer_auth_fits [OF _ assms] by (metis prod.collapse)
  then show ?thesis using assms(1) by (simp add: serve_auth_def split: request_body.split option.split)
qed

lemma serve_all_fine:
  "list_all (user_fine uuid) users \<Longrightarrow> \<forall>x\<in>set xs. auth_moment_fine uuid (fst x) \<Longrightarrow> list_all (user_fine uuid) (serve_all au xs users)"
  by (induction xs arbitrary: users) (simp_all add: serve_all_def serve_auth_fine split_beta)

section \<open>Property\<close>

text \<open>
  C35: every reply of the authentication service has the type its route documents, and nothing beyond it: after any
  requests since the empty table, the body of a routed reply conforms to the schema documented for its status
  and has no other member, so that neither a password hash nor anything else of a row leaks.
\<close>

theorem auth_bodies_as_documented:
  assumes "\<forall>x\<in>set xs. auth_moment_fine uuid (fst x)" "auth_moment_fine uuid su"
    and "find_route (aa_match au) req auth_app_routes = Some (e, rt, params)" "rq_body req \<in> {NoBody, JsonBody v}"
    and "serve_auth au su req (serve_all au xs []) = (r, t)"
  shows "conforms uuid (auth_schema e (rp_status r)) (auth_value (rp_body r)) \<and>
    undocumented (auth_schema e (rp_status r)) (auth_value (rp_body r)) = []"
proof -
  have r: "answer_auth au su e req (serve_all au xs []) = (r, t)" using assms(3-5) by (auto simp: serve_auth_def)
  have err: "auth_error (rp_body r) \<longleftrightarrow> 400 \<le> rp_status r"
    using auth_replies_as_documented [OF assms(3,4), of su "serve_all au xs []"] assms(5) by simp
  show ?thesis
  proof (cases "auth_error (rp_body r)")
    case True
    then obtain b where "rp_body r = AuthErrorBody b" by (auto simp: auth_error_def)
    then show ?thesis using True err by (simp add: auth_schema_def auth_value_def error_conforms value_undocumented)
  next
    case False
    have "list_all (user_fine uuid) (serve_all au xs [])" using serve_all_fine assms(1) by simp
    from answer_auth_fits [OF r this assms(2)] False have "auth_fits uuid (auth_schema e 200) (rp_body r)" by simp
    moreover have "auth_schema e (rp_status r) = auth_schema e 200" using False err by (simp add: auth_schema_def)
    ultimately show ?thesis by (simp add: auth_fits_def)
  qed
qed

section \<open>Witness\<close>

theorem auth_bodies_as_documented_witness:
  "\<exists>r. serve_auth sample_auth_app auth_moment login_request (serve_all sample_auth_app [(auth_moment, register_request)] []) = (r, [jane_row]) \<and>
     conforms (\<lambda>s. s = ''u1'') (auth_schema Login (rp_status r)) (auth_value (rp_body r))"
proof -
  have su: "auth_moment_fine (\<lambda>s. s = ''u1'') auth_moment" by code_simp
  have "rq_body login_request \<in> {NoBody, JsonBody (JObj [(''email'', JStr ''JANE@bank.local''), (''password'', JStr ''super-secret-1'')])}"
    by (simp add: login_request_def auth_request_def)
  then show ?thesis
    using jane_logs_in auth_bodies_as_documented [of "[(auth_moment, register_request)]" "\<lambda>s. s = ''u1''" auth_moment, OF _ su auth_routes_found(2)] su
    by fastforce
qed

end
