(* ===== verification/Tooling.thy ===== *)
theory Tooling
  imports Js_Text
begin

text \<open>
  Around the services: the Kafka client and its log lines (\<open>packages/events/src/client.ts\<close>), which migrations a job
  runs (\<open>packages/db-kit/src/migrate.ts\<close>, \<open>packages/db-telemetry\<close>), and the servers the tests start (\<open>testing.ts\<close> of
  \<open>packages/events\<close>, \<open>db-kit\<close>, \<open>db\<close>, \<open>db-telemetry\<close> and \<open>queue\<close>). kafkajs, drizzle and testcontainers are
  external: the outcome of each call is an argument, the calls made are listed.
\<close>

section \<open>The Kafka client\<close>

text \<open>\<open>logLevel\<close> of kafkajs is a number: 0 nothing, 1 error, 2 warn, 4 info, 5 debug.\<close>

datatype pino_level = PinoError | PinoWarn | PinoInfo | PinoDebug

definition PINO_LEVEL_BY_KAFKA_LEVEL :: "(int, pino_level) jsmap" where
  "PINO_LEVEL_BY_KAFKA_LEVEL = [(0, PinoDebug), (1, PinoError), (2, PinoWarn), (4, PinoInfo), (5, PinoDebug)]"

record log_entry =
  le_level :: int
  le_namespace :: string
  le_log :: "(string, json) jsmap"

record pino_line =
  pl_level :: pino_level
  pl_kafka :: "(string, json) jsmap"
  pl_message :: "json option"

definition pinoLogCreator :: "log_entry \<Rightarrow> pino_line" where
  "pinoLogCreator entry =
     \<lparr>pl_level = (case map_of PINO_LEVEL_BY_KAFKA_LEVEL (le_level entry) of None \<Rightarrow> PinoInfo | Some l \<Rightarrow> l),
      pl_kafka = js_set_all (filter (\<lambda>e. fst e \<noteq> ''message'') (le_log entry)) [(''namespace'', JStr (le_namespace entry))],
      pl_message = map_of (le_log entry) ''message''\<rparr>"

record kafka_config =
  kc_clientId :: string
  kc_brokers :: "string list"
  kc_retries :: nat
  kc_initialRetryTime :: int
  kc_logLevel :: "int option"

text \<open>With a logger, kafkajs reports warnings and errors to it; without, as it does by default.\<close>

definition createKafka :: "string list \<Rightarrow> string \<Rightarrow> bool \<Rightarrow> kafka_config" where
  "createKafka brokers clientId logger = \<lparr>kc_clientId = clientId, kc_brokers = brokers, kc_retries = 8, kc_initialRetryTime = 300,
     kc_logLevel = (if logger then Some 2 else None)\<rparr>"

text \<open>What reaches pino: kafkajs drops entries above the configured level.\<close>

definition kafka_logs :: "kafka_config \<Rightarrow> log_entry list \<Rightarrow> pino_line list" where
  "kafka_logs config entries = (case kc_logLevel config of
       None \<Rightarrow> []
     | Some l \<Rightarrow> map pinoLogCreator (filter (\<lambda>e. le_level e \<le> l) entries))"

lemma kafka_logs_severe:
  "set (map le_level entries) \<subseteq> {1, 2, 4, 5} \<Longrightarrow>
     set (map pl_level (kafka_logs (createKafka brokers clientId True) entries)) \<subseteq> {PinoError, PinoWarn}"
  by (fastforce simp: kafka_logs_def createKafka_def pinoLogCreator_def PINO_LEVEL_BY_KAFKA_LEVEL_def split: if_splits)

section \<open>Migrations\<close>

datatype effect =
    OpenPool string nat
  | Migrations string
  | EndPool
  | StartContainer
  | StopContainer
  | Probe nat
  | Sleep nat

definition POOL_MAX_CONNECTIONS :: nat where
  "POOL_MAX_CONNECTIONS = 20"

definition createPool :: "string \<Rightarrow> effect" where
  "createPool databaseUrl = OpenPool databaseUrl POOL_MAX_CONNECTIONS"

definition resolveMigrationsFolder :: "(string \<Rightarrow> string option) \<Rightarrow> string \<Rightarrow> string \<Rightarrow> string" where
  "resolveMigrationsFolder env packageFolder overrideEnvVar =
     (case env overrideEnvVar of None \<Rightarrow> packageFolder | Some dir \<Rightarrow> dir)"

text \<open>\<open>fails\<close>: the error of the migrations in a folder, if any.\<close>

definition runMigrations :: "(string \<Rightarrow> string option) \<Rightarrow> string \<Rightarrow> (string + unit) \<times> effect list" where
  "runMigrations fails folder = (case fails folder of None \<Rightarrow> Inr () | Some err \<Rightarrow> Inl err, [Migrations folder])"

text \<open>A pool, the migrations, the end of the pool; a failure leaves the pool open.\<close>

definition migrate_database :: "(string \<Rightarrow> string option) \<Rightarrow> string \<Rightarrow> string \<Rightarrow> (string + unit) \<times> effect list" where
  "migrate_database fails folder databaseUrl = (case runMigrations fails folder of
       (Inl err, es) \<Rightarrow> (Inl err, createPool databaseUrl # es)
     | (Inr _, es) \<Rightarrow> (Inr (), createPool databaseUrl # es @ [EndPool]))"

definition migrate_telemetry :: "(string \<Rightarrow> string option) \<Rightarrow> string \<Rightarrow> (string \<Rightarrow> string option) \<Rightarrow> (string + unit) \<times> effect list" where
  "migrate_telemetry env packageFolder fails = (case env ''TELEMETRY_DATABASE_URL'' of
       None \<Rightarrow> (Inl ''TELEMETRY_DATABASE_URL is required (see packages/db-telemetry/.env.example)'', [])
     | Some url \<Rightarrow>
         if url = [] then (Inl ''TELEMETRY_DATABASE_URL is required (see packages/db-telemetry/.env.example)'', [])
         else migrate_database fails (resolveMigrationsFolder env packageFolder ''TELEMETRY_MIGRATIONS_DIR'') url)"

section \<open>Servers for tests\<close>

text \<open>\<open>ts_container\<close>: whether \<open>stop\<close> has a container to stop.\<close>

record test_server =
  ts_address :: "string list"
  ts_container :: bool

definition stop_server :: "test_server \<Rightarrow> effect list" where
  "stop_server s = (if ts_container s then [StopContainer] else [])"

text \<open>The address of the environment if it has one, of a new container otherwise.\<close>

definition reuse_or_start :: "string option \<Rightarrow> string + string \<Rightarrow> (string + string \<times> bool) \<times> effect list" where
  "reuse_or_start reuse container = (case reuse of
       Some url \<Rightarrow> if url \<noteq> [] then (Inr (url, False), [])
         else (case container of Inl err \<Rightarrow> Inl err | Inr u \<Rightarrow> Inr (u, True), [StartContainer])
     | None \<Rightarrow> (case container of Inl err \<Rightarrow> Inl err | Inr u \<Rightarrow> Inr (u, True), [StartContainer]))"

definition startPostgresForTests :: "string option \<Rightarrow> string + string \<Rightarrow> (string \<Rightarrow> (string + unit) \<times> effect list)
    \<Rightarrow> (string + test_server) \<times> effect list" where
  "startPostgresForTests reuse container applyMigrations = (case reuse_or_start reuse container of
       (Inl err, es) \<Rightarrow> (Inl err, es)
     | (Inr (url, started), es) \<Rightarrow> (case applyMigrations url of
           (Inl err, ms) \<Rightarrow> (Inl err, es @ ms)
         | (Inr _, ms) \<Rightarrow> (Inr \<lparr>ts_address = [url], ts_container = started\<rparr>, es @ ms)))"

definition startBankPostgresForTests :: "(string \<Rightarrow> string option) \<Rightarrow> string \<Rightarrow> string + string \<Rightarrow> (string \<Rightarrow> string option)
    \<Rightarrow> (string + test_server) \<times> effect list" where
  "startBankPostgresForTests env packageFolder container fails = startPostgresForTests (env ''TEST_DATABASE_URL'') container
     (migrate_database fails (resolveMigrationsFolder env packageFolder ''MIGRATIONS_DIR''))"

definition startTelemetryPostgresForTests :: "(string \<Rightarrow> string option) \<Rightarrow> string \<Rightarrow> string + string \<Rightarrow> (string \<Rightarrow> string option)
    \<Rightarrow> (string + test_server) \<times> effect list" where
  "startTelemetryPostgresForTests env packageFolder container fails =
     startPostgresForTests (env ''TEST_TELEMETRY_DATABASE_URL'') container
       (migrate_database fails (resolveMigrationsFolder env packageFolder ''TELEMETRY_MIGRATIONS_DIR''))"

definition startRedisForTests :: "(string \<Rightarrow> string option) \<Rightarrow> string + string \<Rightarrow> (string + test_server) \<times> effect list" where
  "startRedisForTests env container = (case reuse_or_start (env ''TEST_REDIS_URL'') container of
       (Inl err, es) \<Rightarrow> (Inl err, es)
     | (Inr (url, started), es) \<Rightarrow> (Inr \<lparr>ts_address = [url], ts_container = started\<rparr>, es))"

text \<open>A server that was reused is never stopped; one that was started is, unless its migrations failed.\<close>

lemma started_is_stopped:
  "startPostgresForTests reuse container migrate = (Inr s, es) \<Longrightarrow> (\<And>u. StartContainer \<notin> set (snd (migrate u))) \<Longrightarrow>
     (stop_server s = [StopContainer] \<longleftrightarrow> StartContainer \<in> set es)"
  by (auto simp: startPostgresForTests_def reuse_or_start_def stop_server_def split: sum.splits prod.splits option.splits if_splits)
    (metis snd_conv)+

section \<open>Waiting for a broker\<close>

text \<open>One attempt: \<open>connect\<close>, \<open>listTopics\<close>, \<open>disconnect\<close>; the first error counts.\<close>

definition try_broker :: "(nat \<Rightarrow> string option \<times> string option \<times> string option) \<Rightarrow> nat \<Rightarrow> string option" where
  "try_broker answers attempt = (case answers attempt of (connect, listTopics, disconnect) \<Rightarrow>
     (case connect of Some e \<Rightarrow> Some e | None \<Rightarrow> (case listTopics of Some e \<Rightarrow> Some e | None \<Rightarrow> disconnect)))"

function wait_from :: "(nat \<Rightarrow> string option) \<Rightarrow> nat \<Rightarrow> nat \<Rightarrow> (string + unit) \<times> effect list" where
  "wait_from attempt_error attempts attempt =
     (if attempt \<le> attempts then case attempt_error attempt of
          None \<Rightarrow> (Inr (), [Probe attempt])
        | Some err \<Rightarrow>
            if attempt = attempts then (Inl err, [Probe attempt])
            else (case wait_from attempt_error attempts (attempt + 1) of (r, es) \<Rightarrow> (r, Probe attempt # Sleep 1000 # es))
      else (Inr (), []))"
  by pat_completeness auto
termination
  by (relation "measure (\<lambda>(f, n, k). Suc n - k)") auto

declare wait_from.simps [simp del]

definition waitForBroker :: "(nat \<Rightarrow> string option \<times> string option \<times> string option) \<Rightarrow> nat \<Rightarrow> (string + unit) \<times> effect list" where
  "waitForBroker answers attempts = wait_from (try_broker answers) attempts 1"

lemma wait_from_result:
  "k \<le> n \<Longrightarrow> wait_from f n k =
     (case find (\<lambda>i. f i = None) [k..<Suc n] of
        Some i \<Rightarrow> (Inr (), concat (map (\<lambda>j. [Probe j, Sleep 1000]) [k..<i]) @ [Probe i])
      | None \<Rightarrow> (Inl (the (f n)), concat (map (\<lambda>j. [Probe j, Sleep 1000]) [k..<n]) @ [Probe n]))"
proof (induction f n k rule: wait_from.induct)
  case (1 f n k)
  have up: "[k..<Suc n] = k # [Suc k..<Suc n]" using 1(2) by (simp only: upt_rec [of k] le_imp_less_Suc if_True)
  show ?case
  proof (cases "f k")
    case None
    then show ?thesis using 1(2) by (simp add: wait_from.simps [of f n k] up del: upt_Suc)
  next
    case (Some e)
    show ?thesis
    proof (cases "k = n")
      case True
      then show ?thesis using Some by (simp add: wait_from.simps [of f n n])
    next
      case False
      then have lt: "k < n" using 1(2) by simp
      have more: "[k..<i] = k # [Suc k..<i]" if "k < i" for i using that by (simp add: upt_rec [of k])
      have after: "k < i" if "find (\<lambda>i. f i = None) [Suc k..<Suc n] = Some i" for i
        using that by (auto simp del: upt_Suc dest!: find_eq_Some_set)
      show ?thesis
        using 1(1) [OF 1(2) Some False] lt Some False up more [OF lt] more [OF after]
        by (auto simp: wait_from.simps [of f n k] simp del: upt_Suc split: option.splits)
    qed
  qed
qed

text \<open>
  It returns as soon as one attempt succeeds and throws the error of the last one when none does, with one
  second between attempts. It probes at least once unless \<open>attempts\<close> is 0, when it returns without looking.
\<close>

lemma waitForBroker_decides:
  "fst (waitForBroker answers attempts) = (if attempts = 0 \<or> (\<exists>i\<in>{1..attempts}. try_broker answers i = None) then Inr ()
     else Inl (the (try_broker answers attempts)))"
  "length (filter (\<lambda>e. e = Sleep 1000) (snd (waitForBroker answers attempts))) \<le> attempts - 1"
proof -
  have none: "find P xs = None \<longleftrightarrow> (\<forall>i\<in>set xs. \<not> P i)" for P and xs :: "nat list" by (auto simp: find_None_iff)
  have zero: "attempts = 0 \<Longrightarrow> waitForBroker answers attempts = (Inr (), [])" by (simp add: waitForBroker_def wait_from.simps)
  show "fst (waitForBroker answers attempts) = (if attempts = 0 \<or> (\<exists>i\<in>{1..attempts}. try_broker answers i = None) then Inr ()
      else Inl (the (try_broker answers attempts)))"
  proof (cases "attempts = 0")
    case False
    then show ?thesis
      using none [of "\<lambda>i. try_broker answers i = None" "[1..<Suc attempts]"]
      by (cases "find (\<lambda>i. try_broker answers i = None) [1..<Suc attempts]")
        (auto simp: waitForBroker_def wait_from_result simp del: upt_Suc dest!: find_eq_Some_set)
  qed (use zero in simp)
  have sleeps: "length (filter (\<lambda>e. e = Sleep 1000) (concat (map (\<lambda>j. [Probe j, Sleep 1000]) js))) = length js" for js
    by (induction js) simp_all
  show "length (filter (\<lambda>e. e = Sleep 1000) (snd (waitForBroker answers attempts))) \<le> attempts - 1"
  proof (cases "attempts = 0")
    case False
    then show ?thesis
      by (cases "find (\<lambda>i. try_broker answers i = None) [1..<Suc attempts]")
        (auto simp: waitForBroker_def wait_from_result sleeps simp del: upt_Suc dest!: find_eq_Some_set)
  qed (use zero in simp)
qed

definition startKafkaForTests :: "(string \<Rightarrow> string option) \<Rightarrow> string + nat \<Rightarrow> string option
    \<Rightarrow> (nat \<Rightarrow> string option \<times> string option \<times> string option) \<Rightarrow> (string + test_server) \<times> effect list" where
  "startKafkaForTests env hostPort containerError answers =
     (let wait = waitForBroker answers 30;
          ready = (\<lambda>brokers started. case fst wait of Inl err \<Rightarrow> Inl err | Inr _ \<Rightarrow> Inr \<lparr>ts_address = brokers, ts_container = started\<rparr>)
      in case env ''TEST_KAFKA_BROKERS'' of
           Some (c # cs) \<Rightarrow> (ready (map js_trim (split_comma (c # cs))) False, snd wait)
         | _ \<Rightarrow> (case hostPort of
               Inl err \<Rightarrow> (Inl err, [])
             | Inr port \<Rightarrow> (case containerError of
                   Some err \<Rightarrow> (Inl err, [StartContainer])
                 | None \<Rightarrow> (ready [''127.0.0.1:'' @ decimal port] True, StartContainer # snd wait))))"

section \<open>Topics for tests\<close>

datatype admin_call = AdminConnect | CreateTopics "(string \<times> nat) list" | AdminDisconnect

text \<open>Whatever creating them does, the admin client is disconnected; an error of that replaces the first.\<close>

definition createTestTopics :: "string option \<Rightarrow> string option \<Rightarrow> string option \<Rightarrow> string list \<Rightarrow> nat option
    \<Rightarrow> (string + unit) \<times> admin_call list" where
  "createTestTopics connectError createError disconnectError topics partitions =
     (case connectError of
        Some err \<Rightarrow> (Inl err, [AdminConnect])
      | None \<Rightarrow>
          (case disconnectError of Some err \<Rightarrow> Inl err | None \<Rightarrow> (case createError of Some err \<Rightarrow> Inl err | None \<Rightarrow> Inr ()),
           [AdminConnect, CreateTopics (map (\<lambda>topic. (topic, case partitions of None \<Rightarrow> 1 | Some n \<Rightarrow> n)) topics), AdminDisconnect]))"

lemma topics_disconnect:
  "fst (createTestTopics None create disconnect topics n) \<noteq> Inr () \<longleftrightarrow> create \<noteq> None \<or> disconnect \<noteq> None"
  "last (snd (createTestTopics None create disconnect topics n)) = AdminDisconnect"
  by (simp_all add: createTestTopics_def split: option.split)

end
