(* ===== verification/Spec2Isabelle.thy ===== *)
theory Spec2Isabelle
  imports Wire_Roundtrip Workers Row_Locks Job_Queue Seeds Docs Env Pipeline Registry_Race Submission_Race Processes Auth_Types Tooling
begin

text \<open>
  Verification of the internal banking platform: a banking API, an authentication API and a transfer
  executor over one PostgreSQL database and a Redis queue, and a vehicle telemetry pipeline (TCP ingest,
  Kafka, consumers) over another. All paths below are under \<open>src/\<close>.

  \<^bold>\<open>Foundations.\<close>
  \<^item> \<open>Prelude\<close>: the result monads (a sum for what may throw, \<open>op\<close> for what also changes a state),
    ordered association lists for JavaScript objects and maps, decimal text, stable sorting.
  \<^item> \<open>Js_Number\<close>, \<open>Js_Text\<close>: IEEE double rounding where the code depends on it, safe integers, strings,
    inherited property names, JSON.
  \<^item> \<open>Errors\<close>: \<open>packages/shared/src/errors.ts\<close>, \<open>middleware/error-handler.ts\<close>: everything a handler can throw
    and the status each throw becomes; \<open>money.ts\<close>.

  \<^bold>\<open>Banking.\<close>
  \<^item> \<open>Bank_Db\<close>: the tables of \<open>packages/db/src/schema\<close> with constraints, sequences and statements as
    operations on a record of tables; a statement that violates a constraint is a \<open>DbErr\<close>.
  \<^item> \<open>Ledger\<close>: the abstract contract: the balance a list of transfers gives an account and the invariant
    \<open>bank_inv\<close>.
  \<^item> \<open>Customers\<close>, \<open>Accounts\<close>, \<open>Locks\<close>, \<open>Transfers\<close>: the services of \<open>apps/app-apis/src/modules\<close>, one definition
    per method; \<open>Transfers\<close> holds the idempotent submission and the queue of \<open>packages/queue\<close>.
  \<^item> \<open>Executor\<close>: \<open>packages/shared/src/transfers/executor.ts\<close>, \<open>processor.ts\<close>, \<open>dto.ts\<close>.
  \<^item> \<open>Bank_System\<close>: the platform as a step relation over service commands, deliveries and crashes; the
    ledger invariant, conservation of money, the delivery contract (a functional refinement), final
    decisions, redelivery.
  \<^item> \<open>Workers\<close>: several executor processes interleaved at the granularity of their transactions: what
    holds when deliveries of one transfer do not overlap, and what fails when they do.
  \<^item> \<open>Row_Locks\<close>: PostgreSQL row locks and the order in which transactions take them; deadlock.
  \<^item> \<open>Job_Queue\<close>: the platform with its queue: job options and job ids of \<open>packages/queue/src/transfers.ts\<close>, attempts
    of the executor that run, fail or die; which pending transfers are decided, and which are stranded.
  \<^item> \<open>Submission_Race\<close>: transfer submissions interleaved at their statements; idempotency under concurrency.
  \<^item> \<open>Seeds\<close>: the migrate and seed job (\<open>packages/db/scripts/migrate.ts\<close>, \<open>packages/db/src/seed\<close>).

  \<^bold>\<open>HTTP and authentication.\<close>
  \<^item> \<open>Users\<close>: \<open>apps/auth-api/src/modules/auth/service.ts\<close> on the table of \<open>packages/db/src/schema/users.ts\<close>.
  \<^item> \<open>Tokens\<close>: signing keys and tokens (\<open>apps/auth-api/src/lib\<close>) and the guard of the banking API
    (\<open>apps/app-apis/src/middleware/auth.ts\<close>).
  \<^item> \<open>Http\<close>: requests, validation of fields, route tables and \<open>mountRoutes\<close> (\<open>packages/shared/src/route.ts\<close>,
    \<open>middleware/validate.ts\<close>), and a calculus for the statuses a handler can answer.
  \<^item> \<open>Bank_Api\<close>: schemas, route tables, handlers and middleware order of \<open>apps/app-apis\<close>; requests refine
    the commands of \<open>Bank_System\<close>. \<open>Auth_Api\<close>: the same of \<open>apps/auth-api\<close>, and the life of a token from
    login to the banking API.
  \<^item> \<open>Response_Types\<close>, \<open>Auth_Types\<close>: the response schemas (\<open>schemas.ts\<close>), the JSON each handler sends, and that the
    second conforms to the first in every reachable state.
  \<^item> \<open>Open_Api\<close>, \<open>Docs\<close>: merging OpenAPI documents (\<open>packages/shared/src/openapi/merge.ts\<close>), building one from
    the routes (\<open>registry.ts\<close>) and serving it (\<open>docs-router.ts\<close>). The merge copies components by reference
    and rewrites them later, so a copied component is modelled as a pointer into its document.

  \<^bold>\<open>Telemetry.\<close>
  \<^item> \<open>Crc\<close>, \<open>Cursor\<close>, \<open>Imei\<close>, \<open>Avl\<close>, \<open>Framer\<close>: the Teltonika parser of \<open>packages/teltonika/src\<close>; bytes are
    \<open>8 word\<close>, the checksum register \<open>16 word\<close>. \<open>Encoder\<close>: the frame encoder of \<open>testing.ts\<close>.
    \<open>Wire_Roundtrip\<close>: what is encoded is parsed back, frame by frame and over any split of the stream;
    damage is detected.
  \<^item> \<open>Normalize\<close>: \<open>normalize.ts\<close>, \<open>io-map.ts\<close>. \<open>Events\<close>: building, validating, publishing and consuming events
    (\<open>packages/events/src\<close>). \<open>Ingest\<close>: the connection handler of \<open>apps/telemetry-ingest/src/server.ts\<close>, run to
    completion. \<open>Ingest_Server\<close>: the whole server as a step system, one turn of the event loop a step.
  \<^item> \<open>Telemetry_Db\<close>, \<open>Reading_Tables\<close>: \<open>packages/db-telemetry\<close> and inserts that ignore known readings.
    \<open>Vehicles\<close>, \<open>Writers\<close>, \<open>Engine\<close>: the registry and the three writers of \<open>apps/telemetry-consumers\<close>.
    \<open>Alert_Rules\<close>, \<open>Alerting\<close>: the rules and the alerting consumer, refining an abstract edge trigger.
    \<open>Consumers\<close>: consumer set-up, the batch loop, offsets and commits.
  \<^item> \<open>Registry_Race\<close>: the vehicle registries of several processes, interleaved at their statements.
  \<^item> \<open>Pipeline\<close>: from the device's bytes to the vehicle's history, end to end.

  \<^bold>\<open>Processes.\<close>
  \<^item> \<open>Env\<close>: the five environments (\<open>env.ts\<close>) and what the processes make of them (\<open>main.ts\<close>).
  \<^item> \<open>Health\<close>: the health endpoints, the life of a consumer, signals and shutdown of the telemetry consumers.
  \<^item> \<open>Processes\<close>: start-up order, signals and shutdown of the other four processes (\<open>main.ts\<close>), as plans of
    stages run by one machine.
  \<^item> \<open>Tooling\<close>: the Kafka client's options and log lines, the migration jobs and the servers of the tests.

  \<^bold>\<open>Interfaces.\<close> Locales state what one part relies on and are interpreted on the model's definitions:
  \<open>step_system\<close> (a step relation that keeps an invariant; the bank, the interleaved workers, the platform with its
  queue, racing submissions, a consumed partition, the ingest server, racing registries), \<open>wire_format\<close> (a writer and the reader that undoes it; the integers, a whole record),
  \<open>stream_framer\<close> (events that do not depend on how the stream is cut; the Teltonika framer),
  \<open>reading_table\<close> and its extension \<open>reading_writer\<close> (inserts that ignore stored readings; positions,
  fuel, engine transitions).

  \<^bold>\<open>External code\<close> is a parameter. SHA-256 is a function; bcryptjs and jose are records of functions with
  \<open>bcrypt_law\<close> and \<open>jose_law\<close> (RFC 7515-7519 and the libraries' documentation), BullMQ one with \<open>bullmq_law\<close>,
  all with an instance;
  zod's string formats, Express' path patterns and \<open>express.json()\<close> are fields of the request or of the
  application. Kafka, Redis and PostgreSQL enter as the outcome of each call (up or down, the row found,
  the error code), ids and instants as arguments.

  \<^bold>\<open>Bounds and fuel.\<close> Every loop of the program is structural or has a measure. Only the client's walk over history
  pages (\<open>walk_history\<close>) takes fuel: \<open>history_paging_complete\<close> gives the number of pages that suffices.
  Amounts and identifiers are \<open>int\<close> with the column and safe-integer bounds explicit.

  \<^bold>\<open>Not modelled.\<close> CORS headers, the Swagger UI, request logging and metrics; the SQL of the migrations; the script
  that writes a development key and the device simulator's scenarios; connections that outlive their last request
  while an API drains; the double rounding of distances (they are real numbers); text outside Latin-1; objects with a
  property \<open>__proto__\<close>; what \<open>zod-openapi\<close> makes of a schema (an operation is its statuses and whether it is
  secured).
\<close>

end
